(* ===== verification/Prelude.thy ===== *)
theory Prelude
  imports Main "HOL-Library.Word" "HOL-Library.Monad_Syntax"
begin

text \<open>
  The prelude of the development: the machine types of the C code, the collections of
  simplification rules the component theories share, and the generic facts on options,
  lists and words that their proofs rest on.

  Conventions. A C pointer is an address (\<open>addr\<close>) and \<open>NULL\<close> is the address 0. A C
  function that can dereference an invalid pointer, index outside an array, or run into
  another undefined behaviour returns an \<open>option\<close>; \<open>None\<close> stands for the crash (and for
  \<open>rte_exit\<close>, which ends the process), never for an error return of the function, which is
  always an ordinary value.
\<close>

unbundle bit_operations_syntax

type_synonym u8 = "8 word"
type_synonym u16 = "16 word"
type_synonym u32 = "32 word"
type_synonym u64 = "64 word"
type_synonym addr = nat

abbreviation (input) NULL :: addr where
  "NULL \<equiv> 0"

named_theorems ptr_simps \<open>unfolding rules of pointer-level accessors\<close>
named_theorems heap_frame \<open>heap predicates are insensitive to updates elsewhere\<close>

section \<open>Options\<close>

lemma bind_eq_SomeI: "x = Some a \<Longrightarrow> f a = Some b \<Longrightarrow> x \<bind> f = Some b"
  by simp

lemma bind_if_distrib:
  "Option.bind (if b then x else y) f = (if b then Option.bind x f else Option.bind y f)"
  by simp

end
