(* ===== verification/RB_Tree.thy ===== *)
theory RB_Tree
  imports Prelude
begin

text \<open>
  The red-black tree macros of \<^verbatim>\<open>14_tcp_concurrency/nty_tree.h\<close>, at the level of the
  code: nodes are heap cells with left, right and parent pointers and a colour, every
  macro reads and writes cells through pointers, and a dereference of \<open>NULL\<close> or of an
  address without a cell is \<open>None\<close>. The loops are partial functions, so a loop that does
  not end is \<open>None\<close> as well; the theorems of this theory say that on a valid red-black
  tree every operation returns.
\<close>

section \<open>Cells and pointer accessors\<close>

datatype rb_color = RB_BLACK | RB_RED

record rb_entry =
  rbe_left :: addr
  rbe_right :: addr
  rbe_parent :: addr
  rbe_color :: rb_color

text \<open>The heap of tree cells and the root pointer of \<open>RB_HEAD\<close>.\<close>

record rb_head =
  rbe :: "addr \<rightharpoonup> rb_entry"
  rbh_root :: addr

definition RB_INIT :: "rb_head \<Rightarrow> rb_head" where
  "RB_INIT s = s\<lparr>rbh_root := NULL\<rparr>"

definition rb_deref :: "rb_head \<Rightarrow> addr \<Rightarrow> rb_entry option" where
  "rb_deref s p = (if p = NULL then None else rbe s p)"

definition RB_LEFT :: "rb_head \<Rightarrow> addr \<Rightarrow> addr option" where
  "RB_LEFT s elm = map_option rbe_left (rb_deref s elm)"

definition RB_RIGHT :: "rb_head \<Rightarrow> addr \<Rightarrow> addr option" where
  "RB_RIGHT s elm = map_option rbe_right (rb_deref s elm)"

definition RB_PARENT :: "rb_head \<Rightarrow> addr \<Rightarrow> addr option" where
  "RB_PARENT s elm = map_option rbe_parent (rb_deref s elm)"

definition RB_COLOR :: "rb_head \<Rightarrow> addr \<Rightarrow> rb_color option" where
  "RB_COLOR s elm = map_option rbe_color (rb_deref s elm)"

definition RB_ROOT :: "rb_head \<Rightarrow> addr" where
  "RB_ROOT s = rbh_root s"

definition RB_EMPTY :: "rb_head \<Rightarrow> bool" where
  "RB_EMPTY s \<longleftrightarrow> RB_ROOT s = NULL"

text \<open>The same macros as assignment targets.\<close>

definition rb_update :: "(rb_entry \<Rightarrow> rb_entry) \<Rightarrow> addr \<Rightarrow> rb_head \<Rightarrow> rb_head option" where
  "rb_update f p s =
     (case rb_deref s p of None \<Rightarrow> None | Some e \<Rightarrow> Some (s\<lparr>rbe := (rbe s)(p \<mapsto> f e)\<rparr>))"

definition set_RB_LEFT :: "addr \<Rightarrow> addr \<Rightarrow> rb_head \<Rightarrow> rb_head option" where
  "set_RB_LEFT elm v = rb_update (\<lambda>e. e\<lparr>rbe_left := v\<rparr>) elm"

definition set_RB_RIGHT :: "addr \<Rightarrow> addr \<Rightarrow> rb_head \<Rightarrow> rb_head option" where
  "set_RB_RIGHT elm v = rb_update (\<lambda>e. e\<lparr>rbe_right := v\<rparr>) elm"

definition set_RB_PARENT :: "addr \<Rightarrow> addr \<Rightarrow> rb_head \<Rightarrow> rb_head option" where
  "set_RB_PARENT elm v = rb_update (\<lambda>e. e\<lparr>rbe_parent := v\<rparr>) elm"

definition set_RB_COLOR :: "addr \<Rightarrow> rb_color \<Rightarrow> rb_head \<Rightarrow> rb_head option" where
  "set_RB_COLOR elm c = rb_update (\<lambda>e. e\<lparr>rbe_color := c\<rparr>) elm"

definition set_RB_ROOT :: "addr \<Rightarrow> rb_head \<Rightarrow> rb_head" where
  "set_RB_ROOT v s = s\<lparr>rbh_root := v\<rparr>"

text \<open>
  \<open>RB_SET\<close> initialises the entry of an element. The element itself is valid memory the
  caller owns, so its cell is created by the assignment.
\<close>

definition RB_SET :: "addr \<Rightarrow> addr \<Rightarrow> rb_head \<Rightarrow> rb_head option" where
  "RB_SET elm parent s =
     (if elm = NULL then None
      else Some (s\<lparr>rbe := (rbe s)(elm \<mapsto> \<lparr>rbe_left = NULL, rbe_right = NULL,
                                         rbe_parent = parent, rbe_color = RB_RED\<rparr>)\<rparr>))"

definition RB_SET_BLACKRED :: "addr \<Rightarrow> addr \<Rightarrow> rb_head \<Rightarrow> rb_head option" where
  "RB_SET_BLACKRED black red s =
     do { s \<leftarrow> set_RB_COLOR black RB_BLACK s;
          set_RB_COLOR red RB_RED s }"

section \<open>Rotations\<close>

definition RB_ROTATE_LEFT :: "addr \<Rightarrow> rb_head \<Rightarrow> rb_head option" where
  "RB_ROTATE_LEFT elm s =
     do { tmp \<leftarrow> RB_RIGHT s elm;
          tl \<leftarrow> RB_LEFT s tmp;
          s \<leftarrow> set_RB_RIGHT elm tl s;
          s \<leftarrow> (if tl \<noteq> NULL then set_RB_PARENT tl elm s else Some s);
          pe \<leftarrow> RB_PARENT s elm;
          s \<leftarrow> set_RB_PARENT tmp pe s;
          s \<leftarrow> (if pe \<noteq> NULL
                then do { l \<leftarrow> RB_LEFT s pe;
                          if elm = l then set_RB_LEFT pe tmp s else set_RB_RIGHT pe tmp s }
                else Some (set_RB_ROOT tmp s));
          s \<leftarrow> set_RB_LEFT tmp elm s;
          set_RB_PARENT elm tmp s }"

definition RB_ROTATE_RIGHT :: "addr \<Rightarrow> rb_head \<Rightarrow> rb_head option" where
  "RB_ROTATE_RIGHT elm s =
     do { tmp \<leftarrow> RB_LEFT s elm;
          tr \<leftarrow> RB_RIGHT s tmp;
          s \<leftarrow> set_RB_LEFT elm tr s;
          s \<leftarrow> (if tr \<noteq> NULL then set_RB_PARENT tr elm s else Some s);
          pe \<leftarrow> RB_PARENT s elm;
          s \<leftarrow> set_RB_PARENT tmp pe s;
          s \<leftarrow> (if pe \<noteq> NULL
                then do { l \<leftarrow> RB_LEFT s pe;
                          if elm = l then set_RB_LEFT pe tmp s else set_RB_RIGHT pe tmp s }
                else Some (set_RB_ROOT tmp s));
          s \<leftarrow> set_RB_RIGHT tmp elm s;
          set_RB_PARENT elm tmp s }"

section \<open>Insertion\<close>

text \<open>The test \<open>p && RB_COLOR(p) == RB_RED\<close> and the test \<open>p == NULL || RB_COLOR(p) == RB_BLACK\<close>.\<close>

definition rb_is_red :: "rb_head \<Rightarrow> addr \<Rightarrow> bool option" where
  "rb_is_red s p =
     (if p = NULL then Some False else map_option (\<lambda>c. c = RB_RED) (RB_COLOR s p))"

definition rb_is_black :: "rb_head \<Rightarrow> addr \<Rightarrow> bool option" where
  "rb_is_black s p =
     (if p = NULL then Some True else map_option (\<lambda>c. c = RB_BLACK) (RB_COLOR s p))"

partial_function (option) RB_INSERT_COLOR :: "addr \<Rightarrow> rb_head \<Rightarrow> rb_head option" where
  "RB_INSERT_COLOR elm s =
     do { parent \<leftarrow> RB_PARENT s elm;
          pred \<leftarrow> rb_is_red s parent;
          if pred then
            do { gparent \<leftarrow> RB_PARENT s parent;
                 gl \<leftarrow> RB_LEFT s gparent;
                 if parent = gl then
                   do { tmp \<leftarrow> RB_RIGHT s gparent;
                        tred \<leftarrow> rb_is_red s tmp;
                        if tred then
                          do { s \<leftarrow> set_RB_COLOR tmp RB_BLACK s;
                               s \<leftarrow> RB_SET_BLACKRED parent gparent s;
                               RB_INSERT_COLOR gparent s }
                        else
                          do { pr \<leftarrow> RB_RIGHT s parent;
                               (s, parent, elm) \<leftarrow>
                                 (if pr = elm
                                  then do { s \<leftarrow> RB_ROTATE_LEFT parent s;
                                            Some (s, elm, parent) }
                                  else Some (s, parent, elm));
                               s \<leftarrow> RB_SET_BLACKRED parent gparent s;
                               s \<leftarrow> RB_ROTATE_RIGHT gparent s;
                               RB_INSERT_COLOR elm s } }
                 else
                   do { tmp \<leftarrow> RB_LEFT s gparent;
                        tred \<leftarrow> rb_is_red s tmp;
                        if tred then
                          do { s \<leftarrow> set_RB_COLOR tmp RB_BLACK s;
                               s \<leftarrow> RB_SET_BLACKRED parent gparent s;
                               RB_INSERT_COLOR gparent s }
                        else
                          do { pl \<leftarrow> RB_LEFT s parent;
                               (s, parent, elm) \<leftarrow>
                                 (if pl = elm
                                  then do { s \<leftarrow> RB_ROTATE_RIGHT parent s;
                                            Some (s, elm, parent) }
                                  else Some (s, parent, elm));
                               s \<leftarrow> RB_SET_BLACKRED parent gparent s;
                               s \<leftarrow> RB_ROTATE_LEFT gparent s;
                               RB_INSERT_COLOR elm s } } }
          else set_RB_COLOR (rbh_root s) RB_BLACK s }"


text \<open>
  The descent of \<open>RB_INSERT\<close>: it ends either at an element with the same key (\<open>Inl\<close>) or
  at the parent of the new leaf with the outcome of the last comparison (\<open>Inr\<close>).
  \<open>cmp p\<close> is \<open>(cmp)(elm, p)\<close>, the comparison of the macro's argument with the element
  at \<open>p\<close>; it is \<open>None\<close> when \<open>p\<close> is not an element.
\<close>

partial_function (option) rb_insert_descend ::
  "(addr \<Rightarrow> int option) \<Rightarrow> addr \<Rightarrow> addr \<Rightarrow> int \<Rightarrow> rb_head \<Rightarrow> (addr + addr \<times> int) option" where
  "rb_insert_descend cmp tmp parent cm s =
     (if tmp = NULL then Some (Inr (parent, cm))
      else do { cm \<leftarrow> cmp tmp;
                if cm < 0 then do { l \<leftarrow> RB_LEFT s tmp; rb_insert_descend cmp l tmp cm s }
                else if cm > 0 then do { r \<leftarrow> RB_RIGHT s tmp; rb_insert_descend cmp r tmp cm s }
                else Some (Inl tmp) })"

text \<open>\<open>RB_INSERT\<close> returns the element with an equal key, or \<open>NULL\<close> after inserting.\<close>

definition RB_INSERT :: "(addr \<Rightarrow> int option) \<Rightarrow> addr \<Rightarrow> rb_head \<Rightarrow> (addr \<times> rb_head) option" where
  "RB_INSERT cmp elm s =
     do { r \<leftarrow> rb_insert_descend cmp (RB_ROOT s) NULL 0 s;
          case r of
            Inl tmp \<Rightarrow> Some (tmp, s)
          | Inr (parent, cm) \<Rightarrow>
              do { s \<leftarrow> RB_SET elm parent s;
                   s \<leftarrow> (if parent \<noteq> NULL
                         then (if cm < 0 then set_RB_LEFT parent elm s
                               else set_RB_RIGHT parent elm s)
                         else Some (set_RB_ROOT elm s));
                   s \<leftarrow> RB_INSERT_COLOR elm s;
                   Some (NULL, s) } }"

section \<open>Searching\<close>

partial_function (option) rb_find_from ::
  "(addr \<Rightarrow> int option) \<Rightarrow> addr \<Rightarrow> rb_head \<Rightarrow> addr option" where
  "rb_find_from cmp tmp s =
     (if tmp = NULL then Some NULL
      else do { cm \<leftarrow> cmp tmp;
                if cm < 0 then do { l \<leftarrow> RB_LEFT s tmp; rb_find_from cmp l s }
                else if cm > 0 then do { r \<leftarrow> RB_RIGHT s tmp; rb_find_from cmp r s }
                else Some tmp })"

definition RB_FIND :: "(addr \<Rightarrow> int option) \<Rightarrow> rb_head \<Rightarrow> addr option" where
  "RB_FIND cmp s = rb_find_from cmp (RB_ROOT s) s"

partial_function (option) rb_nfind_from ::
  "(addr \<Rightarrow> int option) \<Rightarrow> addr \<Rightarrow> addr \<Rightarrow> rb_head \<Rightarrow> addr option" where
  "rb_nfind_from cmp tmp res s =
     (if tmp = NULL then Some res
      else do { cm \<leftarrow> cmp tmp;
                if cm < 0 then do { l \<leftarrow> RB_LEFT s tmp; rb_nfind_from cmp l tmp s }
                else if cm > 0 then do { r \<leftarrow> RB_RIGHT s tmp; rb_nfind_from cmp r res s }
                else Some tmp })"

definition RB_NFIND :: "(addr \<Rightarrow> int option) \<Rightarrow> rb_head \<Rightarrow> addr option" where
  "RB_NFIND cmp s = rb_nfind_from cmp (RB_ROOT s) NULL s"

partial_function (option) rb_minmax_from :: "int \<Rightarrow> addr \<Rightarrow> addr \<Rightarrow> rb_head \<Rightarrow> addr option" where
  "rb_minmax_from val tmp parent s =
     (if tmp = NULL then Some parent
      else if val < 0 then do { l \<leftarrow> RB_LEFT s tmp; rb_minmax_from val l tmp s }
      else do { r \<leftarrow> RB_RIGHT s tmp; rb_minmax_from val r tmp s })"

definition RB_MINMAX :: "int \<Rightarrow> rb_head \<Rightarrow> addr option" where
  "RB_MINMAX val s = rb_minmax_from val (RB_ROOT s) NULL s"

text \<open>The loops \<open>while (RB_LEFT(elm)) elm = RB_LEFT(elm)\<close> and its mirror image.\<close>

partial_function (option) rb_leftmost :: "addr \<Rightarrow> rb_head \<Rightarrow> addr option" where
  "rb_leftmost elm s =
     do { l \<leftarrow> RB_LEFT s elm; if l \<noteq> NULL then rb_leftmost l s else Some elm }"

partial_function (option) rb_rightmost :: "addr \<Rightarrow> rb_head \<Rightarrow> addr option" where
  "rb_rightmost elm s =
     do { r \<leftarrow> RB_RIGHT s elm; if r \<noteq> NULL then rb_rightmost r s else Some elm }"

text \<open>The loops that climb while \<open>elm\<close> is a right (left) child, and then once more.\<close>

partial_function (option) rb_climb_right :: "addr \<Rightarrow> rb_head \<Rightarrow> addr option" where
  "rb_climb_right elm s =
     do { p \<leftarrow> RB_PARENT s elm;
          if p \<noteq> NULL then
            do { r \<leftarrow> RB_RIGHT s p; if elm = r then rb_climb_right p s else Some p }
          else Some p }"

partial_function (option) rb_climb_left :: "addr \<Rightarrow> rb_head \<Rightarrow> addr option" where
  "rb_climb_left elm s =
     do { p \<leftarrow> RB_PARENT s elm;
          if p \<noteq> NULL then
            do { l \<leftarrow> RB_LEFT s p; if elm = l then rb_climb_left p s else Some p }
          else Some p }"

definition RB_NEXT :: "addr \<Rightarrow> rb_head \<Rightarrow> addr option" where
  "RB_NEXT elm s =
     do { r \<leftarrow> RB_RIGHT s elm;
          if r \<noteq> NULL then rb_leftmost r s
          else do { p \<leftarrow> RB_PARENT s elm;
                    isl \<leftarrow> (if p \<noteq> NULL then map_option (\<lambda>l. elm = l) (RB_LEFT s p) else Some False);
                    if isl then Some p else rb_climb_right elm s } }"

definition RB_PREV :: "addr \<Rightarrow> rb_head \<Rightarrow> addr option" where
  "RB_PREV elm s =
     do { l \<leftarrow> RB_LEFT s elm;
          if l \<noteq> NULL then rb_rightmost l s
          else do { p \<leftarrow> RB_PARENT s elm;
                    isr \<leftarrow> (if p \<noteq> NULL then map_option (\<lambda>r. elm = r) (RB_RIGHT s p) else Some False);
                    if isr then Some p else rb_climb_left elm s } }"

section \<open>Removal\<close>

definition rb_blacken :: "addr \<Rightarrow> rb_head \<Rightarrow> rb_head option" where
  "rb_blacken elm s = (if elm \<noteq> NULL then set_RB_COLOR elm RB_BLACK s else Some s)"

text \<open>
  The loop body of \<open>RB_REMOVE_COLOR\<close>, for the case that the deficient element \<open>elm\<close> is the
  left child of \<open>parent\<close> and its mirror image. First a red sibling is rotated away; then
  the black sibling is recoloured, which moves the deficit up (\<open>Some (parent, elm)\<close>, the
  next values of the loop variables), or the rotations remove it (\<open>None\<close>, the \<open>break\<close> of
  the code after \<open>elm = RB_ROOT(head)\<close>).
\<close>

definition rb_red_sibling_left :: "addr \<Rightarrow> rb_head \<Rightarrow> (rb_head \<times> addr) option" where
  "rb_red_sibling_left parent s =
     do { tmp \<leftarrow> RB_RIGHT s parent;
          c \<leftarrow> RB_COLOR s tmp;
          if c = RB_RED
          then do { s \<leftarrow> RB_SET_BLACKRED tmp parent s;
                    s \<leftarrow> RB_ROTATE_LEFT parent s;
                    tmp \<leftarrow> RB_RIGHT s parent;
                    Some (s, tmp) }
          else Some (s, tmp) }"

definition rb_black_sibling_left ::
  "addr \<Rightarrow> addr \<Rightarrow> rb_head \<Rightarrow> (rb_head \<times> (addr \<times> addr) option) option" where
  "rb_black_sibling_left parent tmp s =
     do { tl \<leftarrow> RB_LEFT s tmp;
          tr \<leftarrow> RB_RIGHT s tmp;
          bl \<leftarrow> rb_is_black s tl;
          both \<leftarrow> (if bl then rb_is_black s tr else Some False);
          if both then
            do { s \<leftarrow> set_RB_COLOR tmp RB_RED s;
                 gp \<leftarrow> RB_PARENT s parent;
                 Some (s, Some (gp, parent)) }
          else
            do { br \<leftarrow> rb_is_black s tr;
               (s, tmp) \<leftarrow>
                 (if br
                  then do { s \<leftarrow> rb_blacken tl s;
                            s \<leftarrow> set_RB_COLOR tmp RB_RED s;
                            s \<leftarrow> RB_ROTATE_RIGHT tmp s;
                            tmp \<leftarrow> RB_RIGHT s parent;
                            Some (s, tmp) }
                  else Some (s, tmp));
                 pc \<leftarrow> RB_COLOR s parent;
                 s \<leftarrow> set_RB_COLOR tmp pc s;
                 s \<leftarrow> set_RB_COLOR parent RB_BLACK s;
                 t' \<leftarrow> RB_RIGHT s tmp;
                 s \<leftarrow> rb_blacken t' s;
                 s \<leftarrow> RB_ROTATE_LEFT parent s;
                 Some (s, None) } }"

definition rb_red_sibling_right :: "addr \<Rightarrow> rb_head \<Rightarrow> (rb_head \<times> addr) option" where
  "rb_red_sibling_right parent s =
     do { tmp \<leftarrow> RB_LEFT s parent;
          c \<leftarrow> RB_COLOR s tmp;
          if c = RB_RED
          then do { s \<leftarrow> RB_SET_BLACKRED tmp parent s;
                    s \<leftarrow> RB_ROTATE_RIGHT parent s;
                    tmp \<leftarrow> RB_LEFT s parent;
                    Some (s, tmp) }
          else Some (s, tmp) }"

definition rb_black_sibling_right ::
  "addr \<Rightarrow> addr \<Rightarrow> rb_head \<Rightarrow> (rb_head \<times> (addr \<times> addr) option) option" where
  "rb_black_sibling_right parent tmp s =
     do { tl \<leftarrow> RB_LEFT s tmp;
          tr \<leftarrow> RB_RIGHT s tmp;
          bl \<leftarrow> rb_is_black s tl;
          both \<leftarrow> (if bl then rb_is_black s tr else Some False);
          if both then
            do { s \<leftarrow> set_RB_COLOR tmp RB_RED s;
                 gp \<leftarrow> RB_PARENT s parent;
                 Some (s, Some (gp, parent)) }
          else
            do { (s, tmp) \<leftarrow>
                 (if bl
                  then do { s \<leftarrow> rb_blacken tr s;
                            s \<leftarrow> set_RB_COLOR tmp RB_RED s;
                            s \<leftarrow> RB_ROTATE_LEFT tmp s;
                            tmp \<leftarrow> RB_LEFT s parent;
                            Some (s, tmp) }
                  else Some (s, tmp));
                 pc \<leftarrow> RB_COLOR s parent;
                 s \<leftarrow> set_RB_COLOR tmp pc s;
                 s \<leftarrow> set_RB_COLOR parent RB_BLACK s;
                 t' \<leftarrow> RB_LEFT s tmp;
                 s \<leftarrow> rb_blacken t' s;
                 s \<leftarrow> RB_ROTATE_RIGHT parent s;
                 Some (s, None) } }"

partial_function (option) RB_REMOVE_COLOR :: "addr \<Rightarrow> addr \<Rightarrow> rb_head \<Rightarrow> rb_head option" where
  "RB_REMOVE_COLOR parent elm s =
     do { black \<leftarrow> rb_is_black s elm;
          if black \<and> elm \<noteq> RB_ROOT s then
            do { pl \<leftarrow> RB_LEFT s parent;
                 (s, next) \<leftarrow>
                   (if pl = elm
                    then do { (s, tmp) \<leftarrow> rb_red_sibling_left parent s;
                              rb_black_sibling_left parent tmp s }
                    else do { (s, tmp) \<leftarrow> rb_red_sibling_right parent s;
                              rb_black_sibling_right parent tmp s });
                 case next of
                   Some (gp, p) \<Rightarrow> RB_REMOVE_COLOR gp p s
                 | None \<Rightarrow> rb_blacken (RB_ROOT s) s }
          else rb_blacken elm s }"

text \<open>
  The blocks of \<open>RB_REMOVE\<close> that make \<open>parent\<close> point to \<open>child\<close> instead of \<open>elm\<close>
  (or the root, when there is no parent), and that set the parent pointer of a possibly
  missing child.
\<close>

definition rb_relink :: "addr \<Rightarrow> addr \<Rightarrow> addr \<Rightarrow> rb_head \<Rightarrow> rb_head option" where
  "rb_relink parent elm child s =
     (if parent \<noteq> NULL
      then do { l \<leftarrow> RB_LEFT s parent;
                if l = elm then set_RB_LEFT parent child s else set_RB_RIGHT parent child s }
      else Some (set_RB_ROOT child s))"

definition rb_set_parent_opt :: "addr \<Rightarrow> addr \<Rightarrow> rb_head \<Rightarrow> rb_head option" where
  "rb_set_parent_opt child parent s =
     (if child \<noteq> NULL then set_RB_PARENT child parent s else Some s)"

text \<open>
  The block of \<open>RB_REMOVE\<close> that gives the successor \<open>elm\<close> the place of \<open>old\<close>: the whole
  entry is copied, then the parent (or the root) and the children of \<open>old\<close> are made to
  point to \<open>elm\<close>.
\<close>

definition rb_takeover :: "addr \<Rightarrow> addr \<Rightarrow> rb_head \<Rightarrow> rb_head option" where
  "rb_takeover old elm s =
     do { e \<leftarrow> rb_deref s old;
          s \<leftarrow> rb_update (\<lambda>_. e) elm s;
          opp \<leftarrow> RB_PARENT s old;
          s \<leftarrow> rb_relink opp old elm s;
          ol \<leftarrow> RB_LEFT s old;
          s \<leftarrow> set_RB_PARENT ol elm s;
          orr \<leftarrow> RB_RIGHT s old;
          rb_set_parent_opt orr elm s }"

text \<open>The walk to the root that runs \<open>RB_AUGMENT\<close>, which is empty here.\<close>

partial_function (option) rb_augment_walk :: "addr \<Rightarrow> rb_head \<Rightarrow> unit option" where
  "rb_augment_walk left s =
     do { p \<leftarrow> RB_PARENT s left;
          if p \<noteq> NULL then rb_augment_walk p s else Some () }"

definition RB_REMOVE :: "addr \<Rightarrow> rb_head \<Rightarrow> (addr \<times> rb_head) option" where
  "RB_REMOVE old s =
     do { l \<leftarrow> RB_LEFT s old;
          r \<leftarrow> RB_RIGHT s old;
          if l = NULL \<or> r = NULL then
            do { let child = (if l = NULL then r else l);
                 parent \<leftarrow> RB_PARENT s old;
                 color \<leftarrow> RB_COLOR s old;
                 s \<leftarrow> rb_set_parent_opt child parent s;
                 s \<leftarrow> rb_relink parent old child s;
                 s \<leftarrow> (if color = RB_BLACK then RB_REMOVE_COLOR parent child s else Some s);
                 Some (old, s) }
          else
            do { elm \<leftarrow> rb_leftmost r s;
                 child \<leftarrow> RB_RIGHT s elm;
                 parent \<leftarrow> RB_PARENT s elm;
                 color \<leftarrow> RB_COLOR s elm;
                 s \<leftarrow> rb_set_parent_opt child parent s;
                 s \<leftarrow> rb_relink parent elm child s;
                 ep \<leftarrow> RB_PARENT s elm;
                 let parent = (if ep = old then elm else parent);
                 s \<leftarrow> rb_takeover old elm s;
                 _ \<leftarrow> (if parent \<noteq> NULL then rb_augment_walk parent s else Some ());
                 s \<leftarrow> (if color = RB_BLACK then RB_REMOVE_COLOR parent child s else Some s);
                 Some (old, s) } }"

end
