(* ===== verification/RB_Rep.thy ===== *)
theory RB_Rep
  imports RB_Tree
begin

text \<open>
  The abstraction of the pointer heap of \<open>RB_Tree\<close>: a heap represents a tree whose
  nodes are labelled with addresses, at a position given by a context (the path from the
  position to the root, with the subtrees that hang off it). The lemmas say what the
  accessors read at such a position and how colouring and the two rotations act on it.
\<close>

section \<open>Trees of addresses and contexts\<close>

datatype rbtree = Lf | Nd rb_color rbtree addr rbtree

datatype frame = LF rb_color addr rbtree | RF rb_color rbtree addr

fun rt :: "rbtree \<Rightarrow> addr" where
  "rt Lf = NULL"
| "rt (Nd c l x r) = x"

fun col :: "rbtree \<Rightarrow> rb_color" where
  "col Lf = RB_BLACK"
| "col (Nd c l x r) = c"

fun nodes :: "rbtree \<Rightarrow> addr list" where
  "nodes Lf = []"
| "nodes (Nd c l x r) = nodes l @ x # nodes r"

fun ctx_par :: "frame list \<Rightarrow> addr" where
  "ctx_par [] = NULL"
| "ctx_par (LF c x r # k) = x"
| "ctx_par (RF c l x # k) = x"

fun ctx_nodes :: "frame list \<Rightarrow> addr list" where
  "ctx_nodes [] = []"
| "ctx_nodes (LF c x r # k) = x # nodes r @ ctx_nodes k"
| "ctx_nodes (RF c l x # k) = nodes l @ x # ctx_nodes k"

fun fill :: "frame list \<Rightarrow> rbtree \<Rightarrow> rbtree" where
  "fill [] t = t"
| "fill (LF c x r # k) t = fill k (Nd c t x r)"
| "fill (RF c l x # k) t = fill k (Nd c l x t)"

section \<open>Representation\<close>

fun tree_at :: "(addr \<rightharpoonup> rb_entry) \<Rightarrow> addr \<Rightarrow> rbtree \<Rightarrow> bool" where
  "tree_at h par Lf \<longleftrightarrow> True"
| "tree_at h par (Nd c l x r) \<longleftrightarrow>
     x \<noteq> NULL \<and>
     h x = Some \<lparr>rbe_left = rt l, rbe_right = rt r, rbe_parent = par, rbe_color = c\<rparr> \<and>
     tree_at h x l \<and> tree_at h x r"

fun ctx_at :: "(addr \<rightharpoonup> rb_entry) \<Rightarrow> addr \<Rightarrow> addr \<Rightarrow> frame list \<Rightarrow> bool" where
  "ctx_at h root ch [] \<longleftrightarrow> root = ch"
| "ctx_at h root ch (LF c x r # k) \<longleftrightarrow>
     x \<noteq> NULL \<and>
     h x = Some \<lparr>rbe_left = ch, rbe_right = rt r, rbe_parent = ctx_par k, rbe_color = c\<rparr> \<and>
     tree_at h x r \<and> ctx_at h root x k"
| "ctx_at h root ch (RF c l x # k) \<longleftrightarrow>
     x \<noteq> NULL \<and>
     h x = Some \<lparr>rbe_left = rt l, rbe_right = ch, rbe_parent = ctx_par k, rbe_color = c\<rparr> \<and>
     tree_at h x l \<and> ctx_at h root x k"

definition rep :: "rb_head \<Rightarrow> rbtree \<Rightarrow> frame list \<Rightarrow> bool" where
  "rep s t k \<longleftrightarrow>
     tree_at (rbe s) (ctx_par k) t \<and> ctx_at (rbe s) (rbh_root s) (rt t) k \<and>
     distinct (nodes t @ ctx_nodes k)"

text \<open>Moving the position: a node with its subtrees is a subtree with one more frame.\<close>

lemma rep_left: "rep s (Nd c l x r) k \<longleftrightarrow> rep s l (LF c x r # k)"
  by (auto simp: rep_def)

lemma rep_right: "rep s (Nd c l x r) k \<longleftrightarrow> rep s r (RF c l x # k)"
  by (auto simp: rep_def)

lemma rep_fill: "rep s t k \<longleftrightarrow> rep s (fill k t) []"
  by (induction k t rule: fill.induct) (simp_all add: rep_left [symmetric] rep_right [symmetric])

text \<open>Addresses of a represented tree are not \<open>NULL\<close>.\<close>

lemma tree_at_nonnull: "tree_at h par t \<Longrightarrow> NULL \<notin> set (nodes t)"
  by (induction t arbitrary: par) auto

lemma ctx_at_nonnull: "ctx_at h root ch k \<Longrightarrow> NULL \<notin> set (ctx_nodes k)"
  by (induction k arbitrary: ch rule: ctx_nodes.induct) (auto dest: tree_at_nonnull)

lemma rt_in_nodes_iff [simp]: "rt t \<in> set (nodes t) \<longleftrightarrow> t \<noteq> Lf"
  by (cases t) auto

lemma rt_NULL_iff: "tree_at h par t \<Longrightarrow> rt t = NULL \<longleftrightarrow> t = Lf"
  by (cases t) auto

lemma ctx_par_in: "k \<noteq> [] \<Longrightarrow> ctx_par k \<in> set (ctx_nodes k)"
  by (cases k rule: ctx_par.cases) auto

lemma ctx_par_NULL_iff: "ctx_at h root ch k \<Longrightarrow> ctx_par k = NULL \<longleftrightarrow> k = []"
  by (cases k rule: ctx_par.cases) auto

text \<open>Writing a cell elsewhere does not change what is represented.\<close>

lemma tree_at_upd [heap_frame]:
  "p \<notin> set (nodes t) \<Longrightarrow> tree_at (h(p := e)) par t = tree_at h par t"
  by (induction t arbitrary: par) auto

lemma ctx_at_upd [heap_frame]:
  "p \<notin> set (ctx_nodes k) \<Longrightarrow> ctx_at (h(p := e)) root ch k = ctx_at h root ch k"
  by (induction k arbitrary: ch rule: ctx_nodes.induct) (auto simp: heap_frame)

section \<open>What the accessors read\<close>

lemmas rb_access [ptr_simps] =
  rb_deref_def RB_LEFT_def RB_RIGHT_def RB_PARENT_def RB_COLOR_def

lemmas rb_assign [ptr_simps] =
  rb_update_def set_RB_LEFT_def set_RB_RIGHT_def set_RB_PARENT_def set_RB_COLOR_def
  set_RB_ROOT_def

lemma rep_reads:
  assumes "rep s (Nd c l x r) k"
  shows "x \<noteq> NULL" "RB_LEFT s x = Some (rt l)" "RB_RIGHT s x = Some (rt r)"
    "RB_PARENT s x = Some (ctx_par k)" "RB_COLOR s x = Some c"
  using assms by (auto simp: rep_def ptr_simps)

lemma rep_nonnull: "rep s t k \<Longrightarrow> NULL \<notin> set (nodes t @ ctx_nodes k)"
  by (auto simp: rep_def dest: tree_at_nonnull ctx_at_nonnull)

lemma rep_is_red: "rep s t k \<Longrightarrow> rb_is_red s (rt t) = Some (col t = RB_RED)"
  by (cases t) (auto simp: rep_reads rb_is_red_def rep_def ptr_simps)

lemma rep_is_black: "rep s t k \<Longrightarrow> rb_is_black s (rt t) = Some (col t = RB_BLACK)"
  by (cases t) (auto simp: rep_reads rb_is_black_def rep_def ptr_simps)

lemma rep_root: "rep s t [] \<Longrightarrow> RB_ROOT s = rt t"
  by (simp add: rep_def RB_ROOT_def)

text \<open>Updating the cell of the node at the position.\<close>

lemma rep_set_color:
  assumes "rep s (Nd c l x r) k"
  shows "\<exists>s'. set_RB_COLOR x c' s = Some s' \<and> rep s' (Nd c' l x r) k"
  using assms by (auto simp: rep_def ptr_simps heap_frame)

text \<open>The rotations act on the position as on trees and keep the context.\<close>

lemma rep_rotate_left:
  assumes "rep s (Nd c a x (Nd c2 b y d)) k"
  shows "\<exists>s'. RB_ROTATE_LEFT x s = Some s' \<and> rep s' (Nd c2 (Nd c a x b) y d) k"
  using assms rep_nonnull [OF assms]
  by (cases b; cases k rule: ctx_par.cases)
    (auto simp: rep_def RB_ROTATE_LEFT_def ptr_simps heap_frame bind_if_distrib)

lemma rep_rotate_right:
  assumes "rep s (Nd c (Nd c2 a y b) x d) k"
  shows "\<exists>s'. RB_ROTATE_RIGHT x s = Some s' \<and> rep s' (Nd c2 a y (Nd c b x d)) k"
  using assms rep_nonnull [OF assms]
  by (cases b; cases k rule: ctx_par.cases)
    (auto simp: rep_def RB_ROTATE_RIGHT_def ptr_simps heap_frame bind_if_distrib)

end
