(* ===== verification/RB_Insert.thy ===== *)
theory RB_Insert
  imports RB_Rep
begin

text \<open>
  Invariants of red-black trees on the abstraction of \<open>RB_Rep\<close>, and total correctness of
  the descent, of \<open>RB_INSERT_COLOR\<close> and of \<open>RB_INSERT\<close>.
\<close>

section \<open>Colour and height invariants\<close>

fun bheight :: "rbtree \<Rightarrow> nat" where
  "bheight Lf = 0"
| "bheight (Nd c l x r) = bheight l + (if c = RB_BLACK then 1 else 0)"

fun inv_col :: "rbtree \<Rightarrow> bool" where
  "inv_col Lf \<longleftrightarrow> True"
| "inv_col (Nd c l x r) \<longleftrightarrow>
     (c = RB_RED \<longrightarrow> col l = RB_BLACK \<and> col r = RB_BLACK) \<and> inv_col l \<and> inv_col r"

fun inv_height :: "rbtree \<Rightarrow> bool" where
  "inv_height Lf \<longleftrightarrow> True"
| "inv_height (Nd c l x r) \<longleftrightarrow> bheight l = bheight r \<and> inv_height l \<and> inv_height r"

definition rb_inv :: "rbtree \<Rightarrow> bool" where
  "rb_inv t \<longleftrightarrow> inv_col t \<and> inv_height t \<and> col t = RB_BLACK"

text \<open>
  The same invariants of a context whose hole has black height \<open>n\<close>. A red frame has a
  black parent, so the root is black.
\<close>

fun ctx_col :: "frame list \<Rightarrow> rb_color" where
  "ctx_col [] = RB_BLACK"
| "ctx_col (LF c x r # k) = c"
| "ctx_col (RF c l x # k) = c"

fun ctx_inv_col :: "frame list \<Rightarrow> bool" where
  "ctx_inv_col [] \<longleftrightarrow> True"
| "ctx_inv_col (LF c x r # k) \<longleftrightarrow>
     (c = RB_RED \<longrightarrow> col r = RB_BLACK \<and> k \<noteq> [] \<and> ctx_col k = RB_BLACK) \<and>
     inv_col r \<and> ctx_inv_col k"
| "ctx_inv_col (RF c l x # k) \<longleftrightarrow>
     (c = RB_RED \<longrightarrow> col l = RB_BLACK \<and> k \<noteq> [] \<and> ctx_col k = RB_BLACK) \<and>
     inv_col l \<and> ctx_inv_col k"

fun ctx_inv_height :: "nat \<Rightarrow> frame list \<Rightarrow> bool" where
  "ctx_inv_height n [] \<longleftrightarrow> True"
| "ctx_inv_height n (LF c x r # k) \<longleftrightarrow>
     bheight r = n \<and> inv_height r \<and> ctx_inv_height (n + (if c = RB_BLACK then 1 else 0)) k"
| "ctx_inv_height n (RF c l x # k) \<longleftrightarrow>
     bheight l = n \<and> inv_height l \<and> ctx_inv_height (n + (if c = RB_BLACK then 1 else 0)) k"

lemma not_black_iff [simp]: "c \<noteq> RB_BLACK \<longleftrightarrow> c = RB_RED" "c \<noteq> RB_RED \<longleftrightarrow> c = RB_BLACK"
  by (cases c; simp)+

text \<open>A tree that satisfies the invariants at its position in the whole tree.\<close>

definition pos_inv :: "rbtree \<Rightarrow> frame list \<Rightarrow> bool" where
  "pos_inv t k \<longleftrightarrow>
     inv_col t \<and> inv_height t \<and> ctx_inv_col k \<and> ctx_inv_height (bheight t) k \<and>
     (col t = RB_RED \<longrightarrow> k \<noteq> [] \<and> ctx_col k = RB_BLACK)"

lemma pos_inv_left: "pos_inv (Nd c l x r) k \<longleftrightarrow> pos_inv l (LF c x r # k)"
  by (cases c) (auto simp: pos_inv_def)

lemma pos_inv_right: "pos_inv (Nd c l x r) k \<longleftrightarrow> pos_inv r (RF c l x # k)"
  by (cases c) (auto simp: pos_inv_def)

lemma pos_inv_root: "pos_inv t [] \<longleftrightarrow> rb_inv t"
  by (auto simp: pos_inv_def rb_inv_def)

lemma pos_inv_fill: "pos_inv t k \<longleftrightarrow> rb_inv (fill k t)"
  by (induction k t rule: fill.induct)
    (simp_all add: pos_inv_root pos_inv_left [symmetric] pos_inv_right [symmetric])

lemma nodes_fill_cong: "nodes t = nodes t' \<Longrightarrow> nodes (fill k t) = nodes (fill k t')"
  by (induction k arbitrary: t t' rule: ctx_nodes.induct) auto

lemma fill_eq_Lf [simp]: "fill k t = Lf \<longleftrightarrow> k = [] \<and> t = Lf"
  by (induction k t rule: fill.induct) auto

text \<open>What the fix-up of an insertion achieves, for any starting position.\<close>

definition recolored :: "rb_head option \<Rightarrow> rbtree \<Rightarrow> bool" where
  "recolored res t \<longleftrightarrow>
     (\<exists>s' t'. res = Some s' \<and> rep s' t' [] \<and> nodes t' = nodes t \<and> rb_inv t')"

lemma recolored_cong: "nodes t = nodes t' \<Longrightarrow> recolored res t = recolored res t'"
  by (simp add: recolored_def)

text \<open>The loop of \<open>RB_INSERT_COLOR\<close> ends at a position without a red parent.\<close>

lemma blacken_root:
  assumes "rep s t []" and "inv_col t" and "inv_height t" and "t \<noteq> Lf"
  shows "recolored (set_RB_COLOR (rbh_root s) RB_BLACK s) t"
proof -
  obtain c l x r where t: "t = Nd c l x r" using \<open>t \<noteq> Lf\<close> by (cases t) auto
  have "rbh_root s = x" using assms(1) t by (simp add: rep_def)
  moreover obtain s' where "set_RB_COLOR x RB_BLACK s = Some s'" "rep s' (Nd RB_BLACK l x r) []"
    using rep_set_color assms(1) t by blast
  ultimately show ?thesis
    using assms t by (auto simp: recolored_def rb_inv_def intro!: exI [of _ "Nd RB_BLACK l x r"])
qed

lemma insert_color_exit:
  assumes rep: "rep s t k" and inv: "pos_inv t k" and t: "t = Nd c l x r"
    and blk: "ctx_col k = RB_BLACK"
  shows "recolored (RB_INSERT_COLOR x s) (fill k t)"
proof -
  have "rb_is_red s (ctx_par k) = Some False"
    using rep blk
    by (cases k rule: ctx_par.cases)
      (auto simp: rb_is_red_def rep_left [symmetric] rep_right [symmetric] rep_reads(5))
  then have "RB_INSERT_COLOR x s = set_RB_COLOR (rbh_root s) RB_BLACK s"
    using rep t by (subst RB_INSERT_COLOR.simps) (simp add: rep_reads)
  then show ?thesis
    using blacken_root [of s "fill k t"] rep inv t
    by (simp add: rep_fill [symmetric] pos_inv_fill rb_inv_def)
qed


lemmas rep_pop = rep_left [symmetric] rep_right [symmetric]

lemmas rep_set_color_left = rep_set_color [where k = "LF d g u # k" for d g u k, unfolded rep_pop]
lemmas rep_set_color_right = rep_set_color [where k = "RF d u g # k" for d g u k, unfolded rep_pop]
lemmas rep_rotate_left_left = rep_rotate_left [where k = "LF d g u # k" for d g u k, unfolded rep_pop]
lemmas rep_rotate_right_right = rep_rotate_right [where k = "RF d u g # k" for d g u k, unfolded rep_pop]

lemma rep_reads_left:
  assumes "rep s (Nd d (Nd c l x r) g u) k"
  shows "x \<noteq> NULL" "RB_LEFT s x = Some (rt l)" "RB_RIGHT s x = Some (rt r)"
    "RB_PARENT s x = Some g" "RB_COLOR s x = Some c"
  using rep_reads [of s c l x r "LF d g u # k"] assms by (simp_all add: rep_pop)

lemma rep_reads_right:
  assumes "rep s (Nd d u g (Nd c l x r)) k"
  shows "x \<noteq> NULL" "RB_LEFT s x = Some (rt l)" "RB_RIGHT s x = Some (rt r)"
    "RB_PARENT s x = Some g" "RB_COLOR s x = Some c"
  using rep_reads [of s c l x r "RF d u g # k"] assms by (simp_all add: rep_pop)

lemma rep_child_col:
  assumes "rep s (Nd d l g r) k"
  shows "rb_is_red s (rt l) = Some (col l = RB_RED)" "rb_is_red s (rt r) = Some (col r = RB_RED)"
    "rb_is_black s (rt l) = Some (col l = RB_BLACK)" "rb_is_black s (rt r) = Some (col r = RB_BLACK)"
  using rep_is_red [of s l "LF d g r # k"] rep_is_red [of s r "RF d l g # k"]
    rep_is_black [of s l "LF d g r # k"] rep_is_black [of s r "RF d l g # k"] assms
  by (simp_all add: rep_pop)

lemma rep_child_neq:
  assumes "rep s (Nd d l g r) k"
  shows "l \<noteq> Lf \<or> r \<noteq> Lf \<Longrightarrow> rt l \<noteq> rt r"
  using assms by (cases l; cases r) (auto simp: rep_def)

text \<open>A red uncle: recolour and continue at the grandparent.\<close>

lemma set_blackred_left:
  assumes "rep s (Nd c (Nd c1 a p b) g u) k"
  shows "\<exists>s'. RB_SET_BLACKRED p g s = Some s' \<and> rep s' (Nd RB_RED (Nd RB_BLACK a p b) g u) k"
proof -
  obtain s1 where "set_RB_COLOR p RB_BLACK s = Some s1" "rep s1 (Nd c (Nd RB_BLACK a p b) g u) k"
    using rep_set_color_left [OF assms] by blast
  then show ?thesis
    using rep_set_color [of s1 c _ g u k RB_RED] by (auto simp: RB_SET_BLACKRED_def)
qed

lemma set_blackred_right:
  assumes "rep s (Nd c u g (Nd c1 a p b)) k"
  shows "\<exists>s'. RB_SET_BLACKRED p g s = Some s' \<and> rep s' (Nd RB_RED u g (Nd RB_BLACK a p b)) k"
proof -
  obtain s1 where "set_RB_COLOR p RB_BLACK s = Some s1" "rep s1 (Nd c u g (Nd RB_BLACK a p b)) k"
    using rep_set_color_right [OF assms] by blast
  then show ?thesis
    using rep_set_color [of s1 c u g _ k RB_RED] by (auto simp: RB_SET_BLACKRED_def)
qed

lemma insert_uncle_red_left:
  assumes rep: "rep s (Nd RB_BLACK (Nd RB_RED a p b) g (Nd RB_RED d u e)) k"
    and par: "RB_PARENT s x = Some p"
  shows "\<exists>s'. RB_INSERT_COLOR x s = RB_INSERT_COLOR g s' \<and>
              rep s' (Nd RB_RED (Nd RB_BLACK a p b) g (Nd RB_BLACK d u e)) k"
proof -
  obtain s1 where 1: "set_RB_COLOR u RB_BLACK s = Some s1"
      "rep s1 (Nd RB_BLACK (Nd RB_RED a p b) g (Nd RB_BLACK d u e)) k"
    using rep_set_color_right [OF rep] by blast
  obtain s2 where 2: "RB_SET_BLACKRED p g s1 = Some s2"
      "rep s2 (Nd RB_RED (Nd RB_BLACK a p b) g (Nd RB_BLACK d u e)) k"
    using set_blackred_left [OF 1(2)] by blast
  have "RB_INSERT_COLOR x s = RB_INSERT_COLOR g s2"
    using rep_reads [OF rep] rep_reads_left [OF rep] rep_child_col [OF rep] 1 2 par
    by (subst RB_INSERT_COLOR.simps) simp
  with 2 show ?thesis by blast
qed

lemma insert_uncle_red_right:
  assumes rep: "rep s (Nd RB_BLACK (Nd RB_RED d u e) g (Nd RB_RED a p b)) k"
    and par: "RB_PARENT s x = Some p"
  shows "\<exists>s'. RB_INSERT_COLOR x s = RB_INSERT_COLOR g s' \<and>
              rep s' (Nd RB_RED (Nd RB_BLACK d u e) g (Nd RB_BLACK a p b)) k"
proof -
  obtain s1 where 1: "set_RB_COLOR u RB_BLACK s = Some s1"
      "rep s1 (Nd RB_BLACK (Nd RB_BLACK d u e) g (Nd RB_RED a p b)) k"
    using rep_set_color_left [OF rep] by blast
  obtain s2 where 2: "RB_SET_BLACKRED p g s1 = Some s2"
      "rep s2 (Nd RB_RED (Nd RB_BLACK d u e) g (Nd RB_BLACK a p b)) k"
    using set_blackred_right [OF 1(2)] by blast
  have "RB_INSERT_COLOR x s = RB_INSERT_COLOR g s2"
    using rep_reads [OF rep] rep_reads_right [OF rep] rep_child_col [OF rep] rep_child_neq [OF rep]
      1 2 par
    by (subst RB_INSERT_COLOR.simps) simp
  with 2 show ?thesis by blast
qed


text \<open>A black uncle: one or two rotations, after which the parent is black.\<close>

lemma insert_outer_left:
  assumes rep: "rep s (Nd RB_BLACK (Nd RB_RED (Nd RB_RED a x b) p d) g u) k"
    and u: "col u = RB_BLACK"
  shows "\<exists>s'. RB_INSERT_COLOR x s = RB_INSERT_COLOR x s' \<and>
              rep s' (Nd RB_BLACK (Nd RB_RED a x b) p (Nd RB_RED d g u)) k"
proof -
  obtain s1 where 1: "RB_SET_BLACKRED p g s = Some s1"
      "rep s1 (Nd RB_RED (Nd RB_BLACK (Nd RB_RED a x b) p d) g u) k"
    using set_blackred_left [OF rep] by blast
  obtain s2 where 2: "RB_ROTATE_RIGHT g s1 = Some s2"
      "rep s2 (Nd RB_BLACK (Nd RB_RED a x b) p (Nd RB_RED d g u)) k"
    using rep_rotate_right [OF 1(2)] by blast
  have p: "rep s (Nd RB_RED (Nd RB_RED a x b) p d) (LF RB_BLACK g u # k)"
    using rep by (simp add: rep_pop)
  have "RB_INSERT_COLOR x s = RB_INSERT_COLOR x s2"
    using rep_reads [OF rep] rep_reads [OF p] rep_reads_left [OF p] rep_child_col [OF rep]
      rep_child_neq [OF p] 1 2 u
    by (subst RB_INSERT_COLOR.simps) simp
  with 2 show ?thesis by blast
qed

lemma insert_inner_left:
  assumes rep: "rep s (Nd RB_BLACK (Nd RB_RED a p (Nd RB_RED b x d)) g u) k"
    and u: "col u = RB_BLACK"
  shows "\<exists>s'. RB_INSERT_COLOR x s = RB_INSERT_COLOR p s' \<and>
              rep s' (Nd RB_BLACK (Nd RB_RED a p b) x (Nd RB_RED d g u)) k"
proof -
  have p: "rep s (Nd RB_RED a p (Nd RB_RED b x d)) (LF RB_BLACK g u # k)"
    using rep by (simp add: rep_pop)
  obtain s0 where 0: "RB_ROTATE_LEFT p s = Some s0"
      "rep s0 (Nd RB_BLACK (Nd RB_RED (Nd RB_RED a p b) x d) g u) k"
    using rep_rotate_left [OF p] by (auto simp: rep_pop)
  obtain s1 where 1: "RB_SET_BLACKRED x g s0 = Some s1"
      "rep s1 (Nd RB_RED (Nd RB_BLACK (Nd RB_RED a p b) x d) g u) k"
    using set_blackred_left [OF 0(2)] by blast
  obtain s2 where 2: "RB_ROTATE_RIGHT g s1 = Some s2"
      "rep s2 (Nd RB_BLACK (Nd RB_RED a p b) x (Nd RB_RED d g u)) k"
    using rep_rotate_right [OF 1(2)] by blast
  have "RB_INSERT_COLOR x s = RB_INSERT_COLOR p s2"
    using rep_reads [OF rep] rep_reads [OF p] rep_reads_right [OF p] rep_child_col [OF rep] 0 1 2 u
    by (subst RB_INSERT_COLOR.simps) simp
  with 2 show ?thesis by blast
qed

lemma insert_outer_right:
  assumes rep: "rep s (Nd RB_BLACK u g (Nd RB_RED d p (Nd RB_RED a x b))) k"
    and u: "col u = RB_BLACK"
  shows "\<exists>s'. RB_INSERT_COLOR x s = RB_INSERT_COLOR x s' \<and>
              rep s' (Nd RB_BLACK (Nd RB_RED u g d) p (Nd RB_RED a x b)) k"
proof -
  obtain s1 where 1: "RB_SET_BLACKRED p g s = Some s1"
      "rep s1 (Nd RB_RED u g (Nd RB_BLACK d p (Nd RB_RED a x b))) k"
    using set_blackred_right [OF rep] by blast
  obtain s2 where 2: "RB_ROTATE_LEFT g s1 = Some s2"
      "rep s2 (Nd RB_BLACK (Nd RB_RED u g d) p (Nd RB_RED a x b)) k"
    using rep_rotate_left [OF 1(2)] by blast
  have p: "rep s (Nd RB_RED d p (Nd RB_RED a x b)) (RF RB_BLACK u g # k)"
    using rep by (simp add: rep_pop)
  have "RB_INSERT_COLOR x s = RB_INSERT_COLOR x s2"
    using rep_reads [OF rep] rep_reads [OF p] rep_reads_right [OF p] rep_child_col [OF rep]
      rep_child_neq [OF p] rep_child_neq [OF rep] 1 2 u
    by (subst RB_INSERT_COLOR.simps) simp
  with 2 show ?thesis by blast
qed

lemma insert_inner_right:
  assumes rep: "rep s (Nd RB_BLACK u g (Nd RB_RED (Nd RB_RED d x b) p a)) k"
    and u: "col u = RB_BLACK"
  shows "\<exists>s'. RB_INSERT_COLOR x s = RB_INSERT_COLOR p s' \<and>
              rep s' (Nd RB_BLACK (Nd RB_RED u g d) x (Nd RB_RED b p a)) k"
proof -
  have p: "rep s (Nd RB_RED (Nd RB_RED d x b) p a) (RF RB_BLACK u g # k)"
    using rep by (simp add: rep_pop)
  obtain s0 where 0: "RB_ROTATE_RIGHT p s = Some s0"
      "rep s0 (Nd RB_BLACK u g (Nd RB_RED d x (Nd RB_RED b p a))) k"
    using rep_rotate_right [OF p] by (auto simp: rep_pop)
  obtain s1 where 1: "RB_SET_BLACKRED x g s0 = Some s1"
      "rep s1 (Nd RB_RED u g (Nd RB_BLACK d x (Nd RB_RED b p a))) k"
    using set_blackred_right [OF 0(2)] by blast
  obtain s2 where 2: "RB_ROTATE_LEFT g s1 = Some s2"
      "rep s2 (Nd RB_BLACK (Nd RB_RED u g d) x (Nd RB_RED b p a)) k"
    using rep_rotate_left [OF 1(2)] by blast
  have "RB_INSERT_COLOR x s = RB_INSERT_COLOR p s2"
    using rep_reads [OF rep] rep_reads [OF p] rep_reads_left [OF p] rep_child_col [OF rep]
      rep_child_neq [OF rep] 0 1 2 u
    by (subst RB_INSERT_COLOR.simps) simp
  with 2 show ?thesis by blast
qed

text \<open>
  A position at which \<open>RB_INSERT_COLOR\<close> works: a red node whose only possible defect is
  a red parent.
\<close>

definition ins_pos :: "rbtree \<Rightarrow> frame list \<Rightarrow> bool" where
  "ins_pos t k \<longleftrightarrow>
     inv_col t \<and> inv_height t \<and> col t = RB_RED \<and> ctx_inv_col k \<and> ctx_inv_height (bheight t) k"

text \<open>The grandparent of a red-red pair: one case for each shape of path.\<close>

lemma ins_pos_cases:
  assumes "ins_pos t k" and "ctx_col k = RB_RED"
  obtains p b g u k' where "k = LF RB_RED p b # LF RB_BLACK g u # k'"
  | p b g u k' where "k = RF RB_RED b p # LF RB_BLACK g u # k'"
  | p b g u k' where "k = LF RB_RED p b # RF RB_BLACK u g # k'"
  | p b g u k' where "k = RF RB_RED b p # RF RB_BLACK u g # k'"
  using assms by (cases k rule: ctx_par.cases; cases "tl k" rule: ctx_par.cases)
    (auto simp: ins_pos_def)

lemma insert_exit_left:
  assumes "rep s (Nd RB_BLACK (Nd RB_RED a y b) p q) k" and "pos_inv (Nd RB_BLACK (Nd RB_RED a y b) p q) k"
  shows "recolored (RB_INSERT_COLOR y s) (fill k (Nd RB_BLACK (Nd RB_RED a y b) p q))"
  using insert_color_exit [of s "Nd RB_RED a y b" "LF RB_BLACK p q # k" RB_RED a y b] assms
  by (simp add: rep_pop pos_inv_left)

lemma insert_exit_right:
  assumes "rep s (Nd RB_BLACK q p (Nd RB_RED a y b)) k" and "pos_inv (Nd RB_BLACK q p (Nd RB_RED a y b)) k"
  shows "recolored (RB_INSERT_COLOR y s) (fill k (Nd RB_BLACK q p (Nd RB_RED a y b)))"
  using insert_color_exit [of s "Nd RB_RED a y b" "RF RB_BLACK q p # k" RB_RED a y b] assms
  by (simp add: rep_pop pos_inv_right)

text \<open>The position of the grandparent of the new node, up to the red-red defect below it.\<close>

definition gp_pos :: "rbtree \<Rightarrow> rbtree \<Rightarrow> frame list \<Rightarrow> bool" where
  "gp_pos p u k \<longleftrightarrow>
     inv_col u \<and> inv_height u \<and> inv_height p \<and> bheight p = bheight u \<and>
     ctx_inv_col k \<and> ctx_inv_height (bheight u + 1) k"

lemma insert_black_uncle:
  assumes u: "col u = RB_BLACK" and k: "gp_pos P u k"
    and ch: "inv_col a" "inv_col b" "inv_col d" "col a = RB_BLACK" "col b = RB_BLACK" "col d = RB_BLACK"
  shows
    "P = Nd RB_RED (Nd RB_RED a x b) p d \<Longrightarrow> rep s (Nd RB_BLACK P g u) k \<Longrightarrow>
       recolored (RB_INSERT_COLOR x s) (fill k (Nd RB_BLACK P g u))" (is "?A1 \<Longrightarrow> ?A2 \<Longrightarrow> ?A")
    "P = Nd RB_RED a p (Nd RB_RED b x d) \<Longrightarrow> rep s (Nd RB_BLACK P g u) k \<Longrightarrow>
       recolored (RB_INSERT_COLOR x s) (fill k (Nd RB_BLACK P g u))" (is "?B1 \<Longrightarrow> ?B2 \<Longrightarrow> ?B")
    "P = Nd RB_RED d p (Nd RB_RED a x b) \<Longrightarrow> rep s (Nd RB_BLACK u g P) k \<Longrightarrow>
       recolored (RB_INSERT_COLOR x s) (fill k (Nd RB_BLACK u g P))" (is "?C1 \<Longrightarrow> ?C2 \<Longrightarrow> ?C")
    "P = Nd RB_RED (Nd RB_RED d x b) p a \<Longrightarrow> rep s (Nd RB_BLACK u g P) k \<Longrightarrow>
       recolored (RB_INSERT_COLOR x s) (fill k (Nd RB_BLACK u g P))" (is "?D1 \<Longrightarrow> ?D2 \<Longrightarrow> ?D")
proof -
  { assume P: ?A1 and r: ?A2
    from insert_outer_left [OF r [unfolded P] u] obtain s' where
      s': "RB_INSERT_COLOR x s = RB_INSERT_COLOR x s'"
          "rep s' (Nd RB_BLACK (Nd RB_RED a x b) p (Nd RB_RED d g u)) k" by blast
    have "pos_inv (Nd RB_BLACK (Nd RB_RED a x b) p (Nd RB_RED d g u)) k"
      using k ch u P by (auto simp: pos_inv_def gp_pos_def)
    from insert_exit_left [OF s'(2) this] show ?A
      unfolding s'(1) P by (rule recolored_cong [THEN iffD1, rotated, OF _ nodes_fill_cong]) simp }
  { assume P: ?B1 and r: ?B2
    from insert_inner_left [OF r [unfolded P] u] obtain s' where
      s': "RB_INSERT_COLOR x s = RB_INSERT_COLOR p s'"
          "rep s' (Nd RB_BLACK (Nd RB_RED a p b) x (Nd RB_RED d g u)) k" by blast
    have "pos_inv (Nd RB_BLACK (Nd RB_RED a p b) x (Nd RB_RED d g u)) k"
      using k ch u P by (auto simp: pos_inv_def gp_pos_def)
    from insert_exit_left [OF s'(2) this] show ?B
      unfolding s'(1) P by (rule recolored_cong [THEN iffD1, rotated, OF _ nodes_fill_cong]) simp }
  { assume P: ?C1 and r: ?C2
    from insert_outer_right [OF r [unfolded P] u] obtain s' where
      s': "RB_INSERT_COLOR x s = RB_INSERT_COLOR x s'"
          "rep s' (Nd RB_BLACK (Nd RB_RED u g d) p (Nd RB_RED a x b)) k" by blast
    have "pos_inv (Nd RB_BLACK (Nd RB_RED u g d) p (Nd RB_RED a x b)) k"
      using k ch u P by (auto simp: pos_inv_def gp_pos_def)
    from insert_exit_right [OF s'(2) this] show ?C
      unfolding s'(1) P by (rule recolored_cong [THEN iffD1, rotated, OF _ nodes_fill_cong]) simp }
  { assume P: ?D1 and r: ?D2
    from insert_inner_right [OF r [unfolded P] u] obtain s' where
      s': "RB_INSERT_COLOR x s = RB_INSERT_COLOR p s'"
          "rep s' (Nd RB_BLACK (Nd RB_RED u g d) x (Nd RB_RED b p a)) k" by blast
    have "pos_inv (Nd RB_BLACK (Nd RB_RED u g d) x (Nd RB_RED b p a)) k"
      using k ch u P by (auto simp: pos_inv_def gp_pos_def)
    from insert_exit_right [OF s'(2) this] show ?D
      unfolding s'(1) P by (rule recolored_cong [THEN iffD1, rotated, OF _ nodes_fill_cong]) simp }
qed

lemma insert_red_uncle_left:
  assumes rep: "rep s (Nd RB_BLACK P g u) k" and P: "P = Nd RB_RED a p b" and u: "col u = RB_RED"
    and pos: "gp_pos P u k" "inv_col a" "inv_col b" and par: "RB_PARENT s x = Some p"
    and IH: "\<And>s l x r. rep s (Nd RB_RED l x r) k \<Longrightarrow> ins_pos (Nd RB_RED l x r) k \<Longrightarrow>
               recolored (RB_INSERT_COLOR x s) (fill k (Nd RB_RED l x r))"
  shows "recolored (RB_INSERT_COLOR x s) (fill k (Nd RB_BLACK P g u))"
proof -
  obtain d q e where U: "u = Nd RB_RED d q e" using u by (cases u) auto
  from insert_uncle_red_left [OF rep [unfolded P U] par] obtain s' where
    s': "RB_INSERT_COLOR x s = RB_INSERT_COLOR g s'"
        "rep s' (Nd RB_RED (Nd RB_BLACK a p b) g (Nd RB_BLACK d q e)) k" by blast
  have "ins_pos (Nd RB_RED (Nd RB_BLACK a p b) g (Nd RB_BLACK d q e)) k"
    using pos P U by (auto simp: ins_pos_def gp_pos_def)
  from IH [OF s'(2) this] show ?thesis
    unfolding s'(1) P U by (rule recolored_cong [THEN iffD1, rotated, OF _ nodes_fill_cong]) simp
qed

lemma insert_red_uncle_right:
  assumes rep: "rep s (Nd RB_BLACK u g P) k" and P: "P = Nd RB_RED a p b" and u: "col u = RB_RED"
    and pos: "gp_pos P u k" "inv_col a" "inv_col b" and par: "RB_PARENT s x = Some p"
    and IH: "\<And>s l x r. rep s (Nd RB_RED l x r) k \<Longrightarrow> ins_pos (Nd RB_RED l x r) k \<Longrightarrow>
               recolored (RB_INSERT_COLOR x s) (fill k (Nd RB_RED l x r))"
  shows "recolored (RB_INSERT_COLOR x s) (fill k (Nd RB_BLACK u g P))"
proof -
  obtain d q e where U: "u = Nd RB_RED d q e" using u by (cases u) auto
  from insert_uncle_red_right [OF rep [unfolded P U] par] obtain s' where
    s': "RB_INSERT_COLOR x s = RB_INSERT_COLOR g s'"
        "rep s' (Nd RB_RED (Nd RB_BLACK d q e) g (Nd RB_BLACK a p b)) k" by blast
  have "ins_pos (Nd RB_RED (Nd RB_BLACK d q e) g (Nd RB_BLACK a p b)) k"
    using pos P U by (auto simp: ins_pos_def gp_pos_def)
  from IH [OF s'(2) this] show ?thesis
    unfolding s'(1) P U by (rule recolored_cong [THEN iffD1, rotated, OF _ nodes_fill_cong]) simp
qed

lemma insert_color_black_parent:
  assumes "rep s (Nd RB_RED l x r) k" "ins_pos (Nd RB_RED l x r) k" "ctx_col k = RB_BLACK"
  shows "recolored (RB_INSERT_COLOR x s) (fill k (Nd RB_RED l x r))"
proof (cases "k = []")
  case True
  then have "RB_INSERT_COLOR x s = set_RB_COLOR (rbh_root s) RB_BLACK s"
    using assms(1) by (subst RB_INSERT_COLOR.simps) (simp add: rep_reads rb_is_red_def)
  then show ?thesis
    using blacken_root [of s "Nd RB_RED l x r"] assms True by (simp add: ins_pos_def)
next
  case False
  then show ?thesis
    using insert_color_exit [OF assms(1) _ refl] assms(2,3) by (auto simp: pos_inv_def ins_pos_def)
qed

lemma insert_color_correct:
  assumes "rep s (Nd RB_RED l x r) k" and "ins_pos (Nd RB_RED l x r) k"
  shows "recolored (RB_INSERT_COLOR x s) (fill k (Nd RB_RED l x r))"
  using assms
proof (induction "length k" arbitrary: s l x r k rule: less_induct)
  case less
  note rep = less.prems(1) and pos = less.prems(2)
  show ?case
  proof (cases "ctx_col k")
    case RB_BLACK
    then show ?thesis using insert_color_black_parent rep pos by blast
  next
    case RB_RED
    from pos this show ?thesis
    proof (cases rule: ins_pos_cases)
      case (1 p b g u k')
      let ?P = "Nd RB_RED (Nd RB_RED l x r) p b"
      have r: "rep s (Nd RB_BLACK ?P g u) k'" and gp: "gp_pos ?P u k'"
        using rep pos 1 by (auto simp: rep_pop ins_pos_def gp_pos_def)
      have par: "RB_PARENT s x = Some p" using rep_reads(4) [OF rep] 1 by simp
      have c: "inv_col l" "inv_col r" "inv_col b" "inv_col (Nd RB_RED l x r)"
        "col l = RB_BLACK" "col r = RB_BLACK" "col b = RB_BLACK"
        using pos 1 by (auto simp: ins_pos_def)
      have IH: "\<And>s l x r. rep s (Nd RB_RED l x r) k' \<Longrightarrow> ins_pos (Nd RB_RED l x r) k' \<Longrightarrow>
          recolored (RB_INSERT_COLOR x s) (fill k' (Nd RB_RED l x r))"
        using less.hyps 1 by simp
      have "recolored (RB_INSERT_COLOR x s) (fill k' (Nd RB_BLACK ?P g u))"
        using insert_black_uncle(1) [OF _ gp c(1,2,3,5,6,7) refl r] insert_red_uncle_left [OF r refl _ gp c(4,3) par IH]
        by (cases "col u") auto
      then show ?thesis using 1 by simp
    next
      case (2 p b g u k')
      let ?P = "Nd RB_RED b p (Nd RB_RED l x r)"
      have r: "rep s (Nd RB_BLACK ?P g u) k'" and gp: "gp_pos ?P u k'"
        using rep pos 2 by (auto simp: rep_pop ins_pos_def gp_pos_def)
      have par: "RB_PARENT s x = Some p" using rep_reads(4) [OF rep] 2 by simp
      have c: "inv_col l" "inv_col r" "inv_col b" "inv_col (Nd RB_RED l x r)"
        "col l = RB_BLACK" "col r = RB_BLACK" "col b = RB_BLACK"
        using pos 2 by (auto simp: ins_pos_def)
      have IH: "\<And>s l x r. rep s (Nd RB_RED l x r) k' \<Longrightarrow> ins_pos (Nd RB_RED l x r) k' \<Longrightarrow>
          recolored (RB_INSERT_COLOR x s) (fill k' (Nd RB_RED l x r))"
        using less.hyps 2 by simp
      have "recolored (RB_INSERT_COLOR x s) (fill k' (Nd RB_BLACK ?P g u))"
        using insert_black_uncle(2) [OF _ gp c(3,1,2,7,5,6) refl r] insert_red_uncle_left [OF r refl _ gp c(3,4) par IH]
        by (cases "col u") auto
      then show ?thesis using 2 by simp
    next
      case (3 p b g u k')
      let ?P = "Nd RB_RED (Nd RB_RED l x r) p b"
      have r: "rep s (Nd RB_BLACK u g ?P) k'" and gp: "gp_pos ?P u k'"
        using rep pos 3 by (auto simp: rep_pop ins_pos_def gp_pos_def)
      have par: "RB_PARENT s x = Some p" using rep_reads(4) [OF rep] 3 by simp
      have c: "inv_col l" "inv_col r" "inv_col b" "inv_col (Nd RB_RED l x r)"
        "col l = RB_BLACK" "col r = RB_BLACK" "col b = RB_BLACK"
        using pos 3 by (auto simp: ins_pos_def)
      have IH: "\<And>s l x r. rep s (Nd RB_RED l x r) k' \<Longrightarrow> ins_pos (Nd RB_RED l x r) k' \<Longrightarrow>
          recolored (RB_INSERT_COLOR x s) (fill k' (Nd RB_RED l x r))"
        using less.hyps 3 by simp
      have "recolored (RB_INSERT_COLOR x s) (fill k' (Nd RB_BLACK u g ?P))"
        using insert_black_uncle(4) [OF _ gp c(3,2,1,7,6,5) refl r] insert_red_uncle_right [OF r refl _ gp c(4,3) par IH]
        by (cases "col u") auto
      then show ?thesis using 3 by simp
    next
      case (4 p b g u k')
      let ?P = "Nd RB_RED b p (Nd RB_RED l x r)"
      have r: "rep s (Nd RB_BLACK u g ?P) k'" and gp: "gp_pos ?P u k'"
        using rep pos 4 by (auto simp: rep_pop ins_pos_def gp_pos_def)
      have par: "RB_PARENT s x = Some p" using rep_reads(4) [OF rep] 4 by simp
      have c: "inv_col l" "inv_col r" "inv_col b" "inv_col (Nd RB_RED l x r)"
        "col l = RB_BLACK" "col r = RB_BLACK" "col b = RB_BLACK"
        using pos 4 by (auto simp: ins_pos_def)
      have IH: "\<And>s l x r. rep s (Nd RB_RED l x r) k' \<Longrightarrow> ins_pos (Nd RB_RED l x r) k' \<Longrightarrow>
          recolored (RB_INSERT_COLOR x s) (fill k' (Nd RB_RED l x r))"
        using less.hyps 4 by simp
      have "recolored (RB_INSERT_COLOR x s) (fill k' (Nd RB_BLACK u g ?P))"
        using insert_black_uncle(3) [OF _ gp c(1,2,3,5,6,7) refl r] insert_red_uncle_right [OF r refl _ gp c(3,4) par IH]
        by (cases "col u") auto
      then show ?thesis using 4 by simp
    qed
  qed
qed


section \<open>The descent and the insertion\<close>

text \<open>
  The comparison argument of the macros agrees with the order of a key: \<open>cmp p\<close> is the
  outcome of comparing the sought key \<open>q\<close> with the key of the element at \<open>p\<close>.
\<close>

definition cmp_for :: "(addr \<Rightarrow> int option) \<Rightarrow> (addr \<Rightarrow> int) \<Rightarrow> int \<Rightarrow> addr set \<Rightarrow> bool" where
  "cmp_for cmp key q A \<longleftrightarrow>
     (\<forall>p\<in>A. \<exists>c. cmp p = Some c \<and> (c < 0 \<longleftrightarrow> q < key p) \<and> (c > 0 \<longleftrightarrow> q > key p))"

lemma cmp_forD:
  assumes "cmp_for cmp key q A" and "p \<in> A"
  obtains c where "cmp p = Some c" "c < 0 \<longleftrightarrow> q < key p" "c > 0 \<longleftrightarrow> q > key p"
  using assms by (auto simp: cmp_for_def)

lemma cmp_for_subset: "cmp_for cmp key q A \<Longrightarrow> B \<subseteq> A \<Longrightarrow> cmp_for cmp key q B"
  by (auto simp: cmp_for_def)

definition ordered :: "(addr \<Rightarrow> int) \<Rightarrow> addr list \<Rightarrow> bool" where
  "ordered key xs \<longleftrightarrow> sorted_wrt (<) (map key xs)"

lemma ordered_append:
  "ordered key (xs @ ys) \<longleftrightarrow>
     ordered key xs \<and> ordered key ys \<and> (\<forall>x\<in>set xs. \<forall>y\<in>set ys. key x < key y)"
  by (auto simp: ordered_def sorted_wrt_append)

lemma ordered_Cons: "ordered key (x # xs) \<longleftrightarrow> (\<forall>y\<in>set xs. key x < key y) \<and> ordered key xs"
  by (auto simp: ordered_def)

text \<open>The nodes left and right of a position.\<close>

fun ctx_pre :: "frame list \<Rightarrow> addr list" where
  "ctx_pre [] = []"
| "ctx_pre (LF c x r # k) = ctx_pre k"
| "ctx_pre (RF c l x # k) = ctx_pre k @ nodes l @ [x]"

fun ctx_post :: "frame list \<Rightarrow> addr list" where
  "ctx_post [] = []"
| "ctx_post (LF c x r # k) = x # nodes r @ ctx_post k"
| "ctx_post (RF c l x # k) = ctx_post k"

lemma nodes_fill: "nodes (fill k t) = ctx_pre k @ nodes t @ ctx_post k"
  by (induction k t rule: fill.induct) auto

fun side_ok :: "frame list \<Rightarrow> int \<Rightarrow> bool" where
  "side_ok [] cm \<longleftrightarrow> True"
| "side_ok (LF c x r # k) cm \<longleftrightarrow> cm < 0"
| "side_ok (RF c l x # k) cm \<longleftrightarrow> cm > 0"

definition descends_to ::
  "(addr + addr \<times> int) option \<Rightarrow> (addr \<Rightarrow> int) \<Rightarrow> int \<Rightarrow> rbtree \<Rightarrow> frame list \<Rightarrow> bool" where
  "descends_to res key q t k \<longleftrightarrow>
     (\<exists>p\<in>set (nodes t). key p = q \<and> res = Some (Inl p)) \<or>
     (\<exists>k' cm as bs. res = Some (Inr (ctx_par k', cm)) \<and> side_ok k' cm \<and> fill k' Lf = fill k t \<and>
        nodes t = as @ bs \<and> ctx_pre k' = ctx_pre k @ as \<and> ctx_post k' = bs @ ctx_post k \<and>
        (\<forall>a\<in>set as. key a < q) \<and> (\<forall>b\<in>set bs. q < key b))"

lemma descends_to_fresh:
  assumes "descends_to res key q t []" and "q \<notin> key ` set (nodes t)"
  obtains k cm where "res = Some (Inr (ctx_par k, cm))" "side_ok k cm" "fill k Lf = t"
    "nodes t = ctx_pre k @ ctx_post k"
    "\<forall>a\<in>set (ctx_pre k). key a < q" "\<forall>b\<in>set (ctx_post k). q < key b"
  using assms unfolding descends_to_def by (elim disjE exE conjE bexE) auto

lemma descend_correct:
  assumes "rep s t k" and "cmp_for cmp key q (set (nodes t))" and "ordered key (nodes t)"
    and "side_ok k cm"
  shows "descends_to (rb_insert_descend cmp (rt t) (ctx_par k) cm s) key q t k"
  using assms
proof (induction t arbitrary: k cm)
  case Lf
  then show ?case
    by (subst rb_insert_descend.simps) (force simp: descends_to_def)
next
  case (Nd c l x r)
  note rd = rep_reads [OF Nd.prems(1)]
  obtain d where d: "cmp x = Some d" "d < 0 \<longleftrightarrow> q < key x" "d > 0 \<longleftrightarrow> q > key x"
    using cmp_forD [OF Nd.prems(2), of x] by auto
  have sub: "cmp_for cmp key q (set (nodes l))" "cmp_for cmp key q (set (nodes r))"
    using Nd.prems(2) by (auto elim: cmp_for_subset)
  have ord: "ordered key (nodes l)" "ordered key (nodes r)"
    "\<forall>a\<in>set (nodes l). key a < key x" "\<forall>b\<in>set (nodes r). key x < key b"
    using Nd.prems(3) by (auto simp: ordered_append ordered_Cons)
  consider "d < 0" | "d > 0" | "d = 0" by linarith
  then show ?case
  proof cases
    case 1
    have "descends_to (rb_insert_descend cmp (rt l) x d s) key q l (LF c x r # k)"
      using Nd.IH(1) [of "LF c x r # k" d] Nd.prems(1) sub ord 1 by (simp add: rep_left)
    moreover have "\<forall>b\<in>set (x # nodes r). q < key b" using ord(4) d 1 by force
    ultimately show ?thesis
      using 1 d rd
      by (subst rb_insert_descend.simps) (fastforce simp: descends_to_def)
  next
    case 2
    have "descends_to (rb_insert_descend cmp (rt r) x d s) key q r (RF c l x # k)"
      using Nd.IH(2) [of "RF c l x # k" d] Nd.prems(1) sub ord 2 by (simp add: rep_right)
    moreover have "\<forall>a\<in>set (nodes l @ [x]). key a < q" using ord(3) d 2 by force
    ultimately show ?thesis
      using 2 d rd
      apply (subst rb_insert_descend.simps)
      apply (simp add: descends_to_def)
      apply (elim disjE)
       apply blast
      apply (rule disjI2)
      apply (elim exE conjE)
      subgoal for k' cm' as bs
        by (intro exI [of _ k'] exI [of _ cm'] conjI exI [of _ "nodes l @ x # as"] exI [of _ bs]) auto
      done
  next
    case 3
    then show ?thesis
      using d rd by (subst rb_insert_descend.simps) (auto simp: descends_to_def)
  qed
qed

text \<open>Linking the new cell below the parent the descent found.\<close>

definition rb_link :: "addr \<Rightarrow> addr \<Rightarrow> int \<Rightarrow> rb_head \<Rightarrow> rb_head option" where
  "rb_link elm parent cm s =
     do { s \<leftarrow> RB_SET elm parent s;
          if parent \<noteq> NULL then (if cm < 0 then set_RB_LEFT parent elm s
                                 else set_RB_RIGHT parent elm s)
          else Some (set_RB_ROOT elm s) }"

lemma rb_link_correct:
  assumes "rep s Lf k" and "elm \<noteq> NULL" and "elm \<notin> set (ctx_nodes k)" and "side_ok k cm"
  shows "\<exists>s'. rb_link elm (ctx_par k) cm s = Some s' \<and> rep s' (Nd RB_RED Lf elm Lf) k"
  using assms
  by (cases k rule: ctx_par.cases) (auto simp: rep_def rb_link_def RB_SET_def ptr_simps heap_frame)

lemma RB_INSERT_unfold:
  "RB_INSERT cmp elm s =
     do { r \<leftarrow> rb_insert_descend cmp (RB_ROOT s) NULL 0 s;
          case r of
            Inl tmp \<Rightarrow> Some (tmp, s)
          | Inr (parent, cm) \<Rightarrow>
              do { s \<leftarrow> rb_link elm parent cm s;
                   s \<leftarrow> RB_INSERT_COLOR elm s;
                   Some (NULL, s) } }"
  by (simp add: RB_INSERT_def rb_link_def cong: if_cong sum.case_cong prod.case_cong)

text \<open>
  The abstract state of a tree: the list of its elements in key order. \<open>rb_valid\<close> says that
  the heap holds a red-black tree with exactly these elements.
\<close>

definition rb_valid :: "(addr \<Rightarrow> int) \<Rightarrow> rb_head \<Rightarrow> addr list \<Rightarrow> bool" where
  "rb_valid key s xs \<longleftrightarrow> (\<exists>t. rep s t [] \<and> rb_inv t \<and> nodes t = xs \<and> ordered key xs)"

lemma rb_valid_RB_INIT: "rb_valid key (RB_INIT s) []"
  by (auto simp: rb_valid_def rep_def RB_INIT_def rb_inv_def ordered_def intro!: exI [of _ Lf])

lemma rb_insert_present:
  assumes "rb_valid key s xs" and "cmp_for cmp key q (set xs)" and "p \<in> set xs" and "key p = q"
  shows "RB_INSERT cmp elm s = Some (p, s)"
proof -
  obtain t where t: "rep s t []" "rb_inv t" "nodes t = xs" "ordered key xs"
    using assms(1) by (auto simp: rb_valid_def)
  have inj: "key a = key b \<Longrightarrow> a \<in> set xs \<Longrightarrow> b \<in> set xs \<Longrightarrow> a = b" for a b
    using t(4) by (auto simp: ordered_def sorted_wrt_iff_nth_less in_set_conv_nth)
      (metis less_irrefl nat_neq_iff)
  have "descends_to (rb_insert_descend cmp (rt t) (ctx_par []) 0 s) key q t []"
    using descend_correct [OF t(1)] t assms(2) by simp
  then have "rb_insert_descend cmp (RB_ROOT s) NULL 0 s = Some (Inl p)"
    using assms(3,4) t(3) rep_root [OF t(1)] inj by (auto simp: descends_to_def)
  then show ?thesis by (simp add: RB_INSERT_def)
qed

lemma rb_insert_fresh:
  assumes val: "rb_valid key s xs" and cmp: "cmp_for cmp key (key elm) (set xs)"
    and new: "elm \<noteq> NULL" "elm \<notin> set xs" "key elm \<notin> key ` set xs"
  shows "\<exists>s' as bs. RB_INSERT cmp elm s = Some (NULL, s') \<and> xs = as @ bs \<and>
           rb_valid key s' (as @ elm # bs)"
proof -
  obtain t where t: "rep s t []" "rb_inv t" "nodes t = xs" "ordered key xs"
    using val by (auto simp: rb_valid_def)
  have "descends_to (rb_insert_descend cmp (rt t) (ctx_par []) 0 s) key (key elm) t []"
    using descend_correct [OF t(1)] t cmp by simp
  from descends_to_fresh [OF this] new(3) t(3) obtain k cm where d:
      "rb_insert_descend cmp (RB_ROOT s) NULL 0 s = Some (Inr (ctx_par k, cm))"
      "side_ok k cm" "fill k Lf = t" "xs = ctx_pre k @ ctx_post k"
      "\<forall>a\<in>set (ctx_pre k). key a < key elm" "\<forall>b\<in>set (ctx_post k). key elm < key b"
    by (auto simp: rep_root [OF t(1)])
  have k: "rep s Lf k" "pos_inv Lf k"
    using t d(3) by (simp_all add: rep_fill [of s Lf k] pos_inv_fill)
  have "set (ctx_nodes k) = set (ctx_pre k) \<union> set (ctx_post k)"
    by (induction k rule: ctx_nodes.induct) auto
  then obtain s1 where s1: "rb_link elm (ctx_par k) cm s = Some s1" "rep s1 (Nd RB_RED Lf elm Lf) k"
    using rb_link_correct [OF k(1) new(1) _ d(2)] d(4) new(2) by auto
  have "ins_pos (Nd RB_RED Lf elm Lf) k"
    using k(2) by (simp add: ins_pos_def pos_inv_def)
  from insert_color_correct [OF s1(2) this] obtain s' t' where
    s': "RB_INSERT_COLOR elm s1 = Some s'" "rep s' t' []" "rb_inv t'"
        "nodes t' = ctx_pre k @ elm # ctx_post k"
    by (auto simp: recolored_def nodes_fill)
  have "ordered key (ctx_pre k @ elm # ctx_post k)"
    using t(4) d(4-6) by (auto simp: ordered_append ordered_Cons)
  then have "rb_valid key s' (ctx_pre k @ elm # ctx_post k)" using s' by (auto simp: rb_valid_def)
  moreover have "RB_INSERT cmp elm s = Some (NULL, s')"
    using d(1) s1(1) s'(1) by (simp add: RB_INSERT_unfold)
  ultimately show ?thesis using d(4) by blast
qed

end
