(* ===== verification/RB_Search.thy ===== *)
theory RB_Search
  imports RB_Insert
begin

text \<open>
  The searches of the tree: \<open>RB_FIND\<close>, \<open>RB_NFIND\<close>, \<open>RB_MINMAX\<close> and the in-order steps
  \<open>RB_NEXT\<close> and \<open>RB_PREV\<close>, each shown to return on a valid tree and to be the
  corresponding operation on the sorted list of its elements.
\<close>

definition ptr_or :: "addr \<Rightarrow> addr option \<Rightarrow> addr" where
  "ptr_or d x = (case x of None \<Rightarrow> d | Some p \<Rightarrow> p)"

lemma ptr_or_simps [simp]: "ptr_or d None = d" "ptr_or d (Some p) = p"
  by (simp_all add: ptr_or_def)

lemma find_append: "find P (xs @ ys) = (case find P xs of None \<Rightarrow> find P ys | Some x \<Rightarrow> Some x)"
  by (induction xs) auto

lemma find_none: "\<forall>x\<in>set xs. \<not> P x \<Longrightarrow> find P xs = None"
  by (induction xs) auto

lemma nodes_eq_Nil [simp]: "nodes t = [] \<longleftrightarrow> t = Lf"
  by (cases t) auto

section \<open>Search by key\<close>

lemma find_from_correct:
  assumes "rep s t k" and "cmp_for cmp key q (set (nodes t))" and "ordered key (nodes t)"
  shows "rb_find_from cmp (rt t) s = Some (ptr_or NULL (find (\<lambda>p. key p = q) (nodes t)))"
  using assms
proof (induction t arbitrary: k)
  case Lf
  then show ?case by (subst rb_find_from.simps) simp
next
  case (Nd c l x r)
  note rd = rep_reads [OF Nd.prems(1)]
  obtain d where d: "cmp x = Some d" "d < 0 \<longleftrightarrow> q < key x" "d > 0 \<longleftrightarrow> q > key x"
    using cmp_forD [OF Nd.prems(2), of x] by auto
  have sub: "cmp_for cmp key q (set (nodes l))" "cmp_for cmp key q (set (nodes r))"
    using Nd.prems(2) by (auto elim: cmp_for_subset)
  have ord: "ordered key (nodes l)" "ordered key (nodes r)"
    "\<forall>a\<in>set (nodes l). key a < key x" "\<forall>b\<in>set (nodes r). key x < key b"
    using Nd.prems(3) by (auto simp: ordered_append ordered_Cons)
  have IH: "rb_find_from cmp (rt l) s = Some (ptr_or NULL (find (\<lambda>p. key p = q) (nodes l)))"
    "rb_find_from cmp (rt r) s = Some (ptr_or NULL (find (\<lambda>p. key p = q) (nodes r)))"
    using Nd.IH(1) [of "LF c x r # k"] Nd.IH(2) [of "RF c l x # k"] Nd.prems(1) sub ord
    by (simp_all add: rep_left [symmetric] rep_right [symmetric])
  have skip: "q \<le> key x \<Longrightarrow> find (\<lambda>p. key p = q) (nodes r) = None"
    "key x \<le> q \<Longrightarrow> find (\<lambda>p. key p = q) (nodes l) = None"
    using ord by (auto intro!: find_none)
  consider "d < 0" | "d > 0" | "d = 0" by linarith
  then show ?case
    by cases (subst rb_find_from.simps, use d rd IH skip in
      \<open>auto simp: find_append split: option.split\<close>)+
qed

lemma nfind_from_correct:
  assumes "rep s t k" and "cmp_for cmp key q (set (nodes t))" and "ordered key (nodes t)"
  shows "rb_nfind_from cmp (rt t) res s = Some (ptr_or res (find (\<lambda>p. q \<le> key p) (nodes t)))"
  using assms
proof (induction t arbitrary: k res)
  case Lf
  then show ?case by (subst rb_nfind_from.simps) simp
next
  case (Nd c l x r)
  note rd = rep_reads [OF Nd.prems(1)]
  obtain d where d: "cmp x = Some d" "d < 0 \<longleftrightarrow> q < key x" "d > 0 \<longleftrightarrow> q > key x"
    using cmp_forD [OF Nd.prems(2), of x] by auto
  have sub: "cmp_for cmp key q (set (nodes l))" "cmp_for cmp key q (set (nodes r))"
    using Nd.prems(2) by (auto elim: cmp_for_subset)
  have ord: "ordered key (nodes l)" "ordered key (nodes r)"
    "\<forall>a\<in>set (nodes l). key a < key x" "\<forall>b\<in>set (nodes r). key x < key b"
    using Nd.prems(3) by (auto simp: ordered_append ordered_Cons)
  have IH: "rb_nfind_from cmp (rt l) res s = Some (ptr_or res (find (\<lambda>p. q \<le> key p) (nodes l)))"
    "rb_nfind_from cmp (rt r) res s = Some (ptr_or res (find (\<lambda>p. q \<le> key p) (nodes r)))" for res
    using Nd.IH(1) [of "LF c x r # k" res] Nd.IH(2) [of "RF c l x # k" res] Nd.prems(1) sub ord
    by (simp_all add: rep_left [symmetric] rep_right [symmetric])
  have skip: "key x \<le> q \<Longrightarrow> find (\<lambda>p. q \<le> key p) (nodes l) = None"
    using ord by (intro find_none) force
  consider "d < 0" | "d > 0" | "d = 0" by linarith
  then show ?case
    by cases (subst rb_nfind_from.simps, use d rd IH skip in
      \<open>auto simp: find_append split: option.split\<close>)+
qed

lemma rb_find_correct:
  assumes "rb_valid key s xs" and "cmp_for cmp key q (set xs)"
  shows "RB_FIND cmp s = Some (ptr_or NULL (find (\<lambda>p. key p = q) xs))"
  using assms by (auto simp: rb_valid_def RB_FIND_def rep_root find_from_correct)

lemma rb_nfind_correct:
  assumes "rb_valid key s xs" and "cmp_for cmp key q (set xs)"
  shows "RB_NFIND cmp s = Some (ptr_or NULL (find (\<lambda>p. q \<le> key p) xs))"
  using assms by (auto simp: rb_valid_def RB_NFIND_def rep_root nfind_from_correct)

section \<open>Extremal elements\<close>

lemma minmax_from_correct:
  assumes "rep s t k"
  shows "rb_minmax_from val (rt t) par s =
     Some (if nodes t = [] then par else if val < 0 then hd (nodes t) else last (nodes t))"
  using assms
proof (induction t arbitrary: k par)
  case Lf
  then show ?case by (subst rb_minmax_from.simps) simp
next
  case (Nd c l x r)
  have "rb_minmax_from val (rt l) x s =
      Some (if nodes l = [] then x else if val < 0 then hd (nodes l) else last (nodes l))"
    "rb_minmax_from val (rt r) x s =
      Some (if nodes r = [] then x else if val < 0 then hd (nodes r) else last (nodes r))"
    using Nd.IH(1) [of "LF c x r # k"] Nd.IH(2) [of "RF c l x # k"] Nd.prems
    by (simp_all add: rep_left [symmetric] rep_right [symmetric])
  then show ?case
    using rep_reads [OF Nd.prems] by (subst rb_minmax_from.simps) (auto simp: hd_append)
qed

lemma rb_minmax_correct:
  assumes "rb_valid key s xs"
  shows "RB_MINMAX val s =
     Some (if xs = [] then NULL else if val < 0 then hd xs else last xs)"
proof -
  obtain t where "rep s t []" "nodes t = xs" using assms by (auto simp: rb_valid_def)
  then show ?thesis
    using minmax_from_correct [of s t "[]" val NULL] by (simp add: RB_MINMAX_def rep_root)
qed

section \<open>In-order steps\<close>

lemma leftmost_correct: "rep s t k \<Longrightarrow> t \<noteq> Lf \<Longrightarrow> rb_leftmost (rt t) s = Some (hd (nodes t))"
proof (induction t arbitrary: k)
  case (Nd c l x r)
  have "l \<noteq> Lf \<Longrightarrow> rb_leftmost (rt l) s = Some (hd (nodes l))"
    using Nd.IH(1) [of "LF c x r # k"] Nd.prems(1) by (simp add: rep_left)
  moreover have "rt l = NULL \<longleftrightarrow> l = Lf"
    using Nd.prems(1) by (auto simp: rep_def dest: rt_NULL_iff)
  ultimately show ?case
    using rep_reads [OF Nd.prems(1)] by (subst rb_leftmost.simps) (simp add: hd_append)
qed simp

lemma rightmost_correct: "rep s t k \<Longrightarrow> t \<noteq> Lf \<Longrightarrow> rb_rightmost (rt t) s = Some (last (nodes t))"
proof (induction t arbitrary: k)
  case (Nd c l x r)
  have "r \<noteq> Lf \<Longrightarrow> rb_rightmost (rt r) s = Some (last (nodes r))"
    using Nd.IH(2) [of "RF c l x # k"] Nd.prems(1) by (simp add: rep_right)
  moreover have "rt r = NULL \<longleftrightarrow> r = Lf"
    using Nd.prems(1) by (auto simp: rep_def dest: rt_NULL_iff)
  ultimately show ?case
    using rep_reads [OF Nd.prems(1)] by (subst rb_rightmost.simps) simp
qed simp

definition first_or_null :: "addr list \<Rightarrow> addr" where
  "first_or_null xs = (case xs of [] \<Rightarrow> NULL | x # _ \<Rightarrow> x)"

lemma first_or_null_simps [simp]:
  "first_or_null [] = NULL" "first_or_null (x # xs) = x"
  "xs \<noteq> [] \<Longrightarrow> first_or_null (xs @ ys) = hd xs"
  by (simp_all add: first_or_null_def split: list.split) (metis append_is_Nil_conv hd_append list.sel(1))

lemma climb_right_correct:
  assumes "rep s t k" and "t \<noteq> Lf"
  shows "rb_climb_right (rt t) s = Some (first_or_null (ctx_post k))"
  using assms
proof (induction k arbitrary: t rule: ctx_post.induct)
  case 1
  then obtain c l x r where t: "t = Nd c l x r" by (cases t) auto
  then show ?case using rep_reads [of s c l x r "[]"] 1 by (subst rb_climb_right.simps) simp
next
  case (2 c g u k)
  then obtain c' l x r where t: "t = Nd c' l x r" by (cases t) auto
  have w: "rep s (Nd c t g u) k" using 2(2) by (simp add: rep_left)
  show ?case
    using rep_reads [OF w] rep_reads_left [OF w [unfolded t]] rep_child_neq [OF w] t
    by (subst rb_climb_right.simps) simp
next
  case (3 c u g k)
  then obtain c' l x r where t: "t = Nd c' l x r" by (cases t) auto
  have w: "rep s (Nd c u g t) k" using 3(2) by (simp add: rep_right)
  show ?case
    using rep_reads [OF w] rep_reads_right [OF w [unfolded t]] 3(1) [OF w] t
    by (subst rb_climb_right.simps) simp
qed

lemma climb_left_correct:
  assumes "rep s t k" and "t \<noteq> Lf"
  shows "rb_climb_left (rt t) s = Some (first_or_null (rev (ctx_pre k)))"
  using assms
proof (induction k arbitrary: t rule: ctx_pre.induct)
  case 1
  then obtain c l x r where t: "t = Nd c l x r" by (cases t) auto
  then show ?case using rep_reads [of s c l x r "[]"] 1 by (subst rb_climb_left.simps) simp
next
  case (2 c g u k)
  then obtain c' l x r where t: "t = Nd c' l x r" by (cases t) auto
  have w: "rep s (Nd c t g u) k" using 2(2) by (simp add: rep_left)
  show ?case
    using rep_reads [OF w] rep_reads_left [OF w [unfolded t]] 2(1) [OF w] t
    by (subst rb_climb_left.simps) simp
next
  case (3 c u g k)
  then obtain c' l x r where t: "t = Nd c' l x r" by (cases t) auto
  have w: "rep s (Nd c u g t) k" using 3(2) by (simp add: rep_right)
  show ?case
    using rep_reads [OF w] rep_reads_right [OF w [unfolded t]] rep_child_neq [OF w] t
    by (subst rb_climb_left.simps) simp
qed

text \<open>Every element of the tree is at some position.\<close>

lemma position_of:
  assumes "x \<in> set (nodes t)"
  obtains c l r k' where "fill k t = fill k' (Nd c l x r)"
  using assms
proof (induction t arbitrary: k thesis)
  case (Nd c l y r)
  consider "x = y" | "x \<in> set (nodes l)" | "x \<in> set (nodes r)" using Nd.prems(2) by auto
  then show ?case
  proof cases
    case 1
    then show ?thesis using Nd.prems(1) by blast
  next
    case 2
    then show ?thesis using Nd.IH(1) [of "LF c y r # k"] Nd.prems(1) by auto
  next
    case 3
    then show ?thesis using Nd.IH(2) [of "RF c l y # k"] Nd.prems(1) by auto
  qed
qed simp

lemma rb_valid_position:
  assumes "rb_valid key s (as @ x # bs)"
  obtains c l r k where "rep s (Nd c l x r) k" "pos_inv (Nd c l x r) k"
    "as = ctx_pre k @ nodes l" "bs = nodes r @ ctx_post k" "ordered key (as @ x # bs)"
proof -
  obtain t where t: "rep s t []" "rb_inv t" "nodes t = as @ x # bs" "ordered key (as @ x # bs)"
    using assms by (auto simp: rb_valid_def)
  obtain c l r k where k: "t = fill k (Nd c l x r)"
    using t(3) by (rule_tac position_of [of x t "[]"]) auto
  have eq: "as @ x # bs = (ctx_pre k @ nodes l) @ x # (nodes r @ ctx_post k)"
    using t(3) k by (simp add: nodes_fill)
  have d: "distinct (as @ x # bs)" using t(1,3) by (simp add: rep_def)
  then have "x \<notin> set as" "x \<notin> set bs" by auto
  then have "as = ctx_pre k @ nodes l" "bs = nodes r @ ctx_post k"
    using append_Cons_eq_iff [THEN iffD1, OF _ _ eq] by auto
  then show ?thesis
    using that t k by (simp add: rep_fill [symmetric] pos_inv_fill [symmetric])
qed

lemma rb_next_correct:
  assumes "rb_valid key s (as @ x # bs)"
  shows "RB_NEXT x s = Some (first_or_null bs)"
  using assms
proof (rule rb_valid_position)
  fix c l r k
  assume rep: "rep s (Nd c l x r) k" and bs: "bs = nodes r @ ctx_post k"
  note rd = rep_reads [OF rep]
  show ?thesis
  proof (cases "r = Lf")
    case False
    then show ?thesis
      using rd leftmost_correct [of s r "RF c l x # k"] rep rt_NULL_iff [of "rbe s" x r] bs
      by (simp add: RB_NEXT_def rep_right) (auto simp: rep_def)
  next
    case True
    have climb: "rb_climb_right x s = Some (first_or_null (ctx_post k))"
      using climb_right_correct [OF rep] by simp
    show ?thesis
    proof (cases k rule: ctx_par.cases)
      case 1
      then show ?thesis using rd True bs climb by (simp add: RB_NEXT_def)
    next
      case (2 d g u k')
      have w: "rep s (Nd d (Nd c l x r) g u) k'" using rep 2 by (simp add: rep_pop)
      show ?thesis using rd rep_reads [OF w] True bs 2 by (simp add: RB_NEXT_def)
    next
      case (3 d u g k')
      have w: "rep s (Nd d u g (Nd c l x r)) k'" using rep 3 by (simp add: rep_pop)
      show ?thesis
        using rd rep_reads [OF w] rep_child_neq [OF w] True bs 3 climb by (simp add: RB_NEXT_def)
    qed
  qed
qed

lemma rb_prev_correct:
  assumes "rb_valid key s (as @ x # bs)"
  shows "RB_PREV x s = Some (first_or_null (rev as))"
  using assms
proof (rule rb_valid_position)
  fix c l r k
  assume rep: "rep s (Nd c l x r) k" and as: "as = ctx_pre k @ nodes l"
  note rd = rep_reads [OF rep]
  show ?thesis
  proof (cases "l = Lf")
    case False
    then show ?thesis
      using rd rightmost_correct [of s l "LF c x r # k"] rep rt_NULL_iff [of "rbe s" x l] as
      by (simp add: RB_PREV_def rep_left hd_rev) (auto simp: rep_def hd_rev)
  next
    case True
    have climb: "rb_climb_left x s = Some (first_or_null (rev (ctx_pre k)))"
      using climb_left_correct [OF rep] by simp
    show ?thesis
    proof (cases k rule: ctx_par.cases)
      case 1
      then show ?thesis using rd True as climb by (simp add: RB_PREV_def)
    next
      case (2 d g u k')
      have w: "rep s (Nd d (Nd c l x r) g u) k'" using rep 2 by (simp add: rep_pop)
      show ?thesis using rd rep_reads [OF w] True as 2 climb rep_child_neq [OF w] by (simp add: RB_PREV_def)
    next
      case (3 d u g k')
      have w: "rep s (Nd d u g (Nd c l x r)) k'" using rep 3 by (simp add: rep_pop)
      show ?thesis using rd rep_reads [OF w] True as 3 by (simp add: RB_PREV_def)
    qed
  qed
qed

end
