(* ===== verification/RB_Remove.thy ===== *)
theory RB_Remove
  imports RB_Search
begin

text \<open>
  Total correctness of \<open>RB_REMOVE_COLOR\<close> and \<open>RB_REMOVE\<close>: on a valid tree no \<open>NULL\<close>
  pointer is dereferenced, the loops end, and the result is a valid tree without the
  removed element.
\<close>

section \<open>A deficient position\<close>

text \<open>The position of a tree whose black height is one less than its place requires. A red
  root of it may have red children: the loop ends there and blackens it.\<close>

fun inv_col2 :: "rbtree \<Rightarrow> bool" where
  "inv_col2 Lf \<longleftrightarrow> True"
| "inv_col2 (Nd c l x r) \<longleftrightarrow> inv_col l \<and> inv_col r"

lemma inv_col2_black: "col t = RB_BLACK \<Longrightarrow> inv_col2 t \<longleftrightarrow> inv_col t"
  by (cases t) auto

lemma inv_col2I: "inv_col t \<Longrightarrow> inv_col2 t"
  by (cases t) auto

definition del_pos :: "rbtree \<Rightarrow> frame list \<Rightarrow> bool" where
  "del_pos t k \<longleftrightarrow>
     inv_col2 t \<and> inv_height t \<and> ctx_inv_col k \<and> ctx_inv_height (bheight t + 1) k"

lemma rep_blacken:
  assumes "rep s (Nd c l x r) k"
  shows "\<exists>s'. rb_blacken x s = Some s' \<and> rep s' (Nd RB_BLACK l x r) k"
  using rep_set_color [OF assms] rep_reads(1) [OF assms] by (simp add: rb_blacken_def)

lemmas rep_blacken_left = rep_blacken [where k = "LF d g u # k" for d g u k, unfolded rep_pop]
lemmas rep_blacken_right = rep_blacken [where k = "RF d u g # k" for d g u k, unfolded rep_pop]

lemma rep_nonroot: "rep s t k \<Longrightarrow> k \<noteq> [] \<Longrightarrow> rt t \<noteq> RB_ROOT s"
proof -
  assume r: "rep s t k" and k: "k \<noteq> []"
  have "RB_ROOT s \<in> set (ctx_nodes k) - set (nodes t)"
  proof -
    have "ctx_at h root ch k \<Longrightarrow> k \<noteq> [] \<Longrightarrow> root \<in> set (ctx_nodes k)" for h root ch k
      by (induction k arbitrary: ch rule: ctx_nodes.induct) (case_tac k; auto)+
    then show ?thesis using r k by (auto simp: rep_def RB_ROOT_def)
  qed
  moreover have "NULL \<notin> set (ctx_nodes k)" using rep_nonnull [OF r] by simp
  ultimately show ?thesis by (cases t) (auto intro: gr0I)
qed

lemma blacken_whole:
  assumes "rep s t []" and "inv_col t" and "inv_height t" and "t \<noteq> Lf"
  shows "recolored (rb_blacken (RB_ROOT s) s) t"
proof -
  have "RB_ROOT s \<noteq> NULL"
    using assms(1,4) rep_root [OF assms(1)] by (cases t) (auto simp: rep_def)
  then show ?thesis using blacken_root [OF assms] by (simp add: rb_blacken_def RB_ROOT_def)
qed

lemma remove_color_exit:
  assumes rep: "rep s t k" and pos: "del_pos t k" and ex: "col t = RB_RED \<or> k = []"
  shows "recolored (RB_REMOVE_COLOR par (rt t) s) (fill k t)"
proof -
  have "RB_REMOVE_COLOR par (rt t) s = rb_blacken (rt t) s"
    using ex rep_is_black [OF rep] rep_root [of s t] rep
    by (subst RB_REMOVE_COLOR.simps) auto
  moreover have "recolored (rb_blacken (rt t) s) (fill k t)"
  proof (cases t)
    case Lf
    then show ?thesis
      using rep ex by (auto simp: recolored_def rb_blacken_def rb_inv_def)
  next
    case (Nd c l x r)
    obtain s' where "rb_blacken x s = Some s'" "rep s' (Nd RB_BLACK l x r) k"
      using rep_blacken rep Nd by blast
    moreover have "pos_inv (Nd RB_BLACK l x r) k"
      using pos ex Nd by (cases c) (auto simp: del_pos_def pos_inv_def)
    ultimately show ?thesis
      using Nd by (auto simp: recolored_def pos_inv_fill rep_fill [of _ _ k] intro!: nodes_fill_cong exI [of _ s'] exI [of _ "fill k (Nd RB_BLACK l x r)"])
  qed
  ultimately show ?thesis by simp
qed


section \<open>The deficient node is a left child\<close>

lemma red_sibling_left:
  assumes "rep s (Nd RB_BLACK t p (Nd RB_RED (Nd RB_BLACK wl v wr) w u)) k"
  shows "\<exists>s'. rb_red_sibling_left p s = Some (s', v) \<and>
              rep s' (Nd RB_BLACK (Nd RB_RED t p (Nd RB_BLACK wl v wr)) w u) k"
proof -
  obtain s1 where 1: "RB_SET_BLACKRED w p s = Some s1"
      "rep s1 (Nd RB_RED t p (Nd RB_BLACK (Nd RB_BLACK wl v wr) w u)) k"
    using set_blackred_right [OF assms] by blast
  obtain s2 where 2: "RB_ROTATE_LEFT p s1 = Some s2"
      "rep s2 (Nd RB_BLACK (Nd RB_RED t p (Nd RB_BLACK wl v wr)) w u) k"
    using rep_rotate_left [OF 1(2)] by blast
  have "RB_RIGHT s2 p = Some v" using rep_reads_left [OF 2(2)] by simp
  then show ?thesis
    using 1 2 rep_reads [OF assms] rep_reads_right [OF assms] by (simp add: rb_red_sibling_left_def)
qed

lemma red_sibling_left_black:
  assumes "rep s (Nd c t p (Nd RB_BLACK wl w wr)) k"
  shows "rb_red_sibling_left p s = Some (s, w)"
  using rep_reads [OF assms] rep_reads_right [OF assms] by (simp add: rb_red_sibling_left_def)

lemma black_sibling_left_recolor:
  assumes rep: "rep s (Nd c t p (Nd RB_BLACK wl w wr)) k"
    and "col wl = RB_BLACK" "col wr = RB_BLACK"
  shows "\<exists>s'. rb_black_sibling_left p w s = Some (s', Some (ctx_par k, p)) \<and>
              rep s' (Nd c t p (Nd RB_RED wl w wr)) k"
proof -
  obtain s1 where 1: "set_RB_COLOR w RB_RED s = Some s1" "rep s1 (Nd c t p (Nd RB_RED wl w wr)) k"
    using rep_set_color_right [OF rep] by blast
  have w: "rep s (Nd RB_BLACK wl w wr) (RF c t p # k)" using rep by (simp add: rep_pop)
  show ?thesis
    using 1 rep_reads [OF w] rep_child_col [OF w] rep_reads [OF 1(2)] assms(2,3)
    by (simp add: rb_black_sibling_left_def)
qed

text \<open>The rotation that ends the loop, when the outer nephew is red.\<close>

lemma black_sibling_left_final:
  assumes rep: "rep s (Nd c t p (Nd cw wl w (Nd RB_RED a y b))) k"
  shows "\<exists>s'. do { pc \<leftarrow> RB_COLOR s p;
                   s \<leftarrow> set_RB_COLOR w pc s;
                   s \<leftarrow> set_RB_COLOR p RB_BLACK s;
                   t' \<leftarrow> RB_RIGHT s w;
                   s \<leftarrow> rb_blacken t' s;
                   s \<leftarrow> RB_ROTATE_LEFT p s;
                   Some (s, None :: (addr \<times> addr) option) } = Some (s', None) \<and>
              rep s' (Nd c (Nd RB_BLACK t p wl) w (Nd RB_BLACK a y b)) k"
proof -
  obtain s1 where 1: "set_RB_COLOR w c s = Some s1" "rep s1 (Nd c t p (Nd c wl w (Nd RB_RED a y b))) k"
    using rep_set_color_right [OF rep] by blast
  obtain s2 where 2: "set_RB_COLOR p RB_BLACK s1 = Some s2" "rep s2 (Nd RB_BLACK t p (Nd c wl w (Nd RB_RED a y b))) k"
    using rep_set_color [OF 1(2)] by blast
  have w: "rep s2 (Nd c wl w (Nd RB_RED a y b)) (RF RB_BLACK t p # k)" using 2(2) by (simp add: rep_pop)
  obtain s3 where 3: "rb_blacken y s2 = Some s3" "rep s3 (Nd c wl w (Nd RB_BLACK a y b)) (RF RB_BLACK t p # k)"
    using rep_blacken_right [OF w] by blast
  have "rep s3 (Nd RB_BLACK t p (Nd c wl w (Nd RB_BLACK a y b))) k" using 3(2) by (simp add: rep_pop)
  then obtain s4 where 4: "RB_ROTATE_LEFT p s3 = Some s4"
      "rep s4 (Nd c (Nd RB_BLACK t p wl) w (Nd RB_BLACK a y b)) k"
    using rep_rotate_left by blast
  show ?thesis
    using 1 2 3 4 rep_reads [OF rep] rep_reads [OF w] by simp
qed

lemma black_sibling_left_outer:
  assumes rep: "rep s (Nd c t p (Nd RB_BLACK wl w (Nd RB_RED a y b))) k"
  shows "\<exists>s'. rb_black_sibling_left p w s = Some (s', None) \<and>
              rep s' (Nd c (Nd RB_BLACK t p wl) w (Nd RB_BLACK a y b)) k"
proof -
  have w: "rep s (Nd RB_BLACK wl w (Nd RB_RED a y b)) (RF c t p # k)" using rep by (simp add: rep_pop)
  show ?thesis
    using black_sibling_left_final [OF rep] rep_reads [OF w] rep_child_col [OF w]
    by (simp add: rb_black_sibling_left_def)
qed

lemma black_sibling_left_inner:
  assumes rep: "rep s (Nd c t p (Nd RB_BLACK (Nd RB_RED a y b) w wr)) k"
    and blk: "col wr = RB_BLACK"
  shows "\<exists>s'. rb_black_sibling_left p w s = Some (s', None) \<and>
              rep s' (Nd c (Nd RB_BLACK t p a) y (Nd RB_BLACK b w wr)) k"
proof -
  have w: "rep s (Nd RB_BLACK (Nd RB_RED a y b) w wr) (RF c t p # k)" using rep by (simp add: rep_pop)
  obtain s1 where 1: "rb_blacken y s = Some s1" "rep s1 (Nd RB_BLACK (Nd RB_BLACK a y b) w wr) (RF c t p # k)"
    using rep_blacken_left [OF w] by blast
  obtain s2 where 2: "set_RB_COLOR w RB_RED s1 = Some s2" "rep s2 (Nd RB_RED (Nd RB_BLACK a y b) w wr) (RF c t p # k)"
    using rep_set_color [OF 1(2)] by blast
  obtain s3 where 3: "RB_ROTATE_RIGHT w s2 = Some s3" "rep s3 (Nd RB_BLACK a y (Nd RB_RED b w wr)) (RF c t p # k)"
    using rep_rotate_right [OF 2(2)] by blast
  have r3: "rep s3 (Nd c t p (Nd RB_BLACK a y (Nd RB_RED b w wr))) k" using 3(2) by (simp add: rep_pop)
  show ?thesis
    using 1 2 3 black_sibling_left_final [OF r3] rep_reads [OF w] rep_child_col [OF w] rep_reads [OF r3] blk
    by (simp add: rb_black_sibling_left_def)
qed

lemma remove_color_left_unfold:
  assumes rep: "rep s (Nd c t p w) k" and t: "col t = RB_BLACK" and w: "w \<noteq> Lf"
  shows "RB_REMOVE_COLOR p (rt t) s =
    do { (s, tmp) \<leftarrow> rb_red_sibling_left p s;
         (s, next) \<leftarrow> rb_black_sibling_left p tmp s;
         case next of
           Some (gp, p) \<Rightarrow> RB_REMOVE_COLOR gp p s
         | None \<Rightarrow> rb_blacken (RB_ROOT s) s }"
proof -
  have r: "rep s t (LF c p w # k)" using rep by (simp add: rep_pop)
  show ?thesis
    using rep_reads [OF rep] rep_nonroot [OF r] rep_is_black [OF r] rep_child_neq [OF rep] t w
    by (subst RB_REMOVE_COLOR.simps) (simp add: split_def)
qed

text \<open>One iteration with a black sibling: the loop ends, or goes on at the parent.\<close>

lemma remove_color_left_black:
  assumes rep: "rep s (Nd c t p (Nd RB_BLACK wl w wr)) k"
    and pos: "del_pos t (LF c p (Nd RB_BLACK wl w wr) # k)" and t: "col t = RB_BLACK"
    and IH: "\<And>s t'. rep s t' k \<Longrightarrow> del_pos t' k \<Longrightarrow> rt t' = p \<Longrightarrow> col t' = c \<Longrightarrow>
               recolored (RB_REMOVE_COLOR (ctx_par k) p s) (fill k t')"
  shows "recolored (RB_REMOVE_COLOR p (rt t) s) (fill k (Nd c t p (Nd RB_BLACK wl w wr)))"
    (is "recolored ?res (fill k ?T)")
proof -
  note step = remove_color_left_unfold [OF rep t] red_sibling_left_black [OF rep]
  consider "col wl = RB_BLACK" "col wr = RB_BLACK" | a y b where "wr = Nd RB_RED a y b"
    | a y b where "wl = Nd RB_RED a y b" "col wr = RB_BLACK"
    by (cases wl; cases wr; cases "col wl"; cases "col wr") auto
  then show ?thesis
  proof cases
    case 1
    obtain s' where s': "rb_black_sibling_left p w s = Some (s', Some (ctx_par k, p))"
        "rep s' (Nd c t p (Nd RB_RED wl w wr)) k"
      using black_sibling_left_recolor [OF rep 1] by blast
    have "del_pos (Nd c t p (Nd RB_RED wl w wr)) k"
      using pos t 1 by (cases c) (auto simp: del_pos_def inv_col2_black)
    from IH [OF s'(2) this] show ?thesis
      using step s'(1) by (simp add: recolored_def nodes_fill)
  next
    case 2
    obtain s' where s': "rb_black_sibling_left p w s = Some (s', None)"
        "rep s' (Nd c (Nd RB_BLACK t p wl) w (Nd RB_BLACK a y b)) k"
      using black_sibling_left_outer [OF rep [unfolded 2]] by blast
    have "pos_inv (Nd c (Nd RB_BLACK t p wl) w (Nd RB_BLACK a y b)) k"
      using pos t 2 by (cases c) (auto simp: del_pos_def pos_inv_def inv_col2_black)
    then show ?thesis
      using step s' 2 blacken_whole [of s' "fill k (Nd c (Nd RB_BLACK t p wl) w (Nd RB_BLACK a y b))"]
      by (simp add: recolored_def nodes_fill rep_fill [of s' _ k] pos_inv_fill rb_inv_def)
  next
    case 3
    obtain s' where s': "rb_black_sibling_left p w s = Some (s', None)"
        "rep s' (Nd c (Nd RB_BLACK t p a) y (Nd RB_BLACK b w wr)) k"
      using black_sibling_left_inner [OF rep [unfolded 3(1)] 3(2)] by blast
    have "pos_inv (Nd c (Nd RB_BLACK t p a) y (Nd RB_BLACK b w wr)) k"
      using pos t 3 by (cases c) (auto simp: del_pos_def pos_inv_def inv_col2_black)
    then show ?thesis
      using step s' 3 blacken_whole [of s' "fill k (Nd c (Nd RB_BLACK t p a) y (Nd RB_BLACK b w wr))"]
      by (simp add: recolored_def nodes_fill rep_fill [of s' _ k] pos_inv_fill rb_inv_def)
  qed
qed


text \<open>One iteration with any sibling.\<close>

lemma remove_color_left:
  assumes rep: "rep s (Nd c t p w) k" and pos: "del_pos t (LF c p w # k)"
    and t: "col t = RB_BLACK"
    and IH: "\<And>s t'. rep s t' k \<Longrightarrow> del_pos t' k \<Longrightarrow> rt t' = p \<Longrightarrow>
               recolored (RB_REMOVE_COLOR (ctx_par k) p s) (fill k t')"
  shows "recolored (RB_REMOVE_COLOR p (rt t) s) (fill k (Nd c t p w))"
proof -
  have "w \<noteq> Lf" using pos by (auto simp: del_pos_def)
  then obtain cw wl x wr where w: "w = Nd cw wl x wr" by (cases w) auto
  show ?thesis
  proof (cases cw)
    case RB_BLACK
    then show ?thesis
      using remove_color_left_black [OF rep [unfolded w RB_BLACK]] pos t IH w by simp
  next
    case RB_RED
    then have "wl \<noteq> Lf" "col wl = RB_BLACK" "c = RB_BLACK" using pos w by (auto simp: del_pos_def)
    then obtain vl v vr where wl: "wl = Nd RB_BLACK vl v vr" by (cases wl) auto
    note rep1 = rep [unfolded w RB_RED wl \<open>c = RB_BLACK\<close>]
    obtain s' where s': "rb_red_sibling_left p s = Some (s', v)"
        "rep s' (Nd RB_BLACK (Nd RB_RED t p (Nd RB_BLACK vl v vr)) x wr) k"
      using red_sibling_left [OF rep1] by blast
    let ?k = "LF RB_BLACK x wr # k"
    have rep2: "rep s' (Nd RB_RED t p (Nd RB_BLACK vl v vr)) ?k"
      using s'(2) by (simp add: rep_pop)
    have "RB_REMOVE_COLOR p (rt t) s = RB_REMOVE_COLOR p (rt t) s'"
      using remove_color_left_unfold [OF rep1 t] remove_color_left_unfold [OF rep2 t]
        red_sibling_left_black [OF rep2] s'(1) by simp
    moreover have "recolored (RB_REMOVE_COLOR p (rt t) s') (fill ?k (Nd RB_RED t p (Nd RB_BLACK vl v vr)))"
    proof (rule remove_color_left_black [OF rep2 _ t])
      show "del_pos t (LF RB_RED p (Nd RB_BLACK vl v vr) # ?k)"
        using pos w wl RB_RED \<open>c = RB_BLACK\<close> t by (auto simp: del_pos_def)
    next
      fix s t'
      assume "rep s t' ?k" "del_pos t' ?k" "rt t' = p" "col t' = RB_RED"
      then show "recolored (RB_REMOVE_COLOR (ctx_par ?k) p s) (fill ?k t')"
        using remove_color_exit by blast
    qed
    ultimately show ?thesis
      using w wl RB_RED \<open>c = RB_BLACK\<close> by (simp add: recolored_def nodes_fill)
  qed
qed


section \<open>The deficient node is a right child\<close>

lemma red_sibling_right:
  assumes "rep s (Nd RB_BLACK (Nd RB_RED u w (Nd RB_BLACK wr v wl)) p t) k"
  shows "\<exists>s'. rb_red_sibling_right p s = Some (s', v) \<and>
              rep s' (Nd RB_BLACK u w (Nd RB_RED (Nd RB_BLACK wr v wl) p t)) k"
proof -
  obtain s1 where 1: "RB_SET_BLACKRED w p s = Some s1"
      "rep s1 (Nd RB_RED (Nd RB_BLACK u w (Nd RB_BLACK wr v wl)) p t) k"
    using set_blackred_left [OF assms] by blast
  obtain s2 where 2: "RB_ROTATE_RIGHT p s1 = Some s2"
      "rep s2 (Nd RB_BLACK u w (Nd RB_RED (Nd RB_BLACK wr v wl) p t)) k"
    using rep_rotate_right [OF 1(2)] by blast
  have "RB_LEFT s2 p = Some v" using rep_reads_right [OF 2(2)] by simp
  then show ?thesis
    using 1 2 rep_reads [OF assms] rep_reads_left [OF assms] by (simp add: rb_red_sibling_right_def)
qed

lemma red_sibling_right_black:
  assumes "rep s (Nd c (Nd RB_BLACK wr w wl) p t) k"
  shows "rb_red_sibling_right p s = Some (s, w)"
  using rep_reads [OF assms] rep_reads_left [OF assms] by (simp add: rb_red_sibling_right_def)

lemma black_sibling_right_recolor:
  assumes rep: "rep s (Nd c (Nd RB_BLACK wr w wl) p t) k"
    and "col wl = RB_BLACK" "col wr = RB_BLACK"
  shows "\<exists>s'. rb_black_sibling_right p w s = Some (s', Some (ctx_par k, p)) \<and>
              rep s' (Nd c (Nd RB_RED wr w wl) p t) k"
proof -
  obtain s1 where 1: "set_RB_COLOR w RB_RED s = Some s1" "rep s1 (Nd c (Nd RB_RED wr w wl) p t) k"
    using rep_set_color_left [OF rep] by blast
  have w: "rep s (Nd RB_BLACK wr w wl) (LF c p t # k)" using rep by (simp add: rep_pop)
  show ?thesis
    using 1 rep_reads [OF w] rep_child_col [OF w] rep_reads [OF 1(2)] assms(2,3)
    by (simp add: rb_black_sibling_right_def)
qed

text \<open>The rotation that ends the loop, when the outer nephew is red.\<close>

lemma black_sibling_right_final:
  assumes rep: "rep s (Nd c (Nd cw (Nd RB_RED b y a) w wl) p t) k"
  shows "\<exists>s'. do { pc \<leftarrow> RB_COLOR s p;
                   s \<leftarrow> set_RB_COLOR w pc s;
                   s \<leftarrow> set_RB_COLOR p RB_BLACK s;
                   t' \<leftarrow> RB_LEFT s w;
                   s \<leftarrow> rb_blacken t' s;
                   s \<leftarrow> RB_ROTATE_RIGHT p s;
                   Some (s, None :: (addr \<times> addr) option) } = Some (s', None) \<and>
              rep s' (Nd c (Nd RB_BLACK b y a) w (Nd RB_BLACK wl p t)) k"
proof -
  obtain s1 where 1: "set_RB_COLOR w c s = Some s1" "rep s1 (Nd c (Nd c (Nd RB_RED b y a) w wl) p t) k"
    using rep_set_color_left [OF rep] by blast
  obtain s2 where 2: "set_RB_COLOR p RB_BLACK s1 = Some s2" "rep s2 (Nd RB_BLACK (Nd c (Nd RB_RED b y a) w wl) p t) k"
    using rep_set_color [OF 1(2)] by blast
  have w: "rep s2 (Nd c (Nd RB_RED b y a) w wl) (LF RB_BLACK p t # k)" using 2(2) by (simp add: rep_pop)
  obtain s3 where 3: "rb_blacken y s2 = Some s3" "rep s3 (Nd c (Nd RB_BLACK b y a) w wl) (LF RB_BLACK p t # k)"
    using rep_blacken_left [OF w] by blast
  have "rep s3 (Nd RB_BLACK (Nd c (Nd RB_BLACK b y a) w wl) p t) k" using 3(2) by (simp add: rep_pop)
  then obtain s4 where 4: "RB_ROTATE_RIGHT p s3 = Some s4"
      "rep s4 (Nd c (Nd RB_BLACK b y a) w (Nd RB_BLACK wl p t)) k"
    using rep_rotate_right by blast
  show ?thesis
    using 1 2 3 4 rep_reads [OF rep] rep_reads [OF w] by simp
qed

lemma black_sibling_right_outer:
  assumes rep: "rep s (Nd c (Nd RB_BLACK (Nd RB_RED b y a) w wl) p t) k"
  shows "\<exists>s'. rb_black_sibling_right p w s = Some (s', None) \<and>
              rep s' (Nd c (Nd RB_BLACK b y a) w (Nd RB_BLACK wl p t)) k"
proof -
  have w: "rep s (Nd RB_BLACK (Nd RB_RED b y a) w wl) (LF c p t # k)" using rep by (simp add: rep_pop)
  show ?thesis
    using black_sibling_right_final [OF rep] rep_reads [OF w] rep_child_col [OF w]
    by (simp add: rb_black_sibling_right_def)
qed

lemma black_sibling_right_inner:
  assumes rep: "rep s (Nd c (Nd RB_BLACK wr w (Nd RB_RED b y a)) p t) k"
    and blk: "col wr = RB_BLACK"
  shows "\<exists>s'. rb_black_sibling_right p w s = Some (s', None) \<and>
              rep s' (Nd c (Nd RB_BLACK wr w b) y (Nd RB_BLACK a p t)) k"
proof -
  have w: "rep s (Nd RB_BLACK wr w (Nd RB_RED b y a)) (LF c p t # k)" using rep by (simp add: rep_pop)
  obtain s1 where 1: "rb_blacken y s = Some s1" "rep s1 (Nd RB_BLACK wr w (Nd RB_BLACK b y a)) (LF c p t # k)"
    using rep_blacken_right [OF w] by blast
  obtain s2 where 2: "set_RB_COLOR w RB_RED s1 = Some s2" "rep s2 (Nd RB_RED wr w (Nd RB_BLACK b y a)) (LF c p t # k)"
    using rep_set_color [OF 1(2)] by blast
  obtain s3 where 3: "RB_ROTATE_LEFT w s2 = Some s3" "rep s3 (Nd RB_BLACK (Nd RB_RED wr w b) y a) (LF c p t # k)"
    using rep_rotate_left [OF 2(2)] by blast
  have r3: "rep s3 (Nd c (Nd RB_BLACK (Nd RB_RED wr w b) y a) p t) k" using 3(2) by (simp add: rep_pop)
  show ?thesis
    using 1 2 3 black_sibling_right_final [OF r3] rep_reads [OF w] rep_child_col [OF w] rep_reads [OF r3] blk
    by (simp add: rb_black_sibling_right_def)
qed

lemma remove_color_right_unfold:
  assumes rep: "rep s (Nd c w p t) k" and t: "col t = RB_BLACK" and w: "w \<noteq> Lf"
  shows "RB_REMOVE_COLOR p (rt t) s =
    do { (s, tmp) \<leftarrow> rb_red_sibling_right p s;
         (s, next) \<leftarrow> rb_black_sibling_right p tmp s;
         case next of
           Some (gp, p) \<Rightarrow> RB_REMOVE_COLOR gp p s
         | None \<Rightarrow> rb_blacken (RB_ROOT s) s }"
proof -
  have r: "rep s t (RF c w p # k)" using rep by (simp add: rep_pop)
  show ?thesis
    using rep_reads [OF rep] rep_nonroot [OF r] rep_is_black [OF r] rep_child_neq [OF rep] t w
    by (subst RB_REMOVE_COLOR.simps) (simp add: split_def)
qed

text \<open>One iteration with a black sibling: the loop ends, or goes on at the parent.\<close>

lemma remove_color_right_black:
  assumes rep: "rep s (Nd c (Nd RB_BLACK wr w wl) p t) k"
    and pos: "del_pos t (RF c (Nd RB_BLACK wr w wl) p # k)" and t: "col t = RB_BLACK"
    and IH: "\<And>s t'. rep s t' k \<Longrightarrow> del_pos t' k \<Longrightarrow> rt t' = p \<Longrightarrow> col t' = c \<Longrightarrow>
               recolored (RB_REMOVE_COLOR (ctx_par k) p s) (fill k t')"
  shows "recolored (RB_REMOVE_COLOR p (rt t) s) (fill k (Nd c (Nd RB_BLACK wr w wl) p t))"
    (is "recolored ?res (fill k ?T)")
proof -
  note step = remove_color_right_unfold [OF rep t] red_sibling_right_black [OF rep]
  consider "col wl = RB_BLACK" "col wr = RB_BLACK" | a y b where "wr = Nd RB_RED a y b"
    | a y b where "wl = Nd RB_RED a y b" "col wr = RB_BLACK"
    by (cases wl; cases wr; cases "col wl"; cases "col wr") auto
  then show ?thesis
  proof cases
    case 1
    obtain s' where s': "rb_black_sibling_right p w s = Some (s', Some (ctx_par k, p))"
        "rep s' (Nd c (Nd RB_RED wr w wl) p t) k"
      using black_sibling_right_recolor [OF rep 1] by blast
    have "del_pos (Nd c (Nd RB_RED wr w wl) p t) k"
      using pos t 1 by (cases c) (auto simp: del_pos_def inv_col2_black)
    from IH [OF s'(2) this] show ?thesis
      using step s'(1) by (simp add: recolored_def nodes_fill)
  next
    case 2
    obtain s' where s': "rb_black_sibling_right p w s = Some (s', None)"
        "rep s' (Nd c (Nd RB_BLACK a y b) w (Nd RB_BLACK wl p t)) k"
      using black_sibling_right_outer [OF rep [unfolded 2]] by blast
    have "pos_inv (Nd c (Nd RB_BLACK a y b) w (Nd RB_BLACK wl p t)) k"
      using pos t 2 by (cases c) (auto simp: del_pos_def pos_inv_def inv_col2_black)
    then show ?thesis
      using step s' 2 blacken_whole [of s' "fill k (Nd c (Nd RB_BLACK a y b) w (Nd RB_BLACK wl p t))"]
      by (simp add: recolored_def nodes_fill rep_fill [of s' _ k] pos_inv_fill rb_inv_def)
  next
    case 3
    obtain s' where s': "rb_black_sibling_right p w s = Some (s', None)"
        "rep s' (Nd c (Nd RB_BLACK wr w a) y (Nd RB_BLACK b p t)) k"
      using black_sibling_right_inner [OF rep [unfolded 3(1)] 3(2)] by blast
    have "pos_inv (Nd c (Nd RB_BLACK wr w a) y (Nd RB_BLACK b p t)) k"
      using pos t 3 by (cases c) (auto simp: del_pos_def pos_inv_def inv_col2_black)
    then show ?thesis
      using step s' 3 blacken_whole [of s' "fill k (Nd c (Nd RB_BLACK wr w a) y (Nd RB_BLACK b p t))"]
      by (simp add: recolored_def nodes_fill rep_fill [of s' _ k] pos_inv_fill rb_inv_def)
  qed
qed


text \<open>One iteration with any sibling.\<close>

lemma remove_color_right:
  assumes rep: "rep s (Nd c w p t) k" and pos: "del_pos t (RF c w p # k)"
    and t: "col t = RB_BLACK"
    and IH: "\<And>s t'. rep s t' k \<Longrightarrow> del_pos t' k \<Longrightarrow> rt t' = p \<Longrightarrow>
               recolored (RB_REMOVE_COLOR (ctx_par k) p s) (fill k t')"
  shows "recolored (RB_REMOVE_COLOR p (rt t) s) (fill k (Nd c w p t))"
proof -
  have "w \<noteq> Lf" using pos by (auto simp: del_pos_def)
  then obtain cw wl x wr where w: "w = Nd cw wr x wl" by (cases w) auto
  show ?thesis
  proof (cases cw)
    case RB_BLACK
    then show ?thesis
      using remove_color_right_black [OF rep [unfolded w RB_BLACK]] pos t IH w by simp
  next
    case RB_RED
    then have "wl \<noteq> Lf" "col wl = RB_BLACK" "c = RB_BLACK" using pos w by (auto simp: del_pos_def)
    then obtain vl v vr where wl: "wl = Nd RB_BLACK vr v vl" by (cases wl) auto
    note rep1 = rep [unfolded w RB_RED wl \<open>c = RB_BLACK\<close>]
    obtain s' where s': "rb_red_sibling_right p s = Some (s', v)"
        "rep s' (Nd RB_BLACK wr x (Nd RB_RED (Nd RB_BLACK vr v vl) p t)) k"
      using red_sibling_right [OF rep1] by blast
    let ?k = "RF RB_BLACK wr x # k"
    have rep2: "rep s' (Nd RB_RED (Nd RB_BLACK vr v vl) p t) ?k"
      using s'(2) by (simp add: rep_pop)
    have "RB_REMOVE_COLOR p (rt t) s = RB_REMOVE_COLOR p (rt t) s'"
      using remove_color_right_unfold [OF rep1 t] remove_color_right_unfold [OF rep2 t]
        red_sibling_right_black [OF rep2] s'(1) by simp
    moreover have "recolored (RB_REMOVE_COLOR p (rt t) s') (fill ?k (Nd RB_RED (Nd RB_BLACK vr v vl) p t))"
    proof (rule remove_color_right_black [OF rep2 _ t])
      show "del_pos t (RF RB_RED (Nd RB_BLACK vr v vl) p # ?k)"
        using pos w wl RB_RED \<open>c = RB_BLACK\<close> t by (auto simp: del_pos_def)
    next
      fix s t'
      assume "rep s t' ?k" "del_pos t' ?k" "rt t' = p" "col t' = RB_RED"
      then show "recolored (RB_REMOVE_COLOR (ctx_par ?k) p s) (fill ?k t')"
        using remove_color_exit by blast
    qed
    ultimately show ?thesis
      using w wl RB_RED \<open>c = RB_BLACK\<close> by (simp add: recolored_def nodes_fill)
  qed
qed


section \<open>The whole fix-up\<close>

lemma remove_color_correct:
  assumes "rep s t k" and "del_pos t k"
  shows "recolored (RB_REMOVE_COLOR (ctx_par k) (rt t) s) (fill k t)"
  using assms
proof (induction k arbitrary: s t rule: ctx_nodes.induct)
  case 1
  then show ?case using remove_color_exit [of s t "[]"] by simp
next
  case (2 c p w k)
  show ?case
  proof (cases "col t")
    case RB_BLACK
    have "rep s (Nd c t p w) k" using 2(2) by (simp add: rep_pop)
    from remove_color_left [OF this 2(3) RB_BLACK] 2(1) show ?thesis by auto
  next
    case RB_RED
    then show ?thesis using remove_color_exit 2 by blast
  qed
next
  case (3 c w p k)
  show ?case
  proof (cases "col t")
    case RB_BLACK
    have "rep s (Nd c w p t) k" using 3(2) by (simp add: rep_pop)
    from remove_color_right [OF this 3(3) RB_BLACK] 3(1) show ?thesis by auto
  next
    case RB_RED
    then show ?thesis using remove_color_exit 3 by blast
  qed
qed

section \<open>Removal\<close>

text \<open>Unlinking a node with one child replaces the node by the child.\<close>

lemma rb_unlink:
  assumes rep: "rep s (Nd c l x r) k" and one: "l = Lf \<and> ch = r \<or> r = Lf \<and> ch = l"
  shows "\<exists>s1 s'. rb_set_parent_opt (rt ch) (ctx_par k) s = Some s1 \<and>
           rb_relink (ctx_par k) x (rt ch) s1 = Some s' \<and> rep s' ch k \<and> rbe s' x = rbe s x"
  using rep one rep_nonnull [OF rep]
  by (cases ch; cases k rule: ctx_par.cases)
    (auto simp: rep_def rb_relink_def rb_set_parent_opt_def ptr_simps heap_frame)

lemma del_pos_child:
  assumes "pos_inv (Nd RB_BLACK l x r) k" and "l = Lf \<and> ch = r \<or> r = Lf \<and> ch = l"
  shows "del_pos ch k"
  using assms by (auto simp: pos_inv_def del_pos_def inv_col2I)

lemma pos_inv_child:
  assumes "pos_inv (Nd RB_RED l x r) k" and "l = Lf \<and> ch = r \<or> r = Lf \<and> ch = l"
  shows "pos_inv ch k"
  using assms by (auto simp: pos_inv_def)

lemma remove_finish:
  assumes "rep s ch k" and "c = RB_BLACK \<Longrightarrow> del_pos ch k" and "c = RB_RED \<Longrightarrow> pos_inv ch k"
  shows "recolored (if c = RB_BLACK then RB_REMOVE_COLOR (ctx_par k) (rt ch) s else Some s) (fill k ch)"
proof (cases c)
  case RB_BLACK
  then show ?thesis using remove_color_correct assms by simp
next
  case RB_RED
  then show ?thesis using assms by (auto simp: recolored_def pos_inv_fill rep_fill [of s ch k])
qed

lemma rb_remove_one_child:
  assumes val: "rep s (Nd c l x r) k" "pos_inv (Nd c l x r) k"
    and one: "l = Lf \<or> r = Lf"
  shows "\<exists>s' t'. RB_REMOVE x s = Some (x, s') \<and> rep s' t' [] \<and> rb_inv t' \<and>
           nodes t' = ctx_pre k @ nodes l @ nodes r @ ctx_post k"
proof -
  define ch where "ch = (if l = Lf then r else l)"
  have ch: "l = Lf \<and> ch = r \<or> r = Lf \<and> ch = l" using one by (auto simp: ch_def)
  have nul: "rt l = NULL \<longleftrightarrow> l = Lf" "rt r = NULL \<longleftrightarrow> r = Lf"
    using val(1) by (auto simp: rep_def dest: rt_NULL_iff)
  obtain s1 s2 where s2: "rb_set_parent_opt (rt ch) (ctx_par k) s = Some s1"
      "rb_relink (ctx_par k) x (rt ch) s1 = Some s2" "rep s2 ch k"
    using rb_unlink [OF val(1) ch] by blast
  have "recolored (if c = RB_BLACK then RB_REMOVE_COLOR (ctx_par k) (rt ch) s2 else Some s2) (fill k ch)"
    using val(2) by (intro remove_finish [OF s2(3)]) (auto intro: del_pos_child [OF _ ch] pos_inv_child [OF _ ch])
  then obtain s3 t' where s3: "(if c = RB_BLACK then RB_REMOVE_COLOR (ctx_par k) (rt ch) s2 else Some s2) = Some s3"
      "rep s3 t' []" "rb_inv t'" "nodes t' = nodes (fill k ch)"
    by (auto simp: recolored_def)
  have "(if rt l = NULL then rt r else rt l) = rt ch" using nul ch by (auto simp: ch_def)
  then have "RB_REMOVE x s = Some (x, s3)"
    using rep_reads [OF val(1)] nul one s2(1,2) s3(1) by (auto simp: RB_REMOVE_def Let_def)
  then show ?thesis using s3(2-4) ch by (auto simp: nodes_fill)
qed

text \<open>A node with two children: its in-order successor takes its place.\<close>

lemma fill_append: "fill (k1 @ k2) t = fill k2 (fill k1 t)"
  by (induction k1 t rule: fill.induct) auto

lemma leftmost_split:
  assumes "t \<noteq> Lf"
  obtains k c y r where "t = fill k (Nd c Lf y r)" "ctx_pre k = []"
proof -
  have "\<exists>k c y r. t = fill k (Nd c Lf y r) \<and> ctx_pre k = []" using assms
  proof (induction t)
    case (Nd c l x r)
    show ?case
    proof (cases "l = Lf")
      case True
      then show ?thesis by (intro exI [of _ "[]"] exI) auto
    next
      case False
      with Nd.IH(1) obtain k c' y r' where "l = fill k (Nd c' Lf y r')" "ctx_pre k = []" by blast
      moreover have "ctx_pre (k @ [LF c x r]) = ctx_pre k" for k
        by (induction k rule: ctx_pre.induct) auto
      ultimately show ?thesis
        by (intro exI [of _ "k @ [LF c x r]"] exI) (auto simp: fill_append)
    qed
  qed simp
  then show ?thesis using that by blast
qed

lemma ctx_pre_append: "ctx_pre (k1 @ k2) = ctx_pre k2 @ ctx_pre k1"
  by (induction k1 rule: ctx_pre.induct) auto

lemma ctx_post_append: "ctx_post (k1 @ k2) = ctx_post k1 @ ctx_post k2"
  by (induction k1 rule: ctx_post.induct) auto

lemma ctx_nodes_append: "ctx_nodes (k1 @ k2) = ctx_nodes k1 @ ctx_nodes k2"
  by (induction k1 rule: ctx_nodes.induct) auto

lemma ctx_relabel:
  "ctx_col (kl @ RF c l x # k) = ctx_col (kl @ RF c l y # k)"
  "ctx_inv_col (kl @ RF c l x # k) = ctx_inv_col (kl @ RF c l y # k)"
  "ctx_inv_height n (kl @ RF c l x # k) = ctx_inv_height n (kl @ RF c l y # k)"
proof -
  show A: "ctx_col (kl @ RF c l x # k) = ctx_col (kl @ RF c l y # k)" for kl
    by (cases kl rule: ctx_col.cases) auto
  show "ctx_inv_col (kl @ RF c l x # k) = ctx_inv_col (kl @ RF c l y # k)"
    by (induction kl rule: ctx_inv_col.induct) (auto simp: A)
  show "ctx_inv_height n (kl @ RF c l x # k) = ctx_inv_height n (kl @ RF c l y # k)"
    by (induction n kl rule: ctx_inv_height.induct) auto
qed

lemma pos_relabel:
  "del_pos t (kl @ RF c l x # k) = del_pos t (kl @ RF c l y # k)"
  "pos_inv t (kl @ RF c l x # k) = pos_inv t (kl @ RF c l y # k)"
  by (simp_all add: del_pos_def pos_inv_def ctx_relabel(1,2) [of kl c l x k y]
      ctx_relabel(3) [of _ kl c l x k y])

lemma tree_at_cong: "(\<And>p. p \<in> set (nodes t) \<Longrightarrow> h p = h' p) \<Longrightarrow> tree_at h par t = tree_at h' par t"
  by (induction t arbitrary: par) auto

lemma ctx_at_cong:
  "(\<And>p. p \<in> set (ctx_nodes k) \<Longrightarrow> h p = h' p) \<Longrightarrow> ctx_at h root ch k = ctx_at h' root ch k"
  by (induction k arbitrary: ch rule: ctx_nodes.induct) (auto cong: tree_at_cong)

text \<open>The parts of \<open>rb_takeover\<close>: the context gets the new child, a subtree the new parent.\<close>

lemma relink_ctx:
  assumes "ctx_at (rbe s) (rbh_root s) x k" "distinct (ctx_nodes k)" "x \<notin> set (ctx_nodes k)"
    and "x \<noteq> NULL"
  shows "\<exists>s'. rb_relink (ctx_par k) x y s = Some s' \<and> ctx_at (rbe s') (rbh_root s') y k \<and>
           (\<forall>p. p \<notin> set (ctx_nodes k) \<longrightarrow> rbe s' p = rbe s p)"
proof (cases k rule: ctx_par.cases)
  case (3 c l z k')
  then have "rt l \<noteq> x" using assms by (cases l) (auto dest: ctx_at_nonnull)
  then show ?thesis using 3 assms by (auto simp: rb_relink_def ptr_simps heap_frame)
qed (use assms in \<open>auto simp: rb_relink_def ptr_simps heap_frame\<close>)

lemma set_parent_tree:
  assumes "tree_at (rbe s) par t" "distinct (nodes t)"
  shows "\<exists>s'. rb_set_parent_opt (rt t) par' s = Some s' \<and> tree_at (rbe s') par' t \<and>
           rbh_root s' = rbh_root s \<and> (\<forall>p. p \<notin> set (nodes t) \<longrightarrow> rbe s' p = rbe s p)"
  using assms by (cases t) (auto simp: rb_set_parent_opt_def ptr_simps heap_frame)


lemma rb_takeover_correct:
  assumes rep: "rep s (Nd c l x q) k" and l: "l \<noteq> Lf"
    and y: "y \<noteq> NULL" "y \<notin> set (nodes (Nd c l x q) @ ctx_nodes k)" "rbe s y = Some ey"
  shows "\<exists>s'. rb_takeover x y s = Some s' \<and> rep s' (Nd c l y q) k"
proof -
  let ?e = "\<lparr>rbe_left = rt l, rbe_right = rt q, rbe_parent = ctx_par k, rbe_color = c\<rparr>"
  have x: "x \<noteq> NULL" "rbe s x = Some ?e" and dist: "distinct (nodes (Nd c l x q) @ ctx_nodes k)"
    and at: "tree_at (rbe s) x l" "tree_at (rbe s) x q" "ctx_at (rbe s) (rbh_root s) x k"
    using rep by (auto simp: rep_def)
  obtain s1 where s1: "rb_update (\<lambda>_. ?e) y s = Some s1" "rbe s1 = (rbe s)(y \<mapsto> ?e)"
      "rbh_root s1 = rbh_root s"
    using y that [of "s\<lparr>rbe := (rbe s)(y \<mapsto> ?e)\<rparr>"] by (simp add: ptr_simps)
  have "ctx_at (rbe s1) (rbh_root s1) x k" using at(3) y(2) s1 by (simp add: heap_frame)
  then obtain s2 where s2: "rb_relink (ctx_par k) x y s1 = Some s2" "ctx_at (rbe s2) (rbh_root s2) y k"
      "\<forall>p. p \<notin> set (ctx_nodes k) \<longrightarrow> rbe s2 p = rbe s1 p"
    using relink_ctx [of s1 x k y] dist x(1) by auto
  have "tree_at (rbe s2) x l"
    using at(1) y(2) dist s1(2) s2(3) by (subst tree_at_cong [where h' = "rbe s"]) auto
  then obtain s3 where s3: "rb_set_parent_opt (rt l) y s2 = Some s3" "tree_at (rbe s3) y l"
      "rbh_root s3 = rbh_root s2" "\<forall>p. p \<notin> set (nodes l) \<longrightarrow> rbe s3 p = rbe s2 p"
    using set_parent_tree [of s2 x l y] dist by auto
  have "rbe s3 p = rbe s p" if "p \<in> set (nodes q)" for p
  proof -
    have "p \<notin> set (nodes l)" "p \<notin> set (ctx_nodes k)" "p \<noteq> y" using that dist y(2) by auto
    then show ?thesis using s1(2) s2(3) s3(4) by simp
  qed
  then have "tree_at (rbe s3) x q" using at(2) tree_at_cong [of q "rbe s3" "rbe s" x] by simp
  then obtain s4 where s4: "rb_set_parent_opt (rt q) y s3 = Some s4" "tree_at (rbe s4) y q"
      "rbh_root s4 = rbh_root s3" "\<forall>p. p \<notin> set (nodes q) \<longrightarrow> rbe s4 p = rbe s3 p"
    using set_parent_tree [of s3 x q y] dist by auto
  have l0: "rt l \<noteq> NULL" using l at(1) by (simp add: rt_NULL_iff)
  have yx: "y \<noteq> x" using y(2) by auto
  have rd: "rbe s1 x = Some ?e" "rbe s2 x = Some ?e" "rbe s3 x = Some ?e"
    using s1(2) s2(3) s3(4) x(2) dist yx by auto
  have ry: "rbe s4 y = Some ?e" using y(2) s1(2) s2(3) s3(4) s4(4) by auto
  have run: "rb_takeover x y s = Some s4"
    using x rd s1(1) s2(1) s3(1) s4(1) l0 by (simp add: rb_takeover_def rb_set_parent_opt_def rb_access)
  have "tree_at (rbe s4) y l"
    using s3(2) s4(4) dist by (subst tree_at_cong [where h' = "rbe s3"]) auto
  moreover have "rbe s4 p = rbe s2 p" if "p \<in> set (ctx_nodes k)" for p
  proof -
    have "p \<notin> set (nodes l)" "p \<notin> set (nodes q)" using that dist by auto
    then show ?thesis using s3(4) s4(4) by simp
  qed
  then have "ctx_at (rbe s4) (rbh_root s4) y k"
    using s2(2) s3(3) s4(3) ctx_at_cong [of k "rbe s4" "rbe s2" "rbh_root s4" y] by simp
  ultimately show ?thesis using run ry s4(2) y dist by (auto simp: rep_def)
qed

lemma augment_walk: "rep s t k \<Longrightarrow> k \<noteq> [] \<Longrightarrow> rb_augment_walk (ctx_par k) s = Some ()"
proof (induction k arbitrary: t rule: ctx_nodes.induct)
  case (2 c x r k)
  have r: "rep s (Nd c t x r) k" using 2(2) by (simp add: rep_pop)
  then show ?case
    using rep_reads [OF r] 2(1) [OF r] by (cases "k = []") (subst rb_augment_walk.simps; simp)+
next
  case (3 c l x k)
  have r: "rep s (Nd c l x t) k" using 3(2) by (simp add: rep_pop)
  then show ?case
    using rep_reads [OF r] 3(1) [OF r] by (cases "k = []") (subst rb_augment_walk.simps; simp)+
qed simp

lemma RB_REMOVE_two_children:
  assumes "RB_LEFT s old = Some l" "RB_RIGHT s old = Some r" "l \<noteq> NULL" "r \<noteq> NULL"
    and "rb_leftmost r s = Some elm" "RB_RIGHT s elm = Some child" "RB_PARENT s elm = Some parent"
    and "RB_COLOR s elm = Some color"
    and "rb_set_parent_opt child parent s = Some s1" "rb_relink parent elm child s1 = Some s2"
    and "RB_PARENT s2 elm = Some ep" "parent' = (if ep = old then elm else parent)"
    and "rb_takeover old elm s2 = Some s3" "parent' \<noteq> NULL" "rb_augment_walk parent' s3 = Some ()"
    and "(if color = RB_BLACK then RB_REMOVE_COLOR parent' child s3 else Some s3) = Some s4"
  shows "RB_REMOVE old s = Some (old, s4)"
  using assms by (auto simp: RB_REMOVE_def Let_def)

lemma rb_remove_two_children:
  assumes val: "rep s (Nd c l x r) k" "pos_inv (Nd c l x r) k"
    and two: "l \<noteq> Lf" "r \<noteq> Lf"
  shows "\<exists>s' t'. RB_REMOVE x s = Some (x, s') \<and> rep s' t' [] \<and> rb_inv t' \<and>
           nodes t' = ctx_pre k @ nodes l @ nodes r @ ctx_post k"
proof -
  obtain kl cs y yr where r: "r = fill kl (Nd cs Lf y yr)" "ctx_pre kl = []"
    using leftmost_split [OF two(2)] by blast
  let ?kx = "kl @ RF c l x # k" and ?ky = "kl @ RF c l y # k"
  have nul: "rt l \<noteq> NULL" "rt r \<noteq> NULL"
    using val(1) two by (auto simp: rep_def rt_NULL_iff)
  have whole: "fill ?kx (Nd cs Lf y yr) = fill k (Nd c l x r)" by (simp add: fill_append r)
  have repy: "rep s (Nd cs Lf y yr) ?kx"
    using val(1) whole rep_fill [of s _ ?kx] rep_fill [of s _ k] by simp
  have posy: "pos_inv (Nd cs Lf y yr) ?kx"
    using val(2) whole pos_inv_fill [of _ ?kx] pos_inv_fill [of _ k] by simp
  have lm: "rb_leftmost (rt r) s = Some y"
    using leftmost_correct [of s r "RF c l x # k"] val(1) two r by (simp add: rep_pop nodes_fill)
  obtain s1 s2 where s2: "rb_set_parent_opt (rt yr) (ctx_par ?kx) s = Some s1"
      "rb_relink (ctx_par ?kx) y (rt yr) s1 = Some s2" "rep s2 yr ?kx" "rbe s2 y = rbe s y"
    using rb_unlink [OF repy, of yr] by blast
  have ep: "RB_PARENT s2 y = Some (ctx_par ?kx)"
    using rep_reads(1,4) [OF repy] s2(4) by (simp add: ptr_simps)
  have par: "ctx_par ?ky = (if ctx_par ?kx = x then y else ctx_par ?kx)"
    using repy by (cases kl rule: ctx_par.cases) (auto simp: rep_def ctx_nodes_append)
  have rep2: "rep s2 (Nd c l x (fill kl yr)) k"
    using s2(3) rep_fill [of s2 _ ?kx] rep_fill [of s2 _ k] by (simp add: fill_append)
  obtain ey where ey: "rbe s2 y = Some ey" using repy s2(4) by (auto simp: rep_def)
  have fresh: "y \<notin> set (nodes (Nd c l x (fill kl yr)) @ ctx_nodes k)"
    using val(1) r by (auto simp: rep_def nodes_fill)
  obtain s3 where s3: "rb_takeover x y s2 = Some s3" "rep s3 (Nd c l y (fill kl yr)) k"
    using rb_takeover_correct [OF rep2 two(1) rep_reads(1) [OF repy] fresh ey] by blast
  have rep3: "rep s3 yr ?ky"
    using s3(2) rep_fill [of s3 _ ?ky] rep_fill [of s3 _ k] by (simp add: fill_append)
  have walk: "rb_augment_walk (ctx_par ?ky) s3 = Some ()" by (rule augment_walk [OF rep3]) simp
  have "recolored (if cs = RB_BLACK then RB_REMOVE_COLOR (ctx_par ?ky) (rt yr) s3 else Some s3) (fill ?ky yr)"
    using posy del_pos_child [of Lf y yr ?kx yr] pos_inv_child [of Lf y yr ?kx yr]
    by (intro remove_finish [OF rep3]) (auto simp: pos_relabel [of _ kl c l x k y])
  then obtain s4 t' where s4:
      "(if cs = RB_BLACK then RB_REMOVE_COLOR (ctx_par ?ky) (rt yr) s3 else Some s3) = Some s4"
      "rep s4 t' []" "rb_inv t'" "nodes t' = nodes (fill ?ky yr)"
    by (auto simp: recolored_def)
  have nn: "ctx_par ?ky \<noteq> NULL"
    using rep3 ctx_par_NULL_iff [of "rbe s3" "rbh_root s3" "rt yr" ?ky] by (auto simp: rep_def)
  have "RB_REMOVE x s = Some (x, s4)"
    using RB_REMOVE_two_children [OF rep_reads(2,3) [OF val(1)] nul lm _ _ _ s2(1,2) ep par s3(1) nn walk s4(1)]
      rep_reads(3-5) [OF repy] by simp
  then show ?thesis
    using s4(2-4) r by (auto simp: nodes_fill ctx_pre_append ctx_post_append)
qed

text \<open>Removal from a valid tree.\<close>

lemma ordered_remove: "ordered key (as @ x # bs) \<Longrightarrow> ordered key (as @ bs)"
  by (auto simp: ordered_append ordered_Cons)

lemma rb_remove_correct:
  assumes "rb_valid key s (as @ x # bs)"
  shows "\<exists>s'. RB_REMOVE x s = Some (x, s') \<and> rb_valid key s' (as @ bs)"
  using assms
proof (rule rb_valid_position)
  fix c l r k
  assume rep: "rep s (Nd c l x r) k" "pos_inv (Nd c l x r) k"
    and eq: "as = ctx_pre k @ nodes l" "bs = nodes r @ ctx_post k"
    and ord: "ordered key (as @ x # bs)"
  have "\<exists>s' t'. RB_REMOVE x s = Some (x, s') \<and> rep s' t' [] \<and> rb_inv t' \<and> nodes t' = as @ bs"
    using rb_remove_one_child [OF rep] rb_remove_two_children [OF rep] eq by fastforce
  then show ?thesis using ordered_remove [OF ord] by (auto simp: rb_valid_def)
qed

end
