(* ===== verification/RB_Set.thy ===== *)
theory RB_Set
  imports RB_Remove
begin

text \<open>
  The interface between the red-black tree and its clients: a locale that states what an
  ordered set of elements promises on lookup, insertion and removal, its interpretation on
  the macros of \<^verbatim>\<open>nty_tree.h\<close>, and whole runs of tree operations against the
  specification on finite sets.
\<close>

section \<open>The interface\<close>

locale ordered_set =
  fixes valid :: "(addr \<Rightarrow> int) \<Rightarrow> 'h \<Rightarrow> addr list \<Rightarrow> bool"
    and find_op :: "(addr \<Rightarrow> int option) \<Rightarrow> 'h \<Rightarrow> addr option"
    and insert_op :: "(addr \<Rightarrow> int option) \<Rightarrow> addr \<Rightarrow> 'h \<Rightarrow> (addr \<times> 'h) option"
    and remove_op :: "addr \<Rightarrow> 'h \<Rightarrow> (addr \<times> 'h) option"
  assumes valid_ordered: "valid key s xs \<Longrightarrow> ordered key xs"
    and valid_nonnull: "valid key s xs \<Longrightarrow> NULL \<notin> set xs"
    and find_law: "valid key s xs \<Longrightarrow> cmp_for cmp key q (set xs) \<Longrightarrow>
      find_op cmp s = Some (ptr_or NULL (find (\<lambda>p. key p = q) xs))"
    and insert_present_law: "valid key s xs \<Longrightarrow> cmp_for cmp key q (set xs) \<Longrightarrow>
      p \<in> set xs \<Longrightarrow> key p = q \<Longrightarrow> insert_op cmp elm s = Some (p, s)"
    and insert_fresh_law: "valid key s xs \<Longrightarrow> cmp_for cmp key (key elm) (set xs) \<Longrightarrow>
      elm \<noteq> NULL \<Longrightarrow> elm \<notin> set xs \<Longrightarrow> key elm \<notin> key ` set xs \<Longrightarrow>
      \<exists>s' ys. insert_op cmp elm s = Some (NULL, s') \<and> valid key s' ys \<and>
        set ys = insert elm (set xs)"
    and remove_law: "valid key s xs \<Longrightarrow> x \<in> set xs \<Longrightarrow>
      \<exists>s' ys. remove_op x s = Some (x, s') \<and> valid key s' ys \<and> set ys = set xs - {x}"
begin

lemma key_inj: "valid key s xs \<Longrightarrow> p \<in> set xs \<Longrightarrow> p' \<in> set xs \<Longrightarrow> key p = key p' \<Longrightarrow> p = p'"
  using valid_ordered [of key s xs]
  by (auto simp: ordered_def sorted_wrt_iff_nth_less in_set_conv_nth)
    (metis less_irrefl nat_neq_iff)

lemma find_present:
  assumes "valid key s xs" "cmp_for cmp key (key p) (set xs)" "p \<in> set xs"
  shows "find_op cmp s = Some p"
proof (cases "find (\<lambda>p'. key p' = key p) xs")
  case None
  then show ?thesis using assms(3) by (auto simp: find_None_iff)
next
  case (Some p')
  then have "p' \<in> set xs" "key p' = key p" by (auto simp: find_Some_iff)
  then show ?thesis using find_law [OF assms(1,2)] Some key_inj [OF assms(1)] assms(3) by simp
qed

lemma find_absent:
  assumes "valid key s xs" "cmp_for cmp key q (set xs)" "q \<notin> key ` set xs"
  shows "find_op cmp s = Some NULL"
proof -
  have "find (\<lambda>p. key p = q) xs = None" using assms(3) by (auto simp: find_None_iff)
  then show ?thesis using find_law [OF assms(1,2)] by simp
qed

lemma find_result:
  assumes "valid key s xs" "cmp_for cmp key q (set xs)"
  obtains p where "find_op cmp s = Some p" "p \<noteq> NULL" "p \<in> set xs" "key p = q"
    | "find_op cmp s = Some NULL" "q \<notin> key ` set xs"
proof (cases "q \<in> key ` set xs")
  case True
  then obtain p where "p \<in> set xs" "key p = q" by auto
  then show ?thesis using that(1) [of p] find_present [of key s xs cmp p] assms valid_nonnull by metis
next
  case False
  then show ?thesis using that(2) find_absent [OF assms] by blast
qed

text \<open>What a lookup returns after an insertion and after a removal.\<close>

lemma find_after_insert:
  assumes "valid key s xs" "cmp_for cmp key (key elm) (insert elm (set xs))"
    and "elm \<noteq> NULL" "elm \<notin> set xs" "key elm \<notin> key ` set xs"
  shows "\<exists>s'. insert_op cmp elm s = Some (NULL, s') \<and> find_op cmp s' = Some elm"
proof -
  obtain s' ys where s': "insert_op cmp elm s = Some (NULL, s')" "valid key s' ys"
      "set ys = insert elm (set xs)"
    using insert_fresh_law [OF assms(1) _ assms(3-5)] cmp_for_subset [OF assms(2)] by blast
  then show ?thesis using find_present [OF s'(2), of cmp elm] assms(2) by simp
qed

lemma find_after_remove:
  assumes "valid key s xs" "cmp_for cmp key (key x) (set xs)" "x \<in> set xs"
  shows "\<exists>s'. remove_op x s = Some (x, s') \<and> find_op cmp s' = Some NULL"
proof -
  obtain s' ys where s': "remove_op x s = Some (x, s')" "valid key s' ys" "set ys = set xs - {x}"
    using remove_law [OF assms(1,3)] by blast
  moreover have "key x \<notin> key ` set ys" using s'(3) key_inj [OF assms(1)] assms(3) by blast
  ultimately show ?thesis
    using find_absent [OF s'(2) cmp_for_subset [OF assms(2)]] by blast
qed

end

interpretation rbs: ordered_set rb_valid RB_FIND RB_INSERT RB_REMOVE
proof
  show "ordered key xs" if "rb_valid key s xs" for key s xs
    using that by (auto simp: rb_valid_def)
  show "NULL \<notin> set xs" if "rb_valid key s xs" for key s xs
    using that rep_nonnull by (fastforce simp: rb_valid_def)
  show "RB_FIND cmp s = Some (ptr_or NULL (find (\<lambda>p. key p = q) xs))"
    if "rb_valid key s xs" "cmp_for cmp key q (set xs)" for key s xs cmp q
    by (rule rb_find_correct [OF that])
  show "RB_INSERT cmp elm s = Some (p, s)"
    if "rb_valid key s xs" "cmp_for cmp key q (set xs)" "p \<in> set xs" "key p = q"
    for key s xs cmp q p elm
    by (rule rb_insert_present [OF that])
  show "\<exists>s' ys. RB_INSERT cmp elm s = Some (NULL, s') \<and> rb_valid key s' ys \<and>
      set ys = insert elm (set xs)"
    if "rb_valid key s xs" "cmp_for cmp key (key elm) (set xs)" "elm \<noteq> NULL" "elm \<notin> set xs"
      "key elm \<notin> key ` set xs" for key s xs cmp elm
    using rb_insert_fresh [OF that] by fastforce
  show "\<exists>s' ys. RB_REMOVE x s = Some (x, s') \<and> rb_valid key s' ys \<and> set ys = set xs - {x}"
    if val: "rb_valid key s xs" and x: "x \<in> set xs" for key s xs x
  proof -
    obtain as bs where xs: "xs = as @ x # bs" using split_list [OF x] by blast
    have "distinct xs" using val by (auto simp: rb_valid_def rep_def)
    then have "set (as @ bs) = set xs - {x}" by (auto simp: xs)
    then show ?thesis using rb_remove_correct [of key s as x bs] val xs by blast
  qed
qed

section \<open>Runs of operations\<close>

text \<open>The comparison function of the epoll tree, on the descriptors of two elements.\<close>

definition sockfd_cmp :: "int \<Rightarrow> int \<Rightarrow> int" where
  "sockfd_cmp fd1 fd2 = (if fd1 < fd2 then - 1 else if fd1 = fd2 then 0 else 1)"

lemma cmp_for_sockfd_cmp:
  "(\<And>p. p \<in> A \<Longrightarrow> cmp p = Some (sockfd_cmp q (key p))) \<Longrightarrow> cmp_for cmp key q A"
  by (auto simp: cmp_for_def sockfd_cmp_def)

text \<open>
  Clients insert an element they own and remove what a lookup found. \<open>rb_op_step\<close> runs one
  such operation on the heap, \<open>set_op_step\<close> on the set of elements.
\<close>

datatype rb_op = Ins addr | Del int

fun rb_op_step :: "(addr \<Rightarrow> int) \<Rightarrow> rb_op \<Rightarrow> rb_head \<Rightarrow> rb_head option" where
  "rb_op_step key (Ins e) s =
     map_option snd (RB_INSERT (\<lambda>p. Some (sockfd_cmp (key e) (key p))) e s)"
| "rb_op_step key (Del q) s =
     do { p \<leftarrow> RB_FIND (\<lambda>p. Some (sockfd_cmp q (key p))) s;
          if p = NULL then Some s else map_option snd (RB_REMOVE p s) }"

fun rb_ops :: "(addr \<Rightarrow> int) \<Rightarrow> rb_op list \<Rightarrow> rb_head \<Rightarrow> rb_head option" where
  "rb_ops key [] s = Some s"
| "rb_ops key (opn # opns) s = do { s \<leftarrow> rb_op_step key opn s; rb_ops key opns s }"

fun set_op_step :: "(addr \<Rightarrow> int) \<Rightarrow> rb_op \<Rightarrow> addr set \<Rightarrow> addr set" where
  "set_op_step key (Ins e) A = (if key e \<in> key ` A then A else insert e A)"
| "set_op_step key (Del q) A = {p \<in> A. key p \<noteq> q}"

fun op_ok :: "rb_op \<Rightarrow> bool" where
  "op_ok (Ins e) = (e \<noteq> NULL)"
| "op_ok (Del q) = True"

lemma rb_op_step_correct:
  assumes "rb_valid key s xs" and "op_ok opn"
  shows "\<exists>s' ys. rb_op_step key opn s = Some s' \<and> rb_valid key s' ys \<and>
           set ys = set_op_step key opn (set xs)"
proof (cases opn)
  case (Ins e)
  let ?cmp = "\<lambda>p. Some (sockfd_cmp (key e) (key p))"
  have cmp: "cmp_for ?cmp key (key e) A" for A by (rule cmp_for_sockfd_cmp) simp
  show ?thesis
  proof (cases "key e \<in> key ` set xs")
    case True
    then obtain p where "p \<in> set xs" "key p = key e" by auto
    then have "rb_op_step key opn s = Some s"
      using rbs.insert_present_law [OF assms(1) cmp] Ins by simp
    then show ?thesis using True assms(1) Ins by auto
  next
    case False
    then show ?thesis using rbs.insert_fresh_law [OF assms(1) cmp] Ins assms(2) by fastforce
  qed
next
  case (Del q)
  let ?cmp = "\<lambda>p. Some (sockfd_cmp q (key p))"
  have cmp: "cmp_for ?cmp key q A" for A by (rule cmp_for_sockfd_cmp) simp
  show ?thesis using assms(1) cmp
  proof (cases rule: rbs.find_result)
    case (1 p)
    have "set xs - {p} = {p \<in> set xs. key p \<noteq> q}"
      using 1(3,4) rbs.key_inj [OF assms(1)] by auto
    then show ?thesis using rbs.remove_law [OF assms(1) 1(3)] 1(1,2) Del by fastforce
  next
    case 2
    then have "rb_op_step key opn s = Some s" "set_op_step key opn (set xs) = set xs"
      using Del by auto
    then show ?thesis using assms(1) by auto
  qed
qed

text \<open>C1: any sequence of insertions and keyed removals, starting from an initialised tree,
  returns (no crash, no endless loop) and leaves a valid red-black tree that holds exactly
  the elements the specification on sets predicts.\<close>

theorem rb_ops_refine_sets:
  assumes "\<forall>opn\<in>set opns. op_ok opn"
  shows "\<exists>s' xs. rb_ops key opns (RB_INIT s) = Some s' \<and> rb_valid key s' xs \<and>
           set xs = fold (set_op_step key) opns {}"
proof -
  have "\<exists>s' ys. rb_ops key opns s = Some s' \<and> rb_valid key s' ys \<and>
          set ys = fold (set_op_step key) opns (set xs)"
    if "rb_valid key s xs" "\<forall>opn\<in>set opns. op_ok opn" for s xs
    using that
  proof (induction opns arbitrary: s xs)
    case (Cons opn opns)
    obtain s1 ys where s1: "rb_op_step key opn s = Some s1" "rb_valid key s1 ys"
        "set ys = set_op_step key opn (set xs)"
      using rb_op_step_correct [OF Cons.prems(1), of opn] Cons.prems(2) by (auto simp del: rb_op_step.simps)
    show ?case using Cons.IH [OF s1(2)] Cons.prems(2) s1 by simp
  qed auto
  from this [OF rb_valid_RB_INIT assms] show ?thesis by simp
qed

lemma rb_ops_refine_sets_witness:
  "\<exists>s' xs. rb_ops int [Ins 5, Ins 3, Ins 8, Ins 1, Del 5, Ins 9, Del 7]
       (RB_INIT \<lparr>rbe = Map.empty, rbh_root = 77\<rparr>) = Some s' \<and>
     rb_valid int s' xs \<and> set xs = {3, 8, 1, 9}"
proof -
  have "\<forall>opn\<in>set [Ins 5, Ins 3, Ins 8, Ins 1, Del 5, Ins 9, Del 7]. op_ok opn" by simp
  moreover have "fold (set_op_step int) [Ins 5, Ins 3, Ins 8, Ins 1, Del 5, Ins 9, Del 7] {} =
      {3, 8, 1, 9}" by (auto simp: image_iff)
  ultimately show ?thesis
    using rb_ops_refine_sets [of "[Ins 5, Ins 3, Ins 8, Ins 1, Del 5, Ins 9, Del 7]" int
        "\<lparr>rbe = Map.empty, rbh_root = 77\<rparr>"] by (simp only:)
qed

section \<open>Iteration\<close>

text \<open>\<open>RB_FOREACH\<close>: the elements the loop visits, in order, from the minimum on.\<close>

partial_function (option) rb_foreach_from :: "addr \<Rightarrow> rb_head \<Rightarrow> addr list option" where
  "rb_foreach_from x s =
     (if x = NULL then Some []
      else do { n \<leftarrow> RB_NEXT x s; ys \<leftarrow> rb_foreach_from n s; Some (x # ys) })"

definition RB_FOREACH :: "rb_head \<Rightarrow> addr list option" where
  "RB_FOREACH s = do { x \<leftarrow> RB_MINMAX (- 1) s; rb_foreach_from x s }"

lemma rb_foreach_from_correct:
  "rb_valid key s (as @ bs) \<Longrightarrow> rb_foreach_from (first_or_null bs) s = Some bs"
proof (induction bs arbitrary: as)
  case Nil
  then show ?case by (subst rb_foreach_from.simps) simp
next
  case (Cons x bs)
  have "x \<noteq> NULL" using rbs.valid_nonnull [OF Cons.prems] by auto
  moreover have "rb_foreach_from (first_or_null bs) s = Some bs"
    using Cons.IH [of "as @ [x]"] Cons.prems by simp
  ultimately show ?case
    using rb_next_correct [OF Cons.prems] by (subst rb_foreach_from.simps) simp
qed

text \<open>C10: iterating over a valid tree ends and visits every element exactly once, in
  ascending order of the keys.\<close>

theorem rb_foreach_sorted:
  assumes "rb_valid key s xs"
  shows "RB_FOREACH s = Some xs \<and> sorted_wrt (<) (map key xs) \<and> distinct xs"
proof -
  have "RB_MINMAX (- 1) s = Some (first_or_null xs)"
    using rb_minmax_correct [OF assms, of "- 1"] by (cases xs) auto
  moreover have "sorted_wrt (<) (map key xs)"
    using rbs.valid_ordered [OF assms] by (simp add: ordered_def)
  moreover have "distinct xs" using assms by (auto simp: rb_valid_def rep_def)
  ultimately show ?thesis
    using rb_foreach_from_correct [of key s "[]" xs] assms by (simp add: RB_FOREACH_def)
qed

definition rb_example :: rb_head where
  "rb_example =
     \<lparr>rbe = [2 \<mapsto> \<lparr>rbe_left = 1, rbe_right = 3, rbe_parent = 0, rbe_color = RB_BLACK\<rparr>,
             1 \<mapsto> \<lparr>rbe_left = 0, rbe_right = 0, rbe_parent = 2, rbe_color = RB_RED\<rparr>,
             3 \<mapsto> \<lparr>rbe_left = 0, rbe_right = 0, rbe_parent = 2, rbe_color = RB_RED\<rparr>],
      rbh_root = 2\<rparr>"

lemma rb_example_valid: "rb_valid int rb_example [1, 2, 3]"
  unfolding rb_valid_def
  by (rule exI [of _ "Nd RB_BLACK (Nd RB_RED Lf 1 Lf) 2 (Nd RB_RED Lf 3 Lf)"])
    (simp add: rb_example_def rep_def rb_inv_def ordered_def)

lemma rb_foreach_sorted_witness: "RB_FOREACH rb_example = Some [1, 2, 3]"
  using rb_foreach_sorted [OF rb_example_valid] by simp

end
