(* ===== verification/Linked_List.thy ===== *)
theory Linked_List
  imports Prelude
begin

text \<open>
  The intrusive doubly linked lists of the stack: the macros \<open>LL_ADD\<close> and \<open>LL_REMOVE\<close>
  on a heap of \<open>prev\<close>/\<open>next\<close> cells and the \<open>for (iter = head; iter != NULL; iter =
  iter->next)\<close> search loop, and their refinement to lists. The ARP table, the UDP hosts and
  the TCP control blocks are kept in such lists; the theories of these components use the
  list view that the interface of this theory justifies.
\<close>

section \<open>The macros\<close>

record ll_entry =
  ll_prev :: addr
  ll_next :: addr

type_synonym ll_heap = "addr \<rightharpoonup> ll_entry"

definition ll_deref :: "ll_heap \<Rightarrow> addr \<Rightarrow> ll_entry option" where
  "ll_deref h p = (if p = NULL then None else h p)"

definition set_prev :: "addr \<Rightarrow> addr \<Rightarrow> ll_heap \<Rightarrow> ll_heap option" where
  "set_prev p v h = map_option (\<lambda>e. h(p \<mapsto> e\<lparr>ll_prev := v\<rparr>)) (ll_deref h p)"

definition set_next :: "addr \<Rightarrow> addr \<Rightarrow> ll_heap \<Rightarrow> ll_heap option" where
  "set_next p v h = map_option (\<lambda>e. h(p \<mapsto> e\<lparr>ll_next := v\<rparr>)) (ll_deref h p)"

text \<open>The macros assign to the variable \<open>list\<close>; its new value is part of the result.\<close>

definition LL_ADD :: "addr \<Rightarrow> addr \<Rightarrow> ll_heap \<Rightarrow> (addr \<times> ll_heap) option" where
  "LL_ADD item list h =
     do { h \<leftarrow> set_prev item NULL h;
          h \<leftarrow> set_next item list h;
          h \<leftarrow> (if list \<noteq> NULL then set_prev list item h else Some h);
          Some (item, h) }"

definition LL_REMOVE :: "addr \<Rightarrow> addr \<Rightarrow> ll_heap \<Rightarrow> (addr \<times> ll_heap) option" where
  "LL_REMOVE item list h =
     do { e \<leftarrow> ll_deref h item;
          h \<leftarrow> (if ll_prev e \<noteq> NULL then set_next (ll_prev e) (ll_next e) h else Some h);
          e \<leftarrow> ll_deref h item;
          h \<leftarrow> (if ll_next e \<noteq> NULL then set_prev (ll_next e) (ll_prev e) h else Some h);
          e \<leftarrow> ll_deref h item;
          let list = (if list = item then ll_next e else list);
          h \<leftarrow> set_next item NULL h;
          h \<leftarrow> set_prev item NULL h;
          Some (list, h) }"

partial_function (option) ll_search :: "(addr \<Rightarrow> bool) \<Rightarrow> addr \<Rightarrow> ll_heap \<Rightarrow> addr option" where
  "ll_search P iter h =
     (if iter = NULL then Some NULL
      else if P iter then Some iter
      else do { e \<leftarrow> ll_deref h iter; ll_search P (ll_next e) h })"

section \<open>Lists in the heap\<close>

definition hd_or_null :: "addr list \<Rightarrow> addr" where
  "hd_or_null xs = (case xs of [] \<Rightarrow> NULL | x # _ \<Rightarrow> x)"

lemma hd_or_null_simps [simp]: "hd_or_null [] = NULL" "hd_or_null (x # xs) = x"
  by (simp_all add: hd_or_null_def)

lemma hd_or_null_append [simp]: "hd_or_null (xs @ ys) = (if xs = [] then hd_or_null ys else hd xs)"
  by (cases xs) auto

fun dll :: "ll_heap \<Rightarrow> addr \<Rightarrow> addr list \<Rightarrow> bool" where
  "dll h pv [] \<longleftrightarrow> True"
| "dll h pv (x # xs) \<longleftrightarrow>
     x \<noteq> NULL \<and> h x = Some \<lparr>ll_prev = pv, ll_next = hd_or_null xs\<rparr> \<and> dll h x xs"

definition ll_valid :: "ll_heap \<Rightarrow> addr \<Rightarrow> addr list \<Rightarrow> bool" where
  "ll_valid h list xs \<longleftrightarrow> list = hd_or_null xs \<and> dll h NULL xs \<and> distinct xs"

lemma dll_upd [simp]: "p \<notin> set xs \<Longrightarrow> dll (h(p := e)) pv xs = dll h pv xs"
  by (induction xs arbitrary: pv) auto

lemma dll_nonnull: "dll h pv xs \<Longrightarrow> x \<in> set xs \<Longrightarrow> x \<noteq> NULL"
  by (induction xs arbitrary: pv) auto

text \<open>A segment: the list up to a position, whose last cell points to \<open>nx\<close>.\<close>

fun dseg :: "ll_heap \<Rightarrow> addr \<Rightarrow> addr list \<Rightarrow> addr \<Rightarrow> bool" where
  "dseg h pv [] nx \<longleftrightarrow> True"
| "dseg h pv (x # xs) nx \<longleftrightarrow>
     x \<noteq> NULL \<and> h x = Some \<lparr>ll_prev = pv, ll_next = (if xs = [] then nx else hd xs)\<rparr> \<and>
     dseg h x xs nx"

definition last_or :: "addr \<Rightarrow> addr list \<Rightarrow> addr" where
  "last_or pv xs = (if xs = [] then pv else last xs)"

lemma last_or_simps [simp]: "last_or pv [] = pv" "last_or pv (x # xs) = last_or x xs"
  by (simp_all add: last_or_def)

lemma dseg_upd [simp]: "p \<notin> set xs \<Longrightarrow> dseg (h(p := e)) pv xs nx = dseg h pv xs nx"
  by (induction xs arbitrary: pv) auto

lemma dll_append: "dll h pv (xs @ ys) \<longleftrightarrow> dseg h pv xs (hd_or_null ys) \<and> dll h (last_or pv xs) ys"
  by (induction xs arbitrary: pv) auto

lemma dseg_snoc:
  "dseg h pv (xs @ [z]) nx \<longleftrightarrow> dseg h pv xs z \<and> z \<noteq> NULL \<and>
     h z = Some \<lparr>ll_prev = last_or pv xs, ll_next = nx\<rparr>"
  by (induction xs arbitrary: pv) (auto simp: hd_append)

section \<open>The interface\<close>

locale linked_seq =
  fixes valid :: "'h \<Rightarrow> addr \<Rightarrow> addr list \<Rightarrow> bool"
    and owned :: "'h \<Rightarrow> addr \<Rightarrow> bool"
    and add :: "addr \<Rightarrow> addr \<Rightarrow> 'h \<Rightarrow> (addr \<times> 'h) option"
    and remove :: "addr \<Rightarrow> addr \<Rightarrow> 'h \<Rightarrow> (addr \<times> 'h) option"
    and search :: "(addr \<Rightarrow> bool) \<Rightarrow> addr \<Rightarrow> 'h \<Rightarrow> addr option"
  assumes add_law: "valid h list xs \<Longrightarrow> owned h x \<Longrightarrow> x \<notin> set xs \<Longrightarrow>
      \<exists>list' h'. add x list h = Some (list', h') \<and> valid h' list' (x # xs)"
    and remove_law: "valid h list xs \<Longrightarrow> x \<in> set xs \<Longrightarrow>
      \<exists>list' h'. remove x list h = Some (list', h') \<and> valid h' list' (remove1 x xs) \<and> owned h' x"
    and search_law: "valid h list xs \<Longrightarrow>
      search P list h = Some (case find P xs of None \<Rightarrow> NULL | Some x \<Rightarrow> x)"
    and valid_distinct: "valid h list xs \<Longrightarrow> distinct xs"
begin

text \<open>An added element is found first, a removed one no longer, and removing what was just
  added restores the list.\<close>

lemma search_after_add:
  assumes "valid h list xs" "owned h x" "x \<notin> set xs" "P x"
  shows "\<exists>list' h'. add x list h = Some (list', h') \<and> search P list' h' = Some x"
  using add_law [OF assms(1-3)] search_law assms(4) by fastforce

lemma add_remove:
  assumes "valid h list xs" "owned h x" "x \<notin> set xs"
  shows "\<exists>l1 h1 l2 h2. add x list h = Some (l1, h1) \<and> remove x l1 h1 = Some (l2, h2) \<and>
           valid h2 l2 xs"
proof -
  obtain l1 h1 where a: "add x list h = Some (l1, h1)" "valid h1 l1 (x # xs)"
    using add_law [OF assms] by blast
  then show ?thesis using remove_law [OF a(2), of x] by auto
qed

lemma remove_members:
  assumes "valid h list xs" "x \<in> set xs"
  shows "\<exists>list' h' ys. remove x list h = Some (list', h') \<and> valid h' list' ys \<and>
           set ys = set xs - {x}"
  using remove_law [OF assms] valid_distinct [OF assms(1)] by (metis set_remove1_eq)

end

lemma LL_ADD_correct:
  assumes "ll_valid h list xs" "x \<noteq> NULL" "h x \<noteq> None" "x \<notin> set xs"
  shows "\<exists>h'. LL_ADD x list h = Some (x, h') \<and> ll_valid h' x (x # xs)"
  using assms by (cases xs) (auto simp: ll_valid_def LL_ADD_def set_prev_def set_next_def ll_deref_def)

lemma LL_REMOVE_correct:
  assumes "ll_valid h list (as @ x # bs)"
  shows "\<exists>h'. LL_REMOVE x list h = Some (hd_or_null (as @ bs), h') \<and>
           ll_valid h' (hd_or_null (as @ bs)) (as @ bs) \<and> h' x = Some \<lparr>ll_prev = NULL, ll_next = NULL\<rparr>"
proof (cases as rule: rev_cases)
  case Nil
  then show ?thesis using assms
    by (cases bs) (auto simp: ll_valid_def LL_REMOVE_def set_prev_def set_next_def ll_deref_def)
next
  case (snoc as' z)
  have hd: "hd (as' @ [z]) \<noteq> x" "as' \<noteq> [] \<Longrightarrow> hd as' \<noteq> x"
    using assms snoc by (cases as'; auto simp: ll_valid_def)+
  show ?thesis using assms hd unfolding snoc
    by (cases bs) (auto simp: ll_valid_def LL_REMOVE_def set_prev_def set_next_def ll_deref_def
        dll_append dseg_snoc last_or_def hd_append)
qed

lemma ll_search_correct:
  "dll h pv xs \<Longrightarrow> ll_search P (hd_or_null xs) h = Some (case find P xs of None \<Rightarrow> NULL | Some x \<Rightarrow> x)"
proof (induction xs arbitrary: pv)
  case Nil
  then show ?case by (subst ll_search.simps) simp
next
  case (Cons x xs)
  then have "ll_search P (hd_or_null xs) h = Some (case find P xs of None \<Rightarrow> NULL | Some x \<Rightarrow> x)"
    by auto
  then show ?case using Cons.prems by (subst ll_search.simps) (simp add: ll_deref_def)
qed

definition ll_owned :: "ll_heap \<Rightarrow> addr \<Rightarrow> bool" where
  "ll_owned h x \<longleftrightarrow> x \<noteq> NULL \<and> h x \<noteq> None"

interpretation ll: linked_seq ll_valid ll_owned LL_ADD LL_REMOVE ll_search
proof
  show "\<exists>list' h'. LL_ADD x list h = Some (list', h') \<and> ll_valid h' list' (x # xs)"
    if "ll_valid h list xs" "ll_owned h x" "x \<notin> set xs" for h list xs x
    using LL_ADD_correct [OF that(1), of x] that(2,3) by (auto simp: ll_owned_def)
  show "\<exists>list' h'. LL_REMOVE x list h = Some (list', h') \<and> ll_valid h' list' (remove1 x xs) \<and>
      ll_owned h' x"
    if v: "ll_valid h list xs" and x: "x \<in> set xs" for h list xs x
  proof -
    obtain as bs where xs: "xs = as @ x # bs" "x \<notin> set as" using split_list_first [OF x] by blast
    moreover have "x \<noteq> NULL" using v x dll_nonnull by (auto simp: ll_valid_def)
    moreover have "remove1 x xs = as @ bs" using xs by (simp add: remove1_append)
    ultimately show ?thesis using LL_REMOVE_correct [of h list as x bs] v
      by (fastforce simp: ll_owned_def)
  qed
  show "ll_search P list h = Some (case find P xs of None \<Rightarrow> NULL | Some x \<Rightarrow> x)"
    if "ll_valid h list xs" for h list xs P
    using ll_search_correct that by (auto simp: ll_valid_def)
  show "distinct xs" if "ll_valid h list xs" for h list xs
    using that by (simp add: ll_valid_def)
qed

text \<open>unlinking an element from the middle, the front or the end of a list with
  \<open>LL_REMOVE\<close> leaves a well-formed list of exactly the other elements in their order, from
  which every search loop returns the first match, and clears the links of the element.\<close>

theorem ll_remove_refines_remove1:
  assumes "ll_valid h list xs" and "x \<in> set xs"
  shows "\<exists>list' h'. LL_REMOVE x list h = Some (list', h') \<and> ll_valid h' list' (remove1 x xs) \<and>
           (\<forall>P. ll_search P list' h' =
                Some (case find P (remove1 x xs) of None \<Rightarrow> NULL | Some y \<Rightarrow> y))"
  using ll.remove_law [OF assms] ll.search_law by blast

lemma ll_remove_refines_remove1_witness:
  "\<exists>list' h'. LL_REMOVE 2 1 [1 \<mapsto> \<lparr>ll_prev = 0, ll_next = 2\<rparr>, 2 \<mapsto> \<lparr>ll_prev = 1, ll_next = 3\<rparr>,
       3 \<mapsto> \<lparr>ll_prev = 2, ll_next = 0\<rparr>] = Some (list', h') \<and> ll_valid h' list' [1, 3]"
proof -
  have "ll_valid [1 \<mapsto> \<lparr>ll_prev = 0, ll_next = 2\<rparr>, 2 \<mapsto> \<lparr>ll_prev = 1, ll_next = 3\<rparr>,
       3 \<mapsto> \<lparr>ll_prev = 2, ll_next = 0\<rparr>] 1 [1, 2, 3]" by (simp add: ll_valid_def)
  from ll_remove_refines_remove1 [OF this, of 2] show ?thesis by auto
qed

end
