(* ===== verification/Fd_Bitmap.thy ===== *)
theory Fd_Bitmap
  imports Prelude
begin

text \<open>
  The descriptor bitmap of the socket layer: \<open>get_fd_frombitmap\<close> and \<open>set_fd_frombitmap\<close>
  on the byte array \<open>fd_table\<close>, their specification as an allocator of numbers, and the
  interface of such an allocator for the socket calls.
\<close>

section \<open>The bitmap\<close>

definition DEFAULT_FD_NUM :: nat where "DEFAULT_FD_NUM = 3"
definition MAX_FD_COUNT :: nat where "MAX_FD_COUNT = 1024"

text \<open>\<open>static unsigned char fd_table[MAX_FD_COUNT]\<close>: one byte per descriptor is reserved,
  although the code uses one bit of it.\<close>

type_synonym fd_table = "u8 list"

definition fd_table_init :: fd_table where
  "fd_table_init = replicate MAX_FD_COUNT 0"

definition fd_free :: "fd_table \<Rightarrow> nat \<Rightarrow> bool" where
  "fd_free t fd \<longleftrightarrow> (t ! (fd div 8)) AND push_bit (fd mod 8) 1 = 0"

function get_fd_loop :: "nat \<Rightarrow> fd_table \<Rightarrow> int \<times> fd_table" where
  "get_fd_loop fd t =
     (if fd < MAX_FD_COUNT then
        (if fd_free t fd
         then (int fd, t[fd div 8 := (t ! (fd div 8)) OR push_bit (fd mod 8) 1])
         else get_fd_loop (fd + 1) t)
      else (- 1, t))"
  by auto
termination
  by (relation "measure (\<lambda>(fd, t). MAX_FD_COUNT - fd)") auto

declare get_fd_loop.simps [simp del]

definition get_fd_frombitmap :: "fd_table \<Rightarrow> int \<times> fd_table" where
  "get_fd_frombitmap t = get_fd_loop DEFAULT_FD_NUM t"

text \<open>A negative descriptor passes the only check; the shift by \<open>fd % 8\<close> or the index
  \<open>fd / 8\<close> is then negative, which is undefined.\<close>

definition set_fd_frombitmap :: "int \<Rightarrow> fd_table \<Rightarrow> (int \<times> fd_table) option" where
  "set_fd_frombitmap fd t =
     (if fd \<ge> int MAX_FD_COUNT then Some (- 1, t)
      else if fd < 0 then None
      else let n = nat fd in
        Some (0, t[n div 8 := (t ! (n div 8)) AND NOT (push_bit (n mod 8) 1)]))"

section \<open>The set of descriptors in use\<close>

definition fd_wf :: "fd_table \<Rightarrow> bool" where
  "fd_wf t \<longleftrightarrow> length t = MAX_FD_COUNT"

definition fd_used :: "fd_table \<Rightarrow> nat set" where
  "fd_used t = {fd. fd < MAX_FD_COUNT \<and> bit (t ! (fd div 8)) (fd mod 8)}"

definition fd_range :: "nat set" where
  "fd_range = {DEFAULT_FD_NUM..<MAX_FD_COUNT}"

lemma bit_two_power: "k < 8 \<Longrightarrow> bit (2 ^ k :: u8) j \<longleftrightarrow> j = k"
  by (auto simp: bit_exp_iff)

lemma fd_free_iff: "fd_free t fd \<longleftrightarrow> \<not> bit (t ! (fd div 8)) (fd mod 8)"
  by (simp add: fd_free_def and_exp_eq_0_iff_not_bit)

lemma same_bit_iff: "(fd::nat) div 8 = n div 8 \<Longrightarrow> fd mod 8 = n mod 8 \<Longrightarrow> fd = n"
  by (metis div_mult_mod_eq)

lemma fd_wf_init: "fd_wf fd_table_init"
  by (simp add: fd_wf_def fd_table_init_def)

lemma fd_used_init: "fd_used fd_table_init = {}"
  by (auto simp: fd_used_def fd_table_init_def MAX_FD_COUNT_def)

text \<open>A write to one byte that changes one bit changes the set by that descriptor.\<close>

lemma fd_used_update:
  assumes "fd_wf t" "n < MAX_FD_COUNT"
    and w: "\<And>j. j < 8 \<Longrightarrow> bit w j \<longleftrightarrow> (if j = n mod 8 then b else bit (t ! (n div 8)) j)"
  shows "fd_used (t[n div 8 := w]) = (if b then insert n (fd_used t) else fd_used t - {n})"
proof -
  have len: "n div 8 < length t" using assms(1,2) by (simp add: fd_wf_def MAX_FD_COUNT_def)
  have "bit (t[n div 8 := w] ! (fd div 8)) (fd mod 8) \<longleftrightarrow>
      (if fd = n then b else bit (t ! (fd div 8)) (fd mod 8))" for fd
  proof (cases "fd div 8 = n div 8")
    case True
    then show ?thesis using w [of "fd mod 8"] len same_bit_iff [of fd n] by auto
  next
    case False
    then show ?thesis by auto
  qed
  then show ?thesis using assms(2) by (auto simp: fd_used_def)
qed

lemma fd_used_set_bit:
  assumes "fd_wf t" "n < MAX_FD_COUNT"
  shows "fd_used (t[n div 8 := (t ! (n div 8)) OR push_bit (n mod 8) 1]) = insert n (fd_used t)"
  using fd_used_update [OF assms, of "(t ! (n div 8)) OR 2 ^ (n mod 8)" True]
  by (auto simp: bit_or_iff bit_two_power)

lemma fd_used_clear_bit:
  assumes "fd_wf t" "n < MAX_FD_COUNT"
  shows "fd_used (t[n div 8 := (t ! (n div 8)) AND NOT (push_bit (n mod 8) 1)]) = fd_used t - {n}"
  using fd_used_update [OF assms, of "(t ! (n div 8)) AND NOT (2 ^ (n mod 8))" False]
  by (auto simp: bit_and_iff bit_not_iff bit_two_power)

lemma get_fd_loop_correct:
  assumes "fd_wf t" "get_fd_loop n t = (fd, t')"
  shows "(\<exists>m. fd = int m \<and> n \<le> m \<and> m < MAX_FD_COUNT \<and> m \<notin> fd_used t \<and> {n..<m} \<subseteq> fd_used t \<and>
            fd_wf t' \<and> fd_used t' = insert m (fd_used t)) \<or>
         fd = - 1 \<and> t' = t \<and> {n..<MAX_FD_COUNT} \<subseteq> fd_used t"
  using assms
proof (induction n t rule: get_fd_loop.induct)
  case (1 n t)
  consider "n \<ge> MAX_FD_COUNT" | "n < MAX_FD_COUNT" "fd_free t n" | "n < MAX_FD_COUNT" "\<not> fd_free t n"
    by linarith
  then show ?case
  proof cases
    case 1
    then show ?thesis using \<open>get_fd_loop n t = (fd, t')\<close> by (simp add: get_fd_loop.simps)
  next
    case 2
    then have "fd = int n" "t' = t[n div 8 := (t ! (n div 8)) OR push_bit (n mod 8) 1]"
      using \<open>get_fd_loop n t = (fd, t')\<close> by (simp_all add: get_fd_loop.simps [of n])
    then show ?thesis using fd_used_set_bit [OF \<open>fd_wf t\<close> 2(1)] 2 \<open>fd_wf t\<close>
      by (auto simp: fd_wf_def fd_free_iff fd_used_def)
  next
    case 3
    then have r: "get_fd_loop (n + 1) t = (fd, t')"
      using \<open>get_fd_loop n t = (fd, t')\<close> by (simp add: get_fd_loop.simps [of n])
    have n: "n \<in> fd_used t" using 3 by (simp add: fd_used_def fd_free_iff)
    have split: "{n..<m} \<subseteq> insert n {n + 1..<m}" for m by auto
    from "1.IH" [OF 3 \<open>fd_wf t\<close> r] show ?thesis
      using n split by (elim disjE exE) (blast dest: Suc_leD | auto)+
  qed
qed

section \<open>The interface\<close>

locale id_allocator =
  fixes wf :: "'t \<Rightarrow> bool" and used :: "'t \<Rightarrow> nat set" and range :: "nat set"
    and get :: "'t \<Rightarrow> int \<times> 't" and put :: "int \<Rightarrow> 't \<Rightarrow> (int \<times> 't) option"
  assumes get_law: "wf t \<Longrightarrow> get t = (fd, t') \<Longrightarrow>
      (\<exists>n\<in>range. fd = int n \<and> n \<notin> used t \<and> (\<forall>m\<in>range. m < n \<longrightarrow> m \<in> used t) \<and>
         wf t' \<and> used t' = insert n (used t)) \<or>
      fd = - 1 \<and> t' = t \<and> range \<subseteq> used t"
    and put_law: "wf t \<Longrightarrow> n \<in> range \<Longrightarrow>
      \<exists>t'. put (int n) t = Some (0, t') \<and> wf t' \<and> used t' = used t - {n}"
begin

lemma get_result:
  assumes "wf t" "get t = (fd, t')"
  obtains n where "n \<in> range" "fd = int n" "n \<notin> used t" "wf t'" "used t' = insert n (used t)"
    | "fd = - 1" "t' = t" "range \<subseteq> used t"
  using get_law [OF assms] by blast

lemma get_wf: "wf t \<Longrightarrow> wf (snd (get t))"
  using get_law [of t "fst (get t)" "snd (get t)"] by auto

text \<open>\<open>k\<close> calls in a row; every successful call returns another descriptor.\<close>

fun gets :: "nat \<Rightarrow> 't \<Rightarrow> int list \<times> 't" where
  "gets 0 t = ([], t)"
| "gets (Suc k) t = (let (fd, t) = get t; (fds, t) = gets k t in (fd # fds, t))"

lemma gets_fresh:
  "wf t \<Longrightarrow> gets k t = (fds, t') \<Longrightarrow>
    wf t' \<and> used t \<subseteq> used t' \<and> distinct (filter (\<lambda>fd. fd \<noteq> - 1) fds) \<and>
    (\<forall>fd\<in>set fds. fd \<noteq> - 1 \<longrightarrow> nat fd \<in> range \<and> nat fd \<notin> used t \<and> nat fd \<in> used t' \<and> fd \<ge> 0)"
proof (induction k arbitrary: t fds)
  case (Suc k)
  obtain fd t1 fds1 where g: "get t = (fd, t1)" "gets k t1 = (fds1, t')" "fds = fd # fds1"
    using Suc.prems(2) by (auto split: prod.splits)
  show ?case
  proof (cases rule: get_result [OF Suc.prems(1) g(1)])
    case (1 n)
    have "fd \<noteq> - 1" using 1(2) by simp
    moreover have "fd \<notin> set fds1" using Suc.IH [OF 1(4) g(2)] 1(2,5) by (auto simp: ball_conj_distrib)
    ultimately show ?thesis using Suc.IH [OF 1(4) g(2)] 1 g(3) by auto
  next
    case 2
    then show ?thesis using Suc.IH [of t1 fds1] Suc.prems(1) g by auto
  qed
qed auto

text \<open>Without releases the allocator runs dry.\<close>

lemma gets_exhaust:
  "finite range \<Longrightarrow> wf t \<Longrightarrow> card (range - used t) \<le> k \<Longrightarrow> range \<subseteq> used (snd (gets k t))"
proof (induction k arbitrary: t)
  case (Suc k)
  obtain fd t1 where g: "get t = (fd, t1)" by fastforce
  have step: "snd (gets (Suc k) t) = snd (gets k t1)" using g by (simp split: prod.splits)
  show ?case
  proof (cases rule: get_result [OF Suc.prems(2) g])
    case (1 n)
    then have "range - used t1 = (range - used t) - {n}" "n \<in> range - used t" by auto
    then have "card (range - used t1) < card (range - used t)"
      using Suc.prems(1) by (metis card_Diff1_less finite_Diff)
    then show ?thesis using Suc.IH [OF Suc.prems(1) 1(4)] Suc.prems(3) step by simp
  next
    case 2
    have e: "range - used t = {}" using 2(3) by blast
    have "range \<subseteq> used (snd (gets k t))"
      by (rule Suc.IH [OF Suc.prems(1,2)]) (simp only: e card.empty le0)
    then show ?thesis using step 2(2) by simp
  qed
qed auto

text \<open>A returned descriptor is the next one to be handed out when it is the smallest free.\<close>

lemma put_then_get:
  assumes "wf t" "n \<in> range" "\<forall>m\<in>range. m < n \<longrightarrow> m \<in> used t"
  shows "\<exists>t1 t2. put (int n) t = Some (0, t1) \<and> get t1 = (int n, t2) \<and>
           used t2 = insert n (used t)"
proof -
  obtain t1 where t1: "put (int n) t = Some (0, t1)" "wf t1" "used t1 = used t - {n}"
    using put_law [OF assms(1,2)] by blast
  obtain fd t2 where g: "get t1 = (fd, t2)" by fastforce
  show ?thesis
    using get_law [OF t1(2) g]
  proof (elim disjE bexE conjE)
    fix m assume m: "m \<in> range" "fd = int m" "m \<notin> used t1" "\<forall>i\<in>range. i < m \<longrightarrow> i \<in> used t1"
      "used t2 = insert m (used t1)"
    have "m = n" using m(1,3,4) assms(2,3) t1(3) by (metis DiffD2 DiffI insertI1 linorder_neqE_nat singletonD)
    then show ?thesis using t1 g m by auto
  qed (use assms(2) t1(3) in auto)
qed

end

interpretation fds: id_allocator fd_wf fd_used fd_range get_fd_frombitmap set_fd_frombitmap
proof
  show "(\<exists>n\<in>fd_range. fd = int n \<and> n \<notin> fd_used t \<and> (\<forall>m\<in>fd_range. m < n \<longrightarrow> m \<in> fd_used t) \<and>
         fd_wf t' \<and> fd_used t' = insert n (fd_used t)) \<or>
      fd = - 1 \<and> t' = t \<and> fd_range \<subseteq> fd_used t"
    if "fd_wf t" "get_fd_frombitmap t = (fd, t')" for t fd t'
    using get_fd_loop_correct [OF that(1), of DEFAULT_FD_NUM fd t'] that(2)
    by (fastforce simp: get_fd_frombitmap_def fd_range_def)
  show "\<exists>t'. set_fd_frombitmap (int n) t = Some (0, t') \<and> fd_wf t' \<and> fd_used t' = fd_used t - {n}"
    if "fd_wf t" "n \<in> fd_range" for t n
    using fd_used_clear_bit [OF that(1), of n] that
    by (auto simp: set_fd_frombitmap_def fd_range_def fd_wf_def Let_def)
qed

section \<open>Properties\<close>

lemma fd_table_first:
  "get_fd_frombitmap fd_table_init = (3, fd_table_init[0 := 8])"
  by (simp add: get_fd_frombitmap_def get_fd_loop.simps fd_free_def fd_table_init_def
      MAX_FD_COUNT_def DEFAULT_FD_NUM_def)

text \<open>C9: the bitmap hands out the smallest free descriptor between 3 and 1023 and marks
  exactly it as used; when none is free it returns -1 and changes nothing.\<close>

theorem get_fd_lowest_free:
  assumes "fd_wf t"
  shows "case get_fd_frombitmap t of (fd, t') \<Rightarrow>
     (if fd_range \<subseteq> fd_used t then fd = - 1 \<and> t' = t
      else fd = int (LEAST n. n \<in> fd_range \<and> n \<notin> fd_used t) \<and> fd_wf t' \<and>
           fd_used t' = insert (nat fd) (fd_used t))"
proof -
  obtain fd t' where g: "get_fd_frombitmap t = (fd, t')" by fastforce
  have least: "(LEAST m. m \<in> fd_range \<and> m \<notin> fd_used t) = n"
    if "n \<in> fd_range" "n \<notin> fd_used t" "\<forall>m\<in>fd_range. m < n \<longrightarrow> m \<in> fd_used t" for n
    using that by (intro Least_equality) (auto simp: not_less [symmetric])
  show ?thesis using fds.get_law [OF assms g] least g by auto
qed

lemma get_fd_lowest_free_witness:
  "fst (get_fd_frombitmap fd_table_init) = 3 \<and> fd_used (snd (get_fd_frombitmap fd_table_init)) = {3}"
proof -
  have "(LEAST n. n \<in> fd_range \<and> n \<notin> fd_used fd_table_init) = 3"
    by (rule Least_equality) (auto simp: fd_range_def fd_used_init DEFAULT_FD_NUM_def MAX_FD_COUNT_def)
  moreover have "\<not> fd_range \<subseteq> fd_used fd_table_init"
    by (auto simp: fd_range_def fd_used_init DEFAULT_FD_NUM_def MAX_FD_COUNT_def)
  ultimately show ?thesis
    using get_fd_lowest_free [OF fd_wf_init] by (auto simp: fd_used_init split: prod.splits)
qed

text \<open>releasing a descriptor clears exactly its bit; a release of a descriptor beyond the
  table is refused, and one of a negative descriptor is an undefined shift or index.\<close>

theorem set_fd_releases:
  assumes "fd_wf t"
  shows "case set_fd_frombitmap fd t of
       None \<Rightarrow> fd < 0
     | Some (r, t') \<Rightarrow>
         if fd \<ge> 1024 then r = - 1 \<and> t' = t
         else fd \<ge> 0 \<and> r = 0 \<and> fd_wf t' \<and> fd_used t' = fd_used t - {nat fd}"
  using fd_used_clear_bit [OF assms, of "nat fd"] assms
  by (auto simp: set_fd_frombitmap_def MAX_FD_COUNT_def Let_def fd_wf_def)

lemma set_fd_releases_witness:
  "set_fd_frombitmap (- 1) fd_table_init = None \<and>
   fd_used (snd (the (set_fd_frombitmap 7 (snd (get_fd_frombitmap fd_table_init))))) \<subseteq> {3}"
proof -
  have "fd_wf (snd (get_fd_frombitmap fd_table_init))" by (rule fds.get_wf [OF fd_wf_init])
  moreover have "fd_used (snd (get_fd_frombitmap fd_table_init)) \<subseteq> {3}"
    using fd_used_set_bit [OF fd_wf_init, of 3] fd_used_init
    by (simp add: fd_table_first) (simp add: fd_table_init_def MAX_FD_COUNT_def)
  ultimately show ?thesis
    using set_fd_releases [OF fd_wf_init, of "- 1"]
      set_fd_releases [of "snd (get_fd_frombitmap fd_table_init)" 7]
    by (auto split: option.splits prod.splits)
qed

end
