(* ===== verification/Packet.thy ===== *)
theory Packet
  imports Prelude
begin

text \<open>
  Packet buffers and the encoders of \<^verbatim>\<open>tcp_concurrency.c\<close> and \<^verbatim>\<open>icmp.c\<close>. A buffer is the list
  of its bytes; a read or write outside of it is \<open>None\<close>. Structure fields are read and
  written in the byte order of the (little-endian) host, as the C code does through the
  DPDK header structures, and \<open>htons\<close> and \<open>htonl\<close> swap bytes. The checksum functions are
  DPDK's: they are arguments of the encoders, functions of the bytes from the IP header on.
\<close>

section \<open>Buffers\<close>

type_synonym bytes = "u8 list"

text \<open>\<open>put\<close> overwrites the part of \<open>bs\<close> that lies inside the buffer; \<open>wr\<close> is the access,
  which must lie inside entirely.\<close>

definition put :: "nat \<Rightarrow> bytes \<Rightarrow> bytes \<Rightarrow> bytes" where
  "put off bs buf =
     map (\<lambda>i. if off \<le> i \<and> i < off + length bs then bs ! (i - off) else buf ! i) [0..<length buf]"

definition wr :: "nat \<Rightarrow> bytes \<Rightarrow> bytes \<Rightarrow> bytes option" where
  "wr off bs buf = (if off + length bs \<le> length buf then Some (put off bs buf) else None)"

definition rd :: "nat \<Rightarrow> nat \<Rightarrow> bytes \<Rightarrow> bytes option" where
  "rd off n buf = (if off + n \<le> length buf then Some (take n (drop off buf)) else None)"

lemma length_put [simp]: "length (put off bs buf) = length buf"
  by (simp add: put_def)

lemma nth_put:
  "i < length buf \<Longrightarrow>
     put off bs buf ! i = (if off \<le> i \<and> i < off + length bs then bs ! (i - off) else buf ! i)"
  by (simp add: put_def)

lemma take_drop_put_same:
  "off + length bs \<le> length buf \<Longrightarrow> n = length bs \<Longrightarrow> take n (drop off (put off bs buf)) = bs"
  by (intro nth_equalityI) (auto simp: nth_put)

lemma take_drop_put_other:
  assumes "off + length bs \<le> length buf" "o' + n \<le> off \<or> off + length bs \<le> o'" "o' + n \<le> length buf"
  shows "take n (drop o' (put off bs buf)) = take n (drop o' buf)"
  using assms by (intro nth_equalityI) (auto simp: nth_put)

lemma rd_wr_same:
  "off + length bs \<le> length buf \<Longrightarrow> n = length bs \<Longrightarrow> rd off n (put off bs buf) = Some bs"
  by (simp add: rd_def take_drop_put_same)

lemma rd_wr_other:
  assumes "off + length bs \<le> length buf" "o' + n \<le> off \<or> off + length bs \<le> o'"
  shows "rd o' n (put off bs buf) = rd o' n buf"
  using assms by (simp add: rd_def take_drop_put_other)

section \<open>Scalars in host byte order\<close>

definition le16 :: "u16 \<Rightarrow> bytes" where
  "le16 w = [ucast w, ucast (drop_bit 8 w)]"

definition of_le16 :: "bytes \<Rightarrow> u16" where
  "of_le16 bs = (ucast (bs ! 0)) OR push_bit 8 (ucast (bs ! 1))"

definition le32 :: "u32 \<Rightarrow> bytes" where
  "le32 w = [ucast w, ucast (drop_bit 8 w), ucast (drop_bit 16 w), ucast (drop_bit 24 w)]"

definition of_le32 :: "bytes \<Rightarrow> u32" where
  "of_le32 bs = (ucast (bs ! 0)) OR push_bit 8 (ucast (bs ! 1)) OR
                push_bit 16 (ucast (bs ! 2)) OR push_bit 24 (ucast (bs ! 3))"

definition rd8 :: "nat \<Rightarrow> bytes \<Rightarrow> u8 option" where
  "rd8 off buf = map_option (\<lambda>bs. bs ! 0) (rd off 1 buf)"

definition rd16 :: "nat \<Rightarrow> bytes \<Rightarrow> u16 option" where
  "rd16 off buf = map_option of_le16 (rd off 2 buf)"

definition rd32 :: "nat \<Rightarrow> bytes \<Rightarrow> u32 option" where
  "rd32 off buf = map_option of_le32 (rd off 4 buf)"

definition wr8 :: "nat \<Rightarrow> u8 \<Rightarrow> bytes \<Rightarrow> bytes option" where
  "wr8 off v = wr off [v]"

definition wr16 :: "nat \<Rightarrow> u16 \<Rightarrow> bytes \<Rightarrow> bytes option" where
  "wr16 off v = wr off (le16 v)"

definition wr32 :: "nat \<Rightarrow> u32 \<Rightarrow> bytes \<Rightarrow> bytes option" where
  "wr32 off v = wr off (le32 v)"

text \<open>The byte swaps of the network order.\<close>

definition htons :: "u16 \<Rightarrow> u16" where
  "htons w = of_le16 (rev (le16 w))"

definition htonl :: "u32 \<Rightarrow> u32" where
  "htonl w = of_le32 (rev (le32 w))"

lemma length_le [simp]: "length (le16 w) = 2" "length (le32 v) = 4"
  by (simp_all add: le16_def le32_def)

lemma of_le16_le16 [simp]: "of_le16 (le16 w) = w"
  by (rule bit_word_eqI) (auto simp: of_le16_def le16_def bit_simps)

lemma of_le32_le32 [simp]: "of_le32 (le32 w) = w"
proof (rule bit_word_eqI)
  fix n assume "n < LENGTH(32)"
  then consider "n < 8" | "8 \<le> n" "n < 16" | "16 \<le> n" "n < 24" | "24 \<le> n" "n < 32" by fastforce
  then show "bit (of_le32 (le32 w)) n \<longleftrightarrow> bit w n"
    by cases (auto simp: of_le32_def le32_def bit_simps)
qed

lemma byte_bit_bound: "bit (a :: u8) n \<Longrightarrow> n < 8"
  using bit_imp_le_length [of a n] by simp

lemma le16_of_le16: "length bs = 2 \<Longrightarrow> le16 (of_le16 bs) = bs"
proof -
  assume "length bs = 2"
  then obtain a b where bs: "bs = [a, b]" by (auto simp: length_Suc_conv numeral_2_eq_2)
  show ?thesis
    unfolding bs le16_def of_le16_def
    by (simp, intro conjI; rule bit_word_eqI; auto simp: bit_simps dest: byte_bit_bound)
qed

lemma le32_of_le32: "length bs = 4 \<Longrightarrow> le32 (of_le32 bs) = bs"
proof -
  assume "length bs = 4"
  then obtain a b c d where bs: "bs = [a, b, c, d]" by (auto simp: length_Suc_conv eval_nat_numeral)
  show ?thesis
    unfolding bs le32_def of_le32_def
    by (simp, intro conjI; rule bit_word_eqI; auto simp: bit_simps dest: byte_bit_bound)
qed

lemma htons_htons [simp]: "htons (htons w) = w"
  by (simp add: htons_def le16_of_le16)

lemma htonl_htonl [simp]: "htonl (htonl w) = w"
  by (simp add: htonl_def le32_of_le32)

text \<open>A field that was just written reads back; a write elsewhere does not change it.\<close>

named_theorems buf_simps \<open>reading fields of written buffers\<close>

lemma rd_fields_same [buf_simps]:
  "off + 1 \<le> length buf \<Longrightarrow> rd8 off (put off [v] buf) = Some v"
  "off + 2 \<le> length buf \<Longrightarrow> rd16 off (put off (le16 w) buf) = Some w"
  "off + 4 \<le> length buf \<Longrightarrow> rd32 off (put off (le32 x) buf) = Some x"
  by (simp_all add: rd8_def rd16_def rd32_def rd_wr_same)

lemma rd_fields_other [buf_simps]:
  assumes "off + length bs \<le> length buf"
  shows "o' + 1 \<le> off \<or> off + length bs \<le> o' \<Longrightarrow> rd8 o' (put off bs buf) = rd8 o' buf"
    "o' + 2 \<le> off \<or> off + length bs \<le> o' \<Longrightarrow> rd16 o' (put off bs buf) = rd16 o' buf"
    "o' + 4 \<le> off \<or> off + length bs \<le> o' \<Longrightarrow> rd32 o' (put off bs buf) = rd32 o' buf"
    "o' + n \<le> off \<or> off + length bs \<le> o' \<Longrightarrow> rd o' n (put off bs buf) = rd o' n buf"
  using assms by (simp_all add: rd8_def rd16_def rd32_def rd_wr_other)

lemmas wr_defs = wr_def wr8_def wr16_def wr32_def


section \<open>ARP packets\<close>

definition RTE_ETHER_TYPE_IPV4 :: u16 where "RTE_ETHER_TYPE_IPV4 = 0x0800"
definition RTE_ETHER_TYPE_ARP :: u16 where "RTE_ETHER_TYPE_ARP = 0x0806"
definition IPPROTO_ICMP :: u8 where "IPPROTO_ICMP = 1"
definition IPPROTO_TCP :: u8 where "IPPROTO_TCP = 6"
definition IPPROTO_UDP :: u8 where "IPPROTO_UDP = 17"

definition gDefaultArpMac :: bytes where
  "gDefaultArpMac = replicate 6 0xFF"

text \<open>\<open>strncmp(a, b, n) == 0\<close>: the comparison ends early at a common 0 byte.\<close>

fun strncmp_eq :: "nat \<Rightarrow> bytes \<Rightarrow> bytes \<Rightarrow> bool" where
  "strncmp_eq 0 xs ys = True"
| "strncmp_eq (Suc n) (x # xs) (y # ys) = (x = y \<and> (x = 0 \<or> strncmp_eq n xs ys))"
| "strncmp_eq (Suc n) xs ys = (xs = [] \<and> ys = [])"

text \<open>\<open>srcmac\<close> is the global \<open>gSrcMac\<close>. \<open>sip\<close> and \<open>dip\<close> are in network order, as everywhere.\<close>

definition ng_encode_arp_pkt ::
  "bytes \<Rightarrow> bytes \<Rightarrow> u16 \<Rightarrow> bytes \<Rightarrow> u32 \<Rightarrow> u32 \<Rightarrow> bytes option" where
  "ng_encode_arp_pkt srcmac msg opcode dst_mac sip dip =
     do { m \<leftarrow> wr 6 srcmac msg;
          m \<leftarrow> (if strncmp_eq 6 dst_mac gDefaultArpMac then wr 0 (replicate 6 0) m
                else wr 0 dst_mac m);
          m \<leftarrow> wr16 12 (htons RTE_ETHER_TYPE_ARP) m;
          m \<leftarrow> wr16 14 (htons 1) m;
          m \<leftarrow> wr16 16 (htons RTE_ETHER_TYPE_IPV4) m;
          m \<leftarrow> wr8 18 6 m;
          m \<leftarrow> wr8 19 4 m;
          m \<leftarrow> wr16 20 (htons opcode) m;
          m \<leftarrow> wr 22 srcmac m;
          m \<leftarrow> wr 32 dst_mac m;
          m \<leftarrow> wr32 28 sip m;
          wr32 38 dip m }"

section \<open>IPv4 packets\<close>

text \<open>The Ethernet and IPv4 headers the UDP, TCP and ICMP encoders write.\<close>

definition encode_eth_ip ::
  "(bytes \<Rightarrow> u16) \<Rightarrow> bytes \<Rightarrow> u8 \<Rightarrow> u32 \<Rightarrow> u32 \<Rightarrow> bytes \<Rightarrow> bytes \<Rightarrow> u16 \<Rightarrow> bytes option" where
  "encode_eth_ip ipv4_cksum msg proto sip dip srcmac dstmac ip_len =
     do { m \<leftarrow> wr 6 srcmac msg;
          m \<leftarrow> wr 0 dstmac m;
          m \<leftarrow> wr16 12 (htons RTE_ETHER_TYPE_IPV4) m;
          m \<leftarrow> wr8 14 0x45 m;
          m \<leftarrow> wr8 15 0 m;
          m \<leftarrow> wr16 16 (htons ip_len) m;
          m \<leftarrow> wr16 18 0 m;
          m \<leftarrow> wr16 20 0 m;
          m \<leftarrow> wr8 22 64 m;
          m \<leftarrow> wr8 23 proto m;
          m \<leftarrow> wr32 26 sip m;
          m \<leftarrow> wr32 30 dip m;
          m \<leftarrow> wr16 24 0 m;
          wr16 24 (ipv4_cksum (drop 14 m)) m }"

text \<open>
  The UDP encoder. \<open>data\<close> are the bytes that can be read from the source pointer on: the code
  copies \<open>udplen\<close> bytes of it, which includes the 8 bytes of the UDP header.
\<close>

definition ng_encode_udp_apppkt ::
  "(bytes \<Rightarrow> u16) \<Rightarrow> (bytes \<Rightarrow> u16) \<Rightarrow> bytes \<Rightarrow> u32 \<Rightarrow> u32 \<Rightarrow> u16 \<Rightarrow> u16 \<Rightarrow> bytes \<Rightarrow> bytes \<Rightarrow> bytes \<Rightarrow> u16 \<Rightarrow>
     bytes option" where
  "ng_encode_udp_apppkt ipv4_cksum udptcp_cksum msg sip dip sport dport srcmac dstmac data total_len =
     do { m \<leftarrow> encode_eth_ip ipv4_cksum msg IPPROTO_UDP sip dip srcmac dstmac (total_len - 14);
          m \<leftarrow> wr16 34 sport m;
          m \<leftarrow> wr16 36 dport m;
          let udplen = total_len - 14 - 20;
          m \<leftarrow> wr16 38 (htons udplen) m;
          payload \<leftarrow> rd 0 (unat udplen) data;
          m \<leftarrow> wr 42 payload m;
          m \<leftarrow> wr16 40 0 m;
          wr16 40 (udptcp_cksum (drop 14 m)) m }"

text \<open>The checksum of \<open>icmp.c\<close>, over 16-bit words in host order.\<close>

fun cksum_words :: "nat \<Rightarrow> bytes \<Rightarrow> nat" where
  "cksum_words acc (a # b # rest) = cksum_words (acc + unat (of_le16 [a, b])) rest"
| "cksum_words acc [a] = acc + unat a"
| "cksum_words acc [] = acc"

function cksum_fold :: "nat \<Rightarrow> nat" where
  "cksum_fold n = (if n div 65536 \<noteq> 0 then cksum_fold (n mod 65536 + n div 65536) else n)"
  by auto
termination
proof (relation "measure id", simp)
  fix n :: nat assume "n div 65536 \<noteq> 0"
  then have "n div 65536 < n div 65536 * 65536" by simp
  then have "n mod 65536 + n div 65536 < n mod 65536 + n div 65536 * 65536" by (rule add_strict_left_mono)
  then show "(n mod 65536 + n div 65536, n) \<in> measure id" by simp
qed

declare cksum_fold.simps [simp del]

definition ng_checksum :: "bytes \<Rightarrow> u16" where
  "ng_checksum bs = NOT (of_nat (cksum_fold (cksum_words 0 bs)))"

definition ng_encode_icmp_pkt ::
  "(bytes \<Rightarrow> u16) \<Rightarrow> bytes \<Rightarrow> bytes \<Rightarrow> bytes \<Rightarrow> u32 \<Rightarrow> u32 \<Rightarrow> u16 \<Rightarrow> u16 \<Rightarrow> bytes option" where
  "ng_encode_icmp_pkt ipv4_cksum srcmac msg dst_mac sip dip ident seqnb =
     do { m \<leftarrow> encode_eth_ip ipv4_cksum msg IPPROTO_ICMP sip dip srcmac dst_mac 28;
          m \<leftarrow> wr8 34 0 m;
          m \<leftarrow> wr8 35 0 m;
          m \<leftarrow> wr16 38 ident m;
          m \<leftarrow> wr16 40 seqnb m;
          m \<leftarrow> wr16 36 0 m;
          icmp \<leftarrow> rd 34 8 m;
          wr16 36 (ng_checksum icmp) m }"

section \<open>TCP packets\<close>

record ng_tcp_fragment =
  tf_sport :: u16
  tf_dport :: u16
  tf_seqnum :: u32
  tf_acknum :: u32
  tf_hdrlen_off :: u8
  tf_tcp_flags :: u8
  tf_windows :: u16
  tf_tcp_urp :: u16
  tf_optlen :: int
  tf_data :: "bytes option"
  tf_length :: u32

text \<open>\<open>fragment->length + 54 + fragment->optlen * sizeof(uint32_t)\<close>, computed in 64 bits and
  truncated to \<open>unsigned\<close>.\<close>

definition tcp_total_len :: "ng_tcp_fragment \<Rightarrow> u32" where
  "tcp_total_len f = tf_length f + 54 + of_int (tf_optlen f) * 4"

definition ng_encode_tcp_apppkt ::
  "(bytes \<Rightarrow> u16) \<Rightarrow> (bytes \<Rightarrow> u16) \<Rightarrow> bytes \<Rightarrow> u32 \<Rightarrow> u32 \<Rightarrow> bytes \<Rightarrow> bytes \<Rightarrow> ng_tcp_fragment \<Rightarrow>
     bytes option" where
  "ng_encode_tcp_apppkt ipv4_cksum udptcp_cksum msg sip dip srcmac dstmac f =
     do { m \<leftarrow> encode_eth_ip ipv4_cksum msg IPPROTO_TCP sip dip srcmac dstmac
                (ucast (tcp_total_len f - 14));
          m \<leftarrow> wr16 34 (tf_sport f) m;
          m \<leftarrow> wr16 36 (tf_dport f) m;
          m \<leftarrow> wr32 38 (htonl (tf_seqnum f)) m;
          m \<leftarrow> wr32 42 (htonl (tf_acknum f)) m;
          m \<leftarrow> wr8 46 (tf_hdrlen_off f) m;
          m \<leftarrow> wr16 48 (tf_windows f) m;
          m \<leftarrow> wr16 52 (tf_tcp_urp f) m;
          m \<leftarrow> wr8 47 (tf_tcp_flags f) m;
          m \<leftarrow> (case tf_data f of
                  None \<Rightarrow> Some m
                | Some d \<Rightarrow>
                    if tf_optlen f < 0 then None
                    else do { payload \<leftarrow> rd 0 (unat (tf_length f)) d;
                              wr (54 + nat (tf_optlen f) * 4) payload m });
          m \<leftarrow> wr16 50 0 m;
          wr16 50 (udptcp_cksum (drop 14 m)) m }"

text \<open>The header fields the receive path reads from a packet with a 20 byte IP header.\<close>

record ip_hdr =
  ip_total_length :: u16
  ip_next_proto :: u8
  ip_src :: u32
  ip_dst :: u32

record tcp_hdr =
  th_sport :: u16
  th_dport :: u16
  th_seq :: u32
  th_ack :: u32
  th_data_off :: u8
  th_flags :: u8
  th_cksum :: u16

definition parse_ip :: "bytes \<Rightarrow> ip_hdr option" where
  "parse_ip m =
     do { len \<leftarrow> rd16 16 m; proto \<leftarrow> rd8 23 m; src \<leftarrow> rd32 26 m; dst \<leftarrow> rd32 30 m;
          Some \<lparr>ip_total_length = len, ip_next_proto = proto, ip_src = src, ip_dst = dst\<rparr> }"

definition parse_tcp :: "bytes \<Rightarrow> tcp_hdr option" where
  "parse_tcp m =
     do { sport \<leftarrow> rd16 34 m; dport \<leftarrow> rd16 36 m; seq \<leftarrow> rd32 38 m; ack \<leftarrow> rd32 42 m;
          off \<leftarrow> rd8 46 m; flags \<leftarrow> rd8 47 m; ck \<leftarrow> rd16 50 m;
          Some \<lparr>th_sport = sport, th_dport = dport, th_seq = seq, th_ack = ack,
                th_data_off = off, th_flags = flags, th_cksum = ck\<rparr> }"

end
