(* ===== verification/Packet_Correct.thy ===== *)
theory Packet_Correct
  imports Packet
begin

text \<open>
  What the encoders write: field-by-field results, the round trip of TCP headers and
  payload through the parser of the receive path, and the ones' complement checksum of
  the ICMP encoder.
\<close>

section \<open>The common headers\<close>

lemma drop_put: "off + length bs \<le> n \<Longrightarrow> off + length bs \<le> length buf \<Longrightarrow> drop n (put off bs buf) = drop n buf"
  by (intro nth_equalityI) (auto simp: nth_put)

lemma put_put: "length bs = length bs' \<Longrightarrow> put off bs (put off bs' buf) = put off bs buf"
  by (intro nth_equalityI) (auto simp: nth_put)

lemma rd_six [buf_simps]:
  "off + 6 \<le> length buf \<Longrightarrow> length bs = 6 \<Longrightarrow> rd off 6 (put off bs buf) = Some bs"
  by (simp add: rd_wr_same)

lemma encode_eth_ip_ok:
  assumes "34 \<le> length msg" "length srcmac = 6" "length dstmac = 6"
  shows "\<exists>m. encode_eth_ip ck msg proto sip dip srcmac dstmac ip_len = Some m \<and>
    length m = length msg \<and> rd 0 6 m = Some dstmac \<and> rd 6 6 m = Some srcmac \<and>
    rd16 12 m = Some (htons RTE_ETHER_TYPE_IPV4) \<and> rd8 14 m = Some 0x45 \<and>
    rd16 16 m = Some (htons ip_len) \<and> rd8 22 m = Some 64 \<and> rd8 23 m = Some proto \<and>
    rd32 26 m = Some sip \<and> rd32 30 m = Some dip \<and> drop 34 m = drop 34 msg"
  using assms by (simp add: encode_eth_ip_def wr_defs buf_simps drop_put)

section \<open>ARP\<close>

lemma strncmp_eq_iff:
  "length xs = n \<Longrightarrow> length ys = n \<Longrightarrow> 0 \<notin> set ys \<Longrightarrow> strncmp_eq n xs ys \<longleftrightarrow> xs = ys"
  by (induction n xs ys rule: strncmp_eq.induct) auto

lemma default_mac_iff: "length mac = 6 \<Longrightarrow> strncmp_eq 6 mac gDefaultArpMac \<longleftrightarrow> mac = gDefaultArpMac"
  by (intro strncmp_eq_iff) (auto simp: gDefaultArpMac_def)

lemma ng_encode_arp_pkt_ok:
  assumes "42 \<le> length msg" "length srcmac = 6" "length dst_mac = 6"
  shows "\<exists>m. ng_encode_arp_pkt srcmac msg opcode dst_mac sip dip = Some m \<and> length m = length msg \<and>
    rd 0 6 m = Some (if dst_mac = gDefaultArpMac then replicate 6 0 else dst_mac) \<and>
    rd 6 6 m = Some srcmac \<and> rd16 12 m = Some (htons RTE_ETHER_TYPE_ARP) \<and>
    rd16 20 m = Some (htons opcode) \<and> rd 22 6 m = Some srcmac \<and> rd32 28 m = Some sip \<and>
    rd 32 6 m = Some dst_mac \<and> rd32 38 m = Some dip \<and> drop 42 m = drop 42 msg"
proof -
  show ?thesis
    using assms default_mac_iff [OF assms(3)] by (cases "dst_mac = gDefaultArpMac")
      (simp_all add: ng_encode_arp_pkt_def wr_defs buf_simps drop_put)
qed

text \<open>the ARP encoder fills a frame of 42 bytes with the addresses, the opcode and the
  protocol constants in their places; a request for an unknown address (the all-ones
  placeholder) is sent to the all-zero Ethernet address, with the placeholder kept as the
  ARP target address.\<close>

theorem ng_encode_arp_pkt_fields:
  assumes "42 \<le> length msg" "length srcmac = 6" "length dst_mac = 6"
  shows "\<exists>m. ng_encode_arp_pkt srcmac msg opcode dst_mac sip dip = Some m \<and> length m = length msg \<and>
    rd 0 6 m = Some (if dst_mac = gDefaultArpMac then replicate 6 0 else dst_mac) \<and>
    rd 6 6 m = Some srcmac \<and> rd16 12 m = Some (htons RTE_ETHER_TYPE_ARP) \<and>
    rd16 20 m = Some (htons opcode) \<and> rd 22 6 m = Some srcmac \<and> rd32 28 m = Some sip \<and>
    rd 32 6 m = Some dst_mac \<and> rd32 38 m = Some dip \<and> drop 42 m = drop 42 msg"
  by (rule ng_encode_arp_pkt_ok [OF assms])

lemma ng_encode_arp_pkt_fields_witness:
  "\<exists>m. ng_encode_arp_pkt [1, 2, 3, 4, 5, 6] (replicate 60 0) 1 gDefaultArpMac 0x7700A8C0 0x0100A8C0 = Some m \<and>
     rd 0 6 m = Some [0, 0, 0, 0, 0, 0] \<and> rd 32 6 m = Some gDefaultArpMac \<and> rd32 38 m = Some 0x0100A8C0"
  using ng_encode_arp_pkt_fields [of "replicate 60 0" "[1, 2, 3, 4, 5, 6]" gDefaultArpMac 1]
  by (auto simp: gDefaultArpMac_def eval_nat_numeral)

section \<open>UDP\<close>

lemma ng_encode_udp_apppkt_ok:
  assumes len: "unat total_len = length pl + 42" and room: "length pl + 50 \<le> length msg"
    and macs: "length srcmac = 6" "length dstmac = 6" and tail: "length tail = 8"
  shows "\<exists>m. ng_encode_udp_apppkt ck uck msg sip dip sport dport srcmac dstmac (pl @ tail) total_len = Some m \<and>
    length m = length msg \<and> rd 0 6 m = Some dstmac \<and> rd 6 6 m = Some srcmac \<and>
    parse_ip m = Some \<lparr>ip_total_length = htons (total_len - 14), ip_next_proto = IPPROTO_UDP,
                       ip_src = sip, ip_dst = dip\<rparr> \<and>
    rd16 34 m = Some sport \<and> rd16 36 m = Some dport \<and>
    rd16 38 m = Some (htons (of_nat (length pl + 8))) \<and> rd 42 (length pl) m = Some pl"
proof -
  have "unat (total_len - 34) = length pl + 8"
    using len by (subst unat_sub) (auto simp: word_le_nat_alt)
  define ul where "ul = total_len - 34"
  have ul: "total_len - 34 = ul" by (simp add: ul_def)
  have udplen: "unat ul = length pl + 8" using \<open>unat (total_len - 34) = length pl + 8\<close> by (simp only: ul_def)
  have "of_nat (unat ul) = ul" by simp
  then have ul_of: "of_nat (length pl + 8) = ul" by (simp only: udplen)
  obtain m where m: "encode_eth_ip ck msg IPPROTO_UDP sip dip srcmac dstmac (total_len - 14) = Some m"
      "length m = length msg" "rd 0 6 m = Some dstmac" "rd 6 6 m = Some srcmac"
      "rd16 16 m = Some (htons (total_len - 14))" "rd8 23 m = Some IPPROTO_UDP"
      "rd32 26 m = Some sip" "rd32 30 m = Some dip"
    using encode_eth_ip_ok [of msg srcmac dstmac ck IPPROTO_UDP sip dip "total_len - 14"] room macs by auto
  have pl: "rd 42 (length pl) (put 42 (pl @ tail) u) = Some pl" if "length u = length msg" for u
    using that room tail by (simp add: rd_def) (intro nth_equalityI, auto simp: nth_put nth_append)
  have src: "rd 0 (unat ul) (pl @ tail) = Some (pl @ tail)"
    using udplen tail by (simp add: rd_def)
  show ?thesis
    unfolding ul_of using m room tail src pl
    by (simp add: ng_encode_udp_apppkt_def wr_defs buf_simps parse_ip_def ul Let_def)
qed

text \<open>the UDP encoder writes the addresses, ports and lengths of the datagram and its
  payload, but its copy covers 8 bytes more than the payload: it needs a source and a
  destination buffer with 8 bytes to spare, and with a source buffer that ends with the
  payload, as \<open>nsendto\<close> allocates it, it reads past the end.\<close>

theorem ng_encode_udp_apppkt_copies_8_more:
  assumes len: "unat total_len = length pl + 42" and room: "length pl + 50 \<le> length msg"
    and macs: "length srcmac = 6" "length dstmac = 6" and tail: "length tail = 8"
  shows "(\<exists>m. ng_encode_udp_apppkt ck uck msg sip dip sport dport srcmac dstmac (pl @ tail) total_len = Some m \<and>
        length m = length msg \<and> rd 0 6 m = Some dstmac \<and> rd 6 6 m = Some srcmac \<and>
        parse_ip m = Some \<lparr>ip_total_length = htons (total_len - 14), ip_next_proto = IPPROTO_UDP,
                           ip_src = sip, ip_dst = dip\<rparr> \<and>
        rd16 34 m = Some sport \<and> rd16 36 m = Some dport \<and>
        rd16 38 m = Some (htons (of_nat (length pl + 8))) \<and> rd 42 (length pl) m = Some pl) \<and>
    ng_encode_udp_apppkt ck uck msg sip dip sport dport srcmac dstmac pl total_len = None"
proof -
  have "unat (total_len - 34) = length pl + 8"
    using len by (subst unat_sub) (auto simp: word_le_nat_alt)
  then have "rd 0 (unat (total_len - 14 - 20)) pl = None" by (simp add: rd_def diff_diff_eq)
  then have "ng_encode_udp_apppkt ck uck msg sip dip sport dport srcmac dstmac pl total_len = None"
    by (simp add: ng_encode_udp_apppkt_def Let_def Option.bind_eq_None_conv)
  with ng_encode_udp_apppkt_ok [OF len room macs tail] show ?thesis by (intro conjI)
qed

section \<open>TCP\<close>

text \<open>The fragments the stack builds: no options, and the data, if any, has the length the
  fragment says.\<close>

definition frag_wf :: "ng_tcp_fragment \<Rightarrow> bool" where
  "frag_wf f \<longleftrightarrow> tf_optlen f = 0 \<and>
     (case tf_data f of None \<Rightarrow> tf_length f = 0 | Some d \<Rightarrow> unat (tf_length f) \<le> length d)"

definition frag_payload :: "ng_tcp_fragment \<Rightarrow> bytes" where
  "frag_payload f = (case tf_data f of None \<Rightarrow> [] | Some d \<Rightarrow> take (unat (tf_length f)) d)"

lemma length_frag_payload: "frag_wf f \<Longrightarrow> length (frag_payload f) = unat (tf_length f)"
  by (auto simp: frag_wf_def frag_payload_def split: option.splits)

lemma ng_encode_tcp_apppkt_ok:
  assumes wf: "frag_wf f" and room: "54 + unat (tf_length f) \<le> length msg"
    and macs: "length srcmac = 6" "length dstmac = 6"
  shows "\<exists>m. ng_encode_tcp_apppkt ck uck msg sip dip srcmac dstmac f = Some m \<and>
    length m = length msg \<and>
    parse_ip m = Some \<lparr>ip_total_length = htons (ucast (tf_length f + 40)),
                       ip_next_proto = IPPROTO_TCP, ip_src = sip, ip_dst = dip\<rparr> \<and>
    parse_tcp m = Some \<lparr>th_sport = tf_sport f, th_dport = tf_dport f,
                        th_seq = htonl (tf_seqnum f), th_ack = htonl (tf_acknum f),
                        th_data_off = tf_hdrlen_off f, th_flags = tf_tcp_flags f,
                        th_cksum = uck (drop 14 (put 50 [0, 0] m))\<rparr> \<and>
    rd 54 (unat (tf_length f)) m = Some (frag_payload f) \<and>
    rd 0 6 m = Some dstmac \<and> rd 6 6 m = Some srcmac \<and> rd16 12 m = Some (htons RTE_ETHER_TYPE_IPV4) \<and>
    rd8 14 m = Some 0x45 \<and> rd16 48 m = Some (tf_windows f) \<and> rd16 52 m = Some (tf_tcp_urp f)"
proof -
  define il :: u16 where "il = ucast (tcp_total_len f - 14)"
  have il: "ucast (tcp_total_len f - 14) = il" by (simp add: il_def)
  have "tcp_total_len f - 14 = tf_length f + 40"
    using wf by (simp add: tcp_total_len_def frag_wf_def)
  then have il_of: "ucast (tf_length f + 40) = il" by (simp only: il_def)
  obtain m where m: "encode_eth_ip ck msg IPPROTO_TCP sip dip srcmac dstmac il = Some m"
      "length m = length msg" "rd 0 6 m = Some dstmac" "rd 6 6 m = Some srcmac"
      "rd16 12 m = Some (htons RTE_ETHER_TYPE_IPV4)" "rd8 14 m = Some 0x45" "rd16 16 m = Some (htons il)"
      "rd8 23 m = Some IPPROTO_TCP" "rd32 26 m = Some sip" "rd32 30 m = Some dip"
    using encode_eth_ip_ok [of msg srcmac dstmac ck IPPROTO_TCP sip dip il]
      room macs by auto
  have le0: "le16 0 = [0, 0]" by (simp add: le16_def)
  show ?thesis
  proof (cases "tf_data f")
    case None
    then have len: "tf_length f = 0" "frag_payload f = []"
      using wf by (auto simp: frag_wf_def frag_payload_def)
    show ?thesis
      unfolding il_of using m room il None len
      by (simp add: ng_encode_tcp_apppkt_def wr_defs buf_simps parse_ip_def parse_tcp_def le0 put_put)
        (simp add: rd_def)
  next
    case (Some d)
    let ?pl = "frag_payload f"
    have d: "rd 0 (unat (tf_length f)) d = Some ?pl" "tf_optlen f = 0"
      using wf Some by (auto simp: frag_wf_def frag_payload_def rd_def)
    have len: "length ?pl = unat (tf_length f)" by (rule length_frag_payload [OF wf])
    have pl: "rd 54 (unat (tf_length f)) (put 54 ?pl u) = Some ?pl" if "length u = length msg" for u
      using that room len by (intro rd_wr_same) auto
    show ?thesis
      unfolding il_of using m room il Some d len pl
      by (simp add: ng_encode_tcp_apppkt_def wr_defs buf_simps parse_ip_def parse_tcp_def le0 put_put)
  qed
qed

text \<open>C8: what the TCP encoder writes, the receive path reads back: addresses, ports, sequence
  numbers, flags, header length and payload of every fragment that fits the buffer; and the
  checksum it stores is the one the receiver computes over the packet with a cleared
  checksum field, whatever checksum function DPDK provides.\<close>

theorem ng_encode_tcp_apppkt_roundtrip:
  assumes wf: "frag_wf f" and room: "54 + unat (tf_length f) \<le> length msg"
    and macs: "length srcmac = 6" "length dstmac = 6"
  shows "\<exists>m. ng_encode_tcp_apppkt ck uck msg sip dip srcmac dstmac f = Some m \<and>
    length m = length msg \<and>
    parse_ip m = Some \<lparr>ip_total_length = htons (ucast (tf_length f + 40)),
                       ip_next_proto = IPPROTO_TCP, ip_src = sip, ip_dst = dip\<rparr> \<and>
    parse_tcp m = Some \<lparr>th_sport = tf_sport f, th_dport = tf_dport f,
                        th_seq = htonl (tf_seqnum f), th_ack = htonl (tf_acknum f),
                        th_data_off = tf_hdrlen_off f, th_flags = tf_tcp_flags f,
                        th_cksum = uck (drop 14 (put 50 [0, 0] m))\<rparr> \<and>
    rd 54 (unat (tf_length f)) m = Some (frag_payload f)"
  using ng_encode_tcp_apppkt_ok [OF assms] by blast

section \<open>ICMP\<close>

lemma cksum_fold_correct:
  "cksum_fold n < 65536 \<and> cksum_fold n mod 65535 = n mod 65535 \<and> (0 < n \<longrightarrow> 0 < cksum_fold n)"
proof (induction n rule: cksum_fold.induct)
  case (1 n)
  show ?case
  proof (cases "n div 65536 = 0")
    case True
    then show ?thesis by (simp add: cksum_fold.simps [of n] div_eq_0_iff)
  next
    case False
    have n: "n = (n mod 65536 + n div 65536) + 65535 * (n div 65536)"
      using div_mult_mod_eq [of n 65536] by linarith
    have "n mod 65535 = (n mod 65536 + n div 65536) mod 65535"
      by (subst n) (rule mod_mult_self2)
    then show ?thesis using 1 [OF False] False by (simp add: cksum_fold.simps [of n])
  qed
qed

lemma unat_not_u16: "unat (NOT w :: u16) = 65535 - unat w"
proof -
  have "NOT w = - 1 - w" by (simp add: not_eq_complement)
  moreover have "unat (- 1 - w) = unat (- 1 :: u16) - unat w"
    by (rule unat_sub) simp
  moreover have "unat (- 1 :: u16) = 65535" by (simp add: unsigned_minus_1_eq_mask mask_eq_exp_minus_1)
  ultimately show ?thesis by simp
qed

text \<open>Adding the checksum of a sum of words to the sum makes it fold to all ones.\<close>

lemma cksum_verifies:
  "cksum_fold (n + unat (NOT (of_nat (cksum_fold n)) :: u16)) = 65535"
proof -
  let ?F = "cksum_fold n"
  have F: "?F < 65536" "?F mod 65535 = n mod 65535" "0 < n \<longrightarrow> 0 < ?F"
    using cksum_fold_correct [of n] by auto
  have "unat (of_nat ?F :: u16) = ?F" using F(1) by (simp add: unat_of_nat take_bit_eq_mod)
  then have ck: "unat (NOT (of_nat ?F) :: u16) = 65535 - ?F" by (simp add: unat_not_u16)
  define T where "T = n + (65535 - ?F)"
  have F0: "?F = 0" if "n = 0" using that by (simp add: cksum_fold.simps)
  have pos: "0 < T" using F0 by (cases "n = 0") (auto simp: T_def)
  have "T + ?F = n + 65535" using F(1) by (simp add: T_def)
  then have "(T + ?F) mod 65535 = n mod 65535" by simp
  then have "(T + ?F) mod 65535 = (0 + ?F) mod 65535" using F(2) by simp
  then have "T mod 65535 = 0" by (metis add_diff_cancel_right' mod_eq_dvd_iff_nat dvd_eq_mod_eq_0 le_add2 add_0)
  then have "cksum_fold T mod 65535 = 0" "cksum_fold T < 65536" "0 < cksum_fold T"
    using cksum_fold_correct [of T] pos by auto
  then have "cksum_fold T = 65535" by (auto elim!: dvdE simp: dvd_eq_mod_eq_0 [symmetric])
  then show ?thesis by (simp add: ck T_def)
qed

lemma cksum_words_le16:
  "cksum_words acc (le16 w @ rest) = cksum_words (acc + unat w) rest"
  "cksum_words acc (le16 w) = acc + unat w"
proof -
  obtain x y where xy: "le16 w = [x, y]" by (simp add: le16_def)
  then have "of_le16 [x, y] = w" using of_le16_le16 [of w] by simp
  then show "cksum_words acc (le16 w @ rest) = cksum_words (acc + unat w) rest"
    "cksum_words acc (le16 w) = acc + unat w" by (simp_all add: xy)
qed

text \<open>the ICMP encoder builds an echo reply with the given addresses, identifier and sequence
  number whose checksum verifies: the ones' complement sum of the message is all ones.\<close>

theorem ng_encode_icmp_pkt_verifies:
  assumes "42 \<le> length msg" "length srcmac = 6" "length dst_mac = 6"
  shows "\<exists>m icmp. ng_encode_icmp_pkt ck srcmac msg dst_mac sip dip ident seqnb = Some m \<and>
    length m = length msg \<and> rd 0 6 m = Some dst_mac \<and> rd 6 6 m = Some srcmac \<and>
    parse_ip m = Some \<lparr>ip_total_length = htons 28, ip_next_proto = IPPROTO_ICMP,
                       ip_src = sip, ip_dst = dip\<rparr> \<and>
    rd8 34 m = Some 0 \<and> rd16 38 m = Some ident \<and> rd16 40 m = Some seqnb \<and>
    rd 34 8 m = Some icmp \<and> cksum_fold (cksum_words 0 icmp) = 0xFFFF"
proof -
  obtain m0 where m0: "encode_eth_ip ck msg IPPROTO_ICMP sip dip srcmac dst_mac 28 = Some m0"
      "length m0 = length msg" "rd 0 6 m0 = Some dst_mac" "rd 6 6 m0 = Some srcmac"
      "rd16 16 m0 = Some (htons 28)" "rd8 23 m0 = Some IPPROTO_ICMP"
      "rd32 26 m0 = Some sip" "rd32 30 m0 = Some dip"
    using encode_eth_ip_ok [of msg srcmac dst_mac ck IPPROTO_ICMP sip dip 28] assms by auto
  define m1 where "m1 = put 36 (le16 0) (put 40 (le16 seqnb) (put 38 (le16 ident) (put 35 [0] (put 34 [0] m0))))"
  define c where "c = ng_checksum ([0, 0, 0, 0] @ le16 ident @ le16 seqnb)"
  have icmp0: "rd 34 8 m1 = Some ([0, 0, 0, 0] @ le16 ident @ le16 seqnb)"
    using m0(2) assms(1)
    by (simp add: rd_def m1_def) (intro nth_equalityI; auto simp: nth_put le16_def nth_Cons' nth_append)
  have icmp1: "rd 34 8 (put 36 (le16 c) m1) = Some ([0, 0] @ le16 c @ le16 ident @ le16 seqnb)"
    using m0(2) assms(1)
    by (simp add: rd_def m1_def) (intro nth_equalityI; auto simp: nth_put le16_def nth_Cons' nth_append)
  define S where "S = unat ident + unat seqnb"
  have zero: "[0, 0, 0, 0] = le16 0 @ le16 0" "[0, 0] = le16 0" by (simp_all add: le16_def)
  have of0: "of_le16 [0, 0] = 0" by (simp add: of_le16_def)
  have "c = NOT (of_nat (cksum_fold S))"
    unfolding c_def ng_checksum_def zero append_assoc by (simp add: cksum_words_le16 S_def of0)
  moreover have "cksum_words 0 ([0, 0] @ le16 c @ le16 ident @ le16 seqnb) = S + unat c"
    unfolding zero by (simp add: cksum_words_le16 S_def of0)
  ultimately have "cksum_fold (cksum_words 0 ([0, 0] @ le16 c @ le16 ident @ le16 seqnb)) = 0xFFFF"
    using cksum_verifies [of S] by (simp only:)
  moreover have "ng_encode_icmp_pkt ck srcmac msg dst_mac sip dip ident seqnb = Some (put 36 (le16 c) m1)"
    using m0(1,2) assms(1) icmp0
    by (simp add: ng_encode_icmp_pkt_def wr_defs m1_def [symmetric] c_def) (simp add: m1_def)
  moreover have "length (put 36 (le16 c) m1) = length msg" using m0(2) by (simp add: m1_def)
  ultimately show ?thesis
    using icmp1 m0 assms(1) by (simp add: m1_def buf_simps parse_ip_def)
qed

section \<open>Witnesses\<close>

lemma ng_encode_icmp_pkt_verifies_witness:
  "\<exists>m icmp. ng_encode_icmp_pkt (\<lambda>_. 0) (replicate 6 1) (replicate 42 0) (replicate 6 2) 1 2 0x1234 0xFFEE = Some m \<and>
     rd 34 8 m = Some icmp \<and> cksum_fold (cksum_words 0 icmp) = 0xFFFF"
  using ng_encode_icmp_pkt_verifies [where msg = "replicate 42 0" and srcmac = "replicate 6 1" and
      dst_mac = "replicate 6 2" and ck = "\<lambda>_. 0" and sip = 1 and dip = 2 and ident = "0x1234" and seqnb = "0xFFEE"]
  by auto

lemma ng_encode_udp_apppkt_copies_8_more_witness:
  "ng_encode_udp_apppkt (\<lambda>_. 0) (\<lambda>_. 0) (replicate 2048 0) 1 2 3 4 (replicate 6 1) (replicate 6 2)
      [104, 105] 44 = None \<and>
   (\<exists>m. ng_encode_udp_apppkt (\<lambda>_. 0) (\<lambda>_. 0) (replicate 2048 0) 1 2 3 4 (replicate 6 1) (replicate 6 2)
      ([104, 105] @ replicate 8 0) 44 = Some m \<and> rd 42 2 m = Some [104, 105])"
  using ng_encode_udp_apppkt_copies_8_more [of 44 "[104, 105]" "replicate 2048 0" "replicate 6 1"
      "replicate 6 2" "replicate 8 0" "\<lambda>_. 0" "\<lambda>_. 0" 1 2 3 4]
  by (auto simp flip: numeral_2_eq_2)

definition frag_example :: ng_tcp_fragment where
  "frag_example = \<lparr>tf_sport = 0x0F27, tf_dport = 0x1234, tf_seqnum = 7, tf_acknum = 9,
     tf_hdrlen_off = 0x50, tf_tcp_flags = 0x18, tf_windows = 14600, tf_tcp_urp = 0,
     tf_optlen = 0, tf_data = Some [104, 105, 0], tf_length = 2\<rparr>"

lemma ng_encode_tcp_apppkt_roundtrip_witness:
  "\<exists>m h. ng_encode_tcp_apppkt (\<lambda>_. 0) (\<lambda>_. 5) (replicate 2048 0) 1 2 (replicate 6 1) (replicate 6 2)
       frag_example = Some m \<and> parse_tcp m = Some h \<and> th_seq h = htonl 7 \<and> th_cksum h = 5 \<and>
     rd 54 2 m = Some [104, 105]"
  using ng_encode_tcp_apppkt_roundtrip [of frag_example "replicate 2048 0" "replicate 6 1" "replicate 6 2"
      "\<lambda>_. 0" "\<lambda>_. 5" 1 2]
  by (auto simp: frag_example_def frag_wf_def frag_payload_def)

end
