(* ===== verification/Arp.thy ===== *)
theory Arp
  imports Packet_Correct
begin

text \<open>
  The ARP table of the stack and the periodic ARP scan. The table is a list of entries with a
  counter; entries are only ever added, at the front (\<open>LL_ADD\<close>), and the lookup loop is
  bounded by the counter.
\<close>

section \<open>The table\<close>

record arp_entry =
  arp_ip :: u32
  arp_hwaddr :: bytes
  arp_type :: u8

record arp_table =
  arp_entries :: "arp_entry list"
  arp_count :: int

definition arp_table_instance :: "bool \<Rightarrow> arp_table option \<Rightarrow> arp_table option" where
  "arp_table_instance alloc arpt =
     (case arpt of
        Some t \<Rightarrow> Some t
      | None \<Rightarrow> if alloc then Some \<lparr>arp_entries = [], arp_count = 0\<rparr> else None)"

text \<open>The loop \<open>for (iter = entries; count-- != 0 && iter != NULL; iter = iter->next)\<close>.\<close>

fun arp_lookup_loop :: "int \<Rightarrow> arp_entry list \<Rightarrow> u32 \<Rightarrow> bytes option" where
  "arp_lookup_loop count [] dip = None"
| "arp_lookup_loop count (e # es) dip =
     (if count = 0 then None
      else if dip = arp_ip e then Some (arp_hwaddr e)
      else arp_lookup_loop (count - 1) es dip)"

definition ng_get_dst_macaddr :: "u32 \<Rightarrow> arp_table \<Rightarrow> bytes option" where
  "ng_get_dst_macaddr dip t = arp_lookup_loop (arp_count t) (arp_entries t) dip"

definition ng_arp_entry_insert :: "bool \<Rightarrow> u32 \<Rightarrow> bytes \<Rightarrow> arp_table \<Rightarrow> int \<times> arp_table" where
  "ng_arp_entry_insert alloc ip mac t =
     (case ng_get_dst_macaddr ip t of
        None \<Rightarrow>
          (1, if alloc
              then t\<lparr>arp_entries := \<lparr>arp_ip = ip, arp_hwaddr = take 6 mac, arp_type = 0\<rparr> # arp_entries t,
                     arp_count := arp_count t + 1\<rparr>
              else t)
      | Some _ \<Rightarrow> (0, t))"

section \<open>The ARP scan\<close>

record mbuf =
  mb_len :: nat
  mb_data :: bytes

text \<open>\<open>room\<close> is the buffer \<open>rte_pktmbuf_alloc\<close> returns; without one the process exits.\<close>

definition ng_send_arp :: "bytes \<Rightarrow> bytes option \<Rightarrow> u16 \<Rightarrow> bytes \<Rightarrow> u32 \<Rightarrow> u32 \<Rightarrow> mbuf option" where
  "ng_send_arp srcmac room opcode dst_mac sip dip =
     do { buf \<leftarrow> room;
          m \<leftarrow> ng_encode_arp_pkt srcmac buf opcode dst_mac sip dip;
          Some \<lparr>mb_len = 42, mb_data = m\<rparr> }"

definition scan_ip :: "u32 \<Rightarrow> nat \<Rightarrow> u32" where
  "scan_ip local i = (local AND 0x00FFFFFF) OR (0xFF000000 AND push_bit 24 (of_nat i))"

text \<open>
  \<open>enq\<close> is \<open>rte_ring_mp_enqueue_burst\<close> of one packet on the output ring, whose result the
  code ignores; \<open>pool i\<close> is the outcome of the allocation for address \<open>i\<close>.
\<close>

fun arp_scan_loop ::
  "(mbuf \<Rightarrow> 'o \<Rightarrow> nat \<times> 'o) \<Rightarrow> bytes \<Rightarrow> u32 \<Rightarrow> arp_table \<Rightarrow> (nat \<Rightarrow> bytes option) \<Rightarrow> nat list \<Rightarrow> 'o \<Rightarrow> 'o option" where
  "arp_scan_loop enq srcmac local t pool [] out = Some out"
| "arp_scan_loop enq srcmac local t pool (i # is) out =
     do { let dstip = scan_ip local i;
          m \<leftarrow> (case ng_get_dst_macaddr dstip t of
                  None \<Rightarrow> ng_send_arp srcmac (pool i) 1 gDefaultArpMac local dstip
                | Some mac \<Rightarrow> ng_send_arp srcmac (pool i) 1 mac local dstip);
          arp_scan_loop enq srcmac local t pool is (snd (enq m out)) }"

definition arp_request_timer_cb ::
  "(mbuf \<Rightarrow> 'o \<Rightarrow> nat \<times> 'o) \<Rightarrow> bytes \<Rightarrow> u32 \<Rightarrow> arp_table \<Rightarrow> (nat \<Rightarrow> bytes option) \<Rightarrow> 'o \<Rightarrow> 'o option" where
  "arp_request_timer_cb enq srcmac local t pool out = arp_scan_loop enq srcmac local t pool [1..<255] out"

section \<open>Correctness\<close>

definition arp_inv :: "arp_table \<Rightarrow> bool" where
  "arp_inv t \<longleftrightarrow> arp_count t = int (length (arp_entries t)) \<and> distinct (map arp_ip (arp_entries t)) \<and>
     (\<forall>e\<in>set (arp_entries t). length (arp_hwaddr e) = 6)"

lemma arp_lookup_loop_map_of:
  "arp_lookup_loop (int (length es)) es dip = map_of (map (\<lambda>e. (arp_ip e, arp_hwaddr e)) es) dip"
  by (induction es) auto

lemma arp_lookup_map_of:
  "arp_inv t \<Longrightarrow> ng_get_dst_macaddr dip t = map_of (map (\<lambda>e. (arp_ip e, arp_hwaddr e)) (arp_entries t)) dip"
  by (simp add: ng_get_dst_macaddr_def arp_inv_def arp_lookup_loop_map_of)

lemma arp_insert_inv:
  assumes "arp_inv t" "6 \<le> length mac"
  shows "arp_inv (snd (ng_arp_entry_insert alloc ip mac t))"
  using assms arp_lookup_map_of [OF assms(1), of ip]
  by (auto simp: ng_arp_entry_insert_def arp_inv_def map_of_eq_None_iff image_image split: option.splits)

lemma arp_lookup_insert:
  assumes "arp_inv t" "6 \<le> length mac"
  shows "ng_get_dst_macaddr dip (snd (ng_arp_entry_insert alloc ip mac t)) =
     (if dip = ip \<and> alloc \<and> ng_get_dst_macaddr ip t = None then Some (take 6 mac)
      else ng_get_dst_macaddr dip t)"
  using arp_lookup_map_of [OF arp_insert_inv [OF assms], of dip alloc ip] arp_lookup_map_of [OF assms(1)]
  by (auto simp: ng_arp_entry_insert_def split: option.splits)

text \<open>Learning from a sequence of packets: the address, the Ethernet source and the outcome of
  the allocation.\<close>

fun arp_learn :: "(u32 \<times> bytes \<times> bool) list \<Rightarrow> arp_table \<Rightarrow> arp_table" where
  "arp_learn [] t = t"
| "arp_learn ((ip, mac, alloc) # ps) t = arp_learn ps (snd (ng_arp_entry_insert alloc ip mac t))"

lemma arp_learn_lookup:
  assumes "arp_inv t" "\<forall>(ip, mac, alloc)\<in>set ps. 6 \<le> length mac"
  shows "ng_get_dst_macaddr dip (arp_learn ps t) =
      (case ng_get_dst_macaddr dip t of
         Some m \<Rightarrow> Some m
       | None \<Rightarrow> map_option (\<lambda>(ip, mac, alloc). take 6 mac) (find (\<lambda>(ip, mac, alloc). ip = dip \<and> alloc) ps))"
  using assms
proof (induction ps arbitrary: t)
  case Nil
  then show ?case by (simp split: option.splits)
next
  case (Cons p ps)
  obtain ip mac alloc where p: "p = (ip, mac, alloc)" by (cases p)
  have mac: "6 \<le> length mac" using Cons.prems(2) p by simp
  show ?case
    using Cons.IH [OF arp_insert_inv [OF Cons.prems(1) mac], of alloc ip] Cons.prems(2)
      arp_lookup_insert [OF Cons.prems(1) mac, of dip alloc ip] p
    by (auto split: option.splits)
qed

text \<open>after any sequence of packets, the lookup of an address returns the Ethernet address of
  the first packet that could be stored for it: an entry is never replaced, and lookups are
  not cut short by the counter.\<close>

theorem arp_first_packet_wins:
  assumes "\<forall>(ip, mac, alloc)\<in>set ps. 6 \<le> length mac"
  shows "ng_get_dst_macaddr dip (arp_learn ps \<lparr>arp_entries = [], arp_count = 0\<rparr>) =
     map_option (\<lambda>(ip, mac, alloc). take 6 mac) (find (\<lambda>(ip, mac, alloc). ip = dip \<and> alloc) ps)"
  using arp_learn_lookup [of "\<lparr>arp_entries = [], arp_count = 0\<rparr>" ps dip] assms
  by (simp add: arp_inv_def ng_get_dst_macaddr_def)

lemma arp_first_packet_wins_witness:
  "ng_get_dst_macaddr 7 (arp_learn [(5, replicate 6 1, True), (7, replicate 6 2, False),
      (7, replicate 6 3, True), (7, replicate 6 4, True)] \<lparr>arp_entries = [], arp_count = 0\<rparr>) =
   Some [3, 3, 3, 3, 3, 3]"
  using arp_first_packet_wins [of "[(5, replicate 6 1, True), (7, replicate 6 2, False),
      (7, replicate 6 3, True), (7, replicate 6 4, True)]" 7] by (simp add: eval_nat_numeral)

lemma scan_ip_bytes: "le32 (scan_ip local i) = take 3 (le32 local) @ [of_nat i]"
proof -
  have m1: "(0x00FFFFFF :: u32) = mask 24" by (simp add: mask_eq_exp_minus_1)
  have m2: "(0xFF000000 :: u32) = push_bit 24 (mask 8)" by (simp add: mask_eq_exp_minus_1)
  show ?thesis
    unfolding le32_def scan_ip_def m1 m2
    by (simp, intro conjI; rule bit_word_eqI; auto simp: bit_simps)
qed

text \<open>the timer callback sends one well-formed ARP request for each of the host numbers 1 to
  254 of the local /24 network, in ascending order, to the known Ethernet address of the
  host or, when it is unknown, to the all-zero placeholder.\<close>

theorem arp_scan_covers_subnet:
  assumes inv: "arp_inv t" and src: "length srcmac = 6"
    and pool: "\<And>i. 1 \<le> i \<Longrightarrow> i < 255 \<Longrightarrow> \<exists>buf. pool i = Some buf \<and> 42 \<le> length buf"
  shows "\<exists>ms. arp_request_timer_cb enq srcmac local t pool out = Some (fold (\<lambda>m o'. snd (enq m o')) ms out) \<and>
    length ms = 254 \<and>
    (\<forall>k<254. mb_len (ms ! k) = 42 \<and> rd16 20 (mb_data (ms ! k)) = Some (htons 1) \<and>
       rd32 28 (mb_data (ms ! k)) = Some local \<and>
       rd32 38 (mb_data (ms ! k)) = Some (scan_ip local (k + 1)) \<and>
       le32 (scan_ip local (k + 1)) = take 3 (le32 local) @ [of_nat (k + 1)] \<and>
       rd 32 6 (mb_data (ms ! k)) =
         Some (case ng_get_dst_macaddr (scan_ip local (k + 1)) t of None \<Rightarrow> gDefaultArpMac | Some mac \<Rightarrow> mac))"
proof -
  let ?mac = "\<lambda>i. case ng_get_dst_macaddr (scan_ip local i) t of None \<Rightarrow> gDefaultArpMac | Some mac \<Rightarrow> mac"
  let ?ok = "\<lambda>i m. mb_len m = 42 \<and> rd16 20 (mb_data m) = Some (htons 1) \<and> rd32 28 (mb_data m) = Some local \<and>
      rd32 38 (mb_data m) = Some (scan_ip local i) \<and> rd 32 6 (mb_data m) = Some (?mac i)"
  have mac: "length (?mac i) = 6" for i
    using inv map_of_SomeD [of "map (\<lambda>e. (arp_ip e, arp_hwaddr e)) (arp_entries t)" "scan_ip local i"]
    by (auto simp: arp_lookup_map_of gDefaultArpMac_def arp_inv_def split: option.splits)
  have loop: "\<exists>ms. arp_scan_loop enq srcmac local t pool is out = Some (fold (\<lambda>m o'. snd (enq m o')) ms out) \<and>
      length ms = length is \<and> (\<forall>k<length is. ?ok (is ! k) (ms ! k))"
    if "\<forall>i\<in>set is. 1 \<le> i \<and> i < 255" for "is" out
    using that
  proof (induction "is" arbitrary: out)
    case (Cons i "is")
    obtain buf where buf: "pool i = Some buf" "42 \<le> length buf" using pool [of i] Cons.prems by auto
    obtain m where m: "ng_encode_arp_pkt srcmac buf 1 (?mac i) local (scan_ip local i) = Some m"
        "rd16 20 m = Some (htons 1)" "rd32 28 m = Some local" "rd 32 6 m = Some (?mac i)"
        "rd32 38 m = Some (scan_ip local i)"
      using ng_encode_arp_pkt_ok [OF buf(2) src mac] by blast
    let ?m = "\<lparr>mb_len = 42, mb_data = m\<rparr>"
    obtain ms where ms: "arp_scan_loop enq srcmac local t pool is (snd (enq ?m out)) =
          Some (fold (\<lambda>m o'. snd (enq m o')) ms (snd (enq ?m out)))"
        "length ms = length is" "\<forall>k<length is. ?ok (is ! k) (ms ! k)"
      using Cons.IH [of "snd (enq ?m out)"] Cons.prems by auto
    have "(case ng_get_dst_macaddr (scan_ip local i) t of
            None \<Rightarrow> ng_send_arp srcmac (pool i) 1 gDefaultArpMac local (scan_ip local i)
          | Some mac \<Rightarrow> ng_send_arp srcmac (pool i) 1 mac local (scan_ip local i)) = Some ?m"
      using m(1) buf(1) by (auto simp: ng_send_arp_def split: option.splits)
    then show ?case
      using ms m by (intro exI [of _ "?m # ms"]) (auto simp: nth_Cons' less_Suc_eq_0_disj)
  qed simp
  show ?thesis
    using loop [of "[1..<255]" out] by (auto simp: arp_request_timer_cb_def add.commute scan_ip_bytes)
qed

lemma arp_scan_covers_subnet_witness:
  "\<exists>ms. arp_request_timer_cb (\<lambda>m o'. (1, o' @ [m])) (replicate 6 9) 0x7700A8C0
       \<lparr>arp_entries = [], arp_count = 0\<rparr> (\<lambda>i. Some (replicate 64 0)) [] =
         Some (fold (\<lambda>m o'. o' @ [m]) ms []) \<and>
     length ms = 254 \<and> rd 32 6 (mb_data (ms ! 0)) = Some gDefaultArpMac"
  using arp_scan_covers_subnet [of "\<lparr>arp_entries = [], arp_count = 0\<rparr>" "replicate 6 9" "\<lambda>i. Some (replicate 64 0)"
      "\<lambda>m o'. (1, o' @ [m])" "0x7700A8C0" "[]"]
  by (auto simp: arp_inv_def ng_get_dst_macaddr_def)

end
