(* ===== verification/Epoll.thy ===== *)
theory Epoll
  imports RB_Set Fd_Bitmap
begin

text \<open>
  The epoll object: \<open>epoll_event_callback\<close>, \<open>nepoll_create\<close>, \<open>nepoll_ctl\<close> and
  \<open>nepoll_wait\<close> of \<^verbatim>\<open>tcp_concurrency.c\<close>. The items are kept in the pointer-level red-black
  tree of \<open>RB_Tree\<close>; the ready list is a \<open>LIST\<close> of the C library, modelled as the list of
  its elements, with the accesses the macros make to neighbouring elements. The heap of
  items records which items are allocated, so that a use after free is a crash (\<open>None\<close>).

  \<open>rte_malloc\<close> does not clear memory: what the code leaves uninitialised in a new object is
  an argument of the operation. The locks make each operation atomic and are not modelled.
\<close>

section \<open>State\<close>

record epoll_event =
  ev_events :: u32
  ev_data :: u64

record epitem =
  epi_rdy :: int
  epi_sockfd :: int
  epi_event :: epoll_event

record eventpoll =
  ep_fd :: int
  ep_rbr :: rb_head
  ep_rbcnt :: int
  ep_items :: "addr \<rightharpoonup> epitem"
  ep_rdlist :: "addr list"
  ep_rdnum :: int
  ep_waiting :: int

definition EPOLLIN :: u32 where "EPOLLIN = 0x0001"
definition EPOLLERR :: u32 where "EPOLLERR = 0x0008"
definition EPOLLHUP :: u32 where "EPOLLHUP = 0x0010"

datatype epoll_op = EPOLL_CTL_ADD | EPOLL_CTL_DEL | EPOLL_CTL_MOD | EPOLL_CTL_OTHER

text \<open>\<open>RB_FIND\<close> with a temporary item that carries the descriptor.\<close>

definition ep_cmp :: "eventpoll \<Rightarrow> int \<Rightarrow> addr \<Rightarrow> int option" where
  "ep_cmp ep fd p = map_option (\<lambda>e. sockfd_cmp fd (epi_sockfd e)) (ep_items ep p)"

definition ep_find :: "eventpoll \<Rightarrow> int \<Rightarrow> addr option" where
  "ep_find ep fd = RB_FIND (ep_cmp ep fd) (ep_rbr ep)"

definition epi_update :: "addr \<Rightarrow> (epitem \<Rightarrow> epitem) \<Rightarrow> eventpoll \<Rightarrow> eventpoll option" where
  "epi_update p f ep =
     map_option (\<lambda>e. ep\<lparr>ep_items := (ep_items ep)(p \<mapsto> f e)\<rparr>) (ep_items ep p)"

text \<open>
  \<open>LIST_INSERT_HEAD\<close> writes the back pointer of the old first element, \<open>LIST_REMOVE\<close> of the
  first element that of the second. Inserting an element that is still linked makes the list
  cyclic; this corruption is \<open>None\<close> as well.
\<close>

definition LIST_INSERT_HEAD :: "addr \<Rightarrow> eventpoll \<Rightarrow> eventpoll option" where
  "LIST_INSERT_HEAD p ep =
     (case ep_rdlist ep of
        [] \<Rightarrow> Some (ep\<lparr>ep_rdlist := [p]\<rparr>)
      | q # qs \<Rightarrow> (if ep_items ep q = None \<or> p \<in> set (q # qs) then None
                   else Some (ep\<lparr>ep_rdlist := p # q # qs\<rparr>)))"

fun list_remove_first_ok :: "(addr \<rightharpoonup> epitem) \<Rightarrow> addr list \<Rightarrow> bool" where
  "list_remove_first_ok items (p # q # qs) = (items q \<noteq> None)"
| "list_remove_first_ok items _ = True"

section \<open>Events\<close>

text \<open>
  The value returned is \<open>Some r\<close> where the code has a \<open>return r\<close>, and \<open>None\<close> at the end of
  the function, which has no return statement. A \<open>NULL\<close> eventpoll is dereferenced.
\<close>

definition epoll_event_callback ::
  "eventpoll option \<Rightarrow> int \<Rightarrow> u32 \<Rightarrow> (int option \<times> eventpoll) option" where
  "epoll_event_callback epp sockid event =
     do { ep \<leftarrow> epp;
          epi \<leftarrow> ep_find ep sockid;
          if epi = NULL then Some (Some (- 1), ep)
          else
            do { e \<leftarrow> ep_items ep epi;
                 if epi_rdy e \<noteq> 0 then
                   do { ep \<leftarrow> epi_update epi
                          (\<lambda>e. e\<lparr>epi_event := (epi_event e)\<lparr>ev_events :=
                                   (ev_events (epi_event e)) OR event\<rparr>\<rparr>) ep;
                        Some (Some 1, ep) }
                 else
                   do { ep \<leftarrow> epi_update epi (\<lambda>e. e\<lparr>epi_rdy := 1\<rparr>) ep;
                        ep \<leftarrow> LIST_INSERT_HEAD epi ep;
                        Some (None, ep\<lparr>ep_rdnum := ep_rdnum ep + 1\<rparr>) } } }"

section \<open>Creation\<close>

text \<open>
  The pointer \<open>ep\<close> of the TCP table: the code stores it before the initialisations that can
  fail, and does not clear it when it frees the object.
\<close>

datatype ep_ref = EpNull | EpAt eventpoll | EpFreed

fun ep_deref :: "ep_ref \<Rightarrow> eventpoll option option" where
  "ep_deref EpNull = Some None"
| "ep_deref (EpAt ep) = Some (Some ep)"
| "ep_deref EpFreed = None"

text \<open>
  \<open>raw\<close> is the allocated object before initialisation (\<open>None\<close> when the allocation fails)
  and \<open>inits\<close> the results of the four \<open>pthread\<close> initialisers in the order of the code.
\<close>

definition nepoll_create ::
  "int \<Rightarrow> eventpoll option \<Rightarrow> int list \<Rightarrow> ep_ref \<Rightarrow> fd_table \<Rightarrow> (int \<times> ep_ref \<times> fd_table) option" where
  "nepoll_create sz raw inits tep fdt =
     (if sz \<le> 0 then Some (- 1, tep, fdt)
      else
        let (epfd, fdt) = get_fd_frombitmap fdt in
        case raw of
          None \<Rightarrow> do { (_, fdt) \<leftarrow> set_fd_frombitmap epfd fdt; Some (- 1, tep, fdt) }
        | Some ep \<Rightarrow>
            let ep = ep\<lparr>ep_fd := epfd, ep_rbcnt := 0, ep_rbr := RB_INIT (ep_rbr ep),
                        ep_rdlist := []\<rparr> in
            if \<exists>r\<in>set inits. r \<noteq> 0
            then do { (_, fdt) \<leftarrow> set_fd_frombitmap epfd fdt; Some (- 2, EpFreed, fdt) }
            else Some (epfd, EpAt ep, fdt))"

section \<open>Control\<close>

text \<open>
  \<open>raw\<close> is the address and the uninitialised content of the item \<open>rte_malloc\<close> returns.
  \<open>free\<close> ends the life of the item, with the tree links embedded in it.
\<close>

definition ctl_add :: "int \<Rightarrow> epoll_event \<Rightarrow> (addr \<times> epitem) option \<Rightarrow> eventpoll \<Rightarrow> (int \<times> eventpoll) option" where
  "ctl_add sockid event raw ep =
     do { epi \<leftarrow> ep_find ep sockid;
          if epi \<noteq> NULL then Some (- 1, ep)
          else case raw of
            None \<Rightarrow> Some (- 1, ep)
          | Some (p, e) \<Rightarrow>
              do { let ep = ep\<lparr>ep_items := (ep_items ep)(p \<mapsto>
                               e\<lparr>epi_sockfd := sockid, epi_event := event\<rparr>)\<rparr>;
                   (_, t) \<leftarrow> RB_INSERT (ep_cmp ep sockid) p (ep_rbr ep);
                   Some (0, ep\<lparr>ep_rbr := t, ep_rbcnt := ep_rbcnt ep + 1\<rparr>) } }"

definition ctl_del :: "int \<Rightarrow> eventpoll \<Rightarrow> (int \<times> eventpoll) option" where
  "ctl_del sockid ep =
     do { epi \<leftarrow> ep_find ep sockid;
          if epi = NULL then Some (- 1, ep)
          else
            do { (epi, t) \<leftarrow> RB_REMOVE epi (ep_rbr ep);
                 if epi = NULL then Some (- 1, ep\<lparr>ep_rbr := t\<rparr>)
                 else Some (0, ep\<lparr>ep_rbr := t\<lparr>rbe := (rbe t)(epi := None)\<rparr>,
                                  ep_rbcnt := ep_rbcnt ep - 1,
                                  ep_items := (ep_items ep)(epi := None)\<rparr>) } }"

definition ctl_mod :: "int \<Rightarrow> epoll_event \<Rightarrow> eventpoll \<Rightarrow> (int \<times> eventpoll) option" where
  "ctl_mod sockid event ep =
     do { epi \<leftarrow> ep_find ep sockid;
          if epi = NULL then Some (- 1, ep)
          else do { ep \<leftarrow> epi_update epi
                      (\<lambda>e. e\<lparr>epi_event := (epi_event e)\<lparr>ev_events :=
                               (ev_events event) OR (EPOLLERR OR EPOLLHUP)\<rparr>\<rparr>) ep;
                    Some (0, ep) } }"

definition nepoll_ctl ::
  "eventpoll option \<Rightarrow> epoll_op \<Rightarrow> int \<Rightarrow> epoll_event option \<Rightarrow> (addr \<times> epitem) option \<Rightarrow>
     (int \<times> eventpoll option) option" where
  "nepoll_ctl epp opn sockid event raw =
     (case epp of
        None \<Rightarrow> Some (- 1, None)
      | Some ep \<Rightarrow>
          (if event = None \<and> opn \<noteq> EPOLL_CTL_DEL then Some (- 1, Some ep)
           else map_option (\<lambda>(r, ep). (r, Some ep))
             (case opn of
                EPOLL_CTL_ADD \<Rightarrow> ctl_add sockid (the event) raw ep
              | EPOLL_CTL_DEL \<Rightarrow> ctl_del sockid ep
              | EPOLL_CTL_MOD \<Rightarrow> ctl_mod sockid (the event) ep
              | EPOLL_CTL_OTHER \<Rightarrow> Some (0, ep))))"

section \<open>Waiting\<close>

text \<open>The absolute deadline of \<open>pthread_cond_timedwait\<close>, from the current time and a timeout
  in milliseconds.\<close>

definition wait_deadline :: "int \<Rightarrow> int \<times> int \<Rightarrow> int \<times> int" where
  "wait_deadline timeout now =
     (let (sec, nsec) = now;
          (sec, timeout) = (if timeout \<ge> 1000
                            then (sec + timeout div 1000, timeout - (timeout div 1000) * 1000)
                            else (sec, timeout));
          nsec = nsec + timeout * 1000000
      in if nsec \<ge> 1000000000 then (sec + 1, nsec - 1000000000) else (sec, nsec))"

text \<open>
  The wait loop. Every element of \<open>wakes\<close> is the outcome of one wait on the condition
  variable: the return code and the state the other threads left; \<open>etimedout\<close> is the error
  number of an expired wait. When they are used up the thread is still blocked.
\<close>

datatype 'a blocking = Blocked | Done 'a

fun wait_loop :: "int \<Rightarrow> int \<Rightarrow> (int \<times> eventpoll) list \<Rightarrow> eventpoll \<Rightarrow> (bool \<times> eventpoll) blocking" where
  "wait_loop etimedout timeout wakes ep =
     (if ep_rdnum ep = 0 \<and> timeout \<noteq> 0 then
        (case wakes of
           [] \<Rightarrow> Blocked
         | (ret, ep) # wakes \<Rightarrow>
             if timeout > 0 then
               (if ret \<noteq> 0 \<and> ret \<noteq> etimedout then Done (False, ep\<lparr>ep_waiting := 1\<rparr>)
                else wait_loop etimedout 0 wakes (ep\<lparr>ep_waiting := 0\<rparr>))
             else
               (if ret \<noteq> 0 then Done (False, ep\<lparr>ep_waiting := 1\<rparr>)
                else wait_loop etimedout timeout wakes (ep\<lparr>ep_waiting := 0\<rparr>)))
      else Done (True, ep))"

text \<open>The loop that moves ready items to the caller's array, which has \<open>length events\<close>
  entries.\<close>

fun collect_loop :: "addr list \<Rightarrow> int \<Rightarrow> nat \<Rightarrow> epoll_event list \<Rightarrow> eventpoll \<Rightarrow>
    (nat \<times> epoll_event list \<times> eventpoll) option" where
  "collect_loop [] num i events ep = Some (i, events, ep)"
| "collect_loop (epi # rest) num i events ep =
     (if num = 0 then Some (i, events, ep)
      else if \<not> list_remove_first_ok (ep_items ep) (epi # rest) \<or> i \<ge> length events then None
      else
        do { e \<leftarrow> ep_items ep epi;
             let ep = ep\<lparr>ep_rdlist := rest,
                         ep_items := (ep_items ep)(epi \<mapsto> e\<lparr>epi_rdy := 0\<rparr>),
                         ep_rdnum := ep_rdnum ep - 1\<rparr>;
             collect_loop rest (num - 1) (i + 1) (events[i := epi_event e]) ep })"

definition wait_collect :: "epoll_event list \<Rightarrow> int \<Rightarrow> eventpoll \<Rightarrow> (int \<times> epoll_event list \<times> eventpoll) option" where
  "wait_collect events maxevents ep =
     do { let num = (if ep_rdnum ep > maxevents then maxevents else ep_rdnum ep);
          (cnt, events, ep) \<leftarrow> collect_loop (ep_rdlist ep) num 0 events ep;
          Some (int cnt, events, ep) }"

definition nepoll_wait ::
  "int \<Rightarrow> eventpoll option \<Rightarrow> epoll_event list option \<Rightarrow> int \<Rightarrow> int \<Rightarrow> (int \<times> eventpoll) list \<Rightarrow>
     (int \<times> epoll_event list option \<times> eventpoll option) blocking option" where
  "nepoll_wait etimedout epp events maxevents timeout wakes =
     (case (epp, events) of
        (Some ep, Some evs) \<Rightarrow>
          (if maxevents \<le> 0 then Some (Done (- 1, events, epp))
           else case wait_loop etimedout timeout wakes ep of
             Blocked \<Rightarrow> Some Blocked
           | Done (False, ep) \<Rightarrow> Some (Done (- 1, events, Some ep))
           | Done (True, ep) \<Rightarrow>
               do { (cnt, evs, ep) \<leftarrow> wait_collect evs maxevents ep;
                    Some (Done (cnt, Some evs, Some ep)) })
      | _ \<Rightarrow> Some (Done (- 1, events, epp)))"

end
