(* ===== verification/Ring.thy ===== *)
theory Ring
  imports Prelude
begin

text \<open>
  DPDK rings as the code uses them. \<^verbatim>\<open>rte_ring\<close> is not part of the repository: its two operations
  are parameters, \<open>ring_fifo\<close> is what the DPDK documentation promises of them, and
  \<open>list_ring\<close> is a concrete instance, which shows that the promise can be kept.
\<close>

text \<open>\<open>None\<close> is the negative return code of a full or empty ring, which is left unchanged.\<close>

record ('r, 'x) rte_ring =
  rte_enqueue :: "'x \<Rightarrow> 'r \<Rightarrow> 'r option"
  rte_dequeue :: "'r \<Rightarrow> ('x \<times> 'r) option"

text \<open>\<open>rte_ring_mp_enqueue\<close> with the result ignored, as everywhere in the code: an element that
  does not fit is lost.\<close>

definition ring_push :: "('r, 'x) rte_ring \<Rightarrow> 'x \<Rightarrow> 'r \<Rightarrow> 'r" where
  "ring_push R x r = (case rte_enqueue R x r of None \<Rightarrow> r | Some r' \<Rightarrow> r')"

definition ring_fifo :: "('r, 'x) rte_ring \<Rightarrow> nat \<Rightarrow> ('r \<Rightarrow> 'x list) \<Rightarrow> bool" where
  "ring_fifo R cap view \<longleftrightarrow>
     (\<forall>r x. case rte_enqueue R x r of
        None \<Rightarrow> cap \<le> length (view r)
      | Some r' \<Rightarrow> length (view r) < cap \<and> view r' = view r @ [x]) \<and>
     (\<forall>r. case rte_dequeue R r of
        None \<Rightarrow> view r = []
      | Some (x, r') \<Rightarrow> view r = x # view r')"

definition list_ring :: "nat \<Rightarrow> ('x list, 'x) rte_ring" where
  "list_ring cap =
     \<lparr>rte_enqueue = (\<lambda>x r. if length r < cap then Some (r @ [x]) else None),
      rte_dequeue = (\<lambda>r. case r of [] \<Rightarrow> None | x # r' \<Rightarrow> Some (x, r'))\<rparr>"

lemma list_ring_fifo: "ring_fifo (list_ring cap) cap (\<lambda>r. r)"
  by (auto simp: ring_fifo_def list_ring_def split: list.splits)

lemma ring_push_view:
  assumes "ring_fifo R cap view" "length (view r) < cap"
  shows "view (ring_push R x r) = view r @ [x]"
proof -
  have "case rte_enqueue R x r of None \<Rightarrow> cap \<le> length (view r)
      | Some r' \<Rightarrow> length (view r) < cap \<and> view r' = view r @ [x]"
    using assms(1) unfolding ring_fifo_def by blast
  then show ?thesis using assms(2) by (auto simp: ring_push_def split: option.splits)
qed

lemma ring_push_full:
  assumes "ring_fifo R cap view" "cap \<le> length (view r)"
  shows "ring_push R x r = r"
proof -
  have "case rte_enqueue R x r of None \<Rightarrow> cap \<le> length (view r)
      | Some r' \<Rightarrow> length (view r) < cap \<and> view r' = view r @ [x]"
    using assms(1) unfolding ring_fifo_def by blast
  then show ?thesis using assms(2) by (auto simp: ring_push_def split: option.splits)
qed

lemma ring_dequeue_cases:
  assumes "ring_fifo R cap view"
  obtains "rte_dequeue R r = None" "view r = []"
    | x r' where "rte_dequeue R r = Some (x, r')" "view r = x # view r'"
proof -
  have "case rte_dequeue R r of None \<Rightarrow> view r = [] | Some (x, r') \<Rightarrow> view r = x # view r'"
    using assms unfolding ring_fifo_def by blast
  then show ?thesis using that by (auto split: option.splits prod.splits)
qed

end
