(* ===== verification/Tcp.thy ===== *)
theory Tcp
  imports Arp Epoll Ring
begin

text \<open>
  The TCP engine of \<^verbatim>\<open>tcp_concurrency.c\<close>: control blocks and their table, demultiplexing, the
  handlers of the server-side state machine, packet reception with the checksum test, and
  the output loop. A control block is named by its address (\<open>ts_ptr\<close>); the table is the
  list of the control blocks in list order, which \<open>Linked_List\<close> justifies.

  Memory that is allocated but not initialised, the outcomes of allocations and ring
  creations, and the random number come from outside and are arguments, bundled in
  \<open>tcp_env\<close>.
\<close>

section \<open>Control blocks\<close>

datatype NG_TCP_STATUS =
    NG_TCP_STATUS_CLOSED
  | NG_TCP_STATUS_LISTEN
  | NG_TCP_STATUS_SYN_RCVD
  | NG_TCP_STATUS_SYN_SENT
  | NG_TCP_STATUS_ESTABLISHED
  | NG_TCP_STATUS_FIN_WAIT_1
  | NG_TCP_STATUS_FIN_WAIT_2
  | NG_TCP_STATUS_CLOSING
  | NG_TCP_STATUS_TIME_WAIT
  | NG_TCP_STATUS_CLOSE_WAIT
  | NG_TCP_STATUS_LAST_ACK

record 'r ng_tcp_stream =
  ts_ptr :: addr
  ts_fd :: int
  ts_dip :: u32
  ts_localmac :: bytes
  ts_dport :: u16
  ts_protocol :: u8
  ts_sport :: u16
  ts_sip :: u32
  ts_snd_nxt :: u32
  ts_rcv_nxt :: u32
  ts_status :: NG_TCP_STATUS
  ts_sndbuf :: "'r option"
  ts_rcvbuf :: "'r option"

record 'r ng_tcp_table =
  tcb_set :: "'r ng_tcp_stream list"
  tcp_ep :: ep_ref

definition RTE_TCP_FIN_FLAG :: u8 where "RTE_TCP_FIN_FLAG = 0x01"
definition RTE_TCP_SYN_FLAG :: u8 where "RTE_TCP_SYN_FLAG = 0x02"
definition RTE_TCP_PSH_FLAG :: u8 where "RTE_TCP_PSH_FLAG = 0x08"
definition RTE_TCP_ACK_FLAG :: u8 where "RTE_TCP_ACK_FLAG = 0x10"
definition TCP_INITIAL_WINDOW :: u16 where "TCP_INITIAL_WINDOW = 14600"

definition tcp_flag :: "tcp_hdr \<Rightarrow> u8 \<Rightarrow> bool" where
  "tcp_flag h fl \<longleftrightarrow> th_flags h AND fl \<noteq> 0"

text \<open>Access through a pointer to a control block; a freed one is gone.\<close>

definition tcb_get :: "addr \<Rightarrow> 'r ng_tcp_table \<Rightarrow> 'r ng_tcp_stream option" where
  "tcb_get p t = find (\<lambda>s. ts_ptr s = p) (tcb_set t)"

definition tcb_update ::
  "addr \<Rightarrow> ('r ng_tcp_stream \<Rightarrow> 'r ng_tcp_stream) \<Rightarrow> 'r ng_tcp_table \<Rightarrow> 'r ng_tcp_table" where
  "tcb_update p f t = t\<lparr>tcb_set := map (\<lambda>s. if ts_ptr s = p then f s else s) (tcb_set t)\<rparr>"

text \<open>\<open>rte_ring_mp_enqueue(stream->sndbuf, f)\<close> and the same for \<open>rcvbuf\<close>: the ring pointer may be
  \<open>NULL\<close>.\<close>

definition enqueue_snd ::
  "('r, ng_tcp_fragment) rte_ring \<Rightarrow> addr \<Rightarrow> ng_tcp_fragment \<Rightarrow> 'r ng_tcp_table \<Rightarrow> 'r ng_tcp_table option" where
  "enqueue_snd R p f t =
     do { s \<leftarrow> tcb_get p t;
          r \<leftarrow> ts_sndbuf s;
          Some (tcb_update p (\<lambda>s. s\<lparr>ts_sndbuf := Some (ring_push R f r)\<rparr>) t) }"

definition enqueue_rcv ::
  "('r, ng_tcp_fragment) rte_ring \<Rightarrow> addr \<Rightarrow> ng_tcp_fragment \<Rightarrow> 'r ng_tcp_table \<Rightarrow> 'r ng_tcp_table option" where
  "enqueue_rcv R p f t =
     do { s \<leftarrow> tcb_get p t;
          r \<leftarrow> ts_rcvbuf s;
          Some (tcb_update p (\<lambda>s. s\<lparr>ts_rcvbuf := Some (ring_push R f r)\<rparr>) t) }"

section \<open>Demultiplexing\<close>

definition ng_tcp_stream_search ::
  "u32 \<Rightarrow> u32 \<Rightarrow> u16 \<Rightarrow> u16 \<Rightarrow> 'r ng_tcp_table \<Rightarrow> 'r ng_tcp_stream option" where
  "ng_tcp_stream_search sip dip sport dport t =
     (case find (\<lambda>s. ts_sip s = sip \<and> ts_dip s = dip \<and> ts_sport s = sport \<and> ts_dport s = dport)
             (tcb_set t) of
        Some s \<Rightarrow> Some s
      | None \<Rightarrow> find (\<lambda>s. ts_dport s = dport \<and> ts_status s = NG_TCP_STATUS_LISTEN) (tcb_set t))"

section \<open>The environment of a packet\<close>

text \<open>\<open>te_stream\<close> is the memory of a new control block (\<open>None\<close>: the allocation fails), with the
  rings the two creations return; \<open>te_alloc k\<close> says whether the \<open>k\<close>-th allocation of a
  fragment or of its data, in program order, succeeds.\<close>

record 'r tcp_env =
  te_stream :: "'r ng_tcp_stream option"
  te_sndbuf :: "'r option"
  te_rcvbuf :: "'r option"
  te_rand :: u32
  te_alloc :: "nat \<Rightarrow> bool"
  te_srcmac :: bytes

definition ng_tcp_stream_create ::
  "'r tcp_env \<Rightarrow> u32 \<Rightarrow> u32 \<Rightarrow> u16 \<Rightarrow> u16 \<Rightarrow> 'r ng_tcp_stream option" where
  "ng_tcp_stream_create env sip dip sport dport =
     map_option (\<lambda>raw. raw\<lparr>ts_sip := sip, ts_dip := dip, ts_sport := sport, ts_dport := dport,
         ts_protocol := IPPROTO_TCP, ts_fd := - 1, ts_status := NG_TCP_STATUS_LISTEN,
         ts_sndbuf := te_sndbuf env, ts_rcvbuf := te_rcvbuf env,
         ts_snd_nxt := te_rand env mod 4294967295, ts_localmac := te_srcmac env\<rparr>)
       (te_stream env)"

text \<open>A fragment after \<open>memset(fragment, 0, sizeof(struct ng_tcp_fragment))\<close>.\<close>

definition frag_zero :: ng_tcp_fragment where
  "frag_zero = \<lparr>tf_sport = 0, tf_dport = 0, tf_seqnum = 0, tf_acknum = 0, tf_hdrlen_off = 0,
     tf_tcp_flags = 0, tf_windows = 0, tf_tcp_urp = 0, tf_optlen = 0, tf_data = None, tf_length = 0\<rparr>"

section \<open>Handlers\<close>

text \<open>Every handler returns its return code and the new table.\<close>

definition ng_tcp_handle_listen ::
  "('r, ng_tcp_fragment) rte_ring \<Rightarrow> 'r tcp_env \<Rightarrow> 'r ng_tcp_stream \<Rightarrow> tcp_hdr \<Rightarrow> ip_hdr \<Rightarrow>
     'r ng_tcp_table \<Rightarrow> (int \<times> 'r ng_tcp_table) option" where
  "ng_tcp_handle_listen R env stream h ip t =
     (if tcp_flag h RTE_TCP_SYN_FLAG \<and> ts_status stream = NG_TCP_STATUS_LISTEN then
        do { syn \<leftarrow> ng_tcp_stream_create env (ip_src ip) (ip_dst ip) (th_sport h) (th_dport h);
             let t = t\<lparr>tcb_set := syn # tcb_set t\<rparr>;
             if \<not> te_alloc env 0 then Some (- 1, t)
             else
               do { let ack = htonl (th_seq h) + 1;
                    let fragment = frag_zero\<lparr>tf_sport := th_dport h, tf_dport := th_sport h,
                          tf_seqnum := ts_snd_nxt syn, tf_acknum := ack,
                          tf_tcp_flags := RTE_TCP_SYN_FLAG OR RTE_TCP_ACK_FLAG,
                          tf_windows := TCP_INITIAL_WINDOW, tf_hdrlen_off := 0x50,
                          tf_data := None, tf_length := 0\<rparr>;
                    let t = tcb_update (ts_ptr syn) (\<lambda>s. s\<lparr>ts_rcv_nxt := ack\<rparr>) t;
                    t \<leftarrow> enqueue_snd R (ts_ptr syn) fragment t;
                    Some (0, tcb_update (ts_ptr syn)
                               (\<lambda>s. s\<lparr>ts_status := NG_TCP_STATUS_SYN_RCVD\<rparr>) t) } }
      else Some (0, t))"

text \<open>The call of \<open>epoll_event_callback\<close> on the object of the table.\<close>

definition tcp_epoll_event :: "int \<Rightarrow> 'r ng_tcp_table \<Rightarrow> 'r ng_tcp_table option" where
  "tcp_epoll_event fd t =
     do { epp \<leftarrow> ep_deref (tcp_ep t);
          (r, ep) \<leftarrow> epoll_event_callback epp fd EPOLLIN;
          Some (t\<lparr>tcp_ep := EpAt ep\<rparr>) }"

definition ng_tcp_handle_syn_rcvd ::
  "'r ng_tcp_stream \<Rightarrow> tcp_hdr \<Rightarrow> 'r ng_tcp_table \<Rightarrow> (int \<times> 'r ng_tcp_table) option" where
  "ng_tcp_handle_syn_rcvd stream h t =
     (if tcp_flag h RTE_TCP_ACK_FLAG \<and> ts_status stream = NG_TCP_STATUS_SYN_RCVD then
        do { let t = tcb_update (ts_ptr stream) (\<lambda>s. s\<lparr>ts_status := NG_TCP_STATUS_ESTABLISHED\<rparr>) t;
             listener \<leftarrow> ng_tcp_stream_search 0 0 0 (ts_dport stream) t;
             t \<leftarrow> tcp_epoll_event (ts_fd listener) t;
             Some (0, t) }
      else Some (0, t))"

text \<open>\<open>hdrlen = data_off >> 4\<close>, \<open>payloadlen = tcplen - hdrlen * 4\<close>, and the assignments of
  \<open>rcv_nxt\<close> and \<open>snd_nxt\<close> after \<open>n\<close> sequence numbers were received.\<close>

definition seg_hdrlen :: "tcp_hdr \<Rightarrow> nat" where
  "seg_hdrlen h = unat (drop_bit 4 (th_data_off h))"

definition seg_payloadlen :: "tcp_hdr \<Rightarrow> int \<Rightarrow> int" where
  "seg_payloadlen h tcplen = tcplen - int (seg_hdrlen h * 4)"

definition tcp_advance :: "int \<Rightarrow> tcp_hdr \<Rightarrow> 'r ng_tcp_stream \<Rightarrow> 'r ng_tcp_stream" where
  "tcp_advance n h s = s\<lparr>ts_rcv_nxt := ts_rcv_nxt s + of_int n, ts_snd_nxt := htonl (th_ack h)\<rparr>"

text \<open>\<open>m\<close> is the packet, with the TCP header at offset 34. \<open>k\<close> numbers the allocations.\<close>

definition ng_tcp_enqueue_recvbuffer ::
  "('r, ng_tcp_fragment) rte_ring \<Rightarrow> 'r tcp_env \<Rightarrow> nat \<Rightarrow> addr \<Rightarrow> tcp_hdr \<Rightarrow> bytes \<Rightarrow> int \<Rightarrow>
     'r ng_tcp_table \<Rightarrow> (int \<times> 'r ng_tcp_table) option" where
  "ng_tcp_enqueue_recvbuffer R env k p h m tcplen t =
     (if \<not> te_alloc env k then Some (- 1, t)
      else
        do { let f = frag_zero\<lparr>tf_dport := htons (th_dport h), tf_sport := htons (th_sport h)\<rparr>;
             let payloadlen = seg_payloadlen h tcplen;
             if payloadlen > 0 then
               (if \<not> te_alloc env (k + 1) then Some (- 1, t)
                else
                  do { payload \<leftarrow> rd (34 + seg_hdrlen h * 4) (nat payloadlen) m;
                       t \<leftarrow> enqueue_rcv R p
                             (f\<lparr>tf_data := Some (payload @ [0]), tf_length := of_int payloadlen\<rparr>) t;
                       Some (0, t) })
             else
               do { t \<leftarrow> enqueue_rcv R p f t; Some (0, t) } })"

definition ng_tcp_send_ackpkt ::
  "('r, ng_tcp_fragment) rte_ring \<Rightarrow> 'r tcp_env \<Rightarrow> nat \<Rightarrow> addr \<Rightarrow> tcp_hdr \<Rightarrow> 'r ng_tcp_table \<Rightarrow>
     (int \<times> 'r ng_tcp_table) option" where
  "ng_tcp_send_ackpkt R env k p h t =
     (if \<not> te_alloc env k then Some (- 1, t)
      else
        do { s \<leftarrow> tcb_get p t;
             t \<leftarrow> enqueue_snd R p
                   (frag_zero\<lparr>tf_dport := th_sport h, tf_sport := th_dport h,
                              tf_acknum := ts_rcv_nxt s, tf_seqnum := ts_snd_nxt s,
                              tf_tcp_flags := RTE_TCP_ACK_FLAG, tf_windows := TCP_INITIAL_WINDOW,
                              tf_hdrlen_off := 0x50, tf_data := None, tf_length := 0\<rparr>) t;
             Some (0, t) })"

text \<open>The two blocks of the established state: data with \<open>PSH\<close>, and \<open>FIN\<close>.\<close>

definition established_psh ::
  "('r, ng_tcp_fragment) rte_ring \<Rightarrow> 'r tcp_env \<Rightarrow> addr \<Rightarrow> tcp_hdr \<Rightarrow> bytes \<Rightarrow> int \<Rightarrow>
     'r ng_tcp_table \<Rightarrow> 'r ng_tcp_table option" where
  "established_psh R env p h m tcplen t =
     do { (_, t) \<leftarrow> ng_tcp_enqueue_recvbuffer R env 0 p h m tcplen t;
          s \<leftarrow> tcb_get p t;
          t \<leftarrow> tcp_epoll_event (ts_fd s) t;
          let t = tcb_update p (tcp_advance (seg_payloadlen h tcplen) h) t;
          (_, t) \<leftarrow> ng_tcp_send_ackpkt R env 2 p h t;
          Some t }"

definition established_fin ::
  "('r, ng_tcp_fragment) rte_ring \<Rightarrow> 'r tcp_env \<Rightarrow> addr \<Rightarrow> tcp_hdr \<Rightarrow> bytes \<Rightarrow>
     'r ng_tcp_table \<Rightarrow> 'r ng_tcp_table option" where
  "established_fin R env p h m t =
     do { let t = tcb_update p (\<lambda>s. s\<lparr>ts_status := NG_TCP_STATUS_CLOSE_WAIT\<rparr>) t;
          (_, t) \<leftarrow> ng_tcp_enqueue_recvbuffer R env 3 p h m (int (seg_hdrlen h)) t;
          s \<leftarrow> tcb_get p t;
          t \<leftarrow> tcp_epoll_event (ts_fd s) t;
          let t = tcb_update p (tcp_advance 1 h) t;
          (_, t) \<leftarrow> ng_tcp_send_ackpkt R env 5 p h t;
          Some t }"

definition ng_tcp_handle_established ::
  "('r, ng_tcp_fragment) rte_ring \<Rightarrow> 'r tcp_env \<Rightarrow> 'r ng_tcp_stream \<Rightarrow> tcp_hdr \<Rightarrow> bytes \<Rightarrow> int \<Rightarrow>
     'r ng_tcp_table \<Rightarrow> (int \<times> 'r ng_tcp_table) option" where
  "ng_tcp_handle_established R env stream h m tcplen t =
     do { t \<leftarrow> (if tcp_flag h RTE_TCP_PSH_FLAG
                then established_psh R env (ts_ptr stream) h m tcplen t else Some t);
          t \<leftarrow> (if tcp_flag h RTE_TCP_FIN_FLAG
                then established_fin R env (ts_ptr stream) h m t else Some t);
          Some (0, t) }"

definition ng_tcp_handle_close_wait ::
  "'r ng_tcp_stream \<Rightarrow> tcp_hdr \<Rightarrow> 'r ng_tcp_table \<Rightarrow> (int \<times> 'r ng_tcp_table) option" where
  "ng_tcp_handle_close_wait stream h t = Some (0, t)"

text \<open>\<open>LL_REMOVE\<close> and \<open>rte_free\<close>: the control block and its rings are gone. \<open>rte_ring_free\<close>
  accepts \<open>NULL\<close>.\<close>

definition ng_tcp_handle_last_ack ::
  "'r ng_tcp_stream \<Rightarrow> tcp_hdr \<Rightarrow> 'r ng_tcp_table \<Rightarrow> (int \<times> 'r ng_tcp_table) option" where
  "ng_tcp_handle_last_ack stream h t =
     (if tcp_flag h RTE_TCP_ACK_FLAG \<and> ts_status stream = NG_TCP_STATUS_LAST_ACK
      then Some (0, t\<lparr>tcb_set := filter (\<lambda>s. ts_ptr s \<noteq> ts_ptr stream) (tcb_set t)\<rparr>)
      else Some (0, t))"

section \<open>Reception\<close>

text \<open>
  \<open>m\<close> are the readable bytes from the start of the packet on; the checksum field is cleared in
  place before the checksum is computed. The return code of the handler
  is not used. \<open>tcplen\<close> is \<open>int\<close>.
\<close>

definition ng_tcp_process ::
  "(bytes \<Rightarrow> u16) \<Rightarrow> ('r, ng_tcp_fragment) rte_ring \<Rightarrow> 'r tcp_env \<Rightarrow> bytes \<Rightarrow>
     'r ng_tcp_table \<Rightarrow> (int \<times> 'r ng_tcp_table) option" where
  "ng_tcp_process udptcp_cksum R env m t =
     do { ip \<leftarrow> parse_ip m;
          h \<leftarrow> parse_tcp m;
          let m = put 50 [0, 0] m;
          let cksum = udptcp_cksum (drop 14 m);
          if cksum \<noteq> th_cksum h then Some (- 1, t)
          else case ng_tcp_stream_search (ip_src ip) (ip_dst ip) (th_sport h) (th_dport h) t of
            None \<Rightarrow> Some (- 2, t)
          | Some stream \<Rightarrow>
              do { (_, t) \<leftarrow>
                     (case ts_status stream of
                        NG_TCP_STATUS_LISTEN \<Rightarrow> ng_tcp_handle_listen R env stream h ip t
                      | NG_TCP_STATUS_SYN_RCVD \<Rightarrow> ng_tcp_handle_syn_rcvd stream h t
                      | NG_TCP_STATUS_ESTABLISHED \<Rightarrow>
                          ng_tcp_handle_established R env stream h m
                            (int (unat (htons (ip_total_length ip))) - 20) t
                      | NG_TCP_STATUS_CLOSE_WAIT \<Rightarrow> ng_tcp_handle_close_wait stream h t
                      | NG_TCP_STATUS_LAST_ACK \<Rightarrow> ng_tcp_handle_last_ack stream h t
                      | _ \<Rightarrow> Some (0, t));
                   Some (0, t) } }"

section \<open>Output\<close>

definition ng_tcp_pkt ::
  "(bytes \<Rightarrow> u16) \<Rightarrow> (bytes \<Rightarrow> u16) \<Rightarrow> bytes option \<Rightarrow> u32 \<Rightarrow> u32 \<Rightarrow> bytes \<Rightarrow> bytes \<Rightarrow> ng_tcp_fragment \<Rightarrow>
     mbuf option" where
  "ng_tcp_pkt ipv4_cksum udptcp_cksum room sip dip srcmac dstmac f =
     do { buf \<leftarrow> room;
          m \<leftarrow> ng_encode_tcp_apppkt ipv4_cksum udptcp_cksum buf sip dip srcmac dstmac f;
          Some \<lparr>mb_len = unat (tcp_total_len f), mb_data = m\<rparr> }"

text \<open>The body of the output loop for one control block: the block afterwards, and the packet
  for the output ring, if there is one.\<close>

definition tcp_out_one ::
  "(bytes \<Rightarrow> u16) \<Rightarrow> (bytes \<Rightarrow> u16) \<Rightarrow> ('r, ng_tcp_fragment) rte_ring \<Rightarrow> bytes \<Rightarrow> arp_table \<Rightarrow>
     bytes option \<Rightarrow> 'r ng_tcp_stream \<Rightarrow> ('r ng_tcp_stream \<times> mbuf option) option" where
  "tcp_out_one ipv4_cksum udptcp_cksum R srcmac arpt room s =
     (case ts_sndbuf s of
        None \<Rightarrow> Some (s, None)
      | Some r \<Rightarrow>
          (case rte_dequeue R r of
             None \<Rightarrow> Some (s, None)
           | Some (f, r) \<Rightarrow>
               (case ng_get_dst_macaddr (ts_sip s) arpt of
                  None \<Rightarrow>
                    do { m \<leftarrow> ng_send_arp srcmac room 1 gDefaultArpMac (ts_dip s) (ts_sip s);
                         Some (s\<lparr>ts_sndbuf := Some (ring_push R f r)\<rparr>, Some m) }
                | Some dstmac \<Rightarrow>
                    do { m \<leftarrow> ng_tcp_pkt ipv4_cksum udptcp_cksum room (ts_dip s) (ts_sip s)
                                (ts_localmac s) dstmac f;
                         Some (s\<lparr>ts_sndbuf := Some r\<rparr>, Some m) })))"

text \<open>The output loops run over a list of sockets (\<open>one\<close> is the body) and put the packets on the
  output ring, whose result (\<open>enq\<close>) the code ignores.\<close>

fun out_loop ::
  "('s \<Rightarrow> ('s \<times> mbuf option) option) \<Rightarrow> (mbuf \<Rightarrow> 'o \<Rightarrow> nat \<times> 'o) \<Rightarrow>
     's list \<Rightarrow> 'o \<Rightarrow> ('s list \<times> 'o) option" where
  "out_loop one enq [] out = Some ([], out)"
| "out_loop one enq (s # ss) out =
     do { (s, m) \<leftarrow> one s;
          let out = (case m of None \<Rightarrow> out | Some m \<Rightarrow> snd (enq m out));
          (ss, out) \<leftarrow> out_loop one enq ss out;
          Some (s # ss, out) }"

text \<open>\<open>pool p\<close> is the outcome of the packet allocation for the control block at \<open>p\<close>.\<close>

definition ng_tcp_out ::
  "(bytes \<Rightarrow> u16) \<Rightarrow> (bytes \<Rightarrow> u16) \<Rightarrow> ('r, ng_tcp_fragment) rte_ring \<Rightarrow> bytes \<Rightarrow> arp_table \<Rightarrow>
     (addr \<Rightarrow> bytes option) \<Rightarrow> (mbuf \<Rightarrow> 'o \<Rightarrow> nat \<times> 'o) \<Rightarrow> 'r ng_tcp_table \<Rightarrow> 'o \<Rightarrow>
     ('r ng_tcp_table \<times> 'o) option" where
  "ng_tcp_out ipv4_cksum udptcp_cksum R srcmac arpt pool enq t out =
     do { (ss, out) \<leftarrow> out_loop
             (\<lambda>s. tcp_out_one ipv4_cksum udptcp_cksum R srcmac arpt (pool (ts_ptr s)) s) enq (tcb_set t) out;
          Some (t\<lparr>tcb_set := ss\<rparr>, out) }"

end
