(* ===== verification/Epoll_Correct.thy ===== *)
theory Epoll_Correct
  imports Epoll
begin

text \<open>
  Correctness of the epoll object: an invariant that ties the tree, the items, the ready
  list and the counters together, the abstraction to a map of registered events and a list
  of ready descriptors, and the refinement of every operation; then the two ways in which
  the code leaves the invariant.
\<close>

section \<open>Invariant and abstraction\<close>

definition ep_key :: "eventpoll \<Rightarrow> addr \<Rightarrow> int" where
  "ep_key ep p = (case ep_items ep p of None \<Rightarrow> 0 | Some e \<Rightarrow> epi_sockfd e)"

text \<open>
  The tree holds exactly the allocated items, the counters agree with the containers, and
  the ready flag of an item says whether it is on the ready list.
\<close>

definition ep_tree :: "eventpoll \<Rightarrow> bool" where
  "ep_tree ep \<longleftrightarrow>
     (\<exists>xs. rb_valid (ep_key ep) (ep_rbr ep) xs \<and> set xs = dom (ep_items ep) \<and>
           ep_rbcnt ep = int (length xs))"

definition ep_inv :: "eventpoll \<Rightarrow> bool" where
  "ep_inv ep \<longleftrightarrow> ep_tree ep \<and>
     distinct (ep_rdlist ep) \<and> set (ep_rdlist ep) \<subseteq> dom (ep_items ep) \<and>
     ep_rdnum ep = int (length (ep_rdlist ep)) \<and>
     (\<forall>p e. ep_items ep p = Some e \<longrightarrow> (epi_rdy e \<noteq> 0 \<longleftrightarrow> p \<in> set (ep_rdlist ep)))"

text \<open>
  What the object promises: a map from registered descriptors to their events, and the
  descriptors that are ready, in the order they will be reported.
\<close>

definition shows_events :: "(addr \<rightharpoonup> epitem) \<Rightarrow> (int \<rightharpoonup> epoll_event) \<Rightarrow> bool" where
  "shows_events items I \<longleftrightarrow>
     (\<forall>fd ev. I fd = Some ev \<longleftrightarrow>
        (\<exists>p e. items p = Some e \<and> epi_sockfd e = fd \<and> epi_event e = ev))"

definition ep_reg :: "eventpoll \<Rightarrow> (int \<rightharpoonup> epoll_event) \<Rightarrow> bool" where
  "ep_reg ep I \<longleftrightarrow> ep_tree ep \<and> shows_events (ep_items ep) I"

definition ep_abs :: "eventpoll \<Rightarrow> (int \<rightharpoonup> epoll_event) \<Rightarrow> int list \<Rightarrow> bool" where
  "ep_abs ep I R \<longleftrightarrow>
     ep_inv ep \<and> shows_events (ep_items ep) I \<and> R = map (ep_key ep) (ep_rdlist ep)"

lemma ep_inv_tree: "ep_inv ep \<Longrightarrow> ep_tree ep"
  by (simp add: ep_inv_def)

lemma ep_abs_reg: "ep_abs ep I R \<Longrightarrow> ep_reg ep I"
  by (simp add: ep_abs_def ep_inv_def ep_reg_def)

lemma shows_eventsD:
  assumes "shows_events items I"
  shows "I fd = Some ev \<Longrightarrow> \<exists>p e. items p = Some e \<and> epi_sockfd e = fd \<and> epi_event e = ev"
    and "items p = Some e \<Longrightarrow> I (epi_sockfd e) = Some (epi_event e)"
  using assms unfolding shows_events_def by blast+

lemma shows_events_update:
  assumes sh: "shows_events items I"
    and only: "\<And>q e'. items q = Some e' \<Longrightarrow> epi_sockfd e' = epi_sockfd e \<Longrightarrow> q = p"
    and at: "\<And>e0. items p = Some e0 \<Longrightarrow> epi_sockfd e0 = epi_sockfd e"
  shows "shows_events (items(p \<mapsto> e)) (I(epi_sockfd e \<mapsto> epi_event e))"
  unfolding shows_events_def
proof (intro allI)
  fix fd ev
  let ?new = "\<exists>q e'. (items(p \<mapsto> e)) q = Some e' \<and> epi_sockfd e' = fd \<and> epi_event e' = ev"
  show "(I(epi_sockfd e \<mapsto> epi_event e)) fd = Some ev \<longleftrightarrow> ?new"
  proof (cases "fd = epi_sockfd e")
    case True
    have "?new \<longleftrightarrow> epi_event e = ev"
    proof
      assume ?new
      then obtain q e' where "(items(p \<mapsto> e)) q = Some e'" "epi_sockfd e' = fd" "epi_event e' = ev"
        by blast
      then show "epi_event e = ev" using only [of q e'] True by (cases "q = p") auto
    qed (use True in \<open>auto intro!: exI [of _ p]\<close>)
    then show ?thesis using True by simp
  next
    case False
    have "((items(p \<mapsto> e)) q = Some e' \<and> epi_sockfd e' = fd) \<longleftrightarrow>
        (items q = Some e' \<and> epi_sockfd e' = fd)" for q e'
      using False at by (cases "q = p") auto
    then have "?new \<longleftrightarrow> (\<exists>q e'. items q = Some e' \<and> epi_sockfd e' = fd \<and> epi_event e' = ev)" by metis
    then show ?thesis using False sh unfolding shows_events_def by (metis fun_upd_other)
  qed
qed

lemma shows_events_delete:
  assumes sh: "shows_events items I" and p: "items p = Some e"
    and only: "\<And>q e'. items q = Some e' \<Longrightarrow> epi_sockfd e' = epi_sockfd e \<Longrightarrow> q = p"
  shows "shows_events (items(p := None)) (I(epi_sockfd e := None))"
  unfolding shows_events_def
proof (intro allI)
  fix fd ev
  let ?new = "\<exists>q e'. (items(p := None)) q = Some e' \<and> epi_sockfd e' = fd \<and> epi_event e' = ev"
  have "((items(p := None)) q = Some e' \<and> epi_sockfd e' = fd) \<longleftrightarrow>
      (items q = Some e' \<and> epi_sockfd e' = fd \<and> fd \<noteq> epi_sockfd e)" for q e'
    using p only [of q e'] by (cases "q = p") auto
  then have "?new \<longleftrightarrow> fd \<noteq> epi_sockfd e \<and> I fd = Some ev"
    using sh unfolding shows_events_def by metis
  then show "(I(epi_sockfd e := None)) fd = Some ev \<longleftrightarrow> ?new" by auto
qed

lemma rb_valid_cong:
  assumes "\<And>p. p \<in> set xs \<Longrightarrow> key p = key' p"
  shows "rb_valid key s xs = rb_valid key' s xs"
proof -
  have "map key xs = map key' xs" using assms by simp
  then show ?thesis unfolding rb_valid_def ordered_def by (simp only:)
qed

lemma ep_cmp_for:
  assumes "A \<subseteq> dom (ep_items ep)"
  shows "cmp_for (ep_cmp ep fd) (ep_key ep) fd A"
  using assms by (intro cmp_for_sockfd_cmp) (auto simp: ep_cmp_def ep_key_def dest!: subsetD)

lemma ep_key_Some [simp]: "ep_items ep p = Some e \<Longrightarrow> ep_key ep p = epi_sockfd e"
  by (simp add: ep_key_def)

lemma ep_find_cases:
  assumes "ep_tree ep"
  obtains p e where "ep_find ep fd = Some p" "p \<noteq> NULL" "ep_items ep p = Some e" "epi_sockfd e = fd"
    | "ep_find ep fd = Some NULL" "\<And>p e. ep_items ep p = Some e \<Longrightarrow> epi_sockfd e \<noteq> fd"
proof -
  obtain xs where xs: "rb_valid (ep_key ep) (ep_rbr ep) xs" "set xs = dom (ep_items ep)"
    using assms by (auto simp: ep_tree_def)
  have cmp: "cmp_for (ep_cmp ep fd) (ep_key ep) fd (set xs)" by (rule ep_cmp_for) (simp add: xs(2))
  show ?thesis using xs(1) cmp
  proof (cases rule: rbs.find_result)
    case (1 p)
    then show ?thesis using that(1) xs(2) by (auto simp: ep_find_def)
  next
    case 2
    have "epi_sockfd e \<noteq> fd" if "ep_items ep p = Some e" for p e
      using 2(2) xs(2) that by (metis domI ep_key_Some image_eqI)
    then show ?thesis using that(2) 2(1) by (simp add: ep_find_def)
  qed
qed

lemma ep_key_inj:
  assumes "ep_tree ep" "ep_items ep p = Some e" "ep_items ep p' = Some e'" "epi_sockfd e = epi_sockfd e'"
  shows "p = p'"
proof -
  obtain xs where xs: "rb_valid (ep_key ep) (ep_rbr ep) xs" "set xs = dom (ep_items ep)"
    using assms(1) by (auto simp: ep_tree_def)
  show ?thesis by (rule rbs.key_inj [OF xs(1)]) (use xs(2) assms in auto)
qed

text \<open>The item of a registered and of an unregistered descriptor.\<close>

lemma ep_reg_registered:
  assumes "ep_reg ep I" "I fd = Some ev"
  obtains p e where "ep_find ep fd = Some p" "p \<noteq> NULL" "ep_items ep p = Some e"
    "epi_sockfd e = fd" "epi_event e = ev"
proof -
  have tree: "ep_tree ep" using assms(1) by (simp add: ep_reg_def)
  obtain q e0 where q: "ep_items ep q = Some e0" "epi_sockfd e0 = fd" "epi_event e0 = ev"
    using assms shows_eventsD(1) [of "ep_items ep" I fd ev] by (auto simp: ep_reg_def)
  show ?thesis
  proof (cases rule: ep_find_cases [OF tree, of fd])
    case (1 p e)
    then have "p = q" using ep_key_inj [OF tree] q by metis
    then show ?thesis using that 1 q by simp
  next
    case 2
    then show ?thesis using q by blast
  qed
qed

lemma ep_reg_unregistered:
  assumes "ep_reg ep I" "I fd = None"
  shows "ep_find ep fd = Some NULL" and "\<And>p e. ep_items ep p = Some e \<Longrightarrow> epi_sockfd e \<noteq> fd"
proof -
  have tree: "ep_tree ep" using assms(1) by (simp add: ep_reg_def)
  show no: "epi_sockfd e \<noteq> fd" if "ep_items ep p = Some e" for p e
    using assms that shows_eventsD(2) [of "ep_items ep" I p e] by (auto simp: ep_reg_def)
  show "ep_find ep fd = Some NULL"
    by (cases rule: ep_find_cases [OF tree, of fd]) (use no in auto)
qed

lemma ep_abs_registered:
  assumes "ep_abs ep I R" "I fd = Some ev"
  obtains p e where "ep_find ep fd = Some p" "p \<noteq> NULL" "ep_items ep p = Some e"
    "epi_sockfd e = fd" "epi_event e = ev" "epi_rdy e \<noteq> 0 \<longleftrightarrow> fd \<in> set R"
    "p \<in> set (ep_rdlist ep) \<longleftrightarrow> fd \<in> set R"
proof -
  have inv: "ep_inv ep" using assms(1) by (simp add: ep_abs_def)
  obtain p e where p: "ep_find ep fd = Some p" "p \<noteq> NULL" "ep_items ep p = Some e"
    "epi_sockfd e = fd" "epi_event e = ev"
    using ep_reg_registered [OF ep_abs_reg [OF assms(1)] assms(2)] by metis
  have "p \<in> set (ep_rdlist ep) \<longleftrightarrow> fd \<in> set R"
  proof
    assume "fd \<in> set R"
    then obtain p' where p': "p' \<in> set (ep_rdlist ep)" "fd = ep_key ep p'"
      using assms(1) by (auto simp: ep_abs_def)
    then obtain e' where "ep_items ep p' = Some e'" using inv by (auto simp: ep_inv_def)
    then show "p \<in> set (ep_rdlist ep)"
      using p' p(3,4) ep_key_inj [OF ep_inv_tree [OF inv], of p e p' e'] by simp
  qed (use p(3,4) assms(1) in \<open>force simp: ep_abs_def\<close>)
  moreover have "epi_rdy e \<noteq> 0 \<longleftrightarrow> p \<in> set (ep_rdlist ep)" using inv p(3) by (auto simp: ep_inv_def)
  ultimately show ?thesis using that [OF p] by simp
qed

lemma ep_abs_unregistered:
  assumes "ep_abs ep I R" "I fd = None"
  shows "ep_find ep fd = Some NULL" and "\<And>p e. ep_items ep p = Some e \<Longrightarrow> epi_sockfd e \<noteq> fd"
  using ep_reg_unregistered [OF ep_abs_reg [OF assms(1)] assms(2)] by blast+

text \<open>Changing an item without its descriptor keeps the tree.\<close>

lemma ep_key_update:
  assumes "ep_items ep p = Some e" "epi_sockfd e' = epi_sockfd e" "ep_items ep' = (ep_items ep)(p \<mapsto> e')"
  shows "ep_key ep' = ep_key ep"
  using assms by (auto simp: ep_key_def fun_eq_iff)

lemma ep_inv_update:
  assumes inv: "ep_inv ep" and p: "ep_items ep p = Some e" "epi_sockfd e' = epi_sockfd e"
    and ep': "ep' = ep\<lparr>ep_items := (ep_items ep)(p \<mapsto> e'), ep_rdlist := rl, ep_rdnum := int (length rl)\<rparr>"
    and rl: "distinct rl" "set rl \<subseteq> dom (ep_items ep)" "epi_rdy e' \<noteq> 0 \<longleftrightarrow> p \<in> set rl"
      "set rl - {p} = set (ep_rdlist ep) - {p}"
  shows "ep_inv ep'"
proof -
  have "ep_key ep' = ep_key ep" using ep_key_update [OF p] ep' by simp
  moreover have "dom (ep_items ep') = dom (ep_items ep)" using ep' p by auto
  moreover have "epi_rdy e'' \<noteq> 0 \<longleftrightarrow> q \<in> set rl" if "ep_items ep' q = Some e''" for q e''
  proof (cases "q = p")
    case True
    then show ?thesis using that ep' rl(3) by simp
  next
    case False
    then have "q \<in> set rl \<longleftrightarrow> q \<in> set (ep_rdlist ep)" using rl(4) by blast
    then show ?thesis using inv that False ep' by (auto simp: ep_inv_def)
  qed
  moreover have "ep_rbr ep' = ep_rbr ep" "ep_rbcnt ep' = ep_rbcnt ep" "ep_rdlist ep' = rl"
    "ep_rdnum ep' = int (length rl)" by (simp_all add: ep')
  moreover have "ep_tree ep'" using ep_inv_tree [OF inv] calculation(1,2,4,5) by (simp add: ep_tree_def)
  ultimately show ?thesis using inv rl(1,2) unfolding ep_inv_def by metis
qed

lemma ep_abs_update:
  assumes "ep_abs ep I R" and p: "ep_items ep p = Some e" "epi_sockfd e' = epi_sockfd e"
    and "ep' = ep\<lparr>ep_items := (ep_items ep)(p \<mapsto> e'), ep_rdlist := rl, ep_rdnum := int (length rl)\<rparr>"
    and "distinct rl" "set rl \<subseteq> dom (ep_items ep)" "epi_rdy e' \<noteq> 0 \<longleftrightarrow> p \<in> set rl"
      "set rl - {p} = set (ep_rdlist ep) - {p}"
  shows "ep_abs ep' (I(epi_sockfd e \<mapsto> epi_event e')) (map (ep_key ep) rl)"
proof -
  have inv: "ep_inv ep" using assms(1) by (simp add: ep_abs_def)
  have "ep_inv ep'" by (rule ep_inv_update [OF inv p assms(4-8)])
  moreover have "ep_key ep' = ep_key ep" using ep_key_update [OF p] assms(4) by simp
  moreover have "shows_events ((ep_items ep)(p \<mapsto> e')) (I(epi_sockfd e' \<mapsto> epi_event e'))"
    using assms(1) p ep_key_inj [OF ep_inv_tree [OF inv] _ p(1)]
    by (intro shows_events_update) (auto simp: ep_abs_def)
  moreover have "ep_rdlist ep' = rl" by (simp add: assms(4))
  moreover have "ep_items ep' = (ep_items ep)(p \<mapsto> e')" by (simp add: assms(4))
  ultimately show ?thesis using p(2) by (simp add: ep_abs_def)
qed

section \<open>The operations against the abstraction\<close>

lemma tree_at_clear: "p \<notin> set (nodes t) \<Longrightarrow> tree_at (h(p := None)) par t = tree_at h par t"
  by (rule tree_at_cong) auto

lemma rb_valid_clear:
  assumes "rb_valid key s xs" "p \<notin> set xs"
  shows "rb_valid key (s\<lparr>rbe := (rbe s)(p := None)\<rparr>) xs"
proof -
  obtain t where t: "rep s t []" "rb_inv t" "nodes t = xs" "ordered key xs"
    using assms(1) by (auto simp: rb_valid_def)
  then have "rep (s\<lparr>rbe := (rbe s)(p := None)\<rparr>) t []"
    using assms(2) by (simp add: rep_def tree_at_clear)
  then show ?thesis using t by (auto simp: rb_valid_def)
qed

lemma ctl_add_inserts:
  assumes inv: "ep_tree ep" and raw: "p \<noteq> NULL" "ep_items ep p = None"
    and new: "ep_find ep fd = Some NULL" "\<forall>q e. ep_items ep q = Some e \<longrightarrow> epi_sockfd e \<noteq> fd"
    and ep1: "ep1 = ep\<lparr>ep_items := (ep_items ep)(p \<mapsto> e\<lparr>epi_sockfd := fd, epi_event := ev\<rparr>)\<rparr>"
  shows "\<exists>t ys. ctl_add fd ev (Some (p, e)) ep =
             Some (0, ep1\<lparr>ep_rbr := t, ep_rbcnt := ep_rbcnt ep + 1\<rparr>) \<and>
           rb_valid (ep_key ep1) t ys \<and> set ys = dom (ep_items ep1) \<and>
           ep_rbcnt ep + 1 = int (length ys)"
proof -
  obtain xs where xs: "rb_valid (ep_key ep) (ep_rbr ep) xs" "set xs = dom (ep_items ep)"
      "ep_rbcnt ep = int (length xs)" using inv by (auto simp: ep_tree_def)
  have fresh: "p \<notin> set xs" using xs(2) raw(2) by auto
  have keys: "ep_key ep1 q = ep_key ep q" if "q \<noteq> p" for q using that by (simp add: ep_key_def ep1)
  have val: "rb_valid (ep_key ep1) (ep_rbr ep) xs"
    using xs(1) fresh keys rb_valid_cong [of xs "ep_key ep1" "ep_key ep"] by metis
  have keyp: "ep_key ep1 p = fd" by (simp add: ep_key_def ep1)
  have "fd \<notin> ep_key ep1 ` set xs"
  proof
    assume "fd \<in> ep_key ep1 ` set xs"
    then obtain q where q: "q \<in> set xs" "ep_key ep1 q = fd" by auto
    then have "q \<noteq> p" using fresh by auto
    moreover obtain e' where "ep_items ep q = Some e'" using q(1) xs(2) by auto
    ultimately show False using q(2) new(2) keys by auto
  qed
  moreover have "cmp_for (ep_cmp ep1 fd) (ep_key ep1) (ep_key ep1 p) (set xs)"
    unfolding keyp by (rule ep_cmp_for) (use xs(2) ep1 in auto)
  ultimately obtain t ys where t: "RB_INSERT (ep_cmp ep1 fd) p (ep_rbr ep) = Some (NULL, t)"
      "rb_valid (ep_key ep1) t ys" "set ys = insert p (set xs)"
    using rbs.insert_fresh_law [OF val _ raw(1) fresh, of "ep_cmp ep1 fd"] keyp by auto
  have dist: "distinct xs" "distinct ys" using xs(1) t(2) by (auto simp: rb_valid_def rep_def)
  have "length ys = length xs + 1"
    using distinct_card [OF dist(1)] distinct_card [OF dist(2)] t(3) fresh by simp
  moreover have "set ys = dom (ep_items ep1)" using t(3) xs(2) by (simp add: ep1)
  moreover have "ctl_add fd ev (Some (p, e)) ep =
      Some (0, ep1\<lparr>ep_rbr := t, ep_rbcnt := ep_rbcnt ep + 1\<rparr>)"
    using new(1) t(1) by (simp add: ctl_add_def Let_def ep1)
  ultimately show ?thesis using t(2) xs(3) by (intro exI [of _ t] exI [of _ ys]) simp
qed

lemma ctl_add_reg:
  assumes reg: "ep_reg ep I" and raw: "p \<noteq> NULL" "ep_items ep p = None" and new: "I fd = None"
  shows "\<exists>ep'. ctl_add fd ev (Some (p, e)) ep = Some (0, ep') \<and> ep_reg ep' (I(fd \<mapsto> ev)) \<and>
     ep_items ep' = (ep_items ep)(p \<mapsto> e\<lparr>epi_sockfd := fd, epi_event := ev\<rparr>) \<and>
     ep_rdlist ep' = ep_rdlist ep \<and> ep_rdnum ep' = ep_rdnum ep"
proof -
  let ?e = "e\<lparr>epi_sockfd := fd, epi_event := ev\<rparr>"
  define ep1 where "ep1 = ep\<lparr>ep_items := (ep_items ep)(p \<mapsto> ?e)\<rparr>"
  have tree: "ep_tree ep" using reg by (simp add: ep_reg_def)
  obtain t ys where t: "ctl_add fd ev (Some (p, e)) ep =
      Some (0, ep1\<lparr>ep_rbr := t, ep_rbcnt := ep_rbcnt ep + 1\<rparr>)"
      "rb_valid (ep_key ep1) t ys" "set ys = dom (ep_items ep1)" "ep_rbcnt ep + 1 = int (length ys)"
    using ctl_add_inserts [OF tree raw ep_reg_unregistered(1) [OF reg new] _ ep1_def]
      ep_reg_unregistered(2) [OF reg new] by blast
  let ?ep' = "ep1\<lparr>ep_rbr := t, ep_rbcnt := ep_rbcnt ep + 1\<rparr>"
  have "ep_key ?ep' = ep_key ep1" by (simp add: ep_key_def fun_eq_iff)
  then have "ep_tree ?ep'" using t(2-4) by (auto simp: ep_tree_def)
  moreover have "shows_events ((ep_items ep)(p \<mapsto> ?e)) (I(epi_sockfd ?e \<mapsto> epi_event ?e))"
    using reg raw(2) ep_reg_unregistered(2) [OF reg new]
    by (intro shows_events_update) (auto simp: ep_reg_def)
  ultimately have "ep_reg ?ep' (I(fd \<mapsto> ev))" by (simp add: ep_reg_def ep1_def)
  then show ?thesis using t(1) by (intro exI [of _ ?ep']) (simp add: ep1_def)
qed

lemma ctl_add_exists:
  assumes "ep_reg ep I" "I fd = Some ev'"
  shows "ctl_add fd ev raw ep = Some (- 1, ep)"
  using assms by (rule ep_reg_registered) (simp add: ctl_add_def)

lemma ctl_add_no_memory:
  assumes "ep_reg ep I"
  shows "ctl_add fd ev None ep = Some (- 1, ep)"
  by (cases rule: ep_find_cases [of ep fd]) (use assms in \<open>auto simp: ep_reg_def ctl_add_def\<close>)

lemma ctl_mod_reg:
  assumes reg: "ep_reg ep I" and old: "I fd = Some old"
  shows "\<exists>p e ep'. ctl_mod fd ev ep = Some (0, ep') \<and>
     ep_reg ep' (I(fd \<mapsto> old\<lparr>ev_events := ev_events ev OR (EPOLLERR OR EPOLLHUP)\<rparr>)) \<and>
     ep_items ep p = Some e \<and> epi_sockfd e = fd \<and>
     ep' = ep\<lparr>ep_items := (ep_items ep)(p \<mapsto>
       e\<lparr>epi_event := old\<lparr>ev_events := ev_events ev OR (EPOLLERR OR EPOLLHUP)\<rparr>\<rparr>)\<rparr>"
  using reg old
proof (rule ep_reg_registered)
  fix p e
  assume p: "ep_find ep fd = Some p" "p \<noteq> NULL" "ep_items ep p = Some e" "epi_sockfd e = fd" "epi_event e = old"
  let ?e = "e\<lparr>epi_event := old\<lparr>ev_events := ev_events ev OR (EPOLLERR OR EPOLLHUP)\<rparr>\<rparr>"
  let ?ep = "ep\<lparr>ep_items := (ep_items ep)(p \<mapsto> ?e)\<rparr>"
  have tree: "ep_tree ep" using reg by (simp add: ep_reg_def)
  have "ep_key ?ep = ep_key ep" by (rule ep_key_update [OF p(3)]) simp_all
  moreover have "dom (ep_items ?ep) = dom (ep_items ep)" using p(3) by auto
  ultimately have "ep_tree ?ep" using tree by (simp add: ep_tree_def)
  moreover have "shows_events ((ep_items ep)(p \<mapsto> ?e)) (I(epi_sockfd ?e \<mapsto> epi_event ?e))"
  proof (rule shows_events_update)
    show "q = p" if "ep_items ep q = Some e'" "epi_sockfd e' = epi_sockfd ?e" for q e'
      using ep_key_inj [OF tree that(1) p(3)] that(2) by simp
  qed (use reg p(3) in \<open>auto simp: ep_reg_def\<close>)
  moreover have "ctl_mod fd ev ep = Some (0, ?ep)" using p by (simp add: ctl_mod_def epi_update_def)
  ultimately show ?thesis using p(3,4) by (intro exI [of _ p] exI [of _ e] exI [of _ ?ep]) (simp add: ep_reg_def)
qed

lemma ctl_del_reg:
  assumes reg: "ep_reg ep I" and old: "I fd = Some old"
  shows "\<exists>p e ep'. ctl_del fd ep = Some (0, ep') \<and> ep_reg ep' (I(fd := None)) \<and>
     ep_find ep fd = Some p \<and> ep_items ep p = Some e \<and> epi_sockfd e = fd \<and>
     ep_items ep' = (ep_items ep)(p := None) \<and> ep_rdlist ep' = ep_rdlist ep \<and> ep_rdnum ep' = ep_rdnum ep"
  using reg old
proof (rule ep_reg_registered)
  fix p e
  assume p: "ep_find ep fd = Some p" "p \<noteq> NULL" "ep_items ep p = Some e" "epi_sockfd e = fd" "epi_event e = old"
  have tree: "ep_tree ep" using reg by (simp add: ep_reg_def)
  then obtain xs where xs: "rb_valid (ep_key ep) (ep_rbr ep) xs" "set xs = dom (ep_items ep)"
      "ep_rbcnt ep = int (length xs)" by (auto simp: ep_tree_def)
  then obtain t ys where t: "RB_REMOVE p (ep_rbr ep) = Some (p, t)"
      "rb_valid (ep_key ep) t ys" "set ys = set xs - {p}"
    using rbs.remove_law [OF xs(1), of p] p(3) by auto
  let ?ep = "ep\<lparr>ep_rbr := t\<lparr>rbe := (rbe t)(p := None)\<rparr>, ep_rbcnt := ep_rbcnt ep - 1,
    ep_items := (ep_items ep)(p := None)\<rparr>"
  have keys: "ep_key ?ep q = ep_key ep q" if "q \<noteq> p" for q using that by (simp add: ep_key_def)
  have "rb_valid (ep_key ep) (t\<lparr>rbe := (rbe t)(p := None)\<rparr>) ys"
    using rb_valid_clear [OF t(2)] t(3) by simp
  moreover have "rb_valid (ep_key ?ep) u ys = rb_valid (ep_key ep) u ys" for u
    using keys t(3) by (intro rb_valid_cong) auto
  ultimately have val: "rb_valid (ep_key ?ep) (ep_rbr ?ep) ys" by simp
  have dist: "distinct xs" "distinct ys" using xs(1) t(2) by (auto simp: rb_valid_def rep_def)
  have pin: "p \<in> set xs" using p(3) xs(2) by auto
  have len: "length xs = length ys + 1"
    using distinct_card [OF dist(1)] distinct_card [OF dist(2)] t(3) pin
    by (metis List.finite_set Suc_eq_plus1 card_Suc_Diff1)
  have "ep_tree ?ep"
    unfolding ep_tree_def using val t(3) xs(2,3) len by (intro exI [of _ ys]) auto
  moreover have "shows_events ((ep_items ep)(p := None)) (I(epi_sockfd e := None))"
  proof (rule shows_events_delete)
    show "ep_items ep p = Some e" by (rule p(3))
    show "q = p" if "ep_items ep q = Some e'" "epi_sockfd e' = epi_sockfd e" for q e'
      by (rule ep_key_inj [OF tree that(1) p(3) that(2)])
  qed (use reg in \<open>simp add: ep_reg_def\<close>)
  moreover have "ctl_del fd ep = Some (0, ?ep)" using p t(1) by (simp add: ctl_del_def)
  ultimately show ?thesis using p
    by (intro exI [of _ p] exI [of _ e] exI [of _ ?ep]) (simp add: ep_reg_def)
qed

lemma ctl_absent:
  assumes "ep_reg ep I" "I fd = None"
  shows "ctl_mod fd ev ep = Some (- 1, ep)" "ctl_del fd ep = Some (- 1, ep)"
  using ep_reg_unregistered [OF assms] by (simp_all add: ctl_mod_def ctl_del_def)

text \<open>The ready list is kept as long as its items are.\<close>

lemma ep_abs_frame:
  assumes abs: "ep_abs ep I R" and reg: "ep_reg ep' I'"
    and rl: "ep_rdlist ep' = ep_rdlist ep" "ep_rdnum ep' = ep_rdnum ep"
    and kept: "\<And>q. q \<in> set (ep_rdlist ep) \<Longrightarrow> ep_key ep' q = ep_key ep q \<and> ep_items ep' q \<noteq> None"
    and flag: "\<And>q e. ep_items ep' q = Some e \<Longrightarrow> epi_rdy e \<noteq> 0 \<longleftrightarrow> q \<in> set (ep_rdlist ep)"
  shows "ep_abs ep' I' R"
proof -
  have "ep_inv ep'"
    unfolding ep_inv_def using abs reg rl kept flag
    by (auto simp: ep_abs_def ep_inv_def ep_reg_def dom_def)
  moreover have "map (ep_key ep') (ep_rdlist ep) = map (ep_key ep) (ep_rdlist ep)" using kept by simp
  ultimately show ?thesis using abs reg rl by (simp add: ep_abs_def ep_reg_def)
qed

lemma ep_abs_ready:
  assumes "ep_abs ep I R"
  shows "set (ep_rdlist ep) \<subseteq> dom (ep_items ep)" "distinct (ep_rdlist ep)" "ep_rdnum ep = int (length (ep_rdlist ep))"
    "length R = length (ep_rdlist ep)" "ep_items ep q = Some e \<Longrightarrow> epi_rdy e \<noteq> 0 \<longleftrightarrow> q \<in> set (ep_rdlist ep)"
  using assms by (auto simp: ep_abs_def ep_inv_def)

lemma ctl_add_correct:
  assumes abs: "ep_abs ep I R" and raw: "p \<noteq> NULL" "ep_items ep p = None" "epi_rdy e = 0"
    and new: "I fd = None"
  shows "\<exists>ep'. ctl_add fd ev (Some (p, e)) ep = Some (0, ep') \<and> ep_abs ep' (I(fd \<mapsto> ev)) R"
proof -
  let ?e = "e\<lparr>epi_sockfd := fd, epi_event := ev\<rparr>"
  obtain ep' where ep': "ctl_add fd ev (Some (p, e)) ep = Some (0, ep')" "ep_reg ep' (I(fd \<mapsto> ev))"
    "ep_items ep' = (ep_items ep)(p \<mapsto> ?e)" "ep_rdlist ep' = ep_rdlist ep" "ep_rdnum ep' = ep_rdnum ep"
    using ctl_add_reg [OF ep_abs_reg [OF abs] raw(1,2) new] by blast
  have p: "p \<notin> set (ep_rdlist ep)" using ep_abs_ready(1) [OF abs] raw(2) by auto
  have "ep_abs ep' (I(fd \<mapsto> ev)) R"
  proof (rule ep_abs_frame [OF abs ep'(2,4,5)])
    fix q assume "q \<in> set (ep_rdlist ep)"
    then show "ep_key ep' q = ep_key ep q \<and> ep_items ep' q \<noteq> None"
      using p ep_abs_ready(1) [OF abs] by (auto simp: ep_key_def ep'(3))
  next
    fix q e' assume "ep_items ep' q = Some e'"
    then show "epi_rdy e' \<noteq> 0 \<longleftrightarrow> q \<in> set (ep_rdlist ep)"
      using p raw(3) ep_abs_ready(5) [OF abs, of q e'] by (cases "q = p") (auto simp: ep'(3))
  qed
  then show ?thesis using ep'(1) by blast
qed

lemma ctl_mod_correct:
  assumes abs: "ep_abs ep I R" and reg: "I fd = Some old"
  shows "\<exists>ep'. ctl_mod fd ev ep = Some (0, ep') \<and>
     ep_abs ep' (I(fd \<mapsto> old\<lparr>ev_events := ev_events ev OR (EPOLLERR OR EPOLLHUP)\<rparr>)) R"
proof -
  obtain p e ep' where ep': "ctl_mod fd ev ep = Some (0, ep')"
    "ep_reg ep' (I(fd \<mapsto> old\<lparr>ev_events := ev_events ev OR (EPOLLERR OR EPOLLHUP)\<rparr>))"
    "ep_items ep p = Some e" "epi_sockfd e = fd"
    "ep' = ep\<lparr>ep_items := (ep_items ep)(p \<mapsto>
       e\<lparr>epi_event := old\<lparr>ev_events := ev_events ev OR (EPOLLERR OR EPOLLHUP)\<rparr>\<rparr>)\<rparr>"
    using ctl_mod_reg [OF ep_abs_reg [OF abs] reg] by blast
  have "ep_key ep' = ep_key ep" by (rule ep_key_update [OF ep'(3)]) (simp_all add: ep'(5))
  moreover have "epi_rdy e' \<noteq> 0 \<longleftrightarrow> q \<in> set (ep_rdlist ep)" if "ep_items ep' q = Some e'" for q e'
    using that ep_abs_ready(5) [OF abs, of q] ep'(3) by (cases "q = p") (auto simp: ep'(5))
  ultimately have "ep_abs ep' (I(fd \<mapsto> old\<lparr>ev_events := ev_events ev OR (EPOLLERR OR EPOLLHUP)\<rparr>)) R"
    using ep_abs_ready(1) [OF abs] by (intro ep_abs_frame [OF abs ep'(2)]) (auto simp: ep'(5))
  then show ?thesis using ep'(1) by blast
qed

lemma ctl_del_correct:
  assumes abs: "ep_abs ep I R" and reg: "I fd = Some old" and rdy: "fd \<notin> set R"
  shows "\<exists>ep'. ctl_del fd ep = Some (0, ep') \<and> ep_abs ep' (I(fd := None)) R"
proof -
  obtain p e ep' where ep': "ctl_del fd ep = Some (0, ep')" "ep_reg ep' (I(fd := None))"
    "ep_find ep fd = Some p" "ep_items ep p = Some e" "epi_sockfd e = fd"
    "ep_items ep' = (ep_items ep)(p := None)" "ep_rdlist ep' = ep_rdlist ep" "ep_rdnum ep' = ep_rdnum ep"
    using ctl_del_reg [OF ep_abs_reg [OF abs] reg] by blast
  have p: "p \<notin> set (ep_rdlist ep)"
    using rdy abs ep'(4,5) by (force simp: ep_abs_def)
  have "ep_abs ep' (I(fd := None)) R"
  proof (rule ep_abs_frame [OF abs ep'(2,7,8)])
    fix q assume "q \<in> set (ep_rdlist ep)"
    then show "ep_key ep' q = ep_key ep q \<and> ep_items ep' q \<noteq> None"
      using p ep_abs_ready(1) [OF abs] by (auto simp: ep_key_def ep'(6))
  next
    fix q e' assume "ep_items ep' q = Some e'"
    then show "epi_rdy e' \<noteq> 0 \<longleftrightarrow> q \<in> set (ep_rdlist ep)"
      using ep_abs_ready(5) [OF abs, of q e'] by (auto simp: ep'(6) split: if_splits)
  qed
  then show ?thesis using ep'(1) by blast
qed

lemma callback_absent:
  assumes "ep_abs ep I R" "I fd = None"
  shows "epoll_event_callback (Some ep) fd event = Some (Some (- 1), ep)"
  using ep_abs_unregistered [OF assms] by (simp add: epoll_event_callback_def)

lemma callback_ready:
  assumes abs: "ep_abs ep I R" and reg: "I fd = Some old" and rdy: "fd \<in> set R"
  shows "\<exists>ep'. epoll_event_callback (Some ep) fd event = Some (Some 1, ep') \<and>
     ep_abs ep' (I(fd \<mapsto> old\<lparr>ev_events := ev_events old OR event\<rparr>)) R"
  using abs reg
proof (rule ep_abs_registered)
  fix p e
  assume p: "ep_find ep fd = Some p" "p \<noteq> NULL" "ep_items ep p = Some e" "epi_sockfd e = fd"
    "epi_event e = old" "epi_rdy e \<noteq> 0 \<longleftrightarrow> fd \<in> set R" "p \<in> set (ep_rdlist ep) \<longleftrightarrow> fd \<in> set R"
  let ?e = "e\<lparr>epi_event := old\<lparr>ev_events := ev_events old OR event\<rparr>\<rparr>"
  let ?ep = "ep\<lparr>ep_items := (ep_items ep)(p \<mapsto> ?e)\<rparr>"
  have inv: "distinct (ep_rdlist ep)" "set (ep_rdlist ep) \<subseteq> dom (ep_items ep)"
    "ep_rdnum ep = int (length (ep_rdlist ep))" using abs by (auto simp: ep_abs_def ep_inv_def)
  have "ep_abs ?ep (I(epi_sockfd e \<mapsto> epi_event ?e)) (map (ep_key ep) (ep_rdlist ep))"
    by (rule ep_abs_update [OF abs p(3)]) (use inv p in auto)
  moreover have "map (ep_key ep) (ep_rdlist ep) = R" using abs by (simp add: ep_abs_def)
  moreover have "epoll_event_callback (Some ep) fd event = Some (Some 1, ?ep)"
    using p rdy by (simp add: epoll_event_callback_def epi_update_def)
  ultimately show ?thesis using p(4) by auto
qed

lemma callback_new:
  assumes abs: "ep_abs ep I R" and reg: "I fd = Some old" and rdy: "fd \<notin> set R"
  shows "\<exists>ep'. epoll_event_callback (Some ep) fd event = Some (None, ep') \<and> ep_abs ep' I (fd # R)"
  using abs reg
proof (rule ep_abs_registered)
  fix p e
  assume p: "ep_find ep fd = Some p" "p \<noteq> NULL" "ep_items ep p = Some e" "epi_sockfd e = fd"
    "epi_event e = old" "epi_rdy e \<noteq> 0 \<longleftrightarrow> fd \<in> set R" "p \<in> set (ep_rdlist ep) \<longleftrightarrow> fd \<in> set R"
  let ?e = "e\<lparr>epi_rdy := 1\<rparr>"
  let ?ep = "ep\<lparr>ep_items := (ep_items ep)(p \<mapsto> ?e), ep_rdlist := p # ep_rdlist ep,
    ep_rdnum := int (length (p # ep_rdlist ep))\<rparr>"
  have inv: "distinct (ep_rdlist ep)" "set (ep_rdlist ep) \<subseteq> dom (ep_items ep)"
    "ep_rdnum ep = int (length (ep_rdlist ep))" using abs by (auto simp: ep_abs_def ep_inv_def)
  have "ep_abs ?ep (I(epi_sockfd e \<mapsto> epi_event ?e)) (map (ep_key ep) (p # ep_rdlist ep))"
    by (rule ep_abs_update [OF abs p(3)]) (use inv p rdy in auto)
  moreover have "map (ep_key ep) (p # ep_rdlist ep) = fd # R"
    using abs p by (simp add: ep_abs_def)
  moreover have "I(epi_sockfd e \<mapsto> epi_event ?e) = I" using p reg by auto
  moreover have "epoll_event_callback (Some ep) fd event = Some (None, ?ep)"
    using p rdy inv by (cases "ep_rdlist ep")
      (auto simp: epoll_event_callback_def epi_update_def LIST_INSERT_HEAD_def)
  ultimately show ?thesis by auto
qed

section \<open>Waiting for events\<close>

lemma collect_loop_correct:
  assumes "ep_abs ep I R" "n \<le> length R" "i + n \<le> length events"
  shows "\<exists>ep'. collect_loop (ep_rdlist ep) (int n) i events ep =
           Some (i + n, take i events @ map (the \<circ> I) (take n R) @ drop (i + n) events, ep') \<and>
         ep_abs ep' I (drop n R)"
  using assms
proof (induction n arbitrary: ep R i events)
  case 0
  then show ?case by (cases "ep_rdlist ep") auto
next
  case (Suc n)
  obtain p rest where rl: "ep_rdlist ep = p # rest"
    using Suc.prems(1,2) by (cases "ep_rdlist ep") (auto simp: ep_abs_def)
  have inv: "distinct (p # rest)" "set (p # rest) \<subseteq> dom (ep_items ep)"
    "ep_rdnum ep = int (length (p # rest))"
    using Suc.prems(1) rl by (auto simp: ep_abs_def ep_inv_def)
  then obtain e where e: "ep_items ep p = Some e" by auto
  let ?ep = "ep\<lparr>ep_rdlist := rest, ep_items := (ep_items ep)(p \<mapsto> e\<lparr>epi_rdy := 0\<rparr>),
    ep_rdnum := ep_rdnum ep - 1\<rparr>"
  have R: "R = epi_sockfd e # map (ep_key ep) rest"
    using Suc.prems(1) rl e by (simp add: ep_abs_def)
  have reg: "I (epi_sockfd e) = Some (epi_event e)"
    using Suc.prems(1) e shows_eventsD(2) by (auto simp: ep_abs_def)
  have "ep_abs ?ep (I(epi_sockfd e \<mapsto> epi_event (e\<lparr>epi_rdy := 0\<rparr>))) (map (ep_key ep) rest)"
    by (rule ep_abs_update [OF Suc.prems(1) e]) (use inv rl in auto)
  moreover have "I(epi_sockfd e \<mapsto> epi_event (e\<lparr>epi_rdy := 0\<rparr>)) = I" using reg by auto
  ultimately have abs: "ep_abs ?ep I (map (ep_key ep) rest)" by simp
  have ok: "list_remove_first_ok (ep_items ep) (p # rest)"
    using inv(2) by (cases rest) auto
  have len: "n \<le> length (map (ep_key ep) rest)" "i + 1 + n \<le> length (events[i := epi_event e])"
    using Suc.prems(2,3) R by auto
  obtain ep' where ep': "collect_loop rest (int n) (i + 1) (events[i := epi_event e]) ?ep =
      Some (i + 1 + n, take (i + 1) (events[i := epi_event e]) @
        map (the \<circ> I) (take n (map (ep_key ep) rest)) @ drop (i + 1 + n) (events[i := epi_event e]), ep')"
      "ep_abs ep' I (drop n (map (ep_key ep) rest))"
    using Suc.IH [OF abs len] by auto
  have "take (i + 1) (events[i := epi_event e]) = take i events @ [epi_event e]"
    using Suc.prems(3) by (simp add: take_Suc_conv_app_nth)
  moreover have "drop (i + 1 + n) (events[i := epi_event e]) = drop (i + Suc n) events" by simp
  moreover have "collect_loop (ep_rdlist ep) (int (Suc n)) i events ep =
      collect_loop rest (int n) (i + 1) (events[i := epi_event e]) ?ep"
    using ok e Suc.prems(3) by (simp add: rl)
  ultimately show ?case using ep' R reg by simp
qed

lemma wait_collect_correct:
  assumes abs: "ep_abs ep I R" and n: "n = min (length R) (nat maxevents)"
    and pos: "0 < maxevents" and room: "n \<le> length events"
  shows "\<exists>ep'. wait_collect events maxevents ep =
           Some (int n, map (the \<circ> I) (take n R) @ drop n events, ep') \<and> ep_abs ep' I (drop n R)"
proof -
  have "ep_rdnum ep = int (length R)" using abs by (auto simp: ep_abs_def ep_inv_def)
  then have "(if ep_rdnum ep > maxevents then maxevents else ep_rdnum ep) = int n"
    using n pos by auto
  then show ?thesis
    using collect_loop_correct [OF abs, of n 0 events] room n by (auto simp: wait_collect_def Let_def)
qed

lemma collect_loop_dangling:
  assumes "\<exists>p\<in>set rl. ep_items ep p = None" "distinct rl" "int (length rl) \<le> num"
  shows "collect_loop rl num i events ep = None"
  using assms
proof (induction rl arbitrary: num i events ep)
  case (Cons p rl)
  show ?case
  proof (cases "ep_items ep p")
    case None
    then show ?thesis using Cons.prems(3) by simp
  next
    case (Some e)
    let ?ep = "ep\<lparr>ep_rdlist := rl, ep_items := (ep_items ep)(p \<mapsto> e\<lparr>epi_rdy := 0\<rparr>),
      ep_rdnum := ep_rdnum ep - 1\<rparr>"
    have "\<exists>q\<in>set rl. ep_items ?ep q = None" using Cons.prems(1,2) Some by auto
    then have "collect_loop rl (num - 1) (i + 1) (events[i := epi_event e]) ?ep = None"
      using Cons.prems(2,3) by (intro Cons.IH) auto
    then show ?thesis using Some Cons.prems(3) by simp
  qed
qed simp

section \<open>Properties\<close>

text \<open>The empty object \<open>nepoll_create\<close> sets up, when the counter it leaves uninitialised
  happens to be 0.\<close>

lemma create_correct:
  assumes "fd_wf fdt" "\<not> fd_range \<subseteq> fd_used fdt" "sz > 0" "\<forall>r\<in>set inits. r = 0"
    and "ep_items raw = Map.empty" "ep_rdnum raw = 0"
  shows "\<exists>ep fdt'. nepoll_create sz (Some raw) inits tep fdt = Some (ep_fd ep, EpAt ep, fdt') \<and>
     ep_abs ep Map.empty [] \<and> nat (ep_fd ep) \<in> fd_range \<and> fd_used fdt' = insert (nat (ep_fd ep)) (fd_used fdt)"
proof -
  obtain fd fdt' where g: "get_fd_frombitmap fdt = (fd, fdt')" by fastforce
  obtain n where n: "n \<in> fd_range" "fd = int n" "fd_used fdt' = insert n (fd_used fdt)"
    using assms(2) by (cases rule: fds.get_result [OF assms(1) g]) auto
  let ?ep = "raw\<lparr>ep_fd := fd, ep_rbcnt := 0, ep_rbr := RB_INIT (ep_rbr raw), ep_rdlist := []\<rparr>"
  have "ep_inv ?ep"
    unfolding ep_inv_def ep_tree_def using assms(5,6) rb_valid_RB_INIT
    by (intro conjI exI [of _ "[]"]) auto
  then have "ep_abs ?ep Map.empty []"
    using assms(5) by (simp add: ep_abs_def shows_events_def)
  moreover have "nepoll_create sz (Some raw) inits tep fdt = Some (fd, EpAt ?ep, fdt')"
    using assms(3,4) g by (auto simp: nepoll_create_def)
  ultimately show ?thesis using n by (intro exI [of _ ?ep] exI [of _ fdt']) simp
qed

text \<open>What the control operation promises. \<open>mem\<close> says whether there is memory for a new item.\<close>

fun ctl_spec :: "epoll_op \<Rightarrow> int \<Rightarrow> epoll_event option \<Rightarrow> bool \<Rightarrow> (int \<rightharpoonup> epoll_event) \<Rightarrow> int \<times> (int \<rightharpoonup> epoll_event)" where
  "ctl_spec EPOLL_CTL_DEL fd event mem I = (if I fd = None then (- 1, I) else (0, I(fd := None)))"
| "ctl_spec EPOLL_CTL_ADD fd (Some ev) mem I = (if I fd = None \<and> mem then (0, I(fd \<mapsto> ev)) else (- 1, I))"
| "ctl_spec EPOLL_CTL_MOD fd (Some ev) mem I =
     (case I fd of
        None \<Rightarrow> (- 1, I)
      | Some old \<Rightarrow> (0, I(fd \<mapsto> old\<lparr>ev_events := ev_events ev OR 0x18\<rparr>)))"
| "ctl_spec EPOLL_CTL_OTHER fd (Some ev) mem I = (0, I)"
| "ctl_spec _ fd None mem I = (- 1, I)"

text \<open>The two ways to lose the ready list: a new item in memory whose flag is set already is never put
  on the list, and a ready item that is freed stays on it.\<close>

definition flag_left_set :: "epoll_op \<Rightarrow> int \<Rightarrow> epoll_event option \<Rightarrow> (addr \<times> epitem) option \<Rightarrow> (int \<rightharpoonup> epoll_event) \<Rightarrow> bool" where
  "flag_left_set opn fd event raw I \<longleftrightarrow>
     opn = EPOLL_CTL_ADD \<and> event \<noteq> None \<and> I fd = None \<and> (\<exists>p e. raw = Some (p, e) \<and> epi_rdy e \<noteq> 0)"

definition never_ready :: "int \<Rightarrow> eventpoll \<Rightarrow> bool" where
  "never_ready fd ep \<longleftrightarrow> (\<forall>event. \<exists>ep'. epoll_event_callback (Some ep) fd event = Some (Some 1, ep') \<and>
     ep_rdlist ep' = ep_rdlist ep \<and> ep_rdnum ep' = ep_rdnum ep)"

definition wait_crashes :: "nat \<Rightarrow> eventpoll \<Rightarrow> bool" where
  "wait_crashes n ep \<longleftrightarrow> (\<forall>etimedout events maxevents timeout wakes. int n \<le> maxevents \<longrightarrow>
     nepoll_wait etimedout (Some ep) (Some events) maxevents timeout wakes = None)"

lemma never_ready_item:
  assumes "ep_reg ep I" "ep_items ep p = Some e" "epi_sockfd e = fd" "epi_rdy e \<noteq> 0"
  shows "never_ready fd ep"
proof -
  have tree: "ep_tree ep" using assms(1) by (simp add: ep_reg_def)
  have "ep_find ep fd = Some p \<and> p \<noteq> NULL"
  proof (cases rule: ep_find_cases [OF tree, of fd])
    case (1 q e')
    then show ?thesis using ep_key_inj [OF tree 1(3) assms(2)] assms(3) by simp
  qed (use assms(2,3) in blast)
  then show ?thesis using assms(2,4) by (simp add: never_ready_def epoll_event_callback_def epi_update_def)
qed

lemma wait_crashes_dangling:
  assumes "ep_rdnum ep = int (length (ep_rdlist ep))" "distinct (ep_rdlist ep)"
    and "p \<in> set (ep_rdlist ep)" "ep_items ep p = None"
  shows "wait_crashes (length (ep_rdlist ep)) ep"
  unfolding wait_crashes_def
proof (intro allI impI)
  fix etimedout events maxevents timeout wakes
  assume max: "int (length (ep_rdlist ep)) \<le> maxevents"
  then have pos: "maxevents > 0" "ep_rdnum ep \<noteq> 0" using assms(1,3) by (cases "ep_rdlist ep"; simp)+
  then have "wait_loop etimedout timeout wakes ep = Done (True, ep)"
    by (subst wait_loop.simps) simp
  moreover have "collect_loop (ep_rdlist ep) (ep_rdnum ep) 0 events ep = None"
    using assms by (intro collect_loop_dangling) auto
  moreover have "\<not> ep_rdnum ep > maxevents" using max assms(1) by simp
  ultimately show "nepoll_wait etimedout (Some ep) (Some events) maxevents timeout wakes = None"
    using pos by (simp add: nepoll_wait_def wait_collect_def Let_def)
qed

lemma err_hup: "EPOLLERR OR EPOLLHUP = 0x18"
  by (simp add: EPOLLERR_def EPOLLHUP_def)

lemma nepoll_ctl_add:
  assumes reg: "ep_reg ep I" and fresh: "\<forall>p e. raw = Some (p, e) \<longrightarrow> p \<noteq> NULL \<and> ep_items ep p = None"
  shows "\<exists>ep'. ctl_add fd ev raw ep = Some (fst (ctl_spec EPOLL_CTL_ADD fd (Some ev) (raw \<noteq> None) I), ep') \<and>
     ep_reg ep' (snd (ctl_spec EPOLL_CTL_ADD fd (Some ev) (raw \<noteq> None) I)) \<and>
     ep_rdlist ep' = ep_rdlist ep \<and> ep_rdnum ep' = ep_rdnum ep \<and>
     (flag_left_set EPOLL_CTL_ADD fd (Some ev) raw I \<longrightarrow> never_ready fd ep') \<and>
     (\<forall>R. ep_abs ep I R \<longrightarrow> flag_left_set EPOLL_CTL_ADD fd (Some ev) raw I \<or>
        ep_abs ep' (snd (ctl_spec EPOLL_CTL_ADD fd (Some ev) (raw \<noteq> None) I)) R)"
proof (cases "I fd")
  case (Some old)
  then show ?thesis using ctl_add_exists [OF reg Some] reg by (simp add: flag_left_set_def)
next
  case None
  show ?thesis
  proof (cases raw)
    case (Some pe)
    then obtain p e where pe: "raw = Some (p, e)" "p \<noteq> NULL" "ep_items ep p = None" using fresh by (cases pe) auto
    obtain ep' where ep': "ctl_add fd ev raw ep = Some (0, ep')" "ep_reg ep' (I(fd \<mapsto> ev))"
      "ep_items ep' p = Some (e\<lparr>epi_sockfd := fd, epi_event := ev\<rparr>)"
      "ep_rdlist ep' = ep_rdlist ep" "ep_rdnum ep' = ep_rdnum ep"
      using ctl_add_reg [OF reg pe(2,3) None, of ev e] pe(1) by auto
    have "never_ready fd ep'" if "epi_rdy e \<noteq> 0"
      using never_ready_item [OF ep'(2,3)] that by simp
    moreover have "ep_abs ep' (I(fd \<mapsto> ev)) R" if "ep_abs ep I R" "epi_rdy e = 0" for R
      using ctl_add_correct [OF that(1) pe(2,3) that(2) None, of ev] ep'(1) pe(1) by simp
    ultimately show ?thesis using ep' None pe(1) by (simp add: flag_left_set_def)
  qed (use ctl_add_no_memory [OF reg, of fd ev] reg None in \<open>simp add: flag_left_set_def\<close>)
qed

lemma nepoll_ctl_del:
  assumes reg: "ep_reg ep I"
  shows "\<exists>ep'. ctl_del fd ep = Some (fst (ctl_spec EPOLL_CTL_DEL fd event mem I), ep') \<and>
     ep_reg ep' (snd (ctl_spec EPOLL_CTL_DEL fd event mem I)) \<and>
     ep_rdlist ep' = ep_rdlist ep \<and> ep_rdnum ep' = ep_rdnum ep \<and>
     (\<forall>R. ep_abs ep I R \<longrightarrow> (if fd \<in> set R then wait_crashes (length R) ep'
        else ep_abs ep' (snd (ctl_spec EPOLL_CTL_DEL fd event mem I)) R))"
proof (cases "I fd")
  case None
  then have "fd \<notin> set R" if "ep_abs ep I R" for R
    using that ep_reg_unregistered(2) [OF reg None] by (force simp: ep_abs_def ep_inv_def ep_key_def)
  then show ?thesis using ctl_absent(2) [OF reg None] reg None by auto
next
  case (Some old)
  obtain p e ep' where ep': "ctl_del fd ep = Some (0, ep')" "ep_reg ep' (I(fd := None))"
    "ep_find ep fd = Some p" "ep_items ep p = Some e" "epi_sockfd e = fd"
    "ep_items ep' = (ep_items ep)(p := None)" "ep_rdlist ep' = ep_rdlist ep" "ep_rdnum ep' = ep_rdnum ep"
    using ctl_del_reg [OF reg Some] by blast
  have "wait_crashes (length R) ep'" if abs: "ep_abs ep I R" and rdy: "fd \<in> set R" for R
  proof -
    have "p \<in> set (ep_rdlist ep)" using ep_abs_registered [OF abs Some] ep'(3) rdy by (metis option.inject)
    then show ?thesis
      using wait_crashes_dangling [of ep' p] ep_abs_ready(2-4) [OF abs] ep'(6-8) by simp
  qed
  moreover have "ep_abs ep' (I(fd := None)) R" if "ep_abs ep I R" "fd \<notin> set R" for R
    using ctl_del_correct [OF that(1) Some that(2)] ep'(1) by auto
  ultimately show ?thesis using ep' Some by auto
qed

lemma nepoll_ctl_mod:
  assumes reg: "ep_reg ep I"
  shows "\<exists>ep'. ctl_mod fd ev ep = Some (fst (ctl_spec EPOLL_CTL_MOD fd (Some ev) mem I), ep') \<and>
     ep_reg ep' (snd (ctl_spec EPOLL_CTL_MOD fd (Some ev) mem I)) \<and>
     ep_rdlist ep' = ep_rdlist ep \<and> ep_rdnum ep' = ep_rdnum ep \<and>
     (\<forall>R. ep_abs ep I R \<longrightarrow> ep_abs ep' (snd (ctl_spec EPOLL_CTL_MOD fd (Some ev) mem I)) R)"
proof (cases "I fd")
  case None
  then show ?thesis using ctl_absent(1) [OF reg None] reg by simp
next
  case (Some old)
  obtain ep' where ep': "ctl_mod fd ev ep = Some (0, ep')" "ep_rdlist ep' = ep_rdlist ep" "ep_rdnum ep' = ep_rdnum ep"
    "ep_reg ep' (I(fd \<mapsto> old\<lparr>ev_events := ev_events ev OR (EPOLLERR OR EPOLLHUP)\<rparr>))"
    using ctl_mod_reg [OF reg Some, of ev] by auto
  moreover have "ep_abs ep' (I(fd \<mapsto> old\<lparr>ev_events := ev_events ev OR (EPOLLERR OR EPOLLHUP)\<rparr>)) R"
    if "ep_abs ep I R" for R using ctl_mod_correct [OF that Some, of ev] ep'(1) by auto
  ultimately show ?thesis using Some by (simp add: err_hup)
qed

lemma nepoll_ctl_call:
  assumes "nepoll_ctl epp opn fd event raw = map_option (\<lambda>(r, ep). (r, Some ep)) call"
    and "\<exists>ep'. call = Some (r, ep') \<and> P ep'"
  shows "\<exists>ep'. nepoll_ctl epp opn fd event raw = Some (r, Some ep') \<and> P ep'"
  using assms by auto

text \<open>C4: Whatever state the ready list is in, every \<open>nepoll_ctl\<close> call returns and does to the registered
  descriptors what the specification on maps says: it adds a new one, refuses a duplicate or reports that
  memory is short, removes or modifies a registered one, and reports an unknown one and a missing event. It does not touch
  the ready list, so if that was right it stays so, but for two cases: a descriptor added in
  memory whose flag happens to be set is registered but never becomes ready, and when a descriptor is
  removed while it is ready, the next wait that gets through the list uses its freed item.\<close>

theorem nepoll_ctl_refines:
  assumes "ep_reg ep I" and "\<forall>p e. raw = Some (p, e) \<longrightarrow> p \<noteq> NULL \<and> ep_items ep p = None"
  shows "\<exists>ep'. nepoll_ctl (Some ep) opn fd event raw =
           Some (fst (ctl_spec opn fd event (raw \<noteq> None) I), Some ep') \<and>
         ep_reg ep' (snd (ctl_spec opn fd event (raw \<noteq> None) I)) \<and>
         ep_rdlist ep' = ep_rdlist ep \<and> ep_rdnum ep' = ep_rdnum ep \<and>
         (flag_left_set opn fd event raw I \<longrightarrow> never_ready fd ep') \<and>
         (\<forall>R. ep_abs ep I R \<longrightarrow>
            (if opn = EPOLL_CTL_DEL \<and> fd \<in> set R then wait_crashes (length R) ep'
             else flag_left_set opn fd event raw I \<or> ep_abs ep' (snd (ctl_spec opn fd event (raw \<noteq> None) I)) R))"
proof (cases opn)
  case EPOLL_CTL_DEL
  then have "nepoll_ctl (Some ep) opn fd event raw = map_option (\<lambda>(r, ep). (r, Some ep)) (ctl_del fd ep)"
    by (simp add: nepoll_ctl_def)
  moreover have "\<not> flag_left_set opn fd event raw I" using EPOLL_CTL_DEL by (simp add: flag_left_set_def)
  ultimately show ?thesis using nepoll_ctl_del [OF assms(1), of fd event "raw \<noteq> None"] EPOLL_CTL_DEL by fastforce
next
  case EPOLL_CTL_ADD
  then show ?thesis
  proof (cases event)
    case (Some ev)
    then have call: "nepoll_ctl (Some ep) opn fd event raw = map_option (\<lambda>(r, ep). (r, Some ep)) (ctl_add fd ev raw ep)"
      using EPOLL_CTL_ADD by (simp add: nepoll_ctl_def)
    show ?thesis
      using nepoll_ctl_add [OF assms, of fd ev]
      by (intro nepoll_ctl_call [OF call]) (simp only: EPOLL_CTL_ADD Some epoll_op.distinct simp_thms if_False)
  qed (use assms(1) in \<open>simp add: nepoll_ctl_def flag_left_set_def\<close>)
next
  case EPOLL_CTL_MOD
  then have flag: "\<not> flag_left_set opn fd event raw I" by (simp add: flag_left_set_def)
  show ?thesis
  proof (cases event)
    case (Some ev)
    then have "nepoll_ctl (Some ep) opn fd event raw = map_option (\<lambda>(r, ep). (r, Some ep)) (ctl_mod fd ev ep)"
      using EPOLL_CTL_MOD by (simp add: nepoll_ctl_def)
    then show ?thesis
      using nepoll_ctl_mod [OF assms(1), of fd ev "raw \<noteq> None"] EPOLL_CTL_MOD Some flag by fastforce
  qed (use assms(1) EPOLL_CTL_MOD in \<open>simp add: nepoll_ctl_def flag_left_set_def\<close>)
next
  case EPOLL_CTL_OTHER
  then show ?thesis using assms(1) by (cases event) (simp_all add: nepoll_ctl_def flag_left_set_def)
qed

definition ep_new :: eventpoll where
  "ep_new = \<lparr>ep_fd = 4, ep_rbr = RB_INIT \<lparr>rbe = Map.empty, rbh_root = 0\<rparr>, ep_rbcnt = 0,
     ep_items = Map.empty, ep_rdlist = [], ep_rdnum = 0, ep_waiting = 0\<rparr>"

definition raw_item :: epitem where
  "raw_item = \<lparr>epi_rdy = 0, epi_sockfd = 99, epi_event = \<lparr>ev_events = 7, ev_data = 7\<rparr>\<rparr>"

definition ev_in :: "int \<Rightarrow> epoll_event" where
  "ev_in fd = \<lparr>ev_events = EPOLLIN, ev_data = word_of_int fd\<rparr>"

lemma ep_new_abs: "ep_abs ep_new Map.empty []"
  using rb_valid_RB_INIT
  by (auto simp: ep_abs_def ep_inv_def ep_tree_def ep_new_def shows_events_def)

lemma nepoll_ctl_refines_witness:
  "\<exists>ep' ep''. nepoll_ctl (Some ep_new) EPOLL_CTL_ADD 5 (Some (ev_in 5)) (Some (16, raw_item)) = Some (0, Some ep') \<and>
       ep_abs ep' [5 \<mapsto> ev_in 5] [] \<and>
     nepoll_ctl (Some ep_new) EPOLL_CTL_ADD 5 (Some (ev_in 5)) (Some (16, raw_item\<lparr>epi_rdy := 77\<rparr>)) = Some (0, Some ep'') \<and>
       ep_reg ep'' [5 \<mapsto> ev_in 5] \<and> never_ready 5 ep''"
  using nepoll_ctl_refines [OF ep_abs_reg [OF ep_new_abs], of "Some (16, raw_item)" EPOLL_CTL_ADD 5 "Some (ev_in 5)"]
    nepoll_ctl_refines [OF ep_abs_reg [OF ep_new_abs], of "Some (16, raw_item\<lparr>epi_rdy := 77\<rparr>)" EPOLL_CTL_ADD 5 "Some (ev_in 5)"] ep_new_abs
  by (auto simp: ep_new_def raw_item_def flag_left_set_def)

text \<open>C5: an event for a registered descriptor puts it at the front of the ready list, or is
  merged into its pending event when it is ready already; an event for an unknown
  descriptor is refused. No call crashes as long as the object exists.\<close>

theorem epoll_event_callback_refines:
  assumes "ep_abs ep I R"
  shows "\<exists>r ep'. epoll_event_callback (Some ep) fd event = Some (r, ep') \<and>
    (case I fd of
       None \<Rightarrow> r = Some (- 1) \<and> ep' = ep
     | Some old \<Rightarrow>
         if fd \<in> set R
         then r = Some 1 \<and> ep_abs ep' (I(fd \<mapsto> old\<lparr>ev_events := ev_events old OR event\<rparr>)) R
         else r = None \<and> ep_abs ep' I (fd # R))"
proof (cases "I fd")
  case None
  then show ?thesis using callback_absent [OF assms None] by simp
next
  case (Some old)
  then show ?thesis
    using callback_ready [OF assms Some] callback_new [OF assms Some] by (cases "fd \<in> set R") auto
qed

lemma epoll_event_callback_refines_witness:
  "\<exists>ep'. epoll_event_callback (Some ep_new) 5 EPOLLIN = Some (Some (- 1), ep') \<and> ep' = ep_new"
  using epoll_event_callback_refines [OF ep_new_abs, of 5 EPOLLIN] by simp

text \<open>C6: when descriptors are ready (or the caller does not want to block), \<open>nepoll_wait\<close>
  reports the events of the first \<open>maxevents\<close> ready descriptors in ready-list order, each
  once, leaves the rest of the caller's array alone, and takes exactly the reported ones
  off the ready list: they are reported again only after a new event.\<close>

theorem nepoll_wait_reports:
  assumes abs: "ep_abs ep I R" and go: "R \<noteq> [] \<or> timeout = 0" and pos: "0 < maxevents"
    and n: "n = min (length R) (nat maxevents)" and room: "n \<le> length events"
  shows "\<exists>ep'. nepoll_wait etimedout (Some ep) (Some events) maxevents timeout wakes =
           Some (Done (int n, Some (map (the \<circ> I) (take n R) @ drop n events), Some ep')) \<and>
         ep_abs ep' I (drop n R)"
proof -
  have "ep_rdnum ep = int (length R)" using abs by (auto simp: ep_abs_def ep_inv_def)
  then have "wait_loop etimedout timeout wakes ep = Done (True, ep)"
    using go by (subst wait_loop.simps) auto
  then show ?thesis
    using wait_collect_correct [OF abs n pos room] pos by (auto simp: nepoll_wait_def)
qed

lemma ep_ready:
  "\<exists>ep. ep_abs ep [5 \<mapsto> ev_in 5] [5]"
proof -
  obtain ep1 where "ep_abs ep1 [5 \<mapsto> ev_in 5] []"
    using ctl_add_correct [OF ep_new_abs, of 16 raw_item 5 "ev_in 5"]
    by (auto simp: ep_new_def raw_item_def)
  then show ?thesis using callback_new [of ep1 "[5 \<mapsto> ev_in 5]" "[]" 5 "ev_in 5"] by auto
qed

lemma nepoll_wait_reports_witness:
  "\<exists>ep ep'. ep_abs ep [5 \<mapsto> ev_in 5] [5] \<and>
     nepoll_wait 110 (Some ep) (Some [ev_in 0, ev_in 0]) 2 (- 1) [] =
       Some (Done (1, Some [ev_in 5, ev_in 0], Some ep')) \<and> ep_abs ep' [5 \<mapsto> ev_in 5] []"
proof -
  obtain ep where ep: "ep_abs ep [5 \<mapsto> ev_in 5] [5]" using ep_ready by blast
  show ?thesis
    using nepoll_wait_reports [OF ep, of "- 1" 2 1 "[ev_in 0, ev_in 0]" 110 "[]"] ep by auto
qed

text \<open>the deadline of a timed wait is the current time plus the timeout, with the
  nanoseconds in range, for every non-negative timeout.\<close>

theorem wait_deadline_correct:
  assumes "0 \<le> timeout" "0 \<le> nsec" "nsec < 1000000000"
  shows "case wait_deadline timeout (sec, nsec) of (s, n) \<Rightarrow>
     s * 1000000000 + n = sec * 1000000000 + nsec + timeout * 1000000 \<and> 0 \<le> n \<and> n < 1000000000"
proof -
  have "timeout - timeout div 1000 * 1000 = timeout mod 1000"
    by (simp add: minus_div_mult_eq_mod)
  moreover have "0 \<le> timeout mod 1000" "timeout mod 1000 < 1000" by simp_all
  moreover have "timeout = timeout div 1000 * 1000 + timeout mod 1000" by simp
  ultimately show ?thesis using assms by (auto simp: wait_deadline_def Let_def)
qed

lemma wait_deadline_correct_witness:
  "wait_deadline 2750 (100, 900000000) = (103, 650000000)"
  using wait_deadline_correct [of 2750 900000000 100] by (simp add: wait_deadline_def)

end
