(* ===== verification/Tcp_Correct.thy ===== *)
theory Tcp_Correct
  imports Tcp Epoll_Correct
begin

text \<open>
  The TCP engine: what a received packet can do to the table, whatever the rings do; the
  delivery of data, the handshake and the close, when the rings are first-in first-out
  and the allocations succeed; and the output loop.
\<close>

section \<open>Positions in the table\<close>

definition tcb_wf :: "'r ng_tcp_table \<Rightarrow> bool" where
  "tcb_wf t \<longleftrightarrow> distinct (map ts_ptr (tcb_set t))"

definition tcb_at ::
  "'r ng_tcp_table \<Rightarrow> 'r ng_tcp_stream list \<Rightarrow> 'r ng_tcp_stream \<Rightarrow> 'r ng_tcp_stream list \<Rightarrow> bool" where
  "tcb_at t as s bs \<longleftrightarrow> tcb_set t = as @ s # bs \<and> ts_ptr s \<notin> ts_ptr ` set (as @ bs)"

lemma tcb_at_get:
  assumes "tcb_at t as s bs"
  shows "tcb_get (ts_ptr s) t = Some s"
proof -
  have "find (\<lambda>s'. ts_ptr s' = ts_ptr s) as = None"
    unfolding find_None_iff using assms unfolding tcb_at_def by (metis UnCI image_eqI set_append)
  then show ?thesis using assms by (simp add: tcb_at_def tcb_get_def find_append)
qed

lemma tcb_at_update:
  assumes "tcb_at t as s bs" "ts_ptr (f s) = ts_ptr s"
  shows "tcb_at (tcb_update (ts_ptr s) f t) as (f s) bs"
proof -
  have "map (\<lambda>s'. if ts_ptr s' = ts_ptr s then f s' else s') xs = xs" if "ts_ptr s \<notin> ts_ptr ` set xs" for xs
    using that by (induction xs) auto
  then show ?thesis using assms by (auto simp: tcb_at_def tcb_update_def)
qed

lemma tcb_update_ep [simp]: "tcp_ep (tcb_update p f t) = tcp_ep t"
  by (simp add: tcb_update_def)

lemma tcb_wf_at: "tcb_wf t \<Longrightarrow> s \<in> set (tcb_set t) \<Longrightarrow> \<exists>as bs. tcb_at t as s bs"
  by (drule split_list) (fastforce simp: tcb_wf_def tcb_at_def)

lemma tcb_at_unique:
  "tcb_at t as s bs \<Longrightarrow> tcb_at t cs s' ds \<Longrightarrow> ts_ptr s = ts_ptr s' \<Longrightarrow> s = s'"
  using tcb_at_get by (metis option.inject)

lemma search_in: "ng_tcp_stream_search sip dip sport dport t = Some s \<Longrightarrow> s \<in> set (tcb_set t)"
  by (auto simp: ng_tcp_stream_search_def find_Some_iff split: option.splits)

section \<open>The pieces of the handlers\<close>

lemma enqueue_snd_at:
  assumes "tcb_at t as s bs"
  shows "enqueue_snd R (ts_ptr s) f t =
     map_option (\<lambda>r. tcb_update (ts_ptr s) (\<lambda>s. s\<lparr>ts_sndbuf := Some (ring_push R f r)\<rparr>) t) (ts_sndbuf s)"
  using tcb_at_get [OF assms] by (cases "ts_sndbuf s") (auto simp: enqueue_snd_def)

lemma enqueue_rcv_at:
  assumes "tcb_at t as s bs"
  shows "enqueue_rcv R (ts_ptr s) f t =
     map_option (\<lambda>r. tcb_update (ts_ptr s) (\<lambda>s. s\<lparr>ts_rcvbuf := Some (ring_push R f r)\<rparr>) t) (ts_rcvbuf s)"
  using tcb_at_get [OF assms] by (cases "ts_rcvbuf s") (auto simp: enqueue_rcv_def)

text \<open>The notification of the epoll object, as a change of its abstract state.\<close>

definition tcp_ep_abs :: "'r ng_tcp_table \<Rightarrow> (int \<rightharpoonup> epoll_event) \<Rightarrow> int list \<Rightarrow> bool" where
  "tcp_ep_abs t I R \<longleftrightarrow> (\<exists>ep. tcp_ep t = EpAt ep \<and> ep_abs ep I R)"

definition notify_I :: "int \<Rightarrow> (int \<rightharpoonup> epoll_event) \<Rightarrow> int list \<Rightarrow> (int \<rightharpoonup> epoll_event)" where
  "notify_I fd I R =
     (case I fd of
        None \<Rightarrow> I
      | Some old \<Rightarrow> if fd \<in> set R then I(fd \<mapsto> old\<lparr>ev_events := ev_events old OR EPOLLIN\<rparr>) else I)"

definition notify_R :: "int \<Rightarrow> (int \<rightharpoonup> epoll_event) \<Rightarrow> int list \<Rightarrow> int list" where
  "notify_R fd I R = (if I fd = None \<or> fd \<in> set R then R else fd # R)"

lemma tcp_epoll_event_correct:
  assumes "tcp_ep_abs t I R"
  shows "\<exists>t'. tcp_epoll_event fd t = Some t' \<and> tcb_set t' = tcb_set t \<and>
           tcp_ep_abs t' (notify_I fd I R) (notify_R fd I R)"
proof -
  obtain ep where ep: "tcp_ep t = EpAt ep" "ep_abs ep I R" using assms by (auto simp: tcp_ep_abs_def)
  show ?thesis
  proof (cases "I fd")
    case None
    then show ?thesis using callback_absent [OF ep(2) None] ep
      by (simp add: tcp_epoll_event_def tcp_ep_abs_def notify_I_def notify_R_def)
  next
    case (Some old)
    then show ?thesis
      using callback_ready [OF ep(2) Some, of EPOLLIN] callback_new [OF ep(2) Some, of EPOLLIN] ep
      by (cases "fd \<in> set R")
        (auto simp: tcp_epoll_event_def tcp_ep_abs_def notify_I_def notify_R_def)
  qed
qed

lemma tcp_epoll_event_tcbs: "tcp_epoll_event fd t = Some t' \<Longrightarrow> tcb_set t' = tcb_set t"
  by (auto simp: tcp_epoll_event_def Option.bind_eq_Some_conv)

lemma tcb_at_cong: "tcb_set t' = tcb_set t \<Longrightarrow> tcb_at t' as s bs = tcb_at t as s bs"
  by (simp add: tcb_at_def)

text \<open>The connection a control block belongs to, which no handler changes.\<close>

definition same_conn :: "'r ng_tcp_stream \<Rightarrow> 'r ng_tcp_stream \<Rightarrow> bool" where
  "same_conn s s' \<longleftrightarrow> ts_ptr s' = ts_ptr s \<and> ts_fd s' = ts_fd s \<and> ts_sip s' = ts_sip s \<and>
     ts_dip s' = ts_dip s \<and> ts_sport s' = ts_sport s \<and> ts_dport s' = ts_dport s \<and>
     ts_protocol s' = ts_protocol s \<and> ts_localmac s' = ts_localmac s"

lemma same_conn_refl: "same_conn s s"
  by (simp add: same_conn_def)

lemma same_conn_trans: "same_conn a b \<Longrightarrow> same_conn b c \<Longrightarrow> same_conn a c"
  by (simp add: same_conn_def)

section \<open>Frame of the handlers\<close>

text \<open>Whatever the rings do, a handler that returns has changed the buffers, sequence numbers
  and status of its own control block only.\<close>

lemma enqueue_recvbuffer_frame:
  assumes at: "tcb_at t as s bs"
    and run: "ng_tcp_enqueue_recvbuffer R env k (ts_ptr s) h m tcplen t = Some (c, t')"
  shows "\<exists>s'. tcb_at t' as s' bs \<and> same_conn s s' \<and> ts_status s' = ts_status s \<and>
    ts_rcv_nxt s' = ts_rcv_nxt s \<and> ts_snd_nxt s' = ts_snd_nxt s \<and> ts_sndbuf s' = ts_sndbuf s"
proof -
  have upd: "\<exists>s'. tcb_at (tcb_update (ts_ptr s) (\<lambda>s. s\<lparr>ts_rcvbuf := Some r\<rparr>) t) as s' bs \<and> same_conn s s' \<and>
      ts_status s' = ts_status s \<and> ts_rcv_nxt s' = ts_rcv_nxt s \<and> ts_snd_nxt s' = ts_snd_nxt s \<and>
      ts_sndbuf s' = ts_sndbuf s" for r
    using tcb_at_update [OF at, of "\<lambda>s. s\<lparr>ts_rcvbuf := Some r\<rparr>"]
    by (intro exI [of _ "s\<lparr>ts_rcvbuf := Some r\<rparr>"]) (simp add: same_conn_def)
  show ?thesis
    using run at upd enqueue_rcv_at [OF at]
    by (auto simp: ng_tcp_enqueue_recvbuffer_def Let_def Option.bind_eq_Some_conv same_conn_refl
        split: if_splits)
qed

lemma send_ackpkt_frame:
  assumes at: "tcb_at t as s bs"
    and run: "ng_tcp_send_ackpkt R env k (ts_ptr s) h t = Some (c, t')"
  shows "\<exists>s'. tcb_at t' as s' bs \<and> same_conn s s' \<and> ts_status s' = ts_status s"
proof -
  have upd: "\<exists>s'. tcb_at (tcb_update (ts_ptr s) (\<lambda>s. s\<lparr>ts_sndbuf := Some r\<rparr>) t) as s' bs \<and> same_conn s s' \<and>
      ts_status s' = ts_status s" for r
    using tcb_at_update [OF at, of "\<lambda>s. s\<lparr>ts_sndbuf := Some r\<rparr>"]
    by (intro exI [of _ "s\<lparr>ts_sndbuf := Some r\<rparr>"]) (simp add: same_conn_def)
  show ?thesis
    using run at upd enqueue_snd_at [OF at] tcb_at_get [OF at]
    by (auto simp: ng_tcp_send_ackpkt_def Option.bind_eq_Some_conv same_conn_refl split: if_splits)
qed

lemma advance_at:
  assumes "tcb_at t as s bs"
  shows "tcb_at (tcb_update (ts_ptr s) (tcp_advance n h) t) as (tcp_advance n h s) bs"
    and "same_conn s (tcp_advance n h s)" "ts_status (tcp_advance n h s) = ts_status s"
  using tcb_at_update [OF assms, of "tcp_advance n h"] by (simp_all add: tcp_advance_def same_conn_def)

text \<open>Delivery, notification, advance and acknowledgement, as both blocks of the established
  state run them.\<close>

lemma deliver_frame:
  assumes at: "tcb_at t as s bs"
    and r: "ng_tcp_enqueue_recvbuffer R env k (ts_ptr s) h m tcplen t = Some (c1, t1)"
      "tcp_epoll_event fd t1 = Some t2"
      "ng_tcp_send_ackpkt R env k' (ts_ptr s) h (tcb_update (ts_ptr s) (tcp_advance n h) t2) = Some (c3, t')"
  shows "\<exists>s'. tcb_at t' as s' bs \<and> same_conn s s' \<and> ts_status s' = ts_status s"
proof -
  obtain s1 where s1: "tcb_at t1 as s1 bs" "same_conn s s1" "ts_status s1 = ts_status s"
    using enqueue_recvbuffer_frame [OF at r(1)] by blast
  have p1: "ts_ptr s1 = ts_ptr s" using s1(2) by (simp add: same_conn_def)
  have "tcb_at t2 as s1 bs" using s1(1) tcb_at_cong [OF tcp_epoll_event_tcbs [OF r(2)]] by blast
  note s2 = advance_at [OF this, of n h, unfolded p1]
  have p2: "ts_ptr (tcp_advance n h s1) = ts_ptr s" using s2(2) p1 by (simp add: same_conn_def)
  show ?thesis
    using send_ackpkt_frame [OF s2(1), of R env k' h c3 t'] r(3) p2 s1(2,3) s2(2,3) same_conn_trans by metis
qed

lemma established_psh_frame:
  assumes at: "tcb_at t as s bs" and run: "established_psh R env (ts_ptr s) h m tcplen t = Some t'"
  shows "\<exists>s'. tcb_at t' as s' bs \<and> same_conn s s' \<and> ts_status s' = ts_status s"
  using run deliver_frame [OF at]
  by (clarsimp simp: established_psh_def Let_def Option.bind_eq_Some_conv)

lemma established_fin_frame:
  assumes at: "tcb_at t as s bs" and run: "established_fin R env (ts_ptr s) h m t = Some t'"
  shows "\<exists>s'. tcb_at t' as s' bs \<and> same_conn s s' \<and> ts_status s' = NG_TCP_STATUS_CLOSE_WAIT"
proof -
  let ?s = "s\<lparr>ts_status := NG_TCP_STATUS_CLOSE_WAIT\<rparr>"
  have "tcb_at (tcb_update (ts_ptr s) (\<lambda>s. s\<lparr>ts_status := NG_TCP_STATUS_CLOSE_WAIT\<rparr>) t) as ?s bs"
    using tcb_at_update [OF at, of "\<lambda>s. s\<lparr>ts_status := NG_TCP_STATUS_CLOSE_WAIT\<rparr>"] by simp
  note d = deliver_frame [OF this]
  have "\<exists>s'. tcb_at t' as s' bs \<and> same_conn ?s s' \<and> ts_status s' = ts_status ?s"
    using run d by (clarsimp simp: established_fin_def Let_def Option.bind_eq_Some_conv)
  then show ?thesis by (auto simp: same_conn_def)
qed

section \<open>The state machine\<close>

text \<open>The transitions packets cause in an existing control block.\<close>

inductive tcp_trans :: "NG_TCP_STATUS \<Rightarrow> NG_TCP_STATUS \<Rightarrow> bool" where
  handshake: "tcp_trans NG_TCP_STATUS_SYN_RCVD NG_TCP_STATUS_ESTABLISHED"
| data: "tcp_trans NG_TCP_STATUS_ESTABLISHED NG_TCP_STATUS_ESTABLISHED"
| peer_closes: "tcp_trans NG_TCP_STATUS_ESTABLISHED NG_TCP_STATUS_CLOSE_WAIT"

inductive_simps tcp_trans_iff: "tcp_trans a b"

lemma handle_established_frame:
  assumes at: "tcb_at t as s bs" and st: "ts_status s = NG_TCP_STATUS_ESTABLISHED"
    and run: "ng_tcp_handle_established R env s h m tcplen t = Some (c, t')"
  shows "\<exists>s'. tcb_at t' as s' bs \<and> same_conn s s' \<and> tcp_trans (ts_status s) (ts_status s')"
proof -
  obtain t1 where r:
      "(if tcp_flag h RTE_TCP_PSH_FLAG then established_psh R env (ts_ptr s) h m tcplen t else Some t) = Some t1"
      "(if tcp_flag h RTE_TCP_FIN_FLAG then established_fin R env (ts_ptr s) h m t1 else Some t1) = Some t'"
    using run by (auto simp: ng_tcp_handle_established_def Option.bind_eq_Some_conv)
  have "\<exists>s1. tcb_at t1 as s1 bs \<and> same_conn s s1 \<and> ts_status s1 = ts_status s"
    using r(1) established_psh_frame [OF at, of R env h m tcplen t1] at same_conn_refl [of s]
    by (cases "tcp_flag h RTE_TCP_PSH_FLAG") auto
  then obtain s1 where s1: "tcb_at t1 as s1 bs" "same_conn s s1" "ts_status s1 = ts_status s" by blast
  have p: "ts_ptr s1 = ts_ptr s" using s1(2) by (simp add: same_conn_def)
  show ?thesis
  proof (cases "tcp_flag h RTE_TCP_FIN_FLAG")
    case True
    then obtain s2 where s2: "tcb_at t' as s2 bs" "same_conn s1 s2" "ts_status s2 = NG_TCP_STATUS_CLOSE_WAIT"
      using established_fin_frame [OF s1(1), of R env h m t'] r(2) p by auto
    then show ?thesis
      using st same_conn_trans [OF s1(2) s2(2)] tcp_trans.peer_closes by auto
  next
    case False
    then show ?thesis using s1 r(2) st tcp_trans.data by auto
  qed
qed

lemma handle_syn_rcvd_frame:
  assumes at: "tcb_at t as s bs" and st: "ts_status s = NG_TCP_STATUS_SYN_RCVD"
    and run: "ng_tcp_handle_syn_rcvd s h t = Some (c, t')"
  shows "tcb_set t' = tcb_set t \<or>
    (\<exists>s'. tcb_at t' as s' bs \<and> same_conn s s' \<and> tcp_trans (ts_status s) (ts_status s'))"
proof (cases "tcp_flag h RTE_TCP_ACK_FLAG")
  case True
  let ?s = "s\<lparr>ts_status := NG_TCP_STATUS_ESTABLISHED\<rparr>"
  let ?t = "tcb_update (ts_ptr s) (\<lambda>s. s\<lparr>ts_status := NG_TCP_STATUS_ESTABLISHED\<rparr>) t"
  have "tcb_at ?t as ?s bs"
    using tcb_at_update [OF at, of "\<lambda>s. s\<lparr>ts_status := NG_TCP_STATUS_ESTABLISHED\<rparr>"] by simp
  moreover have "tcb_set t' = tcb_set ?t"
    using run st True
    by (auto simp: ng_tcp_handle_syn_rcvd_def Let_def Option.bind_eq_Some_conv dest: tcp_epoll_event_tcbs)
  ultimately have "tcb_at t' as ?s bs" using tcb_at_cong by blast
  then show ?thesis using st tcp_trans.handshake by (auto simp: same_conn_def)
next
  case False
  then show ?thesis using run by (simp add: ng_tcp_handle_syn_rcvd_def)
qed

lemma handle_listen_frame:
  assumes run: "ng_tcp_handle_listen R env s h ip t = Some (c, t')"
    and fresh: "\<And>raw. te_stream env = Some raw \<Longrightarrow> ts_ptr raw \<notin> ts_ptr ` set (tcb_set t)"
  shows "tcb_set t' = tcb_set t \<or>
    (\<exists>syn. tcb_set t' = syn # tcb_set t \<and> ts_fd syn = - 1 \<and> ts_sip syn = ip_src ip \<and>
       ts_dip syn = ip_dst ip \<and> ts_sport syn = th_sport h \<and> ts_dport syn = th_dport h \<and>
       ts_status syn = (if te_alloc env 0 then NG_TCP_STATUS_SYN_RCVD else NG_TCP_STATUS_LISTEN) \<and>
       (\<exists>raw. te_stream env = Some raw \<and> ts_ptr syn = ts_ptr raw))"
proof (cases "tcp_flag h RTE_TCP_SYN_FLAG \<and> ts_status s = NG_TCP_STATUS_LISTEN")
  case True
  then obtain syn where syn: "ng_tcp_stream_create env (ip_src ip) (ip_dst ip) (th_sport h) (th_dport h) = Some syn"
    using run by (auto simp: ng_tcp_handle_listen_def Option.bind_eq_Some_conv)
  then obtain raw where raw: "te_stream env = Some raw" "ts_ptr syn = ts_ptr raw"
      "ts_fd syn = - 1" "ts_sip syn = ip_src ip" "ts_dip syn = ip_dst ip" "ts_sport syn = th_sport h"
      "ts_dport syn = th_dport h" "ts_status syn = NG_TCP_STATUS_LISTEN"
    by (auto simp: ng_tcp_stream_create_def)
  let ?t1 = "t\<lparr>tcb_set := syn # tcb_set t\<rparr>"
  have at: "tcb_at ?t1 [] syn (tcb_set t)" using fresh raw(1,2) by (simp add: tcb_at_def)
  show ?thesis
  proof (cases "te_alloc env 0")
    case False
    then have "t' = ?t1" using run True syn by (simp add: ng_tcp_handle_listen_def Let_def)
    then show ?thesis using raw False by auto
  next
    case alloc: True
    define ack where "ack = htonl (th_seq h) + 1"
    let ?s2 = "syn\<lparr>ts_rcv_nxt := ack\<rparr>"
    let ?t2 = "tcb_update (ts_ptr syn) (\<lambda>s. s\<lparr>ts_rcv_nxt := ack\<rparr>) ?t1"
    have at2: "tcb_at ?t2 [] ?s2 (tcb_set t)"
      using tcb_at_update [OF at, of "\<lambda>s. s\<lparr>ts_rcv_nxt := ack\<rparr>"] by simp
    obtain f t3 where r: "enqueue_snd R (ts_ptr syn) f ?t2 = Some t3"
        "t' = tcb_update (ts_ptr syn) (\<lambda>s. s\<lparr>ts_status := NG_TCP_STATUS_SYN_RCVD\<rparr>) t3"
      using run True syn alloc
      by (auto simp: ng_tcp_handle_listen_def Let_def Option.bind_eq_Some_conv ack_def)
    obtain r0 where r0: "t3 = tcb_update (ts_ptr syn) (\<lambda>s. s\<lparr>ts_sndbuf := Some (ring_push R f r0)\<rparr>) ?t2"
      using enqueue_snd_at [OF at2, of R f] r(1) by (cases "ts_sndbuf syn") auto
    have at3: "tcb_at t3 [] (?s2\<lparr>ts_sndbuf := Some (ring_push R f r0)\<rparr>) (tcb_set t)"
      using tcb_at_update [OF at2, of "\<lambda>s. s\<lparr>ts_sndbuf := Some (ring_push R f r0)\<rparr>"] r0 by simp
    have "tcb_at t' [] (?s2\<lparr>ts_sndbuf := Some (ring_push R f r0), ts_status := NG_TCP_STATUS_SYN_RCVD\<rparr>) (tcb_set t)"
      using tcb_at_update [OF at3, of "\<lambda>s. s\<lparr>ts_status := NG_TCP_STATUS_SYN_RCVD\<rparr>"] r(2) by simp
    then show ?thesis using raw alloc by (auto simp: tcb_at_def)
  qed
next
  case False
  then show ?thesis using run by (auto simp: ng_tcp_handle_listen_def)
qed

text \<open>What one received packet can do to the table.\<close>

definition tcp_table_step ::
  "'r tcp_env \<Rightarrow> 'r ng_tcp_stream list \<Rightarrow> 'r ng_tcp_stream list \<Rightarrow> bool" where
  "tcp_table_step env ss ss' \<longleftrightarrow>
     ss' = ss \<or>
     (\<exists>syn. ss' = syn # ss \<and> ts_fd syn = - 1 \<and> (\<exists>raw. te_stream env = Some raw \<and> ts_ptr syn = ts_ptr raw) \<and>
        ts_status syn = (if te_alloc env 0 then NG_TCP_STATUS_SYN_RCVD else NG_TCP_STATUS_LISTEN) \<and>
        (\<exists>l\<in>set ss. ts_status l = NG_TCP_STATUS_LISTEN \<and> ts_dport syn = ts_dport l)) \<or>
     (\<exists>as s s' bs. ss = as @ s # bs \<and> ss' = as @ s' # bs \<and> same_conn s s' \<and>
        tcp_trans (ts_status s) (ts_status s')) \<or>
     (\<exists>as s bs. ss = as @ s # bs \<and> ss' = as @ bs \<and> ts_status s = NG_TCP_STATUS_LAST_ACK)"

lemma filter_other_ptrs:
  "ts_ptr s \<notin> ts_ptr ` set xs \<Longrightarrow> filter (\<lambda>s'. ts_ptr s' \<noteq> ts_ptr s) xs = xs"
  by (auto simp: filter_id_conv) (metis image_eqI)

lemma search_dport:
  "ng_tcp_stream_search sip dip sport dport t = Some s \<Longrightarrow> ts_dport s = dport"
  by (auto simp: ng_tcp_stream_search_def find_Some_iff split: option.splits)

lemma process_step:
  assumes wf: "tcb_wf t" and run: "ng_tcp_process uck R env m t = Some (c, t')"
    and fresh: "\<And>raw. te_stream env = Some raw \<Longrightarrow> ts_ptr raw \<notin> ts_ptr ` set (tcb_set t)"
  shows "tcp_table_step env (tcb_set t) (tcb_set t') \<and> tcb_wf t'"
proof -
  have "tcp_table_step env (tcb_set t) (tcb_set t')"
  proof (cases "tcb_set t' = tcb_set t")
    case True
    then show ?thesis by (simp add: tcp_table_step_def)
  next
    case changed: False
    obtain ip h s c' where r: "ng_tcp_stream_search (ip_src ip) (ip_dst ip) (th_sport h) (th_dport h) t = Some s"
        "(case ts_status s of
            NG_TCP_STATUS_LISTEN \<Rightarrow> ng_tcp_handle_listen R env s h ip t
          | NG_TCP_STATUS_SYN_RCVD \<Rightarrow> ng_tcp_handle_syn_rcvd s h t
          | NG_TCP_STATUS_ESTABLISHED \<Rightarrow> ng_tcp_handle_established R env s h (put 50 [0, 0] m)
              (int (unat (htons (ip_total_length ip))) - 20) t
          | NG_TCP_STATUS_CLOSE_WAIT \<Rightarrow> ng_tcp_handle_close_wait s h t
          | NG_TCP_STATUS_LAST_ACK \<Rightarrow> ng_tcp_handle_last_ack s h t
          | _ \<Rightarrow> Some (0, t)) = Some (c', t')"
      using run changed
      by (auto simp: ng_tcp_process_def Let_def Option.bind_eq_Some_conv split: if_splits option.splits)
    obtain as bs where at: "tcb_at t as s bs" using tcb_wf_at [OF wf search_in [OF r(1)]] by blast
    have ss: "tcb_set t = as @ s # bs" using at by (simp add: tcb_at_def)
    have moved: ?thesis if "\<exists>s'. tcb_at t' as s' bs \<and> same_conn s s' \<and> tcp_trans (ts_status s) (ts_status s')"
      using that ss unfolding tcp_table_step_def tcb_at_def by blast
    show ?thesis
    proof (cases "ts_status s")
      case NG_TCP_STATUS_LISTEN
      then obtain syn raw where syn: "tcb_set t' = syn # tcb_set t" "ts_fd syn = - 1"
          "ts_dport syn = th_dport h" "te_stream env = Some raw" "ts_ptr syn = ts_ptr raw"
          "ts_status syn = (if te_alloc env 0 then NG_TCP_STATUS_SYN_RCVD else NG_TCP_STATUS_LISTEN)"
        using handle_listen_frame [of R env s h ip t c' t'] r(2) fresh changed by auto
      have "\<exists>l\<in>set (tcb_set t). ts_status l = NG_TCP_STATUS_LISTEN \<and> ts_dport syn = ts_dport l"
        using search_in [OF r(1)] search_dport [OF r(1)] syn(3) NG_TCP_STATUS_LISTEN
        by (intro bexI [of _ s]) auto
      then show ?thesis using syn unfolding tcp_table_step_def by blast
    next
      case NG_TCP_STATUS_SYN_RCVD
      then show ?thesis using handle_syn_rcvd_frame [OF at, of h c' t'] r(2) changed moved by auto
    next
      case NG_TCP_STATUS_ESTABLISHED
      then show ?thesis using handle_established_frame [OF at] r(2) moved by auto
    next
      case NG_TCP_STATUS_LAST_ACK
      have fl: "filter (\<lambda>s'. ts_ptr s' \<noteq> ts_ptr s) (tcb_set t) = as @ bs"
        using at filter_other_ptrs [of s as] filter_other_ptrs [of s bs]
        by (simp add: tcb_at_def image_Un)
      have "tcb_set t' = as @ bs"
        using r(2) NG_TCP_STATUS_LAST_ACK changed fl
        by (auto simp: ng_tcp_handle_last_ack_def split: if_splits)
      then show ?thesis using ss NG_TCP_STATUS_LAST_ACK unfolding tcp_table_step_def by blast
    qed (use r(2) changed in \<open>auto simp: ng_tcp_handle_close_wait_def\<close>)
  qed
  moreover have "distinct (map ts_ptr ss')"
    if "tcp_table_step env ss ss'" "distinct (map ts_ptr ss)"
      "\<And>raw. te_stream env = Some raw \<Longrightarrow> ts_ptr raw \<notin> ts_ptr ` set ss" for ss ss'
    using that unfolding tcp_table_step_def by (auto simp: same_conn_def)
  ultimately show ?thesis using wf fresh unfolding tcb_wf_def by blast
qed

text \<open>C2: a received packet changes at most one connection: it is dropped without effect, or adds
  one half-open control block for a listening port, or moves the one control block it
  belongs to along the server-side state machine (SYN_RCVD to ESTABLISHED, ESTABLISHED to
  itself or to CLOSE_WAIT) with its addresses, ports and descriptor unchanged, or removes
  one that was in LAST_ACK. All other control blocks are untouched.\<close>

theorem ng_tcp_process_state_machine:
  assumes wf: "tcb_wf t" and run: "ng_tcp_process uck R env m t = Some (c, t')"
    and fresh: "\<And>raw. te_stream env = Some raw \<Longrightarrow> ts_ptr raw \<notin> ts_ptr ` set (tcb_set t)"
  shows "tcp_table_step env (tcb_set t) (tcb_set t') \<and> tcb_wf t'"
  by (rule process_step [OF assms])

section \<open>Delivery\<close>

definition ack_frag :: "tcp_hdr \<Rightarrow> u32 \<Rightarrow> u32 \<Rightarrow> ng_tcp_fragment" where
  "ack_frag h seq ack =
     frag_zero\<lparr>tf_dport := th_sport h, tf_sport := th_dport h, tf_acknum := ack, tf_seqnum := seq,
       tf_tcp_flags := RTE_TCP_ACK_FLAG, tf_windows := TCP_INITIAL_WINDOW, tf_hdrlen_off := 0x50\<rparr>"

lemma send_ackpkt_correct:
  assumes at: "tcb_at t as s bs" and alloc: "te_alloc env k" and snd: "ts_sndbuf s = Some rs"
  shows "\<exists>t'. ng_tcp_send_ackpkt R env k (ts_ptr s) h t = Some (0, t') \<and> tcp_ep t' = tcp_ep t \<and>
     tcb_at t' as (s\<lparr>ts_sndbuf := Some (ring_push R (ack_frag h (ts_snd_nxt s) (ts_rcv_nxt s)) rs)\<rparr>) bs"
proof -
  let ?f = "ack_frag h (ts_snd_nxt s) (ts_rcv_nxt s)"
  let ?t = "tcb_update (ts_ptr s) (\<lambda>s. s\<lparr>ts_sndbuf := Some (ring_push R ?f rs)\<rparr>) t"
  have f: "frag_zero\<lparr>tf_dport := th_sport h, tf_sport := th_dport h, tf_acknum := ts_rcv_nxt s,
      tf_seqnum := ts_snd_nxt s, tf_tcp_flags := RTE_TCP_ACK_FLAG, tf_windows := TCP_INITIAL_WINDOW,
      tf_hdrlen_off := 0x50, tf_data := None, tf_length := 0\<rparr> = ?f"
    by (simp add: ack_frag_def frag_zero_def)
  have "tcb_at ?t as (s\<lparr>ts_sndbuf := Some (ring_push R ?f rs)\<rparr>) bs"
    using tcb_at_update [OF at, of "\<lambda>s. s\<lparr>ts_sndbuf := Some (ring_push R ?f rs)\<rparr>"] by simp
  moreover have "ng_tcp_send_ackpkt R env k (ts_ptr s) h t = Some (0, ?t)"
    using alloc tcb_at_get [OF at] enqueue_snd_at [OF at, of R ?f] snd
    by (simp add: ng_tcp_send_ackpkt_def f)
  ultimately show ?thesis by (intro exI [of _ ?t]) simp
qed

lemma enqueue_recvbuffer_correct:
  assumes at: "tcb_at t as s bs" and alloc: "te_alloc env k" "te_alloc env (k + 1)" and rcv: "ts_rcvbuf s = Some rr"
    and n: "n = seg_payloadlen h tcplen"
    and pl: "0 < n \<Longrightarrow> rd (34 + seg_hdrlen h * 4) (nat n) m = Some pl"
    and f: "f = (let f = frag_zero\<lparr>tf_dport := htons (th_dport h), tf_sport := htons (th_sport h)\<rparr> in
                 if 0 < n then f\<lparr>tf_data := Some (pl @ [0]), tf_length := of_int n\<rparr> else f)"
  shows "\<exists>t'. ng_tcp_enqueue_recvbuffer R env k (ts_ptr s) h m tcplen t = Some (0, t') \<and> tcp_ep t' = tcp_ep t \<and>
     tcb_at t' as (s\<lparr>ts_rcvbuf := Some (ring_push R f rr)\<rparr>) bs"
proof -
  let ?t = "tcb_update (ts_ptr s) (\<lambda>s. s\<lparr>ts_rcvbuf := Some (ring_push R f rr)\<rparr>) t"
  have "tcb_at ?t as (s\<lparr>ts_rcvbuf := Some (ring_push R f rr)\<rparr>) bs"
    using tcb_at_update [OF at, of "\<lambda>s. s\<lparr>ts_rcvbuf := Some (ring_push R f rr)\<rparr>"] by simp
  moreover have "ng_tcp_enqueue_recvbuffer R env k (ts_ptr s) h m tcplen t = Some (0, ?t)"
    using alloc pl enqueue_rcv_at [OF at, of R f] rcv f n
    by (cases "0 < n") (simp_all add: ng_tcp_enqueue_recvbuffer_def Let_def)
  ultimately show ?thesis by (intro exI [of _ ?t]) simp
qed

definition rcv_frag :: "tcp_hdr \<Rightarrow> bytes \<Rightarrow> ng_tcp_fragment" where
  "rcv_frag h pl =
     (let f = frag_zero\<lparr>tf_dport := htons (th_dport h), tf_sport := htons (th_sport h)\<rparr> in
      if pl = [] then f else f\<lparr>tf_data := Some (pl @ [0]), tf_length := of_nat (length pl)\<rparr>)"

text \<open>The control block after a delivery: the payload in the receive ring, the sequence numbers
  moved, an acknowledgement in the send ring.\<close>

definition delivered ::
  "('r, ng_tcp_fragment) rte_ring \<Rightarrow> tcp_hdr \<Rightarrow> bytes \<Rightarrow> int \<Rightarrow> 'r ng_tcp_stream \<Rightarrow> 'r ng_tcp_stream" where
  "delivered R h pl n s =
     s\<lparr>ts_rcvbuf := map_option (ring_push R (rcv_frag h pl)) (ts_rcvbuf s),
       ts_rcv_nxt := ts_rcv_nxt s + of_int n, ts_snd_nxt := htonl (th_ack h),
       ts_sndbuf := map_option
         (ring_push R (ack_frag h (htonl (th_ack h)) (ts_rcv_nxt s + of_int n))) (ts_sndbuf s)\<rparr>"

lemma deliver_correct:
  assumes at: "tcb_at t as s bs" and alloc: "\<And>k. te_alloc env k"
    and rings: "ts_rcvbuf s = Some rr" "ts_sndbuf s = Some rs"
    and ep: "tcp_ep_abs t I E"
    and pl: "0 < seg_payloadlen h tcplen \<Longrightarrow>
        rd (34 + seg_hdrlen h * 4) (nat (seg_payloadlen h tcplen)) m = Some pl"
    and npl: "\<not> 0 < seg_payloadlen h tcplen \<Longrightarrow> pl = []"
  shows "\<exists>t1 s1 t2 t3. ng_tcp_enqueue_recvbuffer R env k (ts_ptr s) h m tcplen t = Some (0, t1) \<and>
     tcb_get (ts_ptr s) t1 = Some s1 \<and> tcp_epoll_event (ts_fd s1) t1 = Some t2 \<and>
     ng_tcp_send_ackpkt R env k' (ts_ptr s) h (tcb_update (ts_ptr s) (tcp_advance n h) t2) = Some (0, t3) \<and>
     tcb_at t3 as (delivered R h pl n s) bs \<and>
     tcp_ep_abs t3 (notify_I (ts_fd s) I E) (notify_R (ts_fd s) I E)"
proof -
  let ?f = "rcv_frag h pl"
  let ?n = "seg_payloadlen h tcplen"
  have len: "length pl = nat ?n" if "0 < ?n" using pl [OF that] by (auto simp: rd_def split: if_splits)
  then have "of_nat (length pl) = (of_int ?n :: u32)" if "0 < ?n" using that by simp
  moreover have "pl \<noteq> []" if "0 < ?n" using len [OF that] that by auto
  ultimately have f: "?f = (let f = frag_zero\<lparr>tf_dport := htons (th_dport h), tf_sport := htons (th_sport h)\<rparr> in
      if 0 < ?n then f\<lparr>tf_data := Some (pl @ [0]), tf_length := of_int ?n\<rparr> else f)"
    using npl by (auto simp: rcv_frag_def Let_def)
  let ?s1 = "s\<lparr>ts_rcvbuf := Some (ring_push R ?f rr)\<rparr>"
  obtain t1 where t1: "ng_tcp_enqueue_recvbuffer R env k (ts_ptr s) h m tcplen t = Some (0, t1)"
      "tcp_ep t1 = tcp_ep t" "tcb_at t1 as ?s1 bs"
    using enqueue_recvbuffer_correct [OF at alloc alloc rings(1) refl pl f, of R] by blast
  have "tcp_ep_abs t1 I E" using ep t1(2) by (simp add: tcp_ep_abs_def)
  then obtain t2 where t2: "tcp_epoll_event (ts_fd s) t1 = Some t2" "tcb_set t2 = tcb_set t1"
      "tcp_ep_abs t2 (notify_I (ts_fd s) I E) (notify_R (ts_fd s) I E)"
    using tcp_epoll_event_correct by blast
  have at2: "tcb_at t2 as ?s1 bs" using t1(3) tcb_at_cong [OF t2(2)] by blast
  let ?s2 = "tcp_advance n h ?s1"
  let ?t = "tcb_update (ts_ptr s) (tcp_advance n h) t2"
  have at3: "tcb_at ?t as ?s2 bs" using advance_at(1) [OF at2, of n h] by simp
  have p2: "ts_ptr ?s2 = ts_ptr s" "ts_sndbuf ?s2 = Some rs" using rings(2) by (simp_all add: tcp_advance_def)
  obtain t3 where t3: "ng_tcp_send_ackpkt R env k' (ts_ptr s) h ?t = Some (0, t3)" "tcp_ep t3 = tcp_ep t2"
      "tcb_at t3 as (delivered R h pl n s) bs"
    using send_ackpkt_correct [OF at3 alloc [of k'] p2(2), of R h] p2(1) rings
    by (auto simp: delivered_def tcp_advance_def)
  have "tcp_ep_abs t3 (notify_I (ts_fd s) I E) (notify_R (ts_fd s) I E)"
    using t2(3) t3(2) by (simp add: tcp_ep_abs_def)
  moreover have "tcb_get (ts_ptr s) t1 = Some ?s1" using tcb_at_get [OF t1(3)] by simp
  ultimately show ?thesis using t1(1) t2(1) t3(1,3) by fastforce
qed

text \<open>A packet that passes the checksum test and belongs to the control block \<open>s\<close>.\<close>

definition tcp_segment ::
  "(bytes \<Rightarrow> u16) \<Rightarrow> bytes \<Rightarrow> ip_hdr \<Rightarrow> tcp_hdr \<Rightarrow> 'r ng_tcp_table \<Rightarrow> 'r ng_tcp_stream \<Rightarrow> bool" where
  "tcp_segment uck m ip h t s \<longleftrightarrow>
     parse_ip m = Some ip \<and> parse_tcp m = Some h \<and> uck (drop 14 (put 50 [0, 0] m)) = th_cksum h \<and>
     ng_tcp_stream_search (ip_src ip) (ip_dst ip) (th_sport h) (th_dport h) t = Some s"

lemma data_delivered:
  assumes at: "tcb_at t as s bs" and seg: "tcp_segment uck m ip h t s"
    and st: "ts_status s = NG_TCP_STATUS_ESTABLISHED"
    and flags: "tcp_flag h RTE_TCP_PSH_FLAG" "\<not> tcp_flag h RTE_TCP_FIN_FLAG"
    and alloc: "\<And>k. te_alloc env k" and ep: "tcp_ep_abs t I E"
    and n: "n = int (unat (htons (ip_total_length ip))) - 20 - int (seg_hdrlen h * 4)" "0 < n"
    and pl: "rd (34 + seg_hdrlen h * 4) (nat n) (put 50 [0, 0] m) = Some pl"
    and rings: "ring_fifo R cap view" "ts_rcvbuf s = Some rr" "ts_sndbuf s = Some rs"
      "length (view rr) < cap" "length (view rs) < cap"
  shows "\<exists>t' s' rr' rs'. ng_tcp_process uck R env m t = Some (0, t') \<and> tcb_at t' as s' bs \<and>
    same_conn s s' \<and> ts_status s' = NG_TCP_STATUS_ESTABLISHED \<and>
    ts_rcv_nxt s' = ts_rcv_nxt s + of_nat (length pl) \<and> ts_snd_nxt s' = htonl (th_ack h) \<and>
    ts_rcvbuf s' = Some rr' \<and> view rr' = view rr @ [rcv_frag h pl] \<and>
    ts_sndbuf s' = Some rs' \<and> view rs' = view rs @ [ack_frag h (ts_snd_nxt s') (ts_rcv_nxt s')] \<and>
    tcp_ep_abs t' (notify_I (ts_fd s) I E) (notify_R (ts_fd s) I E)"
proof -
  let ?tl = "int (unat (htons (ip_total_length ip))) - 20"
  let ?m = "put 50 [0, 0] m"
  have pn: "seg_payloadlen h ?tl = n" using n(1) by (simp add: seg_payloadlen_def)
  have len: "int (length pl) = n" using pl n(2) by (auto simp: rd_def split: if_splits)
  obtain t1 s1 t2 t3 where d: "ng_tcp_enqueue_recvbuffer R env 0 (ts_ptr s) h ?m ?tl t = Some (0, t1)"
      "tcb_get (ts_ptr s) t1 = Some s1" "tcp_epoll_event (ts_fd s1) t1 = Some t2"
      "ng_tcp_send_ackpkt R env 2 (ts_ptr s) h (tcb_update (ts_ptr s) (tcp_advance n h) t2) = Some (0, t3)"
      "tcb_at t3 as (delivered R h pl n s) bs"
      "tcp_ep_abs t3 (notify_I (ts_fd s) I E) (notify_R (ts_fd s) I E)"
    using deliver_correct [OF at alloc rings(2,3) ep, where tcplen = ?tl and pl = pl and m = ?m
        and h = h and n = n and k = 0 and k' = 2 and R = R] pl pn n(2) by blast
  have run: "ng_tcp_process uck R env m t = Some (0, t3)"
    using seg st flags d(1-4) pn
    by (simp add: ng_tcp_process_def tcp_segment_def Let_def ng_tcp_handle_established_def established_psh_def)
  have "ts_rcvbuf (delivered R h pl n s) = Some (ring_push R (rcv_frag h pl) rr)"
    "ts_sndbuf (delivered R h pl n s) =
       Some (ring_push R (ack_frag h (htonl (th_ack h)) (ts_rcv_nxt s + of_int n)) rs)"
    using rings(2,3) by (simp_all add: delivered_def)
  moreover have "(of_int n :: u32) = of_nat (length pl)" using len by (metis of_int_of_nat_eq)
  ultimately show ?thesis
    using run d(5,6) st ring_push_view [OF rings(1,4)] ring_push_view [OF rings(1,5)]
    by (intro exI [of _ t3] exI [of _ "delivered R h pl n s"] exI conjI)
      (auto simp: delivered_def same_conn_def)
qed

text \<open>C3: a data segment (\<open>PSH\<close> without \<open>FIN\<close>) for an established connection is delivered whole:
  its payload is appended to the receive ring, \<open>rcv_nxt\<close> moves by the payload length,
  \<open>snd_nxt\<close> becomes the acknowledged number, an acknowledgement of the new \<open>rcv_nxt\<close> is
  appended to the send ring, and the descriptor is reported to the epoll object.\<close>

theorem tcp_data_delivered:
  assumes at: "tcb_at t as s bs" and seg: "tcp_segment uck m ip h t s"
    and st: "ts_status s = NG_TCP_STATUS_ESTABLISHED"
    and flags: "tcp_flag h RTE_TCP_PSH_FLAG" "\<not> tcp_flag h RTE_TCP_FIN_FLAG"
    and alloc: "\<And>k. te_alloc env k" and ep: "tcp_ep_abs t I E"
    and n: "n = int (unat (htons (ip_total_length ip))) - 20 - int (seg_hdrlen h * 4)" "0 < n"
    and pl: "rd (34 + seg_hdrlen h * 4) (nat n) (put 50 [0, 0] m) = Some pl"
    and rings: "ring_fifo R cap view" "ts_rcvbuf s = Some rr" "ts_sndbuf s = Some rs"
      "length (view rr) < cap" "length (view rs) < cap"
  shows "\<exists>t' s' rr' rs'. ng_tcp_process uck R env m t = Some (0, t') \<and> tcb_at t' as s' bs \<and>
    same_conn s s' \<and> ts_status s' = NG_TCP_STATUS_ESTABLISHED \<and>
    ts_rcv_nxt s' = ts_rcv_nxt s + of_nat (length pl) \<and> ts_snd_nxt s' = htonl (th_ack h) \<and>
    ts_rcvbuf s' = Some rr' \<and> view rr' = view rr @ [rcv_frag h pl] \<and>
    ts_sndbuf s' = Some rs' \<and> view rs' = view rs @ [ack_frag h (ts_snd_nxt s') (ts_rcv_nxt s')] \<and>
    tcp_ep_abs t' (notify_I (ts_fd s) I E) (notify_R (ts_fd s) I E)"
  by (rule data_delivered [OF assms])

lemma search_after_update:
  assumes at: "tcb_at t as s bs" and found: "ng_tcp_stream_search sip dip sport dport t = Some s"
    and at': "tcb_at t' as s' bs" and same: "same_conn s s'" "ts_status s' = ts_status s"
  shows "ng_tcp_stream_search sip dip sport dport t' = Some s'"
proof -
  let ?P = "\<lambda>s. ts_sip s = sip \<and> ts_dip s = dip \<and> ts_sport s = sport \<and> ts_dport s = dport"
  let ?L = "\<lambda>s. ts_dport s = dport \<and> ts_status s = NG_TCP_STATUS_LISTEN"
  have eq: "tcb_set t = as @ s # bs" "tcb_set t' = as @ s' # bs"
    using at at' by (simp_all add: tcb_at_def)
  have other: "find Q as \<noteq> Some s" "find Q bs \<noteq> Some s" for Q
    using at by (auto simp: tcb_at_def find_Some_iff)
  have PP: "?P s' \<longleftrightarrow> ?P s" "?L s' \<longleftrightarrow> ?L s" using same by (auto simp: same_conn_def)
  show ?thesis
    using found other [of ?P] other [of ?L] PP
    by (auto simp: ng_tcp_stream_search_def eq find_append split: option.splits if_splits)
qed

text \<open>the receive path does not look at the sequence number. The same data segment received
  twice is delivered twice, and \<open>rcv_nxt\<close> moves by twice the payload length, past data the
  peer has not sent.\<close>

theorem tcp_duplicate_delivered_twice:
  assumes at: "tcb_at t as s bs" and seg: "tcp_segment uck m ip h t s"
    and st: "ts_status s = NG_TCP_STATUS_ESTABLISHED"
    and flags: "tcp_flag h RTE_TCP_PSH_FLAG" "\<not> tcp_flag h RTE_TCP_FIN_FLAG"
    and alloc: "\<And>k. te_alloc env k" and ep: "tcp_ep_abs t I E"
    and n: "n = int (unat (htons (ip_total_length ip))) - 20 - int (seg_hdrlen h * 4)" "0 < n"
    and pl: "rd (34 + seg_hdrlen h * 4) (nat n) (put 50 [0, 0] m) = Some pl"
    and rings: "ring_fifo R cap view" "ts_rcvbuf s = Some rr" "ts_sndbuf s = Some rs"
      "length (view rr) + 1 < cap" "length (view rs) + 1 < cap"
  shows "\<exists>t1 t2 s2 rr2. ng_tcp_process uck R env m t = Some (0, t1) \<and>
    ng_tcp_process uck R env m t1 = Some (0, t2) \<and> tcb_at t2 as s2 bs \<and>
    ts_rcvbuf s2 = Some rr2 \<and> view rr2 = view rr @ [rcv_frag h pl, rcv_frag h pl] \<and>
    ts_rcv_nxt s2 = ts_rcv_nxt s + 2 * of_nat (length pl)"
proof -
  obtain t1 s1 rr1 rs1 where 1: "ng_tcp_process uck R env m t = Some (0, t1)" "tcb_at t1 as s1 bs"
      "same_conn s s1" "ts_status s1 = NG_TCP_STATUS_ESTABLISHED"
      "ts_rcv_nxt s1 = ts_rcv_nxt s + of_nat (length pl)"
      "ts_rcvbuf s1 = Some rr1" "view rr1 = view rr @ [rcv_frag h pl]"
      "ts_sndbuf s1 = Some rs1" "view rs1 = view rs @ [ack_frag h (ts_snd_nxt s1) (ts_rcv_nxt s1)]"
      "tcp_ep_abs t1 (notify_I (ts_fd s) I E) (notify_R (ts_fd s) I E)"
    using data_delivered [OF at seg st flags alloc ep n pl rings(1-3)] rings(4,5)
    by (metis add_lessD1)
  have seg1: "tcp_segment uck m ip h t1 s1"
    using seg search_after_update [OF at _ 1(2,3)] 1(4) st by (simp add: tcp_segment_def)
  have len: "length (view rr1) < cap" "length (view rs1) < cap" using 1(7,9) rings(4,5) by simp_all
  obtain t2 s2 rr2 where 2: "ng_tcp_process uck R env m t1 = Some (0, t2)" "tcb_at t2 as s2 bs"
      "ts_rcv_nxt s2 = ts_rcv_nxt s1 + of_nat (length pl)"
      "ts_rcvbuf s2 = Some rr2" "view rr2 = view rr1 @ [rcv_frag h pl]"
    using data_delivered [OF 1(2) seg1 1(4) flags alloc 1(10) n pl rings(1) 1(6,8) len] by blast
  show ?thesis using 1(1,5,7) 2 by (intro exI conjI) (auto simp: algebra_simps)
qed

text \<open>a \<open>FIN\<close> for an established connection moves it to CLOSE_WAIT, appends an empty fragment
  to the receive ring, which the reader takes for the end of the stream, moves \<open>rcv_nxt\<close> by
  one and acknowledges it.\<close>

theorem tcp_fin_closes:
  assumes at: "tcb_at t as s bs" and seg: "tcp_segment uck m ip h t s"
    and st: "ts_status s = NG_TCP_STATUS_ESTABLISHED"
    and flags: "\<not> tcp_flag h RTE_TCP_PSH_FLAG" "tcp_flag h RTE_TCP_FIN_FLAG"
    and alloc: "\<And>k. te_alloc env k" and ep: "tcp_ep_abs t I E"
    and rings: "ring_fifo R cap view" "ts_rcvbuf s = Some rr" "ts_sndbuf s = Some rs"
      "length (view rr) < cap" "length (view rs) < cap"
  shows "\<exists>t' s' rr' rs' eof. ng_tcp_process uck R env m t = Some (0, t') \<and> tcb_at t' as s' bs \<and>
    same_conn s s' \<and> ts_status s' = NG_TCP_STATUS_CLOSE_WAIT \<and>
    ts_rcv_nxt s' = ts_rcv_nxt s + 1 \<and>
    ts_rcvbuf s' = Some rr' \<and> view rr' = view rr @ [eof] \<and> tf_length eof = 0 \<and> tf_data eof = None \<and>
    ts_sndbuf s' = Some rs' \<and> view rs' = view rs @ [ack_frag h (htonl (th_ack h)) (ts_rcv_nxt s + 1)] \<and>
    tcp_ep_abs t' (notify_I (ts_fd s) I E) (notify_R (ts_fd s) I E)"
proof -
  let ?tl = "int (seg_hdrlen h)"
  let ?m = "put 50 [0, 0] m"
  let ?s = "s\<lparr>ts_status := NG_TCP_STATUS_CLOSE_WAIT\<rparr>"
  let ?t = "tcb_update (ts_ptr s) (\<lambda>s. s\<lparr>ts_status := NG_TCP_STATUS_CLOSE_WAIT\<rparr>) t"
  have at': "tcb_at ?t as ?s bs"
    using tcb_at_update [OF at, of "\<lambda>s. s\<lparr>ts_status := NG_TCP_STATUS_CLOSE_WAIT\<rparr>"] by simp
  have rings': "ts_rcvbuf ?s = Some rr" "ts_sndbuf ?s = Some rs" "tcp_ep_abs ?t I E"
    using rings(2,3) ep by (simp_all add: tcp_ep_abs_def)
  have pn: "\<not> 0 < seg_payloadlen h ?tl" by (simp add: seg_payloadlen_def)
  obtain t1 s1 t2 t3 where d: "ng_tcp_enqueue_recvbuffer R env 3 (ts_ptr s) h ?m ?tl ?t = Some (0, t1)"
      "tcb_get (ts_ptr s) t1 = Some s1" "tcp_epoll_event (ts_fd s1) t1 = Some t2"
      "ng_tcp_send_ackpkt R env 5 (ts_ptr s) h (tcb_update (ts_ptr s) (tcp_advance 1 h) t2) = Some (0, t3)"
      "tcb_at t3 as (delivered R h [] 1 ?s) bs"
      "tcp_ep_abs t3 (notify_I (ts_fd s) I E) (notify_R (ts_fd s) I E)"
    using deliver_correct [OF at' alloc rings', where tcplen = ?tl and pl = "[]" and m = ?m
        and h = h and n = 1 and k = 3 and k' = 5 and R = R] pn by auto
  have run: "ng_tcp_process uck R env m t = Some (0, t3)"
    using seg st flags d(1-4)
    by (simp add: ng_tcp_process_def tcp_segment_def Let_def ng_tcp_handle_established_def established_fin_def)
  show ?thesis
    using run d(5,6) rings(2,3) ring_push_view [OF rings(1,4)] ring_push_view [OF rings(1,5)]
    by (intro exI [of _ t3] exI [of _ "delivered R h [] 1 ?s"] exI conjI)
      (auto simp: delivered_def same_conn_def rcv_frag_def frag_zero_def)
qed

section \<open>The handshake\<close>

definition synack_frag :: "tcp_hdr \<Rightarrow> u32 \<Rightarrow> ng_tcp_fragment" where
  "synack_frag h seq =
     frag_zero\<lparr>tf_sport := th_dport h, tf_dport := th_sport h, tf_seqnum := seq,
       tf_acknum := htonl (th_seq h) + 1, tf_tcp_flags := 0x12, tf_windows := TCP_INITIAL_WINDOW,
       tf_hdrlen_off := 0x50\<rparr>"

lemma syn_opened:
  assumes wf: "tcb_wf t" and seg: "tcp_segment uck m ip h t l"
    and st: "ts_status l = NG_TCP_STATUS_LISTEN" and flags: "tcp_flag h RTE_TCP_SYN_FLAG"
    and env: "te_stream env = Some raw" "ts_ptr raw \<notin> ts_ptr ` set (tcb_set t)" "te_alloc env 0"
      "te_sndbuf env = Some rs" "te_rcvbuf env = Some rr"
    and rings: "ring_fifo R cap view" "length (view rs) < cap"
  shows "\<exists>t' syn rs'. ng_tcp_process uck R env m t = Some (0, t') \<and> tcb_set t' = syn # tcb_set t \<and>
    tcp_ep t' = tcp_ep t \<and> tcb_wf t' \<and> ts_status syn = NG_TCP_STATUS_SYN_RCVD \<and> ts_fd syn = - 1 \<and>
    ts_sip syn = ip_src ip \<and> ts_dip syn = ip_dst ip \<and> ts_sport syn = th_sport h \<and>
    ts_dport syn = th_dport h \<and> ts_rcv_nxt syn = htonl (th_seq h) + 1 \<and>
    ts_rcvbuf syn = Some rr \<and> ts_sndbuf syn = Some rs' \<and>
    view rs' = view rs @ [synack_frag h (ts_snd_nxt syn)]"
proof -
  define syn where "syn = the (ng_tcp_stream_create env (ip_src ip) (ip_dst ip) (th_sport h) (th_dport h))"
  have syn: "ng_tcp_stream_create env (ip_src ip) (ip_dst ip) (th_sport h) (th_dport h) = Some syn"
    "ts_ptr syn = ts_ptr raw" "ts_sndbuf syn = Some rs" "ts_rcvbuf syn = Some rr" "ts_fd syn = - 1"
    "ts_sip syn = ip_src ip" "ts_dip syn = ip_dst ip" "ts_sport syn = th_sport h" "ts_dport syn = th_dport h"
    using env by (simp_all add: syn_def ng_tcp_stream_create_def)
  define ack where "ack = htonl (th_seq h) + 1"
  let ?f = "synack_frag h (ts_snd_nxt syn)"
  have f: "frag_zero\<lparr>tf_sport := th_dport h, tf_dport := th_sport h,
      tf_seqnum := ts_snd_nxt syn, tf_acknum := ack,
      tf_tcp_flags := RTE_TCP_SYN_FLAG OR RTE_TCP_ACK_FLAG,
      tf_windows := TCP_INITIAL_WINDOW, tf_hdrlen_off := 0x50, tf_data := None, tf_length := 0\<rparr> = ?f"
    by (simp add: synack_frag_def frag_zero_def ack_def RTE_TCP_SYN_FLAG_def RTE_TCP_ACK_FLAG_def)
  let ?t1 = "t\<lparr>tcb_set := syn # tcb_set t\<rparr>"
  let ?p = "ts_ptr syn"
  have at1: "tcb_at ?t1 [] syn (tcb_set t)" using env(2) syn(2) by (simp add: tcb_at_def)
  let ?t2 = "tcb_update ?p (\<lambda>s. s\<lparr>ts_rcv_nxt := ack\<rparr>) ?t1"
  have at2: "tcb_at ?t2 [] (syn\<lparr>ts_rcv_nxt := ack\<rparr>) (tcb_set t)"
    using tcb_at_update [OF at1, of "\<lambda>s. s\<lparr>ts_rcv_nxt := ack\<rparr>"] by simp
  let ?t3 = "tcb_update ?p (\<lambda>s. s\<lparr>ts_sndbuf := Some (ring_push R ?f rs)\<rparr>) ?t2"
  have at3: "tcb_at ?t3 [] (syn\<lparr>ts_rcv_nxt := ack, ts_sndbuf := Some (ring_push R ?f rs)\<rparr>) (tcb_set t)"
    using tcb_at_update [OF at2, of "\<lambda>s. s\<lparr>ts_sndbuf := Some (ring_push R ?f rs)\<rparr>"] by simp
  let ?t4 = "tcb_update ?p (\<lambda>s. s\<lparr>ts_status := NG_TCP_STATUS_SYN_RCVD\<rparr>) ?t3"
  let ?s4 = "syn\<lparr>ts_rcv_nxt := ack, ts_sndbuf := Some (ring_push R ?f rs), ts_status := NG_TCP_STATUS_SYN_RCVD\<rparr>"
  have at4: "tcb_at ?t4 [] ?s4 (tcb_set t)"
    using tcb_at_update [OF at3, of "\<lambda>s. s\<lparr>ts_status := NG_TCP_STATUS_SYN_RCVD\<rparr>"] by simp
  have enq: "enqueue_snd R ?p ?f ?t2 = Some ?t3"
    using enqueue_snd_at [OF at2, of R ?f] syn(3) by simp
  have "ng_tcp_handle_listen R env l h ip t = Some (0, ?t4)"
    unfolding ng_tcp_handle_listen_def Let_def ack_def [symmetric] syn(1) Option.bind.simps f
    using flags st env(3) enq by simp
  then have "ng_tcp_process uck R env m t = Some (0, ?t4)"
    using seg st by (simp add: ng_tcp_process_def tcp_segment_def Let_def)
  moreover have "tcb_set ?t4 = ?s4 # tcb_set t" "tcp_ep ?t4 = tcp_ep t"
    using at4 by (simp_all add: tcb_at_def)
  moreover have "tcb_wf ?t4" using wf env(2) syn(2) \<open>tcb_set ?t4 = ?s4 # tcb_set t\<close> by (simp add: tcb_wf_def)
  ultimately show ?thesis
    using syn ring_push_view [OF rings]
    by (intro exI [of _ ?t4] exI [of _ ?s4] exI [of _ "ring_push R ?f rs"] conjI) (simp_all add: ack_def)
qed

text \<open>a \<open>SYN\<close> for a listening port adds exactly one control block, in SYN_RCVD, for the
  addresses and ports of the packet, and queues a \<open>SYN\<close>/\<open>ACK\<close> that acknowledges the peer's
  sequence number plus one; the listener and all other control blocks are unchanged.\<close>

theorem tcp_syn_opens:
  assumes wf: "tcb_wf t" and seg: "tcp_segment uck m ip h t l"
    and st: "ts_status l = NG_TCP_STATUS_LISTEN" and flags: "tcp_flag h RTE_TCP_SYN_FLAG"
    and env: "te_stream env = Some raw" "ts_ptr raw \<notin> ts_ptr ` set (tcb_set t)" "te_alloc env 0"
      "te_sndbuf env = Some rs" "te_rcvbuf env = Some rr"
    and rings: "ring_fifo R cap view" "length (view rs) < cap"
  shows "\<exists>t' syn rs'. ng_tcp_process uck R env m t = Some (0, t') \<and> tcb_set t' = syn # tcb_set t \<and>
    tcp_ep t' = tcp_ep t \<and> tcb_wf t' \<and> ts_status syn = NG_TCP_STATUS_SYN_RCVD \<and> ts_fd syn = - 1 \<and>
    ts_sip syn = ip_src ip \<and> ts_dip syn = ip_dst ip \<and> ts_sport syn = th_sport h \<and>
    ts_dport syn = th_dport h \<and> ts_rcv_nxt syn = htonl (th_seq h) + 1 \<and>
    ts_rcvbuf syn = Some rr \<and> ts_sndbuf syn = Some rs' \<and>
    view rs' = view rs @ [synack_frag h (ts_snd_nxt syn)]"
  by (rule syn_opened [OF assms])

text \<open>an \<open>ACK\<close> for a half-open connection, with any acknowledgement number, establishes it
  and reports the descriptor of a listener of its port to the epoll object, so that the
  connection can be accepted.\<close>

theorem tcp_ack_establishes:
  assumes at: "tcb_at t as s bs" and seg: "tcp_segment uck m ip h t s"
    and st: "ts_status s = NG_TCP_STATUS_SYN_RCVD" and flags: "tcp_flag h RTE_TCP_ACK_FLAG"
    and listener: "l \<in> set (as @ bs)" "ts_status l = NG_TCP_STATUS_LISTEN" "ts_dport l = ts_dport s"
    and ep: "tcp_ep_abs t I E"
  shows "\<exists>t' l'. ng_tcp_process uck R env m t = Some (0, t') \<and>
    tcb_at t' as (s\<lparr>ts_status := NG_TCP_STATUS_ESTABLISHED\<rparr>) bs \<and> ts_dport l' = ts_dport s \<and>
    l' \<in> set (tcb_set t') \<and> tcp_ep_abs t' (notify_I (ts_fd l') I E) (notify_R (ts_fd l') I E)"
proof -
  let ?s = "s\<lparr>ts_status := NG_TCP_STATUS_ESTABLISHED\<rparr>"
  let ?t = "tcb_update (ts_ptr s) (\<lambda>s. s\<lparr>ts_status := NG_TCP_STATUS_ESTABLISHED\<rparr>) t"
  have at': "tcb_at ?t as ?s bs"
    using tcb_at_update [OF at, of "\<lambda>s. s\<lparr>ts_status := NG_TCP_STATUS_ESTABLISHED\<rparr>"] by simp
  have "l \<in> set (tcb_set ?t)" using listener(1) at' by (auto simp: tcb_at_def)
  then have "find (\<lambda>s'. ts_dport s' = ts_dport s \<and> ts_status s' = NG_TCP_STATUS_LISTEN) (tcb_set ?t) \<noteq> None"
    using listener(2,3) by (auto simp: find_None_iff)
  then have "ng_tcp_stream_search 0 0 0 (ts_dport s) ?t \<noteq> None"
    by (simp add: ng_tcp_stream_search_def split: option.split)
  then obtain l' where l': "ng_tcp_stream_search 0 0 0 (ts_dport s) ?t = Some l'" by blast
  have "tcp_ep_abs ?t I E" using ep by (simp add: tcp_ep_abs_def)
  then obtain t' where t': "tcp_epoll_event (ts_fd l') ?t = Some t'" "tcb_set t' = tcb_set ?t"
      "tcp_ep_abs t' (notify_I (ts_fd l') I E) (notify_R (ts_fd l') I E)"
    using tcp_epoll_event_correct by blast
  have "ng_tcp_process uck R env m t = Some (0, t')"
    using seg st flags l' t'(1)
    by (simp add: ng_tcp_process_def tcp_segment_def Let_def ng_tcp_handle_syn_rcvd_def)
  moreover have "l' \<in> set (tcb_set t')" using search_in [OF l'] t'(2) by simp
  ultimately show ?thesis
    using at' tcb_at_cong [OF t'(2)] search_dport [OF l'] t'(3) by blast
qed

section \<open>Output\<close>

text \<open>What the output loop does with one control block, on the contents of its send ring.\<close>

definition out_queue :: "arp_table \<Rightarrow> 'r ng_tcp_stream \<Rightarrow> ng_tcp_fragment list \<Rightarrow> ng_tcp_fragment list" where
  "out_queue arpt s q =
     (case q of
        [] \<Rightarrow> []
      | f # fs \<Rightarrow> (case ng_get_dst_macaddr (ts_sip s) arpt of None \<Rightarrow> fs @ [f] | Some _ \<Rightarrow> fs))"

text \<open>What the packet holds that leaves for a fragment to a known address.\<close>

definition packet_of :: "(bytes \<Rightarrow> u16) \<Rightarrow> 'r ng_tcp_stream \<Rightarrow> bytes \<Rightarrow> ng_tcp_fragment \<Rightarrow> mbuf \<Rightarrow> bool" where
  "packet_of uck s dstmac f p \<longleftrightarrow>
     mb_len p = 54 + unat (tf_length f) \<and>
     rd 0 6 (mb_data p) = Some dstmac \<and> rd 6 6 (mb_data p) = Some (ts_localmac s) \<and>
     rd16 12 (mb_data p) = Some (htons RTE_ETHER_TYPE_IPV4) \<and> rd8 14 (mb_data p) = Some 0x45 \<and>
     (\<exists>h. parse_ip (mb_data p) = Some \<lparr>ip_total_length = htons (ucast (tf_length f + 40)),
            ip_next_proto = IPPROTO_TCP, ip_src = ts_dip s, ip_dst = ts_sip s\<rparr> \<and>
          parse_tcp (mb_data p) = Some h \<and> th_sport h = tf_sport f \<and> th_dport h = tf_dport f \<and>
          th_seq h = htonl (tf_seqnum f) \<and> th_ack h = htonl (tf_acknum f) \<and>
          th_data_off h = tf_hdrlen_off f \<and> th_flags h = tf_tcp_flags f \<and>
          th_cksum h = uck (drop 14 (put 50 [0, 0] (mb_data p)))) \<and>
     rd16 48 (mb_data p) = Some (tf_windows f) \<and>
     rd 54 (unat (tf_length f)) (mb_data p) = Some (frag_payload f)"

text \<open>The ARP request that asks, from \<open>sip\<close>, for the Ethernet address of \<open>dip\<close>. The code sends it to
  the all-zero address.\<close>

definition arp_request_of :: "bytes \<Rightarrow> u32 \<Rightarrow> u32 \<Rightarrow> mbuf \<Rightarrow> bool" where
  "arp_request_of srcmac sip dip p \<longleftrightarrow>
     mb_len p = 42 \<and> rd 0 6 (mb_data p) = Some (replicate 6 0) \<and> rd 6 6 (mb_data p) = Some srcmac \<and>
     rd16 12 (mb_data p) = Some (htons RTE_ETHER_TYPE_ARP) \<and> rd16 20 (mb_data p) = Some (htons 1) \<and>
     rd 22 6 (mb_data p) = Some srcmac \<and> rd32 28 (mb_data p) = Some sip \<and>
     rd 32 6 (mb_data p) = Some gDefaultArpMac \<and> rd32 38 (mb_data p) = Some dip"

definition stream_out_ok ::
  "('r \<Rightarrow> ng_tcp_fragment list) \<Rightarrow> (addr \<Rightarrow> bytes option) \<Rightarrow> 'r ng_tcp_stream \<Rightarrow> bool" where
  "stream_out_ok view pool s \<longleftrightarrow>
     length (ts_localmac s) = 6 \<and>
     (\<exists>buf. pool (ts_ptr s) = Some buf \<and> 54 \<le> length buf \<and>
        (\<forall>r. ts_sndbuf s = Some r \<longrightarrow>
           (\<forall>f\<in>set (view r). frag_wf f \<and> 54 + unat (tf_length f) \<le> length buf \<and>
                              unat (tf_length f) + 54 < 2 ^ 32)))"

lemma tcp_out_one_correct:
  assumes fifo: "ring_fifo R cap view" and ok: "stream_out_ok view pool s"
    and arp: "arp_inv arpt" and src: "length srcmac = 6"
    and cap: "\<And>r. ts_sndbuf s = Some r \<Longrightarrow> length (view r) \<le> cap"
  shows "\<exists>s' m. tcp_out_one ck uck R srcmac arpt (pool (ts_ptr s)) s = Some (s', m) \<and>
     s' = s\<lparr>ts_sndbuf := ts_sndbuf s'\<rparr> \<and>
     (case ts_sndbuf s of
        None \<Rightarrow> ts_sndbuf s' = None \<and> m = None
      | Some r \<Rightarrow>
          (\<exists>r'. ts_sndbuf s' = Some r' \<and> view r' = out_queue arpt s (view r)) \<and>
          (case view r of
             [] \<Rightarrow> m = None
           | f # fs \<Rightarrow> \<exists>p. m = Some p \<and>
               (case ng_get_dst_macaddr (ts_sip s) arpt of
                  None \<Rightarrow> arp_request_of srcmac (ts_dip s) (ts_sip s) p
                | Some dstmac \<Rightarrow> packet_of uck s dstmac f p)))"
proof (cases "ts_sndbuf s")
  case None
  then show ?thesis by (simp add: tcp_out_one_def)
next
  case (Some r)
  obtain buf where buf: "pool (ts_ptr s) = Some buf" "54 \<le> length buf" "length (ts_localmac s) = 6"
      "\<And>f. f \<in> set (view r) \<Longrightarrow> frag_wf f \<and> 54 + unat (tf_length f) \<le> length buf \<and>
         unat (tf_length f) + 54 < 2 ^ 32"
    using ok Some by (auto simp: stream_out_ok_def)
  show ?thesis
  proof (cases rule: ring_dequeue_cases [OF fifo, of r])
    case 1
    then show ?thesis using Some by (auto simp: tcp_out_one_def out_queue_def)
  next
    case (2 f r')
    have len: "length (view r') < cap" using cap [OF Some] 2(2) by simp
    show ?thesis
    proof (cases "ng_get_dst_macaddr (ts_sip s) arpt")
      case None
      have "42 \<le> length buf" "length gDefaultArpMac = 6" using buf(2) by (simp_all add: gDefaultArpMac_def)
      from ng_encode_arp_pkt_ok [OF this(1) src this(2), of 1 "ts_dip s" "ts_sip s"]
      obtain m where m: "ng_encode_arp_pkt srcmac buf 1 gDefaultArpMac (ts_dip s) (ts_sip s) = Some m"
          "arp_request_of srcmac (ts_dip s) (ts_sip s) \<lparr>mb_len = 42, mb_data = m\<rparr>"
        by (auto simp: arp_request_of_def)
      then show ?thesis
        using Some 2 None buf(1) ring_push_view [OF fifo len, of f]
        by (auto simp: tcp_out_one_def out_queue_def ng_send_arp_def)
    next
      case mac: (Some dstmac)
      have f: "frag_wf f" "54 + unat (tf_length f) \<le> length buf" "unat (tf_length f) + 54 < 2 ^ 32"
        using buf(4) [of f] 2(2) by auto
      have "length dstmac = 6"
        using mac arp map_of_SomeD [of "map (\<lambda>e. (arp_ip e, arp_hwaddr e)) (arp_entries arpt)" "ts_sip s" dstmac]
        by (auto simp: arp_lookup_map_of arp_inv_def)
      from ng_encode_tcp_apppkt_ok [OF f(1,2) buf(3) this, of ck uck "ts_dip s" "ts_sip s"]
      obtain m where m: "ng_encode_tcp_apppkt ck uck buf (ts_dip s) (ts_sip s) (ts_localmac s) dstmac f = Some m"
          "parse_ip m = Some \<lparr>ip_total_length = htons (ucast (tf_length f + 40)),
             ip_next_proto = IPPROTO_TCP, ip_src = ts_dip s, ip_dst = ts_sip s\<rparr>"
          "parse_tcp m = Some \<lparr>th_sport = tf_sport f, th_dport = tf_dport f,
             th_seq = htonl (tf_seqnum f), th_ack = htonl (tf_acknum f),
             th_data_off = tf_hdrlen_off f, th_flags = tf_tcp_flags f,
             th_cksum = uck (drop 14 (put 50 [0, 0] m))\<rparr>"
          "rd 54 (unat (tf_length f)) m = Some (frag_payload f)"
          "rd 0 6 m = Some dstmac" "rd 6 6 m = Some (ts_localmac s)" "rd16 12 m = Some (htons RTE_ETHER_TYPE_IPV4)"
          "rd8 14 m = Some 0x45" "rd16 48 m = Some (tf_windows f)" by blast
      have "unat (tcp_total_len f) = 54 + unat (tf_length f)"
        using f(1,3) by (simp add: tcp_total_len_def frag_wf_def unat_word_ariths(1))
      then have "packet_of uck s dstmac f \<lparr>mb_len = unat (tcp_total_len f), mb_data = m\<rparr>"
        using m(2-9) by (simp add: packet_of_def)
      moreover have "tcp_out_one ck uck R srcmac arpt (pool (ts_ptr s)) s =
          Some (s\<lparr>ts_sndbuf := Some r'\<rparr>, Some \<lparr>mb_len = unat (tcp_total_len f), mb_data = m\<rparr>)"
        using Some 2(1) mac m(1) buf(1) by (simp add: tcp_out_one_def ng_tcp_pkt_def)
      ultimately show ?thesis using Some 2(2) mac by (auto simp: out_queue_def)
    qed
  qed
qed

lemma out_loop_correct:
  assumes one: "\<And>s. s \<in> set ss \<Longrightarrow> \<exists>s' m. one s = Some (s', m) \<and> Q s s' m"
  shows "\<exists>ss' ms. out_loop one enq ss out =
      Some (ss', fold (\<lambda>m o'. snd (enq m o')) (concat (map (\<lambda>m. case m of None \<Rightarrow> [] | Some p \<Rightarrow> [p]) ms)) out) \<and>
    length ss' = length ss \<and> length ms = length ss \<and> (\<forall>i<length ss. Q (ss ! i) (ss' ! i) (ms ! i))"
  using one
proof (induction ss arbitrary: out)
  case (Cons s ss)
  obtain s' m where s': "one s = Some (s', m)" "Q s s' m" using Cons.prems [of s] by auto
  let ?out = "case m of None \<Rightarrow> out | Some m \<Rightarrow> snd (enq m out)"
  obtain ss' ms where ss': "out_loop one enq ss ?out =
      Some (ss', fold (\<lambda>m o'. snd (enq m o')) (concat (map (\<lambda>m. case m of None \<Rightarrow> [] | Some p \<Rightarrow> [p]) ms)) ?out)"
    "length ss' = length ss" "length ms = length ss" "\<forall>i<length ss. Q (ss ! i) (ss' ! i) (ms ! i)"
    using Cons.IH [of ?out] Cons.prems by auto
  show ?case
    using s' ss' by (intro exI [of _ "s' # ss'"] exI [of _ "m # ms"])
      (auto simp: nth_Cons' less_Suc_eq_0_disj split: option.splits)
qed simp

text \<open>C7: one pass of the output loop ends and takes at most one fragment from every send ring:
  the oldest one, which leaves, addressed to the Ethernet address of the peer, as a TCP packet that parses back
  to it when that address is known; when it is not, an ARP request for the peer leaves and the fragment goes
  back to the end of the ring, behind the fragments queued after it. Nothing else in the
  table changes.\<close>

theorem ng_tcp_out_sends:
  assumes fifo: "ring_fifo R cap view" and arp: "arp_inv arpt" and src: "length srcmac = 6"
    and ok: "\<forall>s\<in>set (tcb_set t). stream_out_ok view pool s \<and>
        (\<forall>r. ts_sndbuf s = Some r \<longrightarrow> length (view r) \<le> cap)"
  shows "\<exists>ss' ms. ng_tcp_out ck uck R srcmac arpt pool enq t out =
      Some (t\<lparr>tcb_set := ss'\<rparr>, fold (\<lambda>m o'. snd (enq m o'))
        (concat (map (\<lambda>m. case m of None \<Rightarrow> [] | Some p \<Rightarrow> [p]) ms)) out) \<and>
    length ss' = length (tcb_set t) \<and> length ms = length (tcb_set t) \<and>
    (\<forall>i<length (tcb_set t). let s = tcb_set t ! i; s' = ss' ! i; m = ms ! i in
       s' = s\<lparr>ts_sndbuf := ts_sndbuf s'\<rparr> \<and>
       (case ts_sndbuf s of
          None \<Rightarrow> ts_sndbuf s' = None \<and> m = None
        | Some r \<Rightarrow>
            (\<exists>r'. ts_sndbuf s' = Some r' \<and> view r' = out_queue arpt s (view r)) \<and>
            (case view r of
               [] \<Rightarrow> m = None
             | f # fs \<Rightarrow> \<exists>p. m = Some p \<and>
                 (case ng_get_dst_macaddr (ts_sip s) arpt of
                    None \<Rightarrow> arp_request_of srcmac (ts_dip s) (ts_sip s) p
                  | Some dstmac \<Rightarrow> packet_of uck s dstmac f p))))"
proof -
  define Q where "Q = (\<lambda>s s' m. s' = s\<lparr>ts_sndbuf := ts_sndbuf s'\<rparr> \<and>
       (case ts_sndbuf s of
          None \<Rightarrow> ts_sndbuf s' = None \<and> m = None
        | Some r \<Rightarrow>
            (\<exists>r'. ts_sndbuf s' = Some r' \<and> view r' = out_queue arpt s (view r)) \<and>
            (case view r of
               [] \<Rightarrow> m = None
             | f # fs \<Rightarrow> \<exists>p. m = Some p \<and>
                 (case ng_get_dst_macaddr (ts_sip s) arpt of
                    None \<Rightarrow> arp_request_of srcmac (ts_dip s) (ts_sip s) p
                  | Some dstmac \<Rightarrow> packet_of uck s dstmac f p))))"
  have "\<exists>s' m. tcp_out_one ck uck R srcmac arpt (pool (ts_ptr s)) s = Some (s', m) \<and> Q s s' m"
    if "s \<in> set (tcb_set t)" for s
    unfolding Q_def using ok that by (intro tcp_out_one_correct [OF fifo _ arp src]) auto
  then have "\<And>s. s \<in> set (tcb_set t) \<Longrightarrow>
      \<exists>s' m. (\<lambda>s. tcp_out_one ck uck R srcmac arpt (pool (ts_ptr s)) s) s = Some (s', m) \<and> Q s s' m" by simp
  from out_loop_correct [of "tcb_set t" "\<lambda>s. tcp_out_one ck uck R srcmac arpt (pool (ts_ptr s)) s",
      OF this, of enq out] obtain ss' ms where
    "out_loop (\<lambda>s. tcp_out_one ck uck R srcmac arpt (pool (ts_ptr s)) s) enq (tcb_set t) out =
       Some (ss', fold (\<lambda>m o'. snd (enq m o')) (concat (map (\<lambda>m. case m of None \<Rightarrow> [] | Some p \<Rightarrow> [p]) ms)) out)"
    "length ss' = length (tcb_set t)" "length ms = length (tcb_set t)"
    "\<forall>i<length (tcb_set t). Q (tcb_set t ! i) (ss' ! i) (ms ! i)" by blast
  then show ?thesis
    by (intro exI [of _ ss'] exI [of _ ms]) (simp add: ng_tcp_out_def Q_def Let_def)
qed

section \<open>Witnesses\<close>

text \<open>A segment with the payload \<open>abc\<close> for the connection of \<open>ex_stream\<close>, in a table with a
  listener on the same port.\<close>

definition ex_pkt :: "u8 \<Rightarrow> bytes" where
  "ex_pkt flags = replicate 14 0 @
     [0x45, 0, 0, 43, 0, 0, 0, 0, 64, 6, 0, 0, 1, 1, 1, 1, 2, 2, 2, 2] @
     [0x12, 0x34, 0x27, 0x0F, 0, 0, 0, 5, 0, 0, 0, 9, 0x50, flags, 0x39, 0x08, 0, 0, 0, 0] @
     [97, 98, 99]"

definition ex_ip :: ip_hdr where
  "ex_ip = \<lparr>ip_total_length = 0x2B00, ip_next_proto = 6, ip_src = 0x01010101, ip_dst = 0x02020202\<rparr>"

definition ex_hdr :: "u8 \<Rightarrow> tcp_hdr" where
  "ex_hdr flags = \<lparr>th_sport = 0x3412, th_dport = 0x0F27, th_seq = 0x05000000, th_ack = 0x09000000,
     th_data_off = 0x50, th_flags = flags, th_cksum = 0\<rparr>"

definition ex_stream :: "NG_TCP_STATUS \<Rightarrow> ng_tcp_fragment list ng_tcp_stream" where
  "ex_stream st = \<lparr>ts_ptr = 200, ts_fd = 5, ts_dip = 0x02020202, ts_localmac = replicate 6 9,
     ts_dport = 0x0F27, ts_protocol = 6, ts_sport = 0x3412, ts_sip = 0x01010101, ts_snd_nxt = 9,
     ts_rcv_nxt = 5, ts_status = st, ts_sndbuf = Some [], ts_rcvbuf = Some []\<rparr>"

definition ex_listener :: "ng_tcp_fragment list ng_tcp_stream" where
  "ex_listener = (ex_stream NG_TCP_STATUS_LISTEN)\<lparr>ts_ptr := 100, ts_fd := 3, ts_sport := 0, ts_sip := 0\<rparr>"

definition ex_table :: "ng_tcp_fragment list ng_tcp_stream list \<Rightarrow> eventpoll \<Rightarrow> ng_tcp_fragment list ng_tcp_table" where
  "ex_table ss ep = \<lparr>tcb_set = ss @ [ex_listener], tcp_ep = EpAt ep\<rparr>"

definition ex_env :: "ng_tcp_fragment list tcp_env" where
  "ex_env = \<lparr>te_stream = Some ((ex_stream NG_TCP_STATUS_CLOSED)\<lparr>ts_ptr := 300\<rparr>), te_sndbuf = Some [],
     te_rcvbuf = Some [], te_rand = 77, te_alloc = (\<lambda>_. True), te_srcmac = replicate 6 9\<rparr>"

lemma ex_parse_ip:
  "parse_ip (ex_pkt 0x18) = Some ex_ip" "parse_ip (ex_pkt 0x11) = Some ex_ip"
  "parse_ip (ex_pkt 0x02) = Some ex_ip" "parse_ip (ex_pkt 0x10) = Some ex_ip"
  by code_simp+

lemma ex_parse_tcp:
  "parse_tcp (ex_pkt 0x18) = Some (ex_hdr 0x18)" "parse_tcp (ex_pkt 0x11) = Some (ex_hdr 0x11)"
  "parse_tcp (ex_pkt 0x02) = Some (ex_hdr 0x02)" "parse_tcp (ex_pkt 0x10) = Some (ex_hdr 0x10)"
  by code_simp+

lemma ex_payload:
  "rd (34 + seg_hdrlen (ex_hdr 0x18) * 4) 3 (put 50 [0, 0] (ex_pkt 0x18)) = Some [97, 98, 99]"
  by code_simp

lemma ex_len: "int (unat (htons (ip_total_length ex_ip))) - 20 - int (seg_hdrlen (ex_hdr 0x18) * 4) = 3"
  by code_simp

lemma ex_search:
  "ng_tcp_stream_search (ip_src ex_ip) (ip_dst ex_ip) (th_sport (ex_hdr fl)) (th_dport (ex_hdr fl))
     (ex_table [ex_stream st] ep) = Some (ex_stream st)"
  "ng_tcp_stream_search (ip_src ex_ip) (ip_dst ex_ip) (th_sport (ex_hdr fl)) (th_dport (ex_hdr fl))
     (ex_table [] ep) = Some ex_listener"
  by (simp_all add: ng_tcp_stream_search_def ex_ip_def ex_hdr_def ex_table_def ex_stream_def ex_listener_def)

lemma ex_segment:
  "fl \<in> {0x18, 0x11, 0x02, 0x10} \<Longrightarrow>
     tcp_segment (\<lambda>_. 0) (ex_pkt fl) ex_ip (ex_hdr fl) (ex_table [ex_stream st] ep) (ex_stream st)"
  "fl \<in> {0x18, 0x11, 0x02, 0x10} \<Longrightarrow>
     tcp_segment (\<lambda>_. 0) (ex_pkt fl) ex_ip (ex_hdr fl) (ex_table [] ep) ex_listener"
  using ex_parse_ip ex_parse_tcp by (auto simp: tcp_segment_def ex_search) (simp_all add: ex_hdr_def)

lemma ex_at: "tcb_at (ex_table [ex_stream st] ep) [] (ex_stream st) [ex_listener]"
  by (simp add: tcb_at_def ex_table_def ex_listener_def ex_stream_def)

lemma ex_ep: "tcp_ep_abs (ex_table ss ep_new) Map.empty []"
  using ep_new_abs by (simp add: tcp_ep_abs_def ex_table_def)

lemma ex_simps [simp]:
  "ts_status (ex_stream st) = st" "ts_rcvbuf (ex_stream st) = Some []" "ts_sndbuf (ex_stream st) = Some []"
  "ts_rcv_nxt (ex_stream st) = 5" "ts_ptr (ex_stream st) = 200" "te_alloc ex_env k"
  "ts_status ex_listener = NG_TCP_STATUS_LISTEN" "ts_ptr ex_listener = 100"
  by (simp_all add: ex_stream_def ex_env_def ex_listener_def)

lemmas ex_segs =
  ex_segment(1) [of "0x18" NG_TCP_STATUS_ESTABLISHED ep_new, simplified]
  ex_segment(1) [of "0x11" NG_TCP_STATUS_ESTABLISHED ep_new, simplified]
  ex_segment(1) [of "0x10" NG_TCP_STATUS_SYN_RCVD ep_new, simplified]
  ex_segment(2) [of "0x02" ep_new, simplified]

lemma ex_flags:
  "tcp_flag (ex_hdr 0x18) RTE_TCP_PSH_FLAG" "\<not> tcp_flag (ex_hdr 0x18) RTE_TCP_FIN_FLAG"
  "\<not> tcp_flag (ex_hdr 0x11) RTE_TCP_PSH_FLAG" "tcp_flag (ex_hdr 0x11) RTE_TCP_FIN_FLAG"
  "tcp_flag (ex_hdr 0x02) RTE_TCP_SYN_FLAG" "tcp_flag (ex_hdr 0x10) RTE_TCP_ACK_FLAG"
  by (simp_all add: tcp_flag_def ex_hdr_def RTE_TCP_PSH_FLAG_def RTE_TCP_FIN_FLAG_def
      RTE_TCP_SYN_FLAG_def RTE_TCP_ACK_FLAG_def)

lemma ex_pl:
  "rd (34 + seg_hdrlen (ex_hdr 0x18) * 4) (nat 3) (put 50 [0, 0] (ex_pkt 0x18)) = Some [97, 98, 99]"
  using ex_payload by simp

lemma tcp_data_delivered_witness:
  "\<exists>t' s'. ng_tcp_process (\<lambda>_. 0) (list_ring 8) ex_env (ex_pkt 0x18)
       (ex_table [ex_stream NG_TCP_STATUS_ESTABLISHED] ep_new) = Some (0, t') \<and>
     tcb_at t' [] s' [ex_listener] \<and> ts_rcv_nxt s' = 8"
  using tcp_data_delivered [where env = ex_env, OF ex_at ex_segs(1) ex_simps(1) ex_flags(1,2) ex_simps(6) ex_ep
      ex_len [symmetric] _ ex_pl list_ring_fifo [of 8] ex_simps(2,3)] by auto

lemma tcp_duplicate_delivered_twice_witness:
  "\<exists>t1 t2 s2. ng_tcp_process (\<lambda>_. 0) (list_ring 8) ex_env (ex_pkt 0x18)
       (ex_table [ex_stream NG_TCP_STATUS_ESTABLISHED] ep_new) = Some (0, t1) \<and>
     ng_tcp_process (\<lambda>_. 0) (list_ring 8) ex_env (ex_pkt 0x18) t1 = Some (0, t2) \<and>
     tcb_at t2 [] s2 [ex_listener] \<and> ts_rcv_nxt s2 = 11"
  using tcp_duplicate_delivered_twice [where env = ex_env, OF ex_at ex_segs(1) ex_simps(1) ex_flags(1,2) ex_simps(6) ex_ep
      ex_len [symmetric] _ ex_pl list_ring_fifo [of 8] ex_simps(2,3)] by auto

lemma tcp_fin_closes_witness:
  "\<exists>t' s'. ng_tcp_process (\<lambda>_. 0) (list_ring 8) ex_env (ex_pkt 0x11)
       (ex_table [ex_stream NG_TCP_STATUS_ESTABLISHED] ep_new) = Some (0, t') \<and>
     tcb_at t' [] s' [ex_listener] \<and> ts_status s' = NG_TCP_STATUS_CLOSE_WAIT"
  using tcp_fin_closes [where env = ex_env, OF ex_at ex_segs(2) ex_simps(1) ex_flags(3,4) ex_simps(6) ex_ep
      list_ring_fifo [of 8] ex_simps(2,3)] by fastforce

lemma tcp_syn_opens_witness:
  "\<exists>t' syn. ng_tcp_process (\<lambda>_. 0) (list_ring 8) ex_env (ex_pkt 0x02) (ex_table [] ep_new) = Some (0, t') \<and>
     tcb_set t' = [syn, ex_listener] \<and> ts_status syn = NG_TCP_STATUS_SYN_RCVD \<and> ts_sip syn = 0x01010101"
proof -
  have wf: "tcb_wf (ex_table [] ep_new)" by (simp add: tcb_wf_def ex_table_def)
  have env: "te_stream ex_env = Some ((ex_stream NG_TCP_STATUS_CLOSED)\<lparr>ts_ptr := 300\<rparr>)"
    "ts_ptr ((ex_stream NG_TCP_STATUS_CLOSED)\<lparr>ts_ptr := 300\<rparr>) \<notin> ts_ptr ` set (tcb_set (ex_table [] ep_new))"
    "te_sndbuf ex_env = Some []" "te_rcvbuf ex_env = Some []"
    by (simp_all add: ex_env_def ex_table_def)
  have set: "tcb_set (ex_table [] ep_new) = [ex_listener]" by (simp add: ex_table_def)
  show ?thesis
    using tcp_syn_opens [OF wf ex_segs(4) ex_simps(7) ex_flags(5) env(1,2) ex_simps(6) env(3,4) list_ring_fifo [of 8]]
    unfolding set by (fastforce simp: ex_ip_def)
qed

lemma tcp_ack_establishes_witness:
  "\<exists>t'. ng_tcp_process (\<lambda>_. 0) (list_ring 8) ex_env (ex_pkt 0x10)
       (ex_table [ex_stream NG_TCP_STATUS_SYN_RCVD] ep_new) = Some (0, t') \<and>
     tcb_at t' [] ((ex_stream NG_TCP_STATUS_SYN_RCVD)\<lparr>ts_status := NG_TCP_STATUS_ESTABLISHED\<rparr>) [ex_listener]"
proof -
  have l: "ex_listener \<in> set ([] @ [ex_listener])" "ts_dport ex_listener = ts_dport (ex_stream NG_TCP_STATUS_SYN_RCVD)"
    by (simp_all add: ex_listener_def ex_stream_def)
  show ?thesis
    using tcp_ack_establishes [OF ex_at ex_segs(3) ex_simps(1) ex_flags(6) l(1) ex_simps(7) l(2) ex_ep] by blast
qed

lemma ng_tcp_process_state_machine_witness:
  "\<exists>t'. ng_tcp_process (\<lambda>_. 0) (list_ring 8) ex_env (ex_pkt 0x18) (ex_table [] ep_new) = Some (0, t') \<and>
     tcp_table_step ex_env [ex_listener] (tcb_set t') \<and> tcb_wf t'"
proof -
  have set: "tcb_set (ex_table [] ep_new) = [ex_listener]" by (simp add: ex_table_def)
  have wf: "tcb_wf (ex_table [] ep_new)" by (simp add: tcb_wf_def set)
  have run: "ng_tcp_process (\<lambda>_. 0) (list_ring 8) ex_env (ex_pkt 0x18) (ex_table [] ep_new) =
      Some (0, ex_table [] ep_new)"
    using ex_segment(2) [of "0x18" ep_new]
    by (simp add: ng_tcp_process_def tcp_segment_def Let_def ng_tcp_handle_listen_def tcp_flag_def
        ex_hdr_def RTE_TCP_SYN_FLAG_def)
  show ?thesis
    using ng_tcp_process_state_machine [OF wf run] run by (auto simp: set ex_env_def)
qed

definition ex_sending :: "ng_tcp_fragment list ng_tcp_stream" where
  "ex_sending = (ex_stream NG_TCP_STATUS_ESTABLISHED)\<lparr>ts_sndbuf := Some [frag_example, frag_zero]\<rparr>"

definition ex_arpt :: arp_table where
  "ex_arpt = \<lparr>arp_entries = [\<lparr>arp_ip = 0x01010101, arp_hwaddr = replicate 6 1, arp_type = 0\<rparr>], arp_count = 1\<rparr>"

lemma ng_tcp_out_sends_witness:
  "\<exists>ss' out'. ng_tcp_out (\<lambda>_. 0) (\<lambda>_. 0) (list_ring 8) (replicate 6 9) ex_arpt
       (\<lambda>_. Some (replicate 2048 0)) (\<lambda>m o'. (1, o' @ [m])) (ex_table [ex_sending] ep_new) [] =
     Some ((ex_table [ex_sending] ep_new)\<lparr>tcb_set := ss'\<rparr>, out') \<and>
     ts_sndbuf (ss' ! 0) = Some [frag_zero]"
proof -
  have set: "tcb_set (ex_table [ex_sending] ep_new) = [ex_sending, ex_listener]" by (simp add: ex_table_def)
  have arp: "arp_inv ex_arpt" "ng_get_dst_macaddr (ts_sip ex_sending) ex_arpt = Some (replicate 6 1)"
    by (simp_all add: ex_arpt_def arp_inv_def ng_get_dst_macaddr_def ex_sending_def ex_stream_def)
  have ok: "\<forall>s\<in>set (tcb_set (ex_table [ex_sending] ep_new)).
      stream_out_ok (\<lambda>r. r) (\<lambda>_. Some (replicate 2048 0)) s \<and>
      (\<forall>r. ts_sndbuf s = Some r \<longrightarrow> length r \<le> 8)"
    unfolding set
    by (auto simp: stream_out_ok_def ex_sending_def ex_listener_def ex_stream_def frag_example_def
        frag_zero_def frag_wf_def)
  have snd: "ts_sndbuf ex_sending = Some [frag_example, frag_zero]" by (simp add: ex_sending_def)
  have src: "length (replicate 6 (9 :: u8)) = 6" by simp
  note sends = ng_tcp_out_sends [OF list_ring_fifo [of 8] arp(1) src ok, of "\<lambda>_. 0" "\<lambda>_. 0"
        "\<lambda>m o'. (1, o' @ [m])" "[]"]
  from sends obtain ss' ms where r: "ng_tcp_out (\<lambda>_. 0) (\<lambda>_. 0) (list_ring 8) (replicate 6 9) ex_arpt
       (\<lambda>_. Some (replicate 2048 0)) (\<lambda>m o'. (1, o' @ [m])) (ex_table [ex_sending] ep_new) [] =
       Some ((ex_table [ex_sending] ep_new)\<lparr>tcb_set := ss'\<rparr>, fold (\<lambda>m o'. snd (1 :: nat, o' @ [m]))
         (concat (map (\<lambda>m. case m of None \<Rightarrow> [] | Some p \<Rightarrow> [p]) ms)) [])"
    "\<forall>i<length (tcb_set (ex_table [ex_sending] ep_new)).
       case ts_sndbuf (tcb_set (ex_table [ex_sending] ep_new) ! i) of None \<Rightarrow> True
       | Some r \<Rightarrow> \<exists>r'. ts_sndbuf (ss' ! i) = Some r' \<and>
           r' = out_queue ex_arpt (tcb_set (ex_table [ex_sending] ep_new) ! i) r"
    unfolding Let_def by (elim exE conjE) (smt (verit) option.case_eq_if)
  have "ts_sndbuf (ss' ! 0) = Some [frag_zero]"
    using r(2) [rule_format, of 0] by (simp add: set snd out_queue_def arp(2))
  then show ?thesis using r(1) by blast
qed

end
