(* ===== verification/Socket_Api.thy ===== *)
theory Socket_Api
  imports Tcp Fd_Bitmap
begin

text \<open>
  The socket functions of \<^verbatim>\<open>tcp_concurrency.c\<close> (\<open>nsocket\<close> to \<open>nclose\<close>) over the state of the
  whole stack: the UDP sockets, the TCP table with its epoll object, and the descriptor
  bitmap. A descriptor is looked up in the three tables in this order; the code casts the
  \<open>void *\<close> it gets to the type it expects, so the model keeps the kind of the object
  (\<open>hostinfo\<close>) and an access through the wrong type is undefined behaviour.
\<close>

section \<open>State\<close>

record 'u localhost =
  lh_ptr :: addr
  lh_fd :: int
  lh_localip :: u32
  lh_localmac :: bytes
  lh_localport :: u16
  lh_protocol :: u8
  lh_sndbuf :: "'u option"
  lh_rcvbuf :: "'u option"

text \<open>A datagram. \<open>ol_data\<close> are the bytes that can be read from its data pointer on, which may be
  more than were allocated.\<close>

record offload =
  ol_sip :: u32
  ol_dip :: u32
  ol_sport :: u16
  ol_dport :: u16
  ol_data :: bytes
  ol_length :: u16

record sockaddr_in =
  sin_port :: u16
  sin_addr :: u32

record ('r, 'u) stack =
  st_lhost :: "'u localhost list"
  st_tcp :: "'r ng_tcp_table"
  st_fds :: fd_table

definition lh_get :: "addr \<Rightarrow> ('r, 'u) stack \<Rightarrow> 'u localhost option" where
  "lh_get p st = find (\<lambda>h. lh_ptr h = p) (st_lhost st)"

definition lh_update :: "addr \<Rightarrow> ('u localhost \<Rightarrow> 'u localhost) \<Rightarrow> ('r, 'u) stack \<Rightarrow> ('r, 'u) stack" where
  "lh_update p f st = st\<lparr>st_lhost := map (\<lambda>h. if lh_ptr h = p then f h else h) (st_lhost st)\<rparr>"

abbreviation on_tcp :: "('r ng_tcp_table \<Rightarrow> 'r ng_tcp_table) \<Rightarrow> ('r, 'u) stack \<Rightarrow> ('r, 'u) stack" where
  "on_tcp f st \<equiv> st\<lparr>st_tcp := f (st_tcp st)\<rparr>"

text \<open>The outcomes of a call that come from outside: the new object, the rings, the allocations
  in program order, the memory that follows a data buffer, and a fragment that was
  allocated but not cleared.\<close>

record ('r, 'u) api_env =
  ae_obj :: "addr option"
  ae_rcv_u :: "'u option"
  ae_snd_u :: "'u option"
  ae_rcv_t :: "'r option"
  ae_snd_t :: "'r option"
  ae_alloc :: "nat \<Rightarrow> bool"
  ae_srcmac :: bytes
  ae_slack :: bytes
  ae_fragment :: ng_tcp_fragment

section \<open>Lookup\<close>

definition get_accept_tcb :: "u16 \<Rightarrow> 'r ng_tcp_table \<Rightarrow> 'r ng_tcp_stream option" where
  "get_accept_tcb dport t = find (\<lambda>s. dport = ts_dport s \<and> ts_fd s = - 1) (tcb_set t)"

datatype ('r, 'u) hostinfo =
    HostUdp "'u localhost" | HostTcp "'r ng_tcp_stream" | HostEp eventpoll

definition get_hostinfo_fromfd :: "int \<Rightarrow> ('r, 'u) stack \<Rightarrow> ('r, 'u) hostinfo option option" where
  "get_hostinfo_fromfd sockfd st =
     (case find (\<lambda>h. sockfd = lh_fd h) (st_lhost st) of
        Some h \<Rightarrow> Some (Some (HostUdp h))
      | None \<Rightarrow>
         (case find (\<lambda>s. sockfd = ts_fd s) (tcb_set (st_tcp st)) of
            Some s \<Rightarrow> Some (Some (HostTcp s))
          | None \<Rightarrow>
              do { ep \<leftarrow> ep_deref (tcp_ep (st_tcp st));
                   Some (case ep of
                           None \<Rightarrow> None
                         | Some ep \<Rightarrow> if ep_fd ep = sockfd then Some (HostEp ep) else None) }))"

definition get_hostinfo_fromip_port :: "u32 \<Rightarrow> u16 \<Rightarrow> u8 \<Rightarrow> ('r, 'u) stack \<Rightarrow> 'u localhost option" where
  "get_hostinfo_fromip_port dip port proto st =
     find (\<lambda>h. dip = lh_localip h \<and> port = lh_localport h \<and> proto = lh_protocol h) (st_lhost st)"

text \<open>The byte at offset 16, where both socket types have their protocol and the epoll object has
  the low byte of its item count.\<close>

definition host_protocol :: "('r, 'u) hostinfo \<Rightarrow> u8" where
  "host_protocol hi =
     (case hi of HostUdp h \<Rightarrow> lh_protocol h | HostTcp s \<Rightarrow> ts_protocol s | HostEp ep \<Rightarrow> of_int (ep_rbcnt ep))"

lemma proto_neq [simp]: "IPPROTO_TCP \<noteq> IPPROTO_UDP" "IPPROTO_UDP \<noteq> IPPROTO_TCP"
  by (simp_all add: IPPROTO_TCP_def IPPROTO_UDP_def)

section \<open>Creation and configuration\<close>

datatype sock_type = SOCK_DGRAM | SOCK_STREAM | SOCK_OTHER

definition nsocket :: "('r, 'u) api_env \<Rightarrow> sock_type \<Rightarrow> ('r, 'u) stack \<Rightarrow> int \<times> ('r, 'u) stack" where
  "nsocket env type st =
     (let (fd, fds) = get_fd_frombitmap (st_fds st);
          st = st\<lparr>st_fds := fds\<rparr>
      in case type of
           SOCK_DGRAM \<Rightarrow>
             (case (ae_obj env, ae_rcv_u env, ae_snd_u env) of
                (Some p, Some rcvb, Some sndb) \<Rightarrow>
                  (fd, st\<lparr>st_lhost := \<lparr>lh_ptr = p, lh_fd = fd, lh_localip = 0, lh_localmac = replicate 6 0,
                            lh_localport = 0, lh_protocol = IPPROTO_UDP, lh_sndbuf = Some sndb,
                            lh_rcvbuf = Some rcvb\<rparr> # st_lhost st\<rparr>)
              | _ \<Rightarrow> (- 1, st))
         | SOCK_STREAM \<Rightarrow>
             (case (ae_obj env, ae_rcv_t env, ae_snd_t env) of
                (Some p, Some rcvb, Some sndb) \<Rightarrow>
                  (fd, on_tcp (\<lambda>t. t\<lparr>tcb_set := \<lparr>ts_ptr = p, ts_fd = fd, ts_dip = 0,
                            ts_localmac = replicate 6 0, ts_dport = 0, ts_protocol = IPPROTO_TCP,
                            ts_sport = 0, ts_sip = 0, ts_snd_nxt = 0, ts_rcv_nxt = 0,
                            ts_status = NG_TCP_STATUS_CLOSED, ts_sndbuf = Some sndb,
                            ts_rcvbuf = Some rcvb\<rparr> # tcb_set t\<rparr>) st)
              | _ \<Rightarrow> (- 1, st))
         | SOCK_OTHER \<Rightarrow> (fd, st))"

definition nbind :: "('r, 'u) api_env \<Rightarrow> int \<Rightarrow> sockaddr_in \<Rightarrow> ('r, 'u) stack \<Rightarrow>
    (int \<times> ('r, 'u) stack) option" where
  "nbind env sockfd laddr st =
     do { hi \<leftarrow> get_hostinfo_fromfd sockfd st;
          case hi of
            None \<Rightarrow> Some (- 1, st)
          | Some host \<Rightarrow>
              if host_protocol host = IPPROTO_UDP then
                (case host of
                   HostUdp h \<Rightarrow>
                     Some (0, lh_update (lh_ptr h) (\<lambda>h. h\<lparr>lh_localport := sin_port laddr,
                                lh_localip := sin_addr laddr, lh_localmac := ae_srcmac env\<rparr>) st)
                 | _ \<Rightarrow> None)
              else if host_protocol host = IPPROTO_TCP then
                (case host of
                   HostTcp s \<Rightarrow>
                     Some (0, on_tcp (tcb_update (ts_ptr s) (\<lambda>s. s\<lparr>ts_dport := sin_port laddr,
                                ts_dip := sin_addr laddr, ts_localmac := ae_srcmac env,
                                ts_status := NG_TCP_STATUS_CLOSED\<rparr>)) st)
                 | _ \<Rightarrow> None)
              else Some (0, st) }"

definition nlisten :: "int \<Rightarrow> ('r, 'u) stack \<Rightarrow> (int \<times> ('r, 'u) stack) option" where
  "nlisten sockfd st =
     do { hi \<leftarrow> get_hostinfo_fromfd sockfd st;
          case hi of
            None \<Rightarrow> Some (- 1, st)
          | Some host \<Rightarrow>
              if host_protocol host = IPPROTO_TCP then
                (case host of
                   HostTcp s \<Rightarrow> Some (0, on_tcp (tcb_update (ts_ptr s)
                                  (\<lambda>s. s\<lparr>ts_status := NG_TCP_STATUS_LISTEN\<rparr>)) st)
                 | _ \<Rightarrow> None)
              else Some (0, st) }"

section \<open>Accepting\<close>

text \<open>Every element of \<open>wakes\<close> is the state the other threads left when one wait on the
  condition variable ended; when they are used up the thread is still blocked.\<close>

fun accept_loop :: "addr \<Rightarrow> ('r, 'u) stack list \<Rightarrow> ('r, 'u) stack \<Rightarrow>
    ('r ng_tcp_stream \<times> ('r, 'u) stack) blocking option" where
  "accept_loop p wakes st =
     do { stream \<leftarrow> tcb_get p (st_tcp st);
          case get_accept_tcb (ts_dport stream) (st_tcp st) of
            Some apt \<Rightarrow> Some (Done (apt, st))
          | None \<Rightarrow> (case wakes of [] \<Rightarrow> Some Blocked | st # wakes \<Rightarrow> accept_loop p wakes st) }"

definition naccept :: "int \<Rightarrow> ('r, 'u) stack list \<Rightarrow> ('r, 'u) stack \<Rightarrow>
    (int \<times> sockaddr_in option \<times> ('r, 'u) stack) blocking option" where
  "naccept sockfd wakes st =
     do { hi \<leftarrow> get_hostinfo_fromfd sockfd st;
          case hi of
            None \<Rightarrow> Some (Done (- 1, None, st))
          | Some host \<Rightarrow>
              if host_protocol host = IPPROTO_TCP then
                (case host of
                   HostTcp stream \<Rightarrow>
                     do { r \<leftarrow> accept_loop (ts_ptr stream) wakes st;
                          case r of
                            Blocked \<Rightarrow> Some Blocked
                          | Done (apt, st) \<Rightarrow>
                              (let (fd, fds) = get_fd_frombitmap (st_fds st)
                               in Some (Done (fd, Some \<lparr>sin_port = ts_sport apt, sin_addr = ts_sip apt\<rparr>,
                                    on_tcp (tcb_update (ts_ptr apt) (\<lambda>s. s\<lparr>ts_fd := fd\<rparr>))
                                      (st\<lparr>st_fds := fds\<rparr>)))) }
                 | _ \<Rightarrow> None)
              else Some (Done (- 1, None, st)) }"

section \<open>TCP data\<close>

definition nsend :: "('r, ng_tcp_fragment) rte_ring \<Rightarrow> ('r, 'u) api_env \<Rightarrow> int \<Rightarrow> bytes \<Rightarrow> nat \<Rightarrow>
    ('r, 'u) stack \<Rightarrow> (int \<times> ('r, 'u) stack) option" where
  "nsend R env sockfd buf len st =
     do { hi \<leftarrow> get_hostinfo_fromfd sockfd st;
          case hi of
            None \<Rightarrow> Some (- 1, st)
          | Some host \<Rightarrow>
              if host_protocol host = IPPROTO_TCP then
                (case host of
                   HostTcp stream \<Rightarrow>
                     if \<not> ae_alloc env 0 then Some (- 2, st)
                     else if \<not> ae_alloc env 1 then Some (- 1, st)
                     else
                       do { payload \<leftarrow> rd 0 len buf;
                            let fragment = frag_zero\<lparr>tf_dport := ts_sport stream, tf_sport := ts_dport stream,
                                  tf_acknum := ts_rcv_nxt stream, tf_seqnum := ts_snd_nxt stream,
                                  tf_tcp_flags := RTE_TCP_ACK_FLAG OR RTE_TCP_PSH_FLAG,
                                  tf_windows := TCP_INITIAL_WINDOW, tf_hdrlen_off := 0x50,
                                  tf_data := Some (payload @ [0]), tf_length := of_nat len\<rparr>;
                            t \<leftarrow> enqueue_snd R (ts_ptr stream) fragment (st_tcp st);
                            Some (int (unat (tf_length fragment)), st\<lparr>st_tcp := t\<rparr>) }
                 | _ \<Rightarrow> None)
              else Some (0, st) }"

text \<open>The wait for a fragment, and the loop that moves the rest of a fragment to the front.\<close>

fun recv_loop :: "('r, ng_tcp_fragment) rte_ring \<Rightarrow> addr \<Rightarrow> ('r, 'u) stack list \<Rightarrow> ('r, 'u) stack \<Rightarrow>
    (ng_tcp_fragment \<times> ('r, 'u) stack) blocking option" where
  "recv_loop R p wakes st =
     do { stream \<leftarrow> tcb_get p (st_tcp st);
          rcvbuf \<leftarrow> ts_rcvbuf stream;
          case rte_dequeue R rcvbuf of
            Some (f, rcvbuf) \<Rightarrow>
              Some (Done (f, on_tcp (tcb_update p (\<lambda>s. s\<lparr>ts_rcvbuf := Some rcvbuf\<rparr>)) st))
          | None \<Rightarrow> (case wakes of [] \<Rightarrow> Some Blocked | st # wakes \<Rightarrow> recv_loop R p wakes st) }"

fun shift_loop :: "nat \<Rightarrow> nat \<Rightarrow> nat \<Rightarrow> bytes \<Rightarrow> bytes option" where
  "shift_loop i 0 len data = Some data"
| "shift_loop i (Suc k) len data =
     (if len + i < length data then shift_loop (i + 1) k len (data[i := data ! (len + i)]) else None)"

text \<open>\<open>nrecv\<close> returns the return value, the bytes it wrote to the buffer, and the state.\<close>

definition nrecv :: "('r, ng_tcp_fragment) rte_ring \<Rightarrow> int \<Rightarrow> nat \<Rightarrow> ('r, 'u) stack list \<Rightarrow> ('r, 'u) stack \<Rightarrow>
    (int \<times> bytes \<times> ('r, 'u) stack) blocking option" where
  "nrecv R sockfd len wakes st =
     do { hi \<leftarrow> get_hostinfo_fromfd sockfd st;
          case hi of
            None \<Rightarrow> Some (Done (- 1, [], st))
          | Some host \<Rightarrow>
              if host_protocol host = IPPROTO_TCP then
                (case host of
                   HostTcp stream \<Rightarrow>
                     do { r \<leftarrow> recv_loop R (ts_ptr stream) wakes st;
                          case r of
                            Blocked \<Rightarrow> Some Blocked
                          | Done (f, st) \<Rightarrow>
                              if unat (tf_length f) > len then
                                do { data \<leftarrow> tf_data f;
                                     out \<leftarrow> rd 0 len data;
                                     data \<leftarrow> shift_loop 0 (unat (tf_length f) - len) len data;
                                     let f = f\<lparr>tf_data := Some data, tf_length := tf_length f - of_nat len\<rparr>;
                                     t \<leftarrow> enqueue_rcv R (ts_ptr stream) f (st_tcp st);
                                     Some (Done (int (unat (tf_length f)), out, st\<lparr>st_tcp := t\<rparr>)) }
                              else if tf_length f = 0 then Some (Done (0, [], st))
                              else
                                do { data \<leftarrow> tf_data f;
                                     out \<leftarrow> rd 0 (unat (tf_length f)) data;
                                     Some (Done (int (unat (tf_length f)), out, st)) } }
                 | _ \<Rightarrow> None)
              else Some (Done (0, [], st)) }"

section \<open>UDP data\<close>

definition udp_push ::
  "('u, offload) rte_ring \<Rightarrow> offload \<Rightarrow> 'u option \<Rightarrow> 'u option" where
  "udp_push U dg r = map_option (ring_push U dg) r"

fun recvfrom_loop :: "('u, offload) rte_ring \<Rightarrow> addr \<Rightarrow> ('r, 'u) stack list \<Rightarrow> ('r, 'u) stack \<Rightarrow>
    (offload \<times> ('r, 'u) stack) blocking option" where
  "recvfrom_loop U p wakes st =
     do { host \<leftarrow> lh_get p st;
          rcvbuf \<leftarrow> lh_rcvbuf host;
          case rte_dequeue U rcvbuf of
            Some (dg, rcvbuf) \<Rightarrow> Some (Done (dg, lh_update p (\<lambda>h. h\<lparr>lh_rcvbuf := Some rcvbuf\<rparr>) st))
          | None \<Rightarrow> (case wakes of [] \<Rightarrow> Some Blocked | st # wakes \<Rightarrow> recvfrom_loop U p wakes st) }"

definition nrecvfrom :: "('u, offload) rte_ring \<Rightarrow> ('r, 'u) api_env \<Rightarrow> int \<Rightarrow> nat \<Rightarrow> ('r, 'u) stack list \<Rightarrow>
    ('r, 'u) stack \<Rightarrow> (int \<times> bytes \<times> sockaddr_in option \<times> ('r, 'u) stack) blocking option" where
  "nrecvfrom U env sockfd len wakes st =
     do { hi \<leftarrow> get_hostinfo_fromfd sockfd st;
          case hi of
            None \<Rightarrow> Some (Done (- 1, [], None, st))
          | Some (HostUdp h) \<Rightarrow>
              do { r \<leftarrow> recvfrom_loop U (lh_ptr h) wakes st;
                   case r of
                     Blocked \<Rightarrow> Some Blocked
                   | Done (dg, st) \<Rightarrow>
                       let saddr = \<lparr>sin_port = ol_sport dg, sin_addr = ol_sip dg\<rparr> in
                       if len < unat (ol_length dg) then
                         do { out \<leftarrow> rd 0 len (ol_data dg);
                              rest \<leftarrow> (if ae_alloc env 0 then rd len (unat (ol_length dg) - len) (ol_data dg)
                                       else None);
                              let dg = dg\<lparr>ol_length := ol_length dg - of_nat len,
                                          ol_data := rest @ ae_slack env\<rparr>;
                              host \<leftarrow> lh_get (lh_ptr h) st;
                              rcvbuf \<leftarrow> udp_push U dg (lh_rcvbuf host);
                              Some (Done (int len, out, Some saddr,
                                lh_update (lh_ptr h) (\<lambda>h. h\<lparr>lh_rcvbuf := Some rcvbuf\<rparr>) st)) }
                       else
                         do { out \<leftarrow> rd 0 (unat (ol_length dg)) (ol_data dg);
                              Some (Done (int (unat (ol_length dg)), out, Some saddr, st)) } }
          | Some _ \<Rightarrow> None }"

definition nsendto :: "('u, offload) rte_ring \<Rightarrow> ('r, 'u) api_env \<Rightarrow> int \<Rightarrow> bytes \<Rightarrow> nat \<Rightarrow> sockaddr_in \<Rightarrow>
    ('r, 'u) stack \<Rightarrow> (int \<times> ('r, 'u) stack) option" where
  "nsendto U env sockfd buf len daddr st =
     do { hi \<leftarrow> get_hostinfo_fromfd sockfd st;
          case hi of
            None \<Rightarrow> Some (- 1, st)
          | Some host \<Rightarrow>
              if \<not> ae_alloc env 0 then Some (- 1, st)
              else if \<not> ae_alloc env 1 then Some (- 1, st)
              else
                (case host of
                   HostUdp h \<Rightarrow>
                     do { payload \<leftarrow> rd 0 len buf;
                          let dg = \<lparr>ol_sip = lh_localip h, ol_dip = sin_addr daddr,
                                    ol_sport = lh_localport h, ol_dport = sin_port daddr,
                                    ol_data = payload @ ae_slack env, ol_length = of_nat len\<rparr>;
                          sndbuf \<leftarrow> udp_push U dg (lh_sndbuf h);
                          Some (int len, lh_update (lh_ptr h) (\<lambda>h. h\<lparr>lh_sndbuf := Some sndbuf\<rparr>) st) }
                 | _ \<Rightarrow> None) }"

declare accept_loop.simps [simp del] recv_loop.simps [simp del] recvfrom_loop.simps [simp del]

section \<open>Closing\<close>

text \<open>The \<open>FIN\<close> fragment is allocated without being cleared: \<open>ae_fragment\<close> gives the fields that
  are not assigned.\<close>

definition nclose :: "('r, ng_tcp_fragment) rte_ring \<Rightarrow> ('r, 'u) api_env \<Rightarrow> int \<Rightarrow> ('r, 'u) stack \<Rightarrow>
    (int \<times> ('r, 'u) stack) option" where
  "nclose R env fd st =
     do { hi \<leftarrow> get_hostinfo_fromfd fd st;
          case hi of
            None \<Rightarrow> Some (- 1, st)
          | Some host \<Rightarrow>
              if host_protocol host = IPPROTO_UDP then
                (case host of
                   HostUdp h \<Rightarrow>
                     do { (_, fds) \<leftarrow> set_fd_frombitmap fd (st_fds st);
                          Some (0, st\<lparr>st_lhost := filter (\<lambda>h'. lh_ptr h' \<noteq> lh_ptr h) (st_lhost st),
                                      st_fds := fds\<rparr>) }
                 | _ \<Rightarrow> None)
              else if host_protocol host = IPPROTO_TCP then
                (case host of
                   HostTcp stream \<Rightarrow>
                     if ts_status stream \<noteq> NG_TCP_STATUS_LISTEN then
                       if \<not> ae_alloc env 0 then Some (- 1, st)
                       else
                         do { let fragment = (ae_fragment env)\<lparr>tf_data := None, tf_length := 0,
                                    tf_sport := ts_dport stream, tf_dport := ts_sport stream,
                                    tf_seqnum := ts_snd_nxt stream, tf_acknum := ts_rcv_nxt stream,
                                    tf_tcp_flags := RTE_TCP_FIN_FLAG OR RTE_TCP_ACK_FLAG,
                                    tf_windows := TCP_INITIAL_WINDOW, tf_hdrlen_off := 0x50\<rparr>;
                              t \<leftarrow> enqueue_snd R (ts_ptr stream) fragment (st_tcp st);
                              let t = tcb_update (ts_ptr stream) (\<lambda>s. s\<lparr>ts_status := NG_TCP_STATUS_LAST_ACK\<rparr>) t;
                              (_, fds) \<leftarrow> set_fd_frombitmap fd (st_fds st);
                              Some (0, st\<lparr>st_tcp := t, st_fds := fds\<rparr>) }
                     else
                       Some (0, on_tcp (\<lambda>t. t\<lparr>tcb_set := filter (\<lambda>s. ts_ptr s \<noteq> ts_ptr stream) (tcb_set t)\<rparr>) st)
                 | _ \<Rightarrow> None)
              else Some (0, st) }"

section \<open>Event polling by descriptor\<close>

text \<open>The descriptor arguments of the epoll functions: the object is cast to an epoll object,
  whatever it is.\<close>

definition nepoll_create_fd :: "int \<Rightarrow> eventpoll option \<Rightarrow> int list \<Rightarrow> ('r, 'u) stack \<Rightarrow>
    (int \<times> ('r, 'u) stack) option" where
  "nepoll_create_fd sz raw inits st =
     do { (r, epr, fds) \<leftarrow> nepoll_create sz raw inits (tcp_ep (st_tcp st)) (st_fds st);
          Some (r, on_tcp (\<lambda>t. t\<lparr>tcp_ep := epr\<rparr>) (st\<lparr>st_fds := fds\<rparr>)) }"

definition nepoll_ctl_fd :: "int \<Rightarrow> epoll_op \<Rightarrow> int \<Rightarrow> epoll_event option \<Rightarrow> (addr \<times> epitem) option \<Rightarrow>
    ('r, 'u) stack \<Rightarrow> (int \<times> ('r, 'u) stack) option" where
  "nepoll_ctl_fd epfd opn sockid event raw st =
     do { hi \<leftarrow> get_hostinfo_fromfd epfd st;
          case hi of
            None \<Rightarrow> map_option (\<lambda>(r, _). (r, st)) (nepoll_ctl None opn sockid event raw)
          | Some (HostEp ep) \<Rightarrow>
              map_option (\<lambda>(r, epp). (r, on_tcp (\<lambda>t. t\<lparr>tcp_ep := EpAt (the epp)\<rparr>) st))
                (nepoll_ctl (Some ep) opn sockid event raw)
          | Some _ \<Rightarrow>
              if event = None \<and> opn \<noteq> EPOLL_CTL_DEL then Some (- 1, st)
              else if opn = EPOLL_CTL_OTHER then Some (0, st)
              else None }"

end
