(* ===== verification/Socket_Correct.thy ===== *)
theory Socket_Correct
  imports Socket_Api Tcp_Correct
begin

text \<open>
  The socket functions: the set-up of a server socket, accepting, sending and receiving on a
  connection, the way of the data from \<open>nsend\<close> on one host to \<open>nrecv\<close> on the other, and
  closing.
\<close>

section \<open>Descriptors of TCP sockets\<close>

definition tcp_sock :: "('r, 'u) stack \<Rightarrow> int \<Rightarrow> 'r ng_tcp_stream list \<Rightarrow> 'r ng_tcp_stream \<Rightarrow>
    'r ng_tcp_stream list \<Rightarrow> bool" where
  "tcp_sock st fd as s bs \<longleftrightarrow> fd \<notin> lh_fd ` set (st_lhost st) \<and> fd \<notin> ts_fd ` set as \<and> ts_fd s = fd \<and>
     ts_protocol s = IPPROTO_TCP \<and> tcb_at (st_tcp st) as s bs"

lemma find_not_image: "x \<notin> f ` set xs \<Longrightarrow> find (\<lambda>y. x = f y) xs = None"
  by (auto simp: find_None_iff)

lemma tcp_sock_lookup:
  assumes "tcp_sock st fd as s bs"
  shows "get_hostinfo_fromfd fd st = Some (Some (HostTcp s))" "host_protocol (HostTcp s) = IPPROTO_TCP"
  using assms find_not_image [of fd lh_fd "st_lhost st"] find_not_image [of fd ts_fd as]
  by (auto simp: tcp_sock_def get_hostinfo_fromfd_def tcb_at_def host_protocol_def find_append)

lemma tcp_sock_at: "tcp_sock st fd as s bs \<Longrightarrow> tcb_at (st_tcp st) as s bs"
  by (simp add: tcp_sock_def)

lemma tcp_sock_update:
  assumes "tcp_sock st fd as s bs" "tcb_at t' as s' bs" "same_conn s s'"
  shows "tcp_sock (st\<lparr>st_tcp := t'\<rparr>) fd as s' bs"
  using assms by (auto simp: tcp_sock_def same_conn_def)

section \<open>Receiving\<close>

lemma shift_loop_correct:
  assumes "i + k + len \<le> length data"
  shows "shift_loop i k len data = Some (take i data @ take k (drop (len + i) data) @ drop (i + k) data)"
  using assms
proof (induction k arbitrary: i data)
  case (Suc k)
  let ?d = "data[i := data ! (len + i)]"
  have "shift_loop (i + 1) k len ?d = Some (take (i + 1) ?d @ take k (drop (len + (i + 1)) ?d) @ drop (i + 1 + k) ?d)"
    using Suc.prems by (intro Suc.IH) simp
  moreover have "take (i + 1) ?d = take i data @ [data ! (len + i)]"
    using Suc.prems by (simp add: take_Suc_conv_app_nth)
  moreover have "drop (len + (i + 1)) ?d = drop (len + i + 1) data" "drop (i + 1 + k) ?d = drop (i + Suc k) data"
    by simp_all
  moreover have "data ! (len + i) # take k (drop (len + i + 1) data) = take (Suc k) (drop (len + i) data)"
    using Suc.prems by (simp add: Cons_nth_drop_Suc [symmetric])
  ultimately show ?case using Suc.prems by simp
qed simp

text \<open>The remainder of a fragment after \<open>len\<close> bytes were read from it.\<close>

definition frag_rest :: "nat \<Rightarrow> ng_tcp_fragment \<Rightarrow> ng_tcp_fragment \<Rightarrow> bool" where
  "frag_rest len f f' \<longleftrightarrow> f' = f\<lparr>tf_data := tf_data f', tf_length := tf_length f'\<rparr> \<and>
     unat (tf_length f') = unat (tf_length f) - len \<and> frag_payload f' = drop len (frag_payload f)"

lemma recv_loop_ready:
  assumes at: "tcb_at (st_tcp st) as s bs" and fifo: "ring_fifo R cap view"
    and rcv: "ts_rcvbuf s = Some rr" "view rr = f # fs"
  shows "\<exists>rr'. recv_loop R (ts_ptr s) wakes st =
      Some (Done (f, st\<lparr>st_tcp := tcb_update (ts_ptr s) (\<lambda>s. s\<lparr>ts_rcvbuf := Some rr'\<rparr>) (st_tcp st)\<rparr>)) \<and> view rr' = fs"
proof (cases rule: ring_dequeue_cases [OF fifo, of rr])
  case (2 f' rr')
  then have "rte_dequeue R rr = Some (f, rr')" "view rr' = fs" using rcv(2) by auto
  then show ?thesis using rcv(1) tcb_at_get [OF at] by (subst recv_loop.simps) auto
qed (use rcv(2) in simp)

lemma nrecv_correct:
  assumes sock: "tcp_sock st fd as s bs" and fifo: "ring_fifo R cap view"
    and rcv: "ts_rcvbuf s = Some rr" "view rr = f # fs" "length fs < cap"
    and f: "tf_data f = Some d" "unat (tf_length f) \<le> length d" "0 < tf_length f"
  shows "\<exists>st' s' rr'. tcp_sock st' fd as s' bs \<and> s' = s\<lparr>ts_rcvbuf := Some rr'\<rparr> \<and>
    (if unat (tf_length f) \<le> len
     then nrecv R fd len wakes st = Some (Done (int (unat (tf_length f)), frag_payload f, st')) \<and> view rr' = fs
     else nrecv R fd len wakes st =
            Some (Done (int (unat (tf_length f) - len), take len (frag_payload f), st')) \<and>
          (\<exists>f'. frag_rest len f f' \<and> view rr' = fs @ [f']))"
proof -
  note at = tcp_sock_at [OF sock]
  obtain rr1 where rr1: "recv_loop R (ts_ptr s) wakes st =
      Some (Done (f, st\<lparr>st_tcp := tcb_update (ts_ptr s) (\<lambda>s. s\<lparr>ts_rcvbuf := Some rr1\<rparr>) (st_tcp st)\<rparr>))" "view rr1 = fs"
    using recv_loop_ready [OF at fifo rcv(1,2)] by blast
  let ?t1 = "tcb_update (ts_ptr s) (\<lambda>s. s\<lparr>ts_rcvbuf := Some rr1\<rparr>) (st_tcp st)"
  have at1: "tcb_at ?t1 as (s\<lparr>ts_rcvbuf := Some rr1\<rparr>) bs"
    using tcb_at_update [OF at, of "\<lambda>s. s\<lparr>ts_rcvbuf := Some rr1\<rparr>"] by simp
  have pl: "frag_payload f = take (unat (tf_length f)) d" using f(1) by (simp add: frag_payload_def)
  show ?thesis
  proof (cases "unat (tf_length f) \<le> len")
    case True
    have "rd 0 (unat (tf_length f)) d = Some (frag_payload f)" using f(2) by (simp add: rd_def pl)
    moreover have "tf_length f \<noteq> 0" using f(3) by auto
    ultimately have "nrecv R fd len wakes st =
        Some (Done (int (unat (tf_length f)), frag_payload f, st\<lparr>st_tcp := ?t1\<rparr>))"
      using True rr1(1) f(1) by (simp add: nrecv_def tcp_sock_lookup [OF sock])
    moreover have "tcp_sock (st\<lparr>st_tcp := ?t1\<rparr>) fd as (s\<lparr>ts_rcvbuf := Some rr1\<rparr>) bs"
      by (rule tcp_sock_update [OF sock at1]) (simp add: same_conn_def)
    ultimately show ?thesis using True rr1(2) by fastforce
  next
    case False
    let ?n = "unat (tf_length f)"
    let ?d = "take (?n - len) (drop len d) @ drop (?n - len) d"
    let ?f = "f\<lparr>tf_data := Some ?d, tf_length := tf_length f - of_nat len\<rparr>"
    have lt: "len < 2 ^ 32" using False unsigned_less [of "tf_length f", where 'a = nat] by simp
    have "unat (of_nat len :: u32) = len" using lt by (simp add: unat_of_nat take_bit_eq_mod)
    then have n: "unat (tf_length f - of_nat len) = ?n - len"
      using False by (subst unat_sub) (simp_all add: word_le_nat_alt)
    have u: "int (unat (tf_length f - of_nat len)) = int (?n - len)" by (simp only: n)
    have out: "rd 0 len d = Some (take len (frag_payload f))"
      using False f(2) by (simp add: rd_def pl min_def)
    have sh: "shift_loop 0 (?n - len) len d = Some ?d"
      using shift_loop_correct [of 0 "?n - len" len d] False f(2) by simp
    have rest: "frag_rest len f ?f"
      using f(2) False n by (simp add: frag_rest_def frag_payload_def f(1) drop_take)
    let ?rr = "ring_push R ?f rr1"
    let ?t2 = "tcb_update (ts_ptr s) (\<lambda>s. s\<lparr>ts_rcvbuf := Some ?rr\<rparr>) ?t1"
    have enq: "enqueue_rcv R (ts_ptr s) ?f ?t1 = Some ?t2"
      using enqueue_rcv_at [OF at1, of R ?f] by simp
    have at2: "tcb_at ?t2 as (s\<lparr>ts_rcvbuf := Some ?rr\<rparr>) bs"
      using tcb_at_update [OF at1, of "\<lambda>s. s\<lparr>ts_rcvbuf := Some ?rr\<rparr>"] by simp
    have "nrecv R fd len wakes st =
        Some (Done (int (?n - len), take len (frag_payload f), st\<lparr>st_tcp := ?t2\<rparr>))"
      using False rr1(1) f(1) out sh enq
      by (simp add: nrecv_def tcp_sock_lookup [OF sock] Let_def del: of_nat_unat) (simp only: u)
    moreover have "tcp_sock (st\<lparr>st_tcp := ?t2\<rparr>) fd as (s\<lparr>ts_rcvbuf := Some ?rr\<rparr>) bs"
      by (rule tcp_sock_update [OF sock at2]) (simp add: same_conn_def)
    moreover have "view ?rr = fs @ [?f]" using ring_push_view [OF fifo, of rr1 ?f] rr1(2) rcv(3) by simp
    ultimately show ?thesis using False rest by fastforce
  qed
qed

text \<open>C15: \<open>nrecv\<close> on a connection with a fragment waiting copies the first bytes of the oldest
  fragment. When the fragment fits, it is taken off the ring and its length is returned.
  When it does not fit, \<open>nrecv\<close> returns the number of bytes that are left and not the
  number it copied, and it puts the rest of the fragment behind the fragments that
  arrived later, so the next bytes it delivers can be out of order.\<close>

theorem nrecv_result:
  assumes "tcp_sock st fd as s bs" "ring_fifo R cap view"
    and "ts_rcvbuf s = Some rr" "view rr = f # fs" "length fs < cap"
    and "tf_data f = Some d" "unat (tf_length f) \<le> length d" "0 < tf_length f"
  shows "\<exists>st' s' rr'. tcp_sock st' fd as s' bs \<and> s' = s\<lparr>ts_rcvbuf := Some rr'\<rparr> \<and>
    (if unat (tf_length f) \<le> len
     then nrecv R fd len wakes st = Some (Done (int (unat (tf_length f)), frag_payload f, st')) \<and> view rr' = fs
     else nrecv R fd len wakes st =
            Some (Done (int (unat (tf_length f) - len), take len (frag_payload f), st')) \<and>
          (\<exists>f'. frag_rest len f f' \<and> view rr' = fs @ [f']))"
  by (rule nrecv_correct [OF assms])

section \<open>Setting up a server\<close>

text \<open>Descriptors that are in use by a socket or a listening or accepted connection are marked in
  the bitmap.\<close>

definition fds_marked :: "('r, 'u) stack \<Rightarrow> bool" where
  "fds_marked st \<longleftrightarrow> fd_wf (st_fds st) \<and>
     (\<forall>fd\<in>lh_fd ` set (st_lhost st) \<union> ts_fd ` set (tcb_set (st_tcp st)). fd < 0 \<or> nat fd \<in> fd_used (st_fds st))"

definition new_tcb :: "addr \<Rightarrow> int \<Rightarrow> 'r \<Rightarrow> 'r \<Rightarrow> 'r ng_tcp_stream" where
  "new_tcb p fd sndb rcvb = \<lparr>ts_ptr = p, ts_fd = fd, ts_dip = 0, ts_localmac = replicate 6 0, ts_dport = 0,
     ts_protocol = IPPROTO_TCP, ts_sport = 0, ts_sip = 0, ts_snd_nxt = 0, ts_rcv_nxt = 0,
     ts_status = NG_TCP_STATUS_CLOSED, ts_sndbuf = Some sndb, ts_rcvbuf = Some rcvb\<rparr>"

lemma nsocket_stream:
  assumes "fds_marked st" "\<not> fd_range \<subseteq> fd_used (st_fds st)"
    and env: "ae_obj env = Some p" "ae_rcv_t env = Some rcvb" "ae_snd_t env = Some sndb"
      "p \<notin> ts_ptr ` set (tcb_set (st_tcp st))"
  obtains n st1 where "n \<in> fd_range" "n \<notin> fd_used (st_fds st)" "nsocket env SOCK_STREAM st = (int n, st1)"
    "fd_wf (st_fds st1)" "fd_used (st_fds st1) = insert n (fd_used (st_fds st))" "st_lhost st1 = st_lhost st"
    "tcp_sock st1 (int n) [] (new_tcb p (int n) sndb rcvb) (tcb_set (st_tcp st))" "tcp_ep (st_tcp st1) = tcp_ep (st_tcp st)"
proof -
  have wf: "fd_wf (st_fds st)" using assms(1) by (simp add: fds_marked_def)
  obtain fd fds where g: "get_fd_frombitmap (st_fds st) = (fd, fds)" by fastforce
  show thesis
  proof (cases rule: fds.get_result [OF wf g])
    case (1 n)
    have "int n \<notin> lh_fd ` set (st_lhost st)" 
      using assms(1) 1(3) unfolding fds_marked_def by (metis UnI1 nat_int of_nat_less_0_iff)
    then show thesis
      using that [of n "snd (nsocket env SOCK_STREAM st)"] 1 g env
      by (simp add: nsocket_def tcp_sock_def tcb_at_def new_tcb_def)
  qed (use assms(2) in simp)
qed

text \<open>C14: \<open>nsocket\<close>, \<open>nbind\<close> and \<open>nlisten\<close> in a row give a descriptor that was free and a listening
  control block for the port, which the demultiplexer finds for every packet to this port
  that belongs to no existing connection.\<close>

theorem server_socket_listens:
  assumes marked: "fds_marked st" "\<not> fd_range \<subseteq> fd_used (st_fds st)"
    and env: "ae_obj env = Some p" "ae_rcv_t env = Some rcvb" "ae_snd_t env = Some sndb"
      "p \<notin> ts_ptr ` set (tcb_set (st_tcp st))"
  shows "\<exists>n st1 st2 st3 l. n \<in> fd_range \<and> n \<notin> fd_used (st_fds st) \<and>
     nsocket env SOCK_STREAM st = (int n, st1) \<and> nbind env (int n) addr st1 = Some (0, st2) \<and>
     nlisten (int n) st2 = Some (0, st3) \<and> tcp_sock st3 (int n) [] l (tcb_set (st_tcp st)) \<and>
     ts_status l = NG_TCP_STATUS_LISTEN \<and> ts_dport l = sin_port addr \<and> ts_dip l = sin_addr addr \<and>
     fd_used (st_fds st3) = insert n (fd_used (st_fds st)) \<and>
     (\<forall>sip dip sport.
        (\<forall>s\<in>set (tcb_set (st_tcp st)). (ts_sip s, ts_dip s, ts_sport s, ts_dport s) \<noteq> (sip, dip, sport, sin_port addr)) \<longrightarrow>
        ng_tcp_stream_search sip dip sport (sin_port addr) (st_tcp st3) = Some l)"
proof -
  obtain n st1 where n: "n \<in> fd_range" "n \<notin> fd_used (st_fds st)" "nsocket env SOCK_STREAM st = (int n, st1)"
    "fd_used (st_fds st1) = insert n (fd_used (st_fds st))"
    and sock: "tcp_sock st1 (int n) [] (new_tcb p (int n) sndb rcvb) (tcb_set (st_tcp st))"
    using nsocket_stream [OF assms] by metis
  let ?s = "new_tcb p (int n) sndb rcvb" and ?ss = "tcb_set (st_tcp st)"
  have p: "ts_ptr ?s = p" by (simp add: new_tcb_def)
  define f where "f = (\<lambda>s :: 'a ng_tcp_stream. s\<lparr>ts_dport := sin_port addr, ts_dip := sin_addr addr,
      ts_localmac := ae_srcmac env, ts_status := NG_TCP_STATUS_CLOSED\<rparr>)"
  let ?t2 = "tcb_update p f (st_tcp st1)" and ?st2 = "st1\<lparr>st_tcp := tcb_update p f (st_tcp st1)\<rparr>"
  have at2: "tcb_at ?t2 [] (f ?s) ?ss"
    using tcb_at_update [OF tcp_sock_at [OF sock], of f] by (simp add: p f_def)
  have bind: "nbind env (int n) addr st1 = Some (0, ?st2)"
    by (simp add: nbind_def f_def tcp_sock_lookup [OF sock] p)
  have sock2: "tcp_sock ?st2 (int n) [] (f ?s) ?ss"
    using sock at2 by (simp add: tcp_sock_def f_def new_tcb_def)
  define l where "l = (f ?s)\<lparr>ts_status := NG_TCP_STATUS_LISTEN\<rparr>"
  let ?t3 = "tcb_update p (\<lambda>s. s\<lparr>ts_status := NG_TCP_STATUS_LISTEN\<rparr>) ?t2"
  let ?st3 = "?st2\<lparr>st_tcp := ?t3\<rparr>"
  have at3: "tcb_at ?t3 [] l ?ss"
    using tcb_at_update [OF at2, of "\<lambda>s. s\<lparr>ts_status := NG_TCP_STATUS_LISTEN\<rparr>"]
    by (simp add: l_def f_def p)
  have listen: "nlisten (int n) ?st2 = Some (0, ?st3)"
    by (simp add: nlisten_def tcp_sock_lookup [OF sock2]) (simp add: f_def p)
  have sock3: "tcp_sock ?st3 (int n) [] l ?ss"
    using sock2 at3 by (simp add: tcp_sock_def l_def)
  have "tcb_set ?t3 = l # ?ss" using at3 by (simp add: tcb_at_def)
  then have search: "ng_tcp_stream_search sip dip sport (sin_port addr) ?t3 = Some l"
    if "\<forall>s\<in>set ?ss. (ts_sip s, ts_dip s, ts_sport s, ts_dport s) \<noteq> (sip, dip, sport, sin_port addr)" for sip dip sport
  proof -
    have "find (\<lambda>s. ts_sip s = sip \<and> ts_dip s = dip \<and> ts_sport s = sport \<and> ts_dport s = sin_port addr) ?ss = None"
      using that by (auto simp: find_None_iff)
    then show ?thesis using \<open>tcb_set ?t3 = l # ?ss\<close>
      by (simp add: ng_tcp_stream_search_def l_def f_def)
  qed
  show ?thesis
    using n bind listen sock3 search
    by (intro exI [of _ n] exI [of _ st1] exI [of _ ?st2] exI [of _ ?st3] exI [of _ l])
      (simp add: l_def f_def)
qed

section \<open>Accepting\<close>

lemma naccept_correct:
  assumes sock: "tcp_sock st fd as l bs" and apt: "get_accept_tcb (ts_dport l) (st_tcp st) = Some apt"
    and fds: "fd_wf (st_fds st)" "\<not> fd_range \<subseteq> fd_used (st_fds st)"
  shows "\<exists>n fds'. n \<in> fd_range \<and> n \<notin> fd_used (st_fds st) \<and> (\<forall>m\<in>fd_range. m < n \<longrightarrow> m \<in> fd_used (st_fds st)) \<and>
    naccept fd wakes st = Some (Done (int n, Some \<lparr>sin_port = ts_sport apt, sin_addr = ts_sip apt\<rparr>,
      on_tcp (tcb_update (ts_ptr apt) (\<lambda>s. s\<lparr>ts_fd := int n\<rparr>)) (st\<lparr>st_fds := fds'\<rparr>))) \<and>
    fd_wf fds' \<and> fd_used fds' = insert n (fd_used (st_fds st))"
proof -
  obtain f fds' where g: "get_fd_frombitmap (st_fds st) = (f, fds')" by fastforce
  have "accept_loop (ts_ptr l) wakes st = Some (Done (apt, st))"
    using apt tcb_at_get [OF tcp_sock_at [OF sock]] by (subst accept_loop.simps) simp
  then show ?thesis
    using fds.get_law [OF fds(1) g] fds(2) g
    by (auto simp: naccept_def tcp_sock_lookup [OF sock])
qed

lemma find_acceptable: "get_accept_tcb p t = Some s \<Longrightarrow> s \<in> set (tcb_set t) \<and> ts_fd s = - 1 \<and> ts_dport s = p"
  by (auto simp: get_accept_tcb_def find_Some_iff)

text \<open>\<open>naccept\<close> does not wait for the handshake. As soon as the \<open>SYN\<close> of a peer was processed,
  it returns a new descriptor for the half-open connection, with the address of the peer.\<close>

theorem naccept_returns_half_open:
  assumes sock: "tcp_sock st fd as l bs" "0 \<le> fd" and wf: "tcb_wf (st_tcp st)"
    and seg: "tcp_segment uck m ip h (st_tcp st) l"
    and st: "ts_status l = NG_TCP_STATUS_LISTEN" and flags: "tcp_flag h RTE_TCP_SYN_FLAG"
    and env: "te_stream env = Some raw" "ts_ptr raw \<notin> ts_ptr ` set (tcb_set (st_tcp st))" "te_alloc env 0"
      "te_sndbuf env = Some rs" "te_rcvbuf env = Some rr"
    and rings: "ring_fifo R cap view" "length (view rs) < cap"
    and fds: "fd_wf (st_fds st)" "\<not> fd_range \<subseteq> fd_used (st_fds st)"
  shows "\<exists>t' n st' apt. ng_tcp_process uck R env m (st_tcp st) = Some (0, t') \<and>
    naccept fd wakes (st\<lparr>st_tcp := t'\<rparr>) =
      Some (Done (int n, Some \<lparr>sin_port = th_sport h, sin_addr = ip_src ip\<rparr>, st')) \<and>
    n \<in> fd_range \<and> n \<notin> fd_used (st_fds st) \<and>
    tcb_set (st_tcp st') = apt # tcb_set (st_tcp st) \<and> ts_fd apt = int n \<and>
    ts_status apt = NG_TCP_STATUS_SYN_RCVD"
proof -
  obtain t' syn where t': "ng_tcp_process uck R env m (st_tcp st) = Some (0, t')"
      "tcb_set t' = syn # tcb_set (st_tcp st)" "tcb_wf t'" "ts_status syn = NG_TCP_STATUS_SYN_RCVD"
      "ts_fd syn = - 1" "ts_sip syn = ip_src ip" "ts_sport syn = th_sport h" "ts_dport syn = th_dport h"
    using syn_opened [OF wf seg st flags env rings] by blast
  let ?st = "st\<lparr>st_tcp := t'\<rparr>"
  have dp: "th_dport h = ts_dport l" using seg search_dport by (metis tcp_segment_def)
  have "tcb_at t' (syn # as) l bs"
    using t'(2,3) tcp_sock_at [OF sock(1)] by (auto simp: tcb_at_def tcb_wf_def)
  then have sock': "tcp_sock ?st fd (syn # as) l bs" using sock t'(5) by (simp add: tcp_sock_def)
  have apt: "get_accept_tcb (ts_dport l) (st_tcp ?st) = Some syn"
    using t'(2,5,8) dp by (simp add: get_accept_tcb_def)
  have fds': "fd_wf (st_fds ?st)" "\<not> fd_range \<subseteq> fd_used (st_fds ?st)" using fds by simp_all
  obtain n fds' where n: "n \<in> fd_range" "n \<notin> fd_used (st_fds st)"
    "naccept fd wakes ?st = Some (Done (int n, Some \<lparr>sin_port = ts_sport syn, sin_addr = ts_sip syn\<rparr>,
       on_tcp (tcb_update (ts_ptr syn) (\<lambda>s. s\<lparr>ts_fd := int n\<rparr>)) (?st\<lparr>st_fds := fds'\<rparr>)))"
    using naccept_correct [OF sock' apt fds', of wakes] by auto
  have "tcb_at t' [] syn (tcb_set (st_tcp st))" using t'(2,3) by (auto simp: tcb_at_def tcb_wf_def)
  from tcb_at_update [OF this, of "\<lambda>s. s\<lparr>ts_fd := int n\<rparr>"]
  have "tcb_set (tcb_update (ts_ptr syn) (\<lambda>s. s\<lparr>ts_fd := int n\<rparr>) t') = syn\<lparr>ts_fd := int n\<rparr> # tcb_set (st_tcp st)"
    by (simp add: tcb_at_def)
  then show ?thesis using t' n
    by (intro exI [of _ t'] exI [of _ n] exI [of _ "syn\<lparr>ts_fd := int n\<rparr>"]
        exI [of _ "on_tcp (tcb_update (ts_ptr syn) (\<lambda>s. s\<lparr>ts_fd := int n\<rparr>)) (?st\<lparr>st_fds := fds'\<rparr>)"] conjI) simp_all
qed

section \<open>Closing\<close>

definition fin_frag :: "ng_tcp_fragment \<Rightarrow> 'r ng_tcp_stream \<Rightarrow> ng_tcp_fragment" where
  "fin_frag raw s = raw\<lparr>tf_data := None, tf_length := 0, tf_sport := ts_dport s, tf_dport := ts_sport s,
     tf_seqnum := ts_snd_nxt s, tf_acknum := ts_rcv_nxt s, tf_tcp_flags := 0x11,
     tf_windows := TCP_INITIAL_WINDOW, tf_hdrlen_off := 0x50\<rparr>"

lemma nclose_correct:
  assumes sock: "tcp_sock st (int n) as a bs" and st: "ts_status a \<noteq> NG_TCP_STATUS_LISTEN"
    and n: "n \<in> fd_range" "fd_wf (st_fds st)" and env: "ae_alloc env 0" and snd: "ts_sndbuf a = Some r"
  shows "\<exists>t' fds'. nclose R env (int n) st = Some (0, st\<lparr>st_tcp := t', st_fds := fds'\<rparr>) \<and>
    set_fd_frombitmap (int n) (st_fds st) = Some (0, fds') \<and>
    tcb_at t' as (a\<lparr>ts_sndbuf := Some (ring_push R (fin_frag (ae_fragment env) a) r),
                    ts_status := NG_TCP_STATUS_LAST_ACK\<rparr>) bs \<and> tcp_ep t' = tcp_ep (st_tcp st)"
proof -
  let ?f = "fin_frag (ae_fragment env) a"
  have f: "(ae_fragment env)\<lparr>tf_data := None, tf_length := 0,
      tf_sport := ts_dport a, tf_dport := ts_sport a, tf_seqnum := ts_snd_nxt a,
      tf_acknum := ts_rcv_nxt a, tf_tcp_flags := RTE_TCP_FIN_FLAG OR RTE_TCP_ACK_FLAG,
      tf_windows := TCP_INITIAL_WINDOW, tf_hdrlen_off := 0x50\<rparr> = ?f"
    by (simp add: fin_frag_def RTE_TCP_FIN_FLAG_def RTE_TCP_ACK_FLAG_def)
  note at = tcp_sock_at [OF sock]
  let ?t1 = "tcb_update (ts_ptr a) (\<lambda>s. s\<lparr>ts_sndbuf := Some (ring_push R ?f r)\<rparr>) (st_tcp st)"
  let ?t2 = "tcb_update (ts_ptr a) (\<lambda>s. s\<lparr>ts_status := NG_TCP_STATUS_LAST_ACK\<rparr>) ?t1"
  have at1: "tcb_at ?t1 as (a\<lparr>ts_sndbuf := Some (ring_push R ?f r)\<rparr>) bs"
    using tcb_at_update [OF at, of "\<lambda>s. s\<lparr>ts_sndbuf := Some (ring_push R ?f r)\<rparr>"] by simp
  have at2: "tcb_at ?t2 as (a\<lparr>ts_sndbuf := Some (ring_push R ?f r), ts_status := NG_TCP_STATUS_LAST_ACK\<rparr>) bs"
    using tcb_at_update [OF at1, of "\<lambda>s. s\<lparr>ts_status := NG_TCP_STATUS_LAST_ACK\<rparr>"] by simp
  obtain fds' where p: "set_fd_frombitmap (int n) (st_fds st) = Some (0, fds')"
    using fds.put_law [OF n(2,1)] by blast
  have enq: "enqueue_snd R (ts_ptr a) ?f (st_tcp st) = Some ?t1"
    using enqueue_snd_at [OF at, of R ?f] snd by simp
  have "nclose R env (int n) st = Some (0, st\<lparr>st_tcp := ?t2, st_fds := fds'\<rparr>)"
    using st env p enq by (simp add: nclose_def tcp_sock_lookup [OF sock] Let_def f)
  then show ?thesis using at2 p by (intro exI [of _ ?t2] exI [of _ fds']) simp
qed

text \<open>A change of one control block, seen from another one.\<close>

lemma tcb_at_other:
  assumes "tcb_at t as a bs" "tcb_at t' as a' bs" "ts_ptr a' = ts_ptr a"
    and "tcb_at t cs l ds" "ts_ptr l \<noteq> ts_ptr a"
    and g: "g = (\<lambda>s. if ts_ptr s = ts_ptr a then a' else s)"
  shows "tcb_set t' = map g (tcb_set t)" "tcb_at t' (map g cs) l (map g ds)"
proof -
  have id: "map g xs = xs" if "ts_ptr a \<notin> ts_ptr ` set xs" for xs
    using that unfolding g by (induction xs) auto
  show set: "tcb_set t' = map g (tcb_set t)"
  proof -
    have "map g as = as" "map g bs = bs" using assms(1) by (auto simp: tcb_at_def image_Un intro!: id)
    moreover have "g a = a'" by (simp add: g)
    ultimately show ?thesis using assms(1,2) by (simp add: tcb_at_def)
  qed
  have ptr: "ts_ptr (g s) = ts_ptr s" for s using assms(3) by (simp add: g)
  have "g l = l" using assms(5) by (simp add: g)
  moreover have "ts_ptr ` g ` X = ts_ptr ` X" for X by (simp add: image_image ptr)
  ultimately show "tcb_at t' (map g cs) l (map g ds)"
    using assms(4) set by (auto simp: tcb_at_def image_image ptr)
qed

lemma find_map_same:
  "\<forall>x\<in>set xs. P (g x) = P x \<Longrightarrow> find P (map g xs) = map_option g (find P xs)"
  by (induction xs) auto

text \<open>\<open>nclose\<close> on a connection sends a \<open>FIN\<close> and waits for the last acknowledgement, but gives
  the descriptor back at once while the control block keeps it. When a connection that is
  older is accepted next, it gets the same descriptor, and the descriptor still denotes the
  closed connection.\<close>

theorem nclose_descriptor_reused:
  assumes sock: "tcp_sock st (int n) as a bs" and st: "ts_status a \<noteq> NG_TCP_STATUS_LISTEN"
    and wf: "tcb_wf (st_tcp st)"
    and n: "n \<in> fd_range" "\<forall>m\<in>fd_range. m < n \<longrightarrow> m \<in> fd_used (st_fds st)" "fd_wf (st_fds st)"
    and env: "ae_alloc env 0" and snd: "ts_sndbuf a = Some r"
    and listener: "tcp_sock st lfd cs l ds" "ts_ptr l \<noteq> ts_ptr a"
    and pending: "get_accept_tcb (ts_dport l) (st_tcp st) = Some b" "b \<in> set bs"
  shows "\<exists>st1 st2 a' b'. nclose R env (int n) st = Some (0, st1) \<and>
    naccept lfd wakes st1 = Some (Done (int n, Some \<lparr>sin_port = ts_sport b, sin_addr = ts_sip b\<rparr>, st2)) \<and>
    get_hostinfo_fromfd (int n) st2 = Some (Some (HostTcp a')) \<and>
    ts_ptr a' = ts_ptr a \<and> ts_status a' = NG_TCP_STATUS_LAST_ACK \<and>
    b' \<in> set (tcb_set (st_tcp st2)) \<and> ts_ptr b' = ts_ptr b \<and> ts_ptr b \<noteq> ts_ptr a \<and> ts_fd b' = int n"
proof -
  define a' where "a' = a\<lparr>ts_sndbuf := Some (ring_push R (fin_frag (ae_fragment env) a) r),
      ts_status := NG_TCP_STATUS_LAST_ACK\<rparr>"
  have a': "ts_ptr a' = ts_ptr a" "ts_fd a' = ts_fd a" "ts_dport a' = ts_dport a"
    "ts_status a' = NG_TCP_STATUS_LAST_ACK" by (simp_all add: a'_def)
  obtain t' fds' where close: "nclose R env (int n) st = Some (0, st\<lparr>st_tcp := t', st_fds := fds'\<rparr>)"
      "set_fd_frombitmap (int n) (st_fds st) = Some (0, fds')" and at': "tcb_at t' as a' bs"
    unfolding a'_def using nclose_correct [OF sock st n(1,3) env snd, of R] by blast
  let ?st1 = "st\<lparr>st_tcp := t', st_fds := fds'\<rparr>"
  have fds': "fd_wf fds'" "fd_used fds' = fd_used (st_fds st) - {n}"
    using fds.put_law [OF n(3,1)] close(2) by auto
  note at = tcp_sock_at [OF sock]
  define g where "g = (\<lambda>s. if ts_ptr s = ts_ptr a then a' else s)"
  note other = tcb_at_other [OF at at' a'(1) tcp_sock_at [OF listener(1)] listener(2) g_def]
  have uniq: "s = a" if "s \<in> set (tcb_set (st_tcp st))" "ts_ptr s = ts_ptr a" for s
    using that at unfolding tcb_at_def by (auto) (metis UnCI image_eqI)+
  have keep: "ts_fd (g s) = ts_fd s" if "s \<in> set (tcb_set (st_tcp st))" for s
    using uniq [OF that] a'(2) by (auto simp: g_def)
  have "set cs \<subseteq> set (tcb_set (st_tcp st))" using tcp_sock_at [OF listener(1)] by (auto simp: tcb_at_def)
  then have "ts_fd ` g ` set cs = ts_fd ` set cs" using keep by (force simp: image_image)
  then have sock1: "tcp_sock ?st1 lfd (map g cs) l (map g ds)"
    using listener(1) other(2) by (simp add: tcp_sock_def)
  have b: "b \<in> set (tcb_set (st_tcp st))" "ts_fd b = - 1" "ts_dport b = ts_dport l"
    using find_acceptable [OF pending(1)] by auto
  have ptrs: "ts_ptr ` set as \<inter> ts_ptr ` set bs = {}" "ts_ptr a \<notin> ts_ptr ` set bs"
    using wf at by (auto simp: tcb_wf_def tcb_at_def)
  then have ab: "ts_ptr b \<noteq> ts_ptr a" using pending(2) by (metis image_eqI)
  have fda: "ts_fd a = int n" using sock by (simp add: tcp_sock_def)
  have "(ts_dport l = ts_dport (g s) \<and> ts_fd (g s) = - 1) = (ts_dport l = ts_dport s \<and> ts_fd s = - 1)"
    if "s \<in> set (tcb_set (st_tcp st))" for s
    using uniq [OF that] fda a' by (auto simp: g_def)
  then have "get_accept_tcb (ts_dport l) t' = map_option g (get_accept_tcb (ts_dport l) (st_tcp st))"
    unfolding get_accept_tcb_def other(1) by (intro find_map_same) blast
  then have acc1: "get_accept_tcb (ts_dport l) (st_tcp ?st1) = Some b"
    using pending(1) ab by (simp add: g_def)
  have free: "fd_wf (st_fds ?st1)" "\<not> fd_range \<subseteq> fd_used (st_fds ?st1)" using fds' n(1) by auto
  obtain k fds2 where k: "k \<in> fd_range" "k \<notin> fd_used fds'" "\<forall>m\<in>fd_range. m < k \<longrightarrow> m \<in> fd_used fds'"
    "naccept lfd wakes ?st1 = Some (Done (int k, Some \<lparr>sin_port = ts_sport b, sin_addr = ts_sip b\<rparr>,
       on_tcp (tcb_update (ts_ptr b) (\<lambda>s. s\<lparr>ts_fd := int k\<rparr>)) (?st1\<lparr>st_fds := fds2\<rparr>)))"
    using naccept_correct [OF sock1 acc1 free, of wakes] by auto
  have kn: "k = n"
    using k(1-3) n fds'(2) by (metis DiffD2 DiffI insertI1 linorder_neqE_nat singletonD)
  let ?h = "\<lambda>s. if ts_ptr s = ts_ptr b then s\<lparr>ts_fd := int n\<rparr> else s"
  let ?st2 = "on_tcp (tcb_update (ts_ptr b) (\<lambda>s. s\<lparr>ts_fd := int n\<rparr>)) (?st1\<lparr>st_fds := fds2\<rparr>)"
  have "ts_ptr b \<notin> ts_ptr ` set as" using ptrs pending(2) by auto
  then have "map ?h as = as" by (induction as) auto
  then have set2: "tcb_set (st_tcp ?st2) = as @ a' # map ?h bs"
    using at' ab a'(1) by (simp add: tcb_update_def tcb_at_def)
  have host: "get_hostinfo_fromfd (int n) ?st2 = Some (Some (HostTcp a'))"
    using sock set2 a'(2) find_not_image [of "int n" lh_fd "st_lhost st"] find_not_image [of "int n" ts_fd as]
    by (simp add: get_hostinfo_fromfd_def tcp_sock_def find_append)
  have "?h b \<in> set (tcb_set (st_tcp ?st2))" using set2 pending(2) by auto
  then show ?thesis using close(1) k(4) kn host a' ab
    by (intro exI [of _ ?st1] exI [of _ ?st2] exI [of _ a'] exI [of _ "?h b"] conjI) simp_all
qed

section \<open>Leaks\<close>

text \<open>A sequence of \<open>nsocket\<close> calls.\<close>

fun nsockets :: "(('r, 'u) api_env \<times> sock_type) list \<Rightarrow> ('r, 'u) stack \<Rightarrow> ('r, 'u) stack" where
  "nsockets [] st = st"
| "nsockets ((env, type) # calls) st = nsockets calls (snd (nsocket env type st))"

lemma nsocket_fails:
  "type = SOCK_OTHER \<or> ae_obj env = None \<Longrightarrow>
    snd (nsocket env type st) = st\<lparr>st_fds := snd (get_fd_frombitmap (st_fds st))\<rparr>"
  by (cases type) (auto simp: nsocket_def split: prod.splits option.splits)

lemma nsockets_fail:
  "\<forall>(env, type)\<in>set calls. type = SOCK_OTHER \<or> ae_obj env = None \<Longrightarrow>
    nsockets calls st = st\<lparr>st_fds := snd (fds.gets (length calls) (st_fds st))\<rparr>"
proof (induction calls arbitrary: st)
  case (Cons c calls)
  obtain env type where c: "c = (env, type)" by (cases c)
  show ?case using Cons nsocket_fails [of type env st] by (auto simp: c split: prod.splits)
qed simp

text \<open>an \<open>nsocket\<close> call that fails for lack of memory, or that was asked for another kind of
  socket, keeps the descriptor it took: after 1021 such calls no socket exists that did not
  exist before, and every further call gets the descriptor -1.\<close>

theorem nsocket_leaks_descriptors:
  assumes "fd_wf (st_fds st)" and "\<forall>(env, type)\<in>set calls. type = SOCK_OTHER \<or> ae_obj env = None"
    and "1021 \<le> length calls"
  shows "st_lhost (nsockets calls st) = st_lhost st \<and> st_tcp (nsockets calls st) = st_tcp st \<and>
    fst (nsocket env type (nsockets calls st)) = - 1"
proof -
  let ?t = "snd (fds.gets (length calls) (st_fds st))"
  have "card (fd_range - fd_used (st_fds st)) \<le> card fd_range" by (rule card_mono) (auto simp: fd_range_def)
  also have "\<dots> = 1021" by (simp add: fd_range_def DEFAULT_FD_NUM_def MAX_FD_COUNT_def)
  finally have "fd_range \<subseteq> fd_used ?t"
    using fds.gets_exhaust [OF _ assms(1), of "length calls"] assms(3) by (simp add: fd_range_def)
  moreover have "fd_wf ?t" using fds.gets_fresh [OF assms(1)] by (metis prod.collapse)
  ultimately have "fst (get_fd_frombitmap ?t) = - 1"
    using fds.get_law [of ?t "fst (get_fd_frombitmap ?t)" "snd (get_fd_frombitmap ?t)"] by auto
  then have "fst (nsocket env type (st\<lparr>st_fds := ?t\<rparr>)) = - 1"
    by (cases type) (auto simp: nsocket_def Let_def split: prod.splits option.splits)
  then show ?thesis by (simp add: nsockets_fail [OF assms(2)])
qed

section \<open>Witnesses\<close>

definition ex_api :: "(ng_tcp_fragment list, offload list) api_env" where
  "ex_api = \<lparr>ae_obj = Some 400, ae_rcv_u = Some [], ae_snd_u = Some [], ae_rcv_t = Some [], ae_snd_t = Some [],
     ae_alloc = (\<lambda>_. True), ae_srcmac = replicate 6 9, ae_slack = replicate 8 0xAA, ae_fragment = frag_zero\<rparr>"

definition ex_stack :: "ng_tcp_fragment list ng_tcp_stream list \<Rightarrow> (ng_tcp_fragment list, offload list) stack" where
  "ex_stack ss = \<lparr>st_lhost = [], st_tcp = ex_table ss ep_new, st_fds = fd_table_init\<rparr>"

lemma fd_init_free: "\<not> fd_range \<subseteq> fd_used fd_table_init" "fd_wf fd_table_init"
  by (simp_all add: fd_used_init fd_range_def DEFAULT_FD_NUM_def MAX_FD_COUNT_def fd_wf_init)

definition ex_empty :: "(ng_tcp_fragment list, offload list) stack" where
  "ex_empty = \<lparr>st_lhost = [], st_tcp = \<lparr>tcb_set = [], tcp_ep = EpNull\<rparr>, st_fds = fd_table_init\<rparr>"

lemma server_socket_listens_witness:
  "\<exists>n st1 st2 st3 l. nsocket ex_api SOCK_STREAM ex_empty = (int n, st1) \<and>
     nbind ex_api (int n) \<lparr>sin_port = 0x0F27, sin_addr = 0\<rparr> st1 = Some (0, st2) \<and>
     nlisten (int n) st2 = Some (0, st3) \<and>
     ng_tcp_stream_search 1 2 3 0x0F27 (st_tcp st3) = Some l \<and> ts_status l = NG_TCP_STATUS_LISTEN"
proof -
  have "fds_marked ex_empty" "\<not> fd_range \<subseteq> fd_used (st_fds ex_empty)"
    "ae_obj ex_api = Some 400" "ae_rcv_t ex_api = Some []" "ae_snd_t ex_api = Some []"
    "400 \<notin> ts_ptr ` set (tcb_set (st_tcp ex_empty))"
    using fd_init_free by (simp_all add: fds_marked_def ex_empty_def ex_api_def)
  from server_socket_listens [OF this, of "\<lparr>sin_port = 0x0F27, sin_addr = 0\<rparr>"] show ?thesis
    by (auto simp: ex_empty_def)
qed

definition ex_receiving :: "ng_tcp_fragment list ng_tcp_stream" where
  "ex_receiving = (ex_stream NG_TCP_STATUS_ESTABLISHED)\<lparr>ts_rcvbuf := Some [frag_example]\<rparr>"

lemma nrecv_result_witness:
  "\<exists>st'. nrecv (list_ring 8) 5 1 [] (ex_stack [ex_receiving]) =
     Some (Done (int (unat (tf_length frag_example) - 1), take 1 (frag_payload frag_example), st'))"
proof -
  have 1: "tcp_sock (ex_stack [ex_receiving]) 5 [] ex_receiving [ex_listener]"
    by (simp add: tcp_sock_def ex_stack_def tcb_at_def ex_table_def ex_receiving_def ex_stream_def
        ex_listener_def IPPROTO_TCP_def)
  have 2: "ts_rcvbuf ex_receiving = Some [frag_example]" by (simp add: ex_receiving_def)
  have 3: "tf_data frag_example = Some (the (tf_data frag_example))"
    "unat (tf_length frag_example) \<le> length (the (tf_data frag_example))" "0 < tf_length frag_example"
    "\<not> unat (tf_length frag_example) \<le> 1"
    by (simp_all add: frag_example_def)
  from nrecv_result [OF 1 list_ring_fifo [of 8] 2 refl _ 3(1-3), of 1 "[]"] show ?thesis
    using 3(4) by auto
qed

lemma naccept_returns_half_open_witness:
  "\<exists>t' n st' apt. ng_tcp_process (\<lambda>_. 0) (list_ring 8) ex_env (ex_pkt 0x02) (ex_table [] ep_new) = Some (0, t') \<and>
     naccept 3 [] (ex_stack []\<lparr>st_tcp := t'\<rparr>) =
       Some (Done (int n, Some \<lparr>sin_port = 0x3412, sin_addr = 0x01010101\<rparr>, st')) \<and>
     tcb_set (st_tcp st') = [apt, ex_listener] \<and> ts_status apt = NG_TCP_STATUS_SYN_RCVD"
proof -
  have tcp: "st_tcp (ex_stack []) = ex_table [] ep_new" by (simp add: ex_stack_def)
  have 1: "tcp_sock (ex_stack []) 3 [] ex_listener []"
    by (simp add: tcp_sock_def ex_stack_def tcb_at_def ex_table_def ex_stream_def ex_listener_def IPPROTO_TCP_def)
  have 2: "tcb_wf (st_tcp (ex_stack []))" by (simp add: tcp tcb_wf_def ex_table_def)
  have 3: "te_stream ex_env = Some ((ex_stream NG_TCP_STATUS_CLOSED)\<lparr>ts_ptr := 300\<rparr>)"
    "ts_ptr ((ex_stream NG_TCP_STATUS_CLOSED)\<lparr>ts_ptr := 300\<rparr>) \<notin> ts_ptr ` set (tcb_set (st_tcp (ex_stack [])))"
    "te_sndbuf ex_env = Some []" "te_rcvbuf ex_env = Some []"
    by (simp_all add: ex_env_def ex_table_def tcp)
  have 4: "fd_wf (st_fds (ex_stack []))" "\<not> fd_range \<subseteq> fd_used (st_fds (ex_stack []))"
    using fd_init_free by (simp_all add: ex_stack_def)
  have 5: "tcb_set (ex_table [] ep_new) = [ex_listener]" by (simp add: ex_table_def)
  show ?thesis
    using naccept_returns_half_open [OF 1 _ 2 ex_segs(4) [folded tcp] ex_simps(7) ex_flags(5) 3(1,2) ex_simps(6)
        3(3,4) list_ring_fifo [of 8] _ 4, where wakes = "[]"]
    unfolding tcp 5 by (auto simp: ex_ip_def ex_hdr_def)
qed

text \<open>A closing connection with descriptor 3 in front of a pending one and the listener.\<close>

definition ex_closing :: "(ng_tcp_fragment list, offload list) stack" where
  "ex_closing = \<lparr>st_lhost = [],
     st_tcp = \<lparr>tcb_set = [(ex_stream NG_TCP_STATUS_ESTABLISHED)\<lparr>ts_fd := 3\<rparr>,
                         (ex_stream NG_TCP_STATUS_ESTABLISHED)\<lparr>ts_fd := - 1, ts_ptr := 201\<rparr>,
                         ex_listener\<lparr>ts_fd := 4\<rparr>], tcp_ep = EpNull\<rparr>,
     st_fds = fd_table_init\<rparr>"

lemma nclose_descriptor_reused_witness:
  "\<exists>st1 st2 a'. nclose (list_ring 8) ex_api 3 ex_closing = Some (0, st1) \<and>
     naccept 4 [] st1 = Some (Done (3, Some \<lparr>sin_port = 0x3412, sin_addr = 0x01010101\<rparr>, st2)) \<and>
     get_hostinfo_fromfd 3 st2 = Some (Some (HostTcp a')) \<and> ts_ptr a' = 200"
proof -
  let ?a = "(ex_stream NG_TCP_STATUS_ESTABLISHED)\<lparr>ts_fd := 3\<rparr>"
  let ?b = "(ex_stream NG_TCP_STATUS_ESTABLISHED)\<lparr>ts_fd := - 1, ts_ptr := 201\<rparr>"
  let ?l = "ex_listener\<lparr>ts_fd := 4\<rparr>"
  have 1: "tcp_sock ex_closing (int 3) [] ?a [?b, ?l]" "tcp_sock ex_closing 4 [?a, ?b] ?l []"
    "tcb_wf (st_tcp ex_closing)"
    by (simp_all add: tcp_sock_def ex_closing_def tcb_at_def tcb_wf_def ex_stream_def ex_listener_def IPPROTO_TCP_def)
  have 2: "3 \<in> fd_range" "\<forall>m\<in>fd_range. m < 3 \<longrightarrow> m \<in> fd_used (st_fds ex_closing)" "fd_wf (st_fds ex_closing)"
    using fd_init_free(2) by (simp_all add: fd_range_def DEFAULT_FD_NUM_def MAX_FD_COUNT_def ex_closing_def)
  have 3: "get_accept_tcb (ts_dport ?l) (st_tcp ex_closing) = Some ?b"
    by (simp add: get_accept_tcb_def ex_closing_def ex_stream_def ex_listener_def)
  have 4: "ae_alloc ex_api 0" "ts_sndbuf ?a = Some []" "ts_ptr ?l \<noteq> ts_ptr ?a" "?b \<in> set [?b, ?l]"
    "ts_status ?a \<noteq> NG_TCP_STATUS_LISTEN"
    by (simp_all add: ex_api_def)
  show ?thesis
    using nclose_descriptor_reused [OF 1(1) 4(5) 1(3) 2 4(1,2) 1(2) 4(3) 3 4(4), of "list_ring 8" "[]"]
    by (auto simp: ex_stream_def)
qed

lemma nsocket_leaks_descriptors_witness:
  "fst (nsocket ex_api SOCK_STREAM (nsockets (replicate 1021 (ex_api, SOCK_OTHER)) ex_empty)) = - 1"
  using nsocket_leaks_descriptors [of ex_empty "replicate 1021 (ex_api, SOCK_OTHER)" ex_api SOCK_STREAM]
    fd_init_free(2) by (simp add: ex_empty_def)

end
