(* ===== verification/Delivery.thy ===== *)
theory Delivery
  imports Socket_Correct
begin

text \<open>
  The way of application data through both ends of a connection: \<open>nsend\<close>, one round of the
  output loop, the packet on the wire, \<open>ng_tcp_process\<close> on the other host, and \<open>nrecv\<close>.
\<close>

section \<open>Packets on the wire\<close>

text \<open>Buffers that agree on the bytes of the packet.\<close>

definition same_packet :: "nat \<Rightarrow> bytes \<Rightarrow> bytes \<Rightarrow> bool" where
  "same_packet n m w \<longleftrightarrow> n \<le> length m \<and> n \<le> length w \<and> take n w = take n m"

lemma same_packet_nth: "same_packet n m w \<Longrightarrow> i < n \<Longrightarrow> w ! i = m ! i"
  unfolding same_packet_def by (metis nth_take)

lemma same_packet_rd:
  assumes "same_packet n m w" "off + k \<le> n"
  shows "rd off k w = rd off k m"
proof -
  have "take k (drop off w) = take k (drop off m)"
    using assms same_packet_nth [OF assms(1)] by (intro nth_equalityI) (auto simp: same_packet_def)
  then show ?thesis using assms by (simp add: rd_def same_packet_def)
qed

lemma same_packet_fields:
  assumes "same_packet n m w"
  shows "off + 1 \<le> n \<Longrightarrow> rd8 off w = rd8 off m" "off + 2 \<le> n \<Longrightarrow> rd16 off w = rd16 off m"
    "off + 4 \<le> n \<Longrightarrow> rd32 off w = rd32 off m"
  using same_packet_rd [OF assms] by (simp_all add: rd8_def rd16_def rd32_def)

lemma same_packet_parse:
  assumes "same_packet n m w" "54 \<le> n"
  shows "parse_ip w = parse_ip m" "parse_tcp w = parse_tcp m"
  using assms(2) by (simp_all add: parse_ip_def parse_tcp_def same_packet_fields [OF assms(1)])

lemma same_packet_put: "same_packet n m w \<Longrightarrow> same_packet n (put off bs m) (put off bs w)"
  using same_packet_nth [of n m w]
  by (auto simp: same_packet_def nth_put intro!: nth_equalityI)

lemma same_packet_drop: "same_packet (k + n) m w \<Longrightarrow> same_packet n (drop k m) (drop k w)"
  using same_packet_nth [of "k + n" m w]
  by (auto simp: same_packet_def intro!: nth_equalityI)

text \<open>What the DPDK documentation says of \<open>rte_ipv4_udptcp_cksum\<close>: the checksum is computed over
  the bytes the IP header counts.\<close>

definition cksum_local :: "(bytes \<Rightarrow> u16) \<Rightarrow> bool" where
  "cksum_local uck \<longleftrightarrow>
     (\<forall>m w tl. rd16 2 m = Some tl \<and> same_packet (unat (htons tl)) m w \<longrightarrow> uck w = uck m)"

lemma packet_on_wire:
  assumes pkt: "packet_of uck s dstmac f p" and uck: "cksum_local uck"
    and len: "unat (tf_length f) + 54 < 65536" and wire: "same_packet (mb_len p) (mb_data p) w"
  shows "\<exists>h. parse_ip w = Some \<lparr>ip_total_length = htons (ucast (tf_length f + 40)),
      ip_next_proto = IPPROTO_TCP, ip_src = ts_dip s, ip_dst = ts_sip s\<rparr> \<and>
    parse_tcp w = Some h \<and> th_sport h = tf_sport f \<and> th_dport h = tf_dport f \<and>
    th_seq h = htonl (tf_seqnum f) \<and> th_ack h = htonl (tf_acknum f) \<and> th_data_off h = tf_hdrlen_off f \<and>
    th_flags h = tf_tcp_flags f \<and> uck (drop 14 (put 50 [0, 0] w)) = th_cksum h \<and>
    rd 54 (unat (tf_length f)) (put 50 [0, 0] w) = Some (frag_payload f)"
proof -
  let ?m = "mb_data p" and ?n = "unat (tf_length f)"
  obtain h where h: "mb_len p = 54 + ?n" "parse_ip ?m = Some \<lparr>ip_total_length = htons (ucast (tf_length f + 40)),
      ip_next_proto = IPPROTO_TCP, ip_src = ts_dip s, ip_dst = ts_sip s\<rparr>"
    "parse_tcp ?m = Some h" "th_sport h = tf_sport f" "th_dport h = tf_dport f"
    "th_seq h = htonl (tf_seqnum f)" "th_ack h = htonl (tf_acknum f)" "th_data_off h = tf_hdrlen_off f"
    "th_flags h = tf_tcp_flags f" "th_cksum h = uck (drop 14 (put 50 [0, 0] ?m))"
    "rd 54 ?n ?m = Some (frag_payload f)"
    using pkt by (auto simp: packet_of_def)
  have w54: "54 + ?n \<le> length ?m" using wire h(1) by (simp add: same_packet_def)
  note wire' = wire [unfolded h(1)]
  have tl: "unat (htons (htons (ucast (tf_length f + 40)))) = 40 + ?n"
  proof -
    have "unat (tf_length f + 40) = ?n + 40" using len by (simp add: unat_word_ariths(1))
    then show ?thesis using len by (simp add: unsigned_ucast_eq take_bit_eq_mod)
  qed
  have "rd16 16 ?m = Some (htons (ucast (tf_length f + 40)))"
    using h(2) by (auto simp: parse_ip_def Option.bind_eq_Some_conv)
  then have "rd16 16 (put 50 [0, 0] ?m) = Some (htons (ucast (tf_length f + 40)))"
    using w54 by (simp add: buf_simps)
  then have "rd16 2 (drop 14 (put 50 [0, 0] ?m)) = Some (htons (ucast (tf_length f + 40)))"
    using w54 by (simp add: rd16_def rd_def)
  moreover have "same_packet (40 + ?n) (drop 14 (put 50 [0, 0] ?m)) (drop 14 (put 50 [0, 0] w))"
    using same_packet_drop [of 14 "40 + ?n"] same_packet_put [OF wire'] by simp
  ultimately have "uck (drop 14 (put 50 [0, 0] w)) = th_cksum h"
    using uck tl h(10) unfolding cksum_local_def by metis
  moreover have "rd 54 ?n (put 50 [0, 0] w) = Some (frag_payload f)"
    using same_packet_rd [OF wire', of 54 ?n] h(11) w54 wire'
    by (simp add: buf_simps same_packet_def)
  ultimately show ?thesis using h same_packet_parse [OF wire'] by auto
qed

section \<open>Sending\<close>

definition data_frag :: "'r ng_tcp_stream \<Rightarrow> bytes \<Rightarrow> ng_tcp_fragment" where
  "data_frag s pl = frag_zero\<lparr>tf_dport := ts_sport s, tf_sport := ts_dport s, tf_acknum := ts_rcv_nxt s,
     tf_seqnum := ts_snd_nxt s, tf_tcp_flags := 0x18, tf_windows := TCP_INITIAL_WINDOW,
     tf_hdrlen_off := 0x50, tf_data := Some (pl @ [0]), tf_length := of_nat (length pl)\<rparr>"

lemma nsend_correct:
  assumes sock: "tcp_sock st fd as s bs" and env: "ae_alloc env 0" "ae_alloc env 1"
    and len: "len \<le> length buf" "len < 2 ^ 32" and snd: "ts_sndbuf s = Some r"
  shows "\<exists>t'. nsend R env fd buf len st = Some (int len, st\<lparr>st_tcp := t'\<rparr>) \<and>
    tcb_at t' as (s\<lparr>ts_sndbuf := Some (ring_push R (data_frag s (take len buf)) r)\<rparr>) bs"
proof -
  let ?f = "data_frag s (take len buf)"
  have f: "frag_zero\<lparr>tf_dport := ts_sport s, tf_sport := ts_dport s,
      tf_acknum := ts_rcv_nxt s, tf_seqnum := ts_snd_nxt s,
      tf_tcp_flags := RTE_TCP_ACK_FLAG OR RTE_TCP_PSH_FLAG,
      tf_windows := TCP_INITIAL_WINDOW, tf_hdrlen_off := 0x50,
      tf_data := Some (take len buf @ [0]), tf_length := of_nat len\<rparr> = ?f"
    using len(1) by (simp add: data_frag_def RTE_TCP_ACK_FLAG_def RTE_TCP_PSH_FLAG_def min_def)
  note at = tcp_sock_at [OF sock]
  let ?t = "tcb_update (ts_ptr s) (\<lambda>s. s\<lparr>ts_sndbuf := Some (ring_push R ?f r)\<rparr>) (st_tcp st)"
  have "enqueue_snd R (ts_ptr s) ?f (st_tcp st) = Some ?t"
    using enqueue_snd_at [OF at, of R ?f] snd by simp
  moreover have "rd 0 len buf = Some (take len buf)" using len(1) by (simp add: rd_def)
  moreover have "uint (of_nat len :: u32) = int len" using len(2) by (simp add: unsigned_of_nat take_bit_nat_eq_self)
  ultimately have "nsend R env fd buf len st = Some (int len, st\<lparr>st_tcp := ?t\<rparr>)"
    using env len by (simp add: nsend_def tcp_sock_lookup [OF sock] Let_def f)
  moreover have "tcb_at ?t as (s\<lparr>ts_sndbuf := Some (ring_push R ?f r)\<rparr>) bs"
    using tcb_at_update [OF at, of "\<lambda>s. s\<lparr>ts_sndbuf := Some (ring_push R ?f r)\<rparr>"] by simp
  ultimately show ?thesis by blast
qed

lemma data_frag_fields:
  assumes "length pl + 54 < 65536"
  shows "unat (tf_length (data_frag s pl)) = length pl" "frag_payload (data_frag s pl) = pl"
    "frag_wf (data_frag s pl)" "tf_sport (data_frag s pl) = ts_dport s" "tf_dport (data_frag s pl) = ts_sport s"
    "tf_hdrlen_off (data_frag s pl) = 0x50" "tf_tcp_flags (data_frag s pl) = 0x18"
proof -
  show "unat (tf_length (data_frag s pl)) = length pl"
    using assms by (simp add: data_frag_def unat_of_nat take_bit_eq_mod)
  then show "frag_payload (data_frag s pl) = pl" "frag_wf (data_frag s pl)"
    by (simp_all add: frag_payload_def frag_wf_def) (simp_all add: data_frag_def frag_zero_def)
qed (simp_all add: data_frag_def)

section \<open>End to end\<close>

text \<open>The two ends of a connection have mirrored addresses and ports, and the receiver has no other
  control block for it.\<close>

definition peers :: "'r ng_tcp_stream \<Rightarrow> 'r ng_tcp_stream \<Rightarrow> 'r ng_tcp_table \<Rightarrow> bool" where
  "peers a b t \<longleftrightarrow> ts_sip b = ts_dip a \<and> ts_dip b = ts_sip a \<and> ts_sport b = ts_dport a \<and> ts_dport b = ts_sport a \<and>
     ng_tcp_stream_search (ts_sip b) (ts_dip b) (ts_sport b) (ts_dport b) t = Some b"

text \<open>C11: data that an application sends on a connection reaches the application at the other end
  unchanged: \<open>nsend\<close> takes all bytes and queues them, the next round of the output loop for
  the connection makes a packet of them, the receiver accepts the bytes of this packet with
  its checksum, and \<open>nrecv\<close> there returns the number of bytes and delivers exactly them.\<close>

theorem data_end_to_end:
  assumes sender: "tcp_sock sta fda as a bs" "ae_alloc env 0" "ae_alloc env 1"
      "ts_sndbuf a = Some ra" "view ra = []" "length (ts_localmac a) = 6"
    and len: "0 < len" "len \<le> length buf" "len + 54 < 65536"
    and out: "arp_inv arpt" "ng_get_dst_macaddr (ts_sip a) arpt = Some dstmac" "length srcmac = 6"
      "54 + len \<le> length room"
    and rings: "ring_fifo R cap view" "0 < cap" and uck: "cksum_local uck"
    and receiver: "tcp_sock stb fdb cs b ds" "peers a b (st_tcp stb)" "ts_status b = NG_TCP_STATUS_ESTABLISHED"
      "\<And>k. te_alloc tenv k" "tcp_ep_abs (st_tcp stb) I E"
      "ts_rcvbuf b = Some rrb" "view rrb = []" "ts_sndbuf b = Some rsb" "length (view rsb) < cap"
    and blen: "len \<le> blen"
  shows "\<exists>sta' a' a'' p. nsend R env fda buf len sta = Some (int len, sta') \<and> tcb_at (st_tcp sta') as a' bs \<and>
    tcp_out_one ck uck R srcmac arpt (Some room) a' = Some (a'', Some p) \<and>
    (\<forall>w. same_packet (mb_len p) (mb_data p) w \<longrightarrow>
      (\<exists>t' stb'. ng_tcp_process uck R tenv w (st_tcp stb) = Some (0, t') \<and>
        nrecv R fdb blen wakes (stb\<lparr>st_tcp := t'\<rparr>) = Some (Done (int len, take len buf, stb'))))"
proof -
  let ?pl = "take len buf"
  have pl: "length ?pl = len" "length ?pl + 54 < 65536" using len by (auto simp: min_def)
  let ?f = "data_frag a ?pl"
  note f = data_frag_fields [OF pl(2), of a, unfolded pl(1)]
  let ?r = "ring_push R ?f ra"
  let ?a = "a\<lparr>ts_sndbuf := Some ?r\<rparr>"
  have r: "view ?r = [?f]" using ring_push_view [OF rings(1), of ra ?f] sender(5) rings(2) by simp
  have "len < 2 ^ 32" using len by simp
  then obtain t1 where t1: "nsend R env fda buf len sta = Some (int len, sta\<lparr>st_tcp := t1\<rparr>)" "tcb_at t1 as ?a bs"
    using nsend_correct [OF sender(1-3) len(2) _ sender(4), of R] by blast
  have ok: "stream_out_ok view (\<lambda>_. Some room) ?a"
    using sender(6) out(4) r f by (simp add: stream_out_ok_def) (use len in simp)
  obtain a'' m where m: "tcp_out_one ck uck R srcmac arpt (Some room) ?a = Some (a'', m)"
    "\<exists>p. m = Some p \<and> packet_of uck ?a dstmac ?f p"
    using tcp_out_one_correct [OF rings(1) ok out(1,3), of ck uck] r rings(2) out(2) by fastforce
  then obtain p where p: "m = Some p" "packet_of uck ?a dstmac ?f p" by blast
  have "\<exists>t' stb'. ng_tcp_process uck R tenv w (st_tcp stb) = Some (0, t') \<and>
      nrecv R fdb blen wakes (stb\<lparr>st_tcp := t'\<rparr>) = Some (Done (int len, ?pl, stb'))"
    if w: "same_packet (mb_len p) (mb_data p) w" for w
  proof -
    let ?ip = "\<lparr>ip_total_length = htons (ucast (tf_length ?f + 40)), ip_next_proto = IPPROTO_TCP,
        ip_src = ts_dip a, ip_dst = ts_sip a\<rparr>"
    obtain h where h: "parse_ip w = Some ?ip" "parse_tcp w = Some h" "th_sport h = ts_dport a" "th_dport h = ts_sport a"
        "th_data_off h = 0x50" "th_flags h = 0x18" "uck (drop 14 (put 50 [0, 0] w)) = th_cksum h"
        "rd 54 len (put 50 [0, 0] w) = Some ?pl"
      using packet_on_wire [OF p(2) uck _ w] f len by auto
    have seg: "tcp_segment uck w ?ip h (st_tcp stb) b"
      using h receiver(2) by (auto simp: tcp_segment_def peers_def)
    have flags: "tcp_flag h RTE_TCP_PSH_FLAG" "\<not> tcp_flag h RTE_TCP_FIN_FLAG"
      using h(6) by (simp_all add: tcp_flag_def RTE_TCP_PSH_FLAG_def RTE_TCP_FIN_FLAG_def)
    have hl: "seg_hdrlen h = 5" using h(5) by (simp add: seg_hdrlen_def)
    have "unat (ucast (tf_length ?f + 40) :: u16) = len + 40"
    proof -
      have "unat (tf_length ?f + 40) = len + 40" using f(1) len by (simp add: unat_word_ariths(1))
      then show ?thesis using len by (simp add: unsigned_ucast_eq take_bit_eq_mod)
    qed
    then have n: "int len = int (unat (htons (ip_total_length ?ip))) - 20 - int (seg_hdrlen h * 4)" "0 < int len"
      using hl len(1) by simp_all
    have rd: "rd (34 + seg_hdrlen h * 4) (nat (int len)) (put 50 [0, 0] w) = Some ?pl" using h(8) hl by simp
    obtain t' b' rr' where t': "ng_tcp_process uck R tenv w (st_tcp stb) = Some (0, t')"
      "tcb_at t' cs b' ds" "same_conn b b'" "ts_rcvbuf b' = Some rr'" "view rr' = [rcv_frag h ?pl]"
      using data_delivered [OF tcp_sock_at [OF receiver(1)] seg receiver(3) flags receiver(4,5) n rd rings(1)
          receiver(6,8) _ receiver(9)] receiver(7) rings(2) by auto
    have sock: "tcp_sock (stb\<lparr>st_tcp := t'\<rparr>) fdb cs b' ds" by (rule tcp_sock_update [OF receiver(1) t'(2,3)])
    have g: "tf_data (rcv_frag h ?pl) = Some (?pl @ [0])" "unat (tf_length (rcv_frag h ?pl)) = len"
      "frag_payload (rcv_frag h ?pl) = ?pl"
    proof -
      have "?pl \<noteq> []" using pl(1) len(1) by auto
      moreover have "unat (of_nat len :: u32) = len" using len by (simp add: unat_of_nat take_bit_eq_mod)
      ultimately show "tf_data (rcv_frag h ?pl) = Some (?pl @ [0])" "unat (tf_length (rcv_frag h ?pl)) = len"
        "frag_payload (rcv_frag h ?pl) = ?pl"
        using pl(1) by (simp_all add: rcv_frag_def Let_def frag_payload_def)
    qed
    have "0 < tf_length (rcv_frag h ?pl)" using g(2) len(1) by (simp add: word_less_nat_alt)
    then obtain stb' where "nrecv R fdb blen wakes (stb\<lparr>st_tcp := t'\<rparr>) = Some (Done (int len, ?pl, stb'))"
      using nrecv_correct [OF sock rings(1) t'(4,5) _ g(1), of blen wakes] g(2,3) pl(1) rings(2) blen by auto
    then show ?thesis using t'(1) by blast
  qed
  then show ?thesis using t1 m(1) p(1)
    by (intro exI [of _ "sta\<lparr>st_tcp := t1\<rparr>"] exI [of _ ?a] exI [of _ a''] exI [of _ p]) simp
qed

text \<open>Two hosts: \<open>ex_stack\<close> has the connection of \<open>ex_stream\<close>, and the other host the mirrored
  one, with descriptor 7.\<close>

definition ex_peer :: "ng_tcp_fragment list ng_tcp_stream" where
  "ex_peer = (ex_stream NG_TCP_STATUS_ESTABLISHED)\<lparr>ts_ptr := 500, ts_fd := 7, ts_sip := 0x02020202,
     ts_dip := 0x01010101, ts_sport := 0x0F27, ts_dport := 0x3412\<rparr>"

lemma data_end_to_end_witness:
  "\<exists>sta' a' a'' p. nsend (list_ring 8) ex_api 7 [1, 2, 3] 3 (ex_stack [ex_peer]) = Some (3, sta') \<and>
     tcb_at (st_tcp sta') [] a' [ex_listener] \<and>
     tcp_out_one (\<lambda>_. 0) (\<lambda>_. 0) (list_ring 8) (replicate 6 9)
       (snd (ng_arp_entry_insert True 0x02020202 (replicate 6 1) \<lparr>arp_entries = [], arp_count = 0\<rparr>))
       (Some (replicate 2048 0)) a' = Some (a'', Some p) \<and>
     (\<forall>w. same_packet (mb_len p) (mb_data p) w \<longrightarrow>
       (\<exists>t' stb'. ng_tcp_process (\<lambda>_. 0) (list_ring 8) ex_env w
            (st_tcp (ex_stack [ex_stream NG_TCP_STATUS_ESTABLISHED])) = Some (0, t') \<and>
          nrecv (list_ring 8) 5 100 [] (ex_stack [ex_stream NG_TCP_STATUS_ESTABLISHED]\<lparr>st_tcp := t'\<rparr>) =
            Some (Done (3, [1, 2, 3], stb'))))"
proof -
  let ?arpt = "snd (ng_arp_entry_insert True 0x02020202 (replicate 6 1) \<lparr>arp_entries = [], arp_count = 0\<rparr>)"
  have 1: "tcp_sock (ex_stack [ex_peer]) 7 [] ex_peer [ex_listener]"
    "tcp_sock (ex_stack [ex_stream NG_TCP_STATUS_ESTABLISHED]) 5 [] (ex_stream NG_TCP_STATUS_ESTABLISHED) [ex_listener]"
    by (simp_all add: tcp_sock_def ex_stack_def tcb_at_def ex_table_def ex_peer_def ex_stream_def
        ex_listener_def IPPROTO_TCP_def)
  have 2: "ts_sndbuf ex_peer = Some []" "length (ts_localmac ex_peer) = 6" "ts_sip ex_peer = 0x02020202"
    by (simp_all add: ex_peer_def ex_stream_def)
  have 3: "arp_inv ?arpt" "ng_get_dst_macaddr (ts_sip ex_peer) ?arpt = Some (replicate 6 1)"
    by (simp_all add: arp_inv_def ng_arp_entry_insert_def ng_get_dst_macaddr_def 2(3))
  have 4: "peers ex_peer (ex_stream NG_TCP_STATUS_ESTABLISHED) (st_tcp (ex_stack [ex_stream NG_TCP_STATUS_ESTABLISHED]))"
    by (simp add: peers_def ex_peer_def ex_stream_def ex_stack_def ex_table_def ng_tcp_stream_search_def)
  have 5: "tcp_ep_abs (st_tcp (ex_stack [ex_stream NG_TCP_STATUS_ESTABLISHED])) Map.empty []"
    using ex_ep by (simp add: ex_stack_def)
  have 6: "ae_alloc ex_api k" for k by (simp add: ex_api_def)
  have 7: "cksum_local (\<lambda>_. 0)" by (simp add: cksum_local_def)
  have 8: "0 < (3 :: nat)" "3 \<le> length [1, 2, 3 :: u8]" "3 + 54 < (65536 :: nat)" "length (replicate 6 (9 :: u8)) = 6"
    "54 + 3 \<le> length (replicate 2048 (0 :: u8))" "0 < (8 :: nat)" "length [] < (8 :: nat)" "3 \<le> (100 :: nat)" by simp_all
  show ?thesis
    using data_end_to_end [where env = ex_api and tenv = ex_env and wakes = "[]" and ck = "\<lambda>_. 0",
      OF 1(1) 6 6 2(1) refl 2(2) 8(1-3) 3 8(4,5) list_ring_fifo [of 8] 8(6) 7 1(2) 4 _ ex_simps(6) 5 _ refl _ 8(7,8)] by simp
qed

end
