(* ===== verification/Udp.thy ===== *)
theory Udp
  imports Socket_Api
begin

text \<open>
  The UDP side of \<^verbatim>\<open>tcp_concurrency.c\<close>: reception (\<open>udp_process\<close>), packet construction and the
  output loop over the UDP sockets.
\<close>

text \<open>The size of the data allocation, \<open>ol->length - sizeof(struct rte_udp_hdr)\<close>, is computed in
  \<open>size_t\<close>.\<close>

definition udp_payload_size :: "u16 \<Rightarrow> nat" where
  "udp_payload_size dlen = nat ((int (unat (htons dlen)) - 8) mod 2 ^ 64)"

definition udp_process :: "('u, offload) rte_ring \<Rightarrow> ('r, 'u) api_env \<Rightarrow> bytes \<Rightarrow> ('r, 'u) stack \<Rightarrow>
    (int \<times> ('r, 'u) stack) option" where
  "udp_process U env m st =
     do { ip \<leftarrow> parse_ip m;
          sport \<leftarrow> rd16 34 m;
          dport \<leftarrow> rd16 36 m;
          case get_hostinfo_fromip_port (ip_dst ip) dport (ip_next_proto ip) st of
            None \<Rightarrow> Some (- 3, st)
          | Some host \<Rightarrow>
              if \<not> ae_alloc env 0 then Some (- 1, st)
              else
                do { dlen \<leftarrow> rd16 38 m;
                     if \<not> ae_alloc env 1 then Some (- 2, st)
                     else
                       do { payload \<leftarrow> rd 42 (udp_payload_size dlen) m;
                            let dg = \<lparr>ol_sip = ip_src ip, ol_dip = ip_dst ip, ol_sport = sport,
                                      ol_dport = dport, ol_data = payload @ ae_slack env,
                                      ol_length = htons dlen\<rparr>;
                            rcvbuf \<leftarrow> udp_push U dg (lh_rcvbuf host);
                            Some (0, lh_update (lh_ptr host) (\<lambda>h. h\<lparr>lh_rcvbuf := Some rcvbuf\<rparr>) st) } } }"

definition ng_udp_pkt ::
  "(bytes \<Rightarrow> u16) \<Rightarrow> (bytes \<Rightarrow> u16) \<Rightarrow> bytes option \<Rightarrow> u32 \<Rightarrow> u32 \<Rightarrow> u16 \<Rightarrow> u16 \<Rightarrow> bytes \<Rightarrow> bytes \<Rightarrow> bytes \<Rightarrow> u16 \<Rightarrow>
     mbuf option" where
  "ng_udp_pkt ipv4_cksum udptcp_cksum room sip dip sport dport srcmac dstmac data len =
     do { buf \<leftarrow> room;
          let total_len = unat len + 42;
          m \<leftarrow> ng_encode_udp_apppkt ipv4_cksum udptcp_cksum buf sip dip sport dport srcmac dstmac data
                (of_nat total_len);
          Some \<lparr>mb_len = total_len, mb_data = m\<rparr> }"

text \<open>The body of the output loop; a sent datagram is not freed.\<close>

definition udp_out_one ::
  "(bytes \<Rightarrow> u16) \<Rightarrow> (bytes \<Rightarrow> u16) \<Rightarrow> ('u, offload) rte_ring \<Rightarrow> bytes \<Rightarrow> arp_table \<Rightarrow> bytes option \<Rightarrow>
     'u localhost \<Rightarrow> ('u localhost \<times> mbuf option) option" where
  "udp_out_one ipv4_cksum udptcp_cksum U srcmac arpt room host =
     do { sndbuf \<leftarrow> lh_sndbuf host;
          case rte_dequeue U sndbuf of
            None \<Rightarrow> Some (host, None)
          | Some (dg, sndbuf) \<Rightarrow>
              (case ng_get_dst_macaddr (ol_dip dg) arpt of
                 None \<Rightarrow>
                   do { m \<leftarrow> ng_send_arp srcmac room 1 gDefaultArpMac (ol_sip dg) (ol_dip dg);
                        Some (host\<lparr>lh_sndbuf := Some (ring_push U dg sndbuf)\<rparr>, Some m) }
               | Some dstmac \<Rightarrow>
                   do { m \<leftarrow> ng_udp_pkt ipv4_cksum udptcp_cksum room (ol_sip dg) (ol_dip dg)
                               (ol_sport dg) (ol_dport dg) (lh_localmac host) dstmac (ol_data dg) (ol_length dg);
                        Some (host\<lparr>lh_sndbuf := Some sndbuf\<rparr>, Some m) }) }"

definition udp_out ::
  "(bytes \<Rightarrow> u16) \<Rightarrow> (bytes \<Rightarrow> u16) \<Rightarrow> ('u, offload) rte_ring \<Rightarrow> bytes \<Rightarrow> arp_table \<Rightarrow> (addr \<Rightarrow> bytes option) \<Rightarrow>
     (mbuf \<Rightarrow> 'o \<Rightarrow> nat \<times> 'o) \<Rightarrow> ('r, 'u) stack \<Rightarrow> 'o \<Rightarrow> (('r, 'u) stack \<times> 'o) option" where
  "udp_out ipv4_cksum udptcp_cksum U srcmac arpt pool enq st out =
     do { (hs, out) \<leftarrow> out_loop
             (\<lambda>h. udp_out_one ipv4_cksum udptcp_cksum U srcmac arpt (pool (lh_ptr h)) h) enq (st_lhost st) out;
          Some (st\<lparr>st_lhost := hs\<rparr>, out) }"

end
