(* ===== verification/Udp_Correct.thy ===== *)
theory Udp_Correct
  imports Udp Delivery
begin

text \<open>The way of a datagram from \<open>nsendto\<close> on one host to \<open>nrecvfrom\<close> on another one.\<close>

section \<open>UDP sockets\<close>

definition udp_sock :: "('r, 'u) stack \<Rightarrow> int \<Rightarrow> 'u localhost list \<Rightarrow> 'u localhost \<Rightarrow> 'u localhost list \<Rightarrow> bool" where
  "udp_sock st fd as h bs \<longleftrightarrow> st_lhost st = as @ h # bs \<and> lh_ptr h \<notin> lh_ptr ` set (as @ bs) \<and>
     fd \<notin> lh_fd ` set as \<and> lh_fd h = fd \<and> lh_protocol h = IPPROTO_UDP"

lemma udp_sock_lookup:
  assumes "udp_sock st fd as h bs"
  shows "get_hostinfo_fromfd fd st = Some (Some (HostUdp h))" "lh_get (lh_ptr h) st = Some h"
proof -
  show "get_hostinfo_fromfd fd st = Some (Some (HostUdp h))"
    using assms find_not_image [of fd lh_fd as] by (simp add: udp_sock_def get_hostinfo_fromfd_def find_append)
  have "find (\<lambda>h'. lh_ptr h' = lh_ptr h) as = None"
    unfolding find_None_iff using assms unfolding udp_sock_def by (metis UnCI image_eqI set_append)
  then show "lh_get (lh_ptr h) st = Some h"
    using assms by (simp add: udp_sock_def lh_get_def find_append)
qed

lemma udp_sock_update:
  assumes "udp_sock st fd as h bs" "lh_ptr (f h) = lh_ptr h" "lh_fd (f h) = lh_fd h" "lh_protocol (f h) = lh_protocol h"
  shows "udp_sock (lh_update (lh_ptr h) f st) fd as (f h) bs"
proof -
  have "map (\<lambda>h'. if lh_ptr h' = lh_ptr h then f h' else h') xs = xs" if "lh_ptr h \<notin> lh_ptr ` set xs" for xs
    using that by (induction xs) auto
  then show ?thesis using assms by (auto simp: udp_sock_def lh_update_def)
qed

section \<open>Datagrams on the wire\<close>

lemma rd_prefix: "length pl + 8 \<le> length (pl @ sl) \<Longrightarrow> rd 0 (length pl + 8) (pl @ sl) = rd 0 (length pl + 8) (pl @ take 8 sl)"
  by (simp add: rd_def)

lemma udp_encode_slack:
  assumes len: "unat total_len = length pl + 42" and room: "length pl + 50 \<le> length msg"
    and macs: "length srcmac = 6" "length dstmac = 6" and sl: "8 \<le> length sl"
  shows "\<exists>m. ng_encode_udp_apppkt ck uck msg sip dip sport dport srcmac dstmac (pl @ sl) total_len = Some m \<and>
    length m = length msg \<and> parse_ip m = Some \<lparr>ip_total_length = htons (total_len - 14), ip_next_proto = IPPROTO_UDP,
      ip_src = sip, ip_dst = dip\<rparr> \<and>
    rd16 34 m = Some sport \<and> rd16 36 m = Some dport \<and>
    rd16 38 m = Some (htons (of_nat (length pl + 8))) \<and> rd 42 (length pl) m = Some pl"
proof -
  have "unat (total_len - 14 - 20) = length pl + 8"
    using len by (simp add: diff_diff_eq) (subst unat_sub, auto simp: word_le_nat_alt)
  then have "rd 0 (unat (total_len - 14 - 20)) (pl @ sl) = rd 0 (unat (total_len - 14 - 20)) (pl @ take 8 sl)"
    using rd_prefix [of pl sl] sl by (simp only: length_append)
  then have eq: "ng_encode_udp_apppkt ck uck msg sip dip sport dport srcmac dstmac (pl @ sl) total_len =
      ng_encode_udp_apppkt ck uck msg sip dip sport dport srcmac dstmac (pl @ take 8 sl) total_len"
    unfolding ng_encode_udp_apppkt_def Let_def by (simp only:)
  have "length (take 8 sl) = 8" using sl by simp
  from ng_encode_udp_apppkt_ok [OF len room macs this, of ck uck sip dip sport dport] show ?thesis
    unfolding eq by blast
qed

lemma same_packet_ip:
  assumes "same_packet n m w" "34 \<le> n"
  shows "parse_ip w = parse_ip m"
  using assms(2) by (simp add: parse_ip_def same_packet_fields [OF assms(1)])

definition datagram :: "'u localhost \<Rightarrow> sockaddr_in \<Rightarrow> bytes \<Rightarrow> bytes \<Rightarrow> offload" where
  "datagram h d pl sl = \<lparr>ol_sip = lh_localip h, ol_dip = sin_addr d, ol_sport = lh_localport h,
     ol_dport = sin_port d, ol_data = pl @ sl, ol_length = of_nat (length pl)\<rparr>"

lemma nsendto_correct:
  assumes sock: "udp_sock st fd as h bs" and env: "ae_alloc env 0" "ae_alloc env 1"
    and len: "len \<le> length buf" and snd: "lh_sndbuf h = Some r"
  shows "\<exists>st'. nsendto U env fd buf len d st = Some (int len, st') \<and>
    udp_sock st' fd as (h\<lparr>lh_sndbuf := Some (ring_push U (datagram h d (take len buf) (ae_slack env)) r)\<rparr>) bs"
proof -
  let ?g = "datagram h d (take len buf) (ae_slack env)"
  have g: "\<lparr>ol_sip = lh_localip h, ol_dip = sin_addr d, ol_sport = lh_localport h, ol_dport = sin_port d,
      ol_data = take len buf @ ae_slack env, ol_length = of_nat len\<rparr> = ?g"
    using len by (simp add: datagram_def min_def)
  have "rd 0 len buf = Some (take len buf)" using len by (simp add: rd_def)
  then have "nsendto U env fd buf len d st =
      Some (int len, lh_update (lh_ptr h) (\<lambda>h. h\<lparr>lh_sndbuf := Some (ring_push U ?g r)\<rparr>) st)"
    using env snd by (simp add: nsendto_def udp_sock_lookup [OF sock] Let_def g udp_push_def)
  then show ?thesis using udp_sock_update [OF sock, of "\<lambda>h. h\<lparr>lh_sndbuf := Some (ring_push U ?g r)\<rparr>"] by simp
qed

text \<open>What the packet of a datagram holds.\<close>

definition udp_packet_of :: "offload \<Rightarrow> bytes \<Rightarrow> mbuf \<Rightarrow> bool" where
  "udp_packet_of dg pl p \<longleftrightarrow> mb_len p = 42 + length pl \<and> mb_len p \<le> length (mb_data p) \<and>
     (\<exists>tl. parse_ip (mb_data p) = Some \<lparr>ip_total_length = tl, ip_next_proto = IPPROTO_UDP,
        ip_src = ol_sip dg, ip_dst = ol_dip dg\<rparr>) \<and>
     rd16 34 (mb_data p) = Some (ol_sport dg) \<and> rd16 36 (mb_data p) = Some (ol_dport dg) \<and>
     rd16 38 (mb_data p) = Some (htons (of_nat (length pl + 8))) \<and> rd 42 (length pl) (mb_data p) = Some pl"

lemma udp_out_one_correct:
  assumes fifo: "ring_fifo U cap view" and q: "lh_sndbuf h = Some r" "view r = datagram h' d pl sl # q"
    and arp: "arp_inv arpt" "ng_get_dst_macaddr (sin_addr d) arpt = Some dstmac"
    and len: "length pl + 42 < 65536" "length pl + 50 \<le> length room" "8 \<le> length sl" "length (lh_localmac h) = 6"
  shows "\<exists>r' p. udp_out_one ck uck U srcmac arpt (Some room) h = Some (h\<lparr>lh_sndbuf := Some r'\<rparr>, Some p) \<and>
    view r' = q \<and> udp_packet_of (datagram h' d pl sl) pl p"
proof -
  let ?g = "datagram h' d pl sl"
  obtain r' where r': "rte_dequeue U r = Some (?g, r')" "view r' = q"
    using ring_dequeue_cases [OF fifo, of r] q(2) by (metis list.discI list.inject)
  have mac: "length dstmac = 6"
    using arp map_of_SomeD [of "map (\<lambda>e. (arp_ip e, arp_hwaddr e)) (arp_entries arpt)" "sin_addr d" dstmac]
    by (auto simp: arp_lookup_map_of arp_inv_def)
  have ul: "unat (ol_length ?g) = length pl"
    using len(1) by (simp add: datagram_def unat_of_nat take_bit_eq_mod)
  have "unat (of_nat (length pl + 42) :: u16) = length pl + 42"
    using len(1) by (simp only: unat_of_nat take_bit_eq_mod) simp
  from udp_encode_slack [OF this len(2,4) mac len(3), of ck uck "ol_sip ?g" "ol_dip ?g" "ol_sport ?g" "ol_dport ?g"]
  obtain m where m: "ng_encode_udp_apppkt ck uck room (ol_sip ?g) (ol_dip ?g) (ol_sport ?g) (ol_dport ?g)
       (lh_localmac h) dstmac (pl @ sl) (of_nat (length pl + 42)) = Some m" "length m = length room"
     "\<exists>tl. parse_ip m = Some \<lparr>ip_total_length = tl, ip_next_proto = IPPROTO_UDP, ip_src = ol_sip ?g, ip_dst = ol_dip ?g\<rparr>"
     "rd16 34 m = Some (ol_sport ?g)" "rd16 36 m = Some (ol_dport ?g)"
     "rd16 38 m = Some (htons (of_nat (length pl + 8)))" "rd 42 (length pl) m = Some pl"
    by blast
  let ?p = "\<lparr>mb_len = length pl + 42, mb_data = m\<rparr>"
  have data: "ol_data ?g = pl @ sl" "ol_dip ?g = sin_addr d" by (simp_all add: datagram_def)
  have "udp_out_one ck uck U srcmac arpt (Some room) h = Some (h\<lparr>lh_sndbuf := Some r'\<rparr>, Some ?p)"
    using q(1) r'(1) arp(2) m(1) by (simp add: udp_out_one_def ng_udp_pkt_def ul Let_def data)
  moreover have "udp_packet_of ?g pl ?p" using m len(2) by (simp add: udp_packet_of_def)
  ultimately show ?thesis using r'(2) by blast
qed

lemma udp_process_correct:
  assumes pkt: "udp_packet_of dg pl p" "same_packet (mb_len p) (mb_data p) w" "length pl + 8 < 65536"
    and host: "get_hostinfo_fromip_port (ol_dip dg) (ol_dport dg) IPPROTO_UDP st = Some h"
    and sock: "udp_sock st fd as h bs" and env: "ae_alloc env 0" "ae_alloc env 1" and rcv: "lh_rcvbuf h = Some r"
  shows "\<exists>st' g. udp_process U env w st = Some (0, st') \<and>
    udp_sock st' fd as (h\<lparr>lh_rcvbuf := Some (ring_push U g r)\<rparr>) bs \<and> ol_sip g = ol_sip dg \<and>
    ol_sport g = ol_sport dg \<and> ol_data g = pl @ ae_slack env \<and> unat (ol_length g) = length pl + 8"
proof -
  let ?m = "mb_data p"
  have n: "mb_len p = 42 + length pl" using pkt(1) by (simp add: udp_packet_of_def)
  note wire = pkt(2) [unfolded n]
  obtain tl where "parse_ip w = Some \<lparr>ip_total_length = tl, ip_next_proto = IPPROTO_UDP, ip_src = ol_sip dg, ip_dst = ol_dip dg\<rparr>"
    using pkt(1) same_packet_ip [OF wire] by (auto simp: udp_packet_of_def)
  moreover have "rd16 34 w = Some (ol_sport dg)" "rd16 36 w = Some (ol_dport dg)"
    "rd16 38 w = Some (htons (of_nat (length pl + 8)))" "rd 42 (length pl) w = Some pl"
    using pkt(1) by (simp_all add: udp_packet_of_def same_packet_fields [OF wire] same_packet_rd [OF wire])
  moreover have ul: "unat (of_nat (length pl + 8) :: u16) = length pl + 8"
    using pkt(3) by (simp only: unat_of_nat take_bit_eq_mod) simp
  moreover have "udp_payload_size (htons (of_nat (length pl + 8))) = length pl"
    using pkt(3) ul unfolding udp_payload_size_def htons_htons by (simp only: ul) simp
  moreover define g where "g = \<lparr>ol_sip = ol_sip dg, ol_dip = ol_dip dg, ol_sport = ol_sport dg,
      ol_dport = ol_dport dg, ol_data = pl @ ae_slack env, ol_length = of_nat (length pl + 8)\<rparr>"
  ultimately have "udp_process U env w st =
      Some (0, lh_update (lh_ptr h) (\<lambda>h. h\<lparr>lh_rcvbuf := Some (ring_push U g r)\<rparr>) st)"
    using host env rcv by (simp add: udp_process_def Let_def udp_push_def)
  moreover have "unat (ol_length g) = length pl + 8" by (simp only: g_def offload.simps ul)
  ultimately show ?thesis
    using udp_sock_update [OF sock, of "\<lambda>h. h\<lparr>lh_rcvbuf := Some (ring_push U g r)\<rparr>"]
    by (intro exI [of _ "lh_update (lh_ptr h) (\<lambda>h. h\<lparr>lh_rcvbuf := Some (ring_push U g r)\<rparr>) st"] exI [of _ g] conjI)
      (simp_all add: g_def)
qed

lemma nrecvfrom_correct:
  assumes sock: "udp_sock st fd as h bs" and fifo: "ring_fifo U cap view"
    and q: "lh_rcvbuf h = Some r" "view r = g # q"
    and g: "ol_data g = pl @ sl" "unat (ol_length g) = length pl + 8"
  shows "(length sl < 8 \<longrightarrow> nrecvfrom U env fd len wakes st = None) \<and>
    (8 \<le> length sl \<and> length pl + 8 \<le> len \<longrightarrow>
      (\<exists>st'. nrecvfrom U env fd len wakes st =
         Some (Done (int (length pl + 8), pl @ take 8 sl, Some \<lparr>sin_port = ol_sport g, sin_addr = ol_sip g\<rparr>, st'))))"
proof -
  obtain r' where r': "rte_dequeue U r = Some (g, r')"
    using ring_dequeue_cases [OF fifo, of r] q(2) by (metis list.discI list.inject)
  have loop: "recvfrom_loop U (lh_ptr h) wakes st =
      Some (Done (g, lh_update (lh_ptr h) (\<lambda>h. h\<lparr>lh_rcvbuf := Some r'\<rparr>) st))"
    using q(1) r' by (subst recvfrom_loop.simps) (simp add: udp_sock_lookup [OF sock])
  have over: "rd 0 (length pl + 8) (pl @ sl) = None"
      "rd len (length pl + 8 - len) (pl @ sl) = None \<or> rd 0 len (pl @ sl) = None \<or> length pl + 8 \<le> len" if "length sl < 8"
    using that by (auto simp: rd_def)
  have "nrecvfrom U env fd len wakes st = None" if "length sl < 8"
    using over [OF that] loop g
    by (auto simp: nrecvfrom_def udp_sock_lookup [OF sock] Let_def Option.bind_eq_None_conv)
  moreover have "\<exists>st'. nrecvfrom U env fd len wakes st =
      Some (Done (int (length pl + 8), pl @ take 8 sl, Some \<lparr>sin_port = ol_sport g, sin_addr = ol_sip g\<rparr>, st'))"
    if "8 \<le> length sl" "length pl + 8 \<le> len"
  proof -
    have "rd 0 (length pl + 8) (pl @ sl) = Some (pl @ take 8 sl)" using that by (simp add: rd_def)
    moreover have "int (unat (ol_length g)) = int (length pl + 8)" by (simp only: g(2))
    ultimately show ?thesis using that loop g
      by (simp add: nrecvfrom_def udp_sock_lookup [OF sock] Let_def)
  qed
  ultimately show ?thesis by blast
qed

section \<open>End to end\<close>

text \<open>C16: a datagram reaches the other application with its sender's address, but with the wrong
  length. \<open>nsendto\<close> and the next round of the output loop send the bytes of the application
  (the encoder reads 8 bytes behind them), and \<open>udp_process\<close> stores them in a buffer of
  their size but takes the length with the 8 header bytes: \<open>nrecvfrom\<close> returns 8 more than
  were sent and hands out 8 bytes of the memory that follows the buffer; when nothing
  readable follows it, it reads out of bounds whatever the size of the caller's buffer.\<close>

theorem udp_end_to_end:
  assumes sender: "udp_sock sta fda as a bs" "ae_alloc env 0" "ae_alloc env 1" "8 \<le> length (ae_slack env)"
      "lh_sndbuf a = Some ra" "view ra = []" "length (lh_localmac a) = 6"
    and len: "len \<le> length buf" "len + 42 < 65536"
    and out: "arp_inv arpt" "ng_get_dst_macaddr (sin_addr d) arpt = Some dstmac" "len + 50 \<le> length room"
    and rings: "ring_fifo U cap view" "0 < cap"
    and receiver: "udp_sock stb fdb cs b ds" "get_hostinfo_fromip_port (sin_addr d) (sin_port d) IPPROTO_UDP stb = Some b"
      "ae_alloc env' 0" "ae_alloc env' 1" "lh_rcvbuf b = Some rb" "view rb = []"
  shows "\<exists>sta' a' a'' p. nsendto U env fda buf len d sta = Some (int len, sta') \<and> udp_sock sta' fda as a' bs \<and>
    udp_out_one ck uck U srcmac arpt (Some room) a' = Some (a'', Some p) \<and>
    (\<forall>w. same_packet (mb_len p) (mb_data p) w \<longrightarrow>
      (\<exists>stb'. udp_process U env' w stb = Some (0, stb') \<and>
         (length (ae_slack env') < 8 \<longrightarrow> nrecvfrom U env'' fdb blen wakes stb' = None) \<and>
         (8 \<le> length (ae_slack env') \<and> len + 8 \<le> blen \<longrightarrow>
            (\<exists>stb''. nrecvfrom U env'' fdb blen wakes stb' =
               Some (Done (int (len + 8), take len buf @ take 8 (ae_slack env'),
                 Some \<lparr>sin_port = lh_localport a, sin_addr = lh_localip a\<rparr>, stb''))))))"
proof -
  let ?pl = "take len buf" and ?sl = "ae_slack env"
  have pl: "length ?pl = len" using len(1) by simp
  let ?g = "datagram a d ?pl ?sl"
  let ?a = "a\<lparr>lh_sndbuf := Some (ring_push U ?g ra)\<rparr>"
  obtain sta' where sta': "nsendto U env fda buf len d sta = Some (int len, sta')" "udp_sock sta' fda as ?a bs"
    using nsendto_correct [OF sender(1-3) len(1) sender(5), of U d] by blast
  have q: "view (ring_push U ?g ra) = [?g]" using ring_push_view [OF rings(1), of ra ?g] sender(6) rings(2) by simp
  obtain r' p where p: "udp_out_one ck uck U srcmac arpt (Some room) ?a = Some (?a\<lparr>lh_sndbuf := Some r'\<rparr>, Some p)"
      "udp_packet_of ?g ?pl p"
    using udp_out_one_correct [OF rings(1) _ q out(1,2), of ?a room ck uck srcmac] len(2) out(3) sender(4,7) pl by auto
  have d: "ol_dip ?g = sin_addr d" "ol_dport ?g = sin_port d" "ol_sip ?g = lh_localip a" "ol_sport ?g = lh_localport a"
    by (simp_all add: datagram_def)
  have "\<exists>stb'. udp_process U env' w stb = Some (0, stb') \<and>
         (length (ae_slack env') < 8 \<longrightarrow> nrecvfrom U env'' fdb blen wakes stb' = None) \<and>
         (8 \<le> length (ae_slack env') \<and> len + 8 \<le> blen \<longrightarrow>
            (\<exists>stb''. nrecvfrom U env'' fdb blen wakes stb' =
               Some (Done (int (len + 8), ?pl @ take 8 (ae_slack env'),
                 Some \<lparr>sin_port = lh_localport a, sin_addr = lh_localip a\<rparr>, stb''))))"
    if w: "same_packet (mb_len p) (mb_data p) w" for w
  proof -
    have l8: "length ?pl + 8 < 65536" using pl len(2) by simp
    obtain stb' g where b: "udp_process U env' w stb = Some (0, stb')"
        "udp_sock stb' fdb cs (b\<lparr>lh_rcvbuf := Some (ring_push U g rb)\<rparr>) ds" "ol_sip g = lh_localip a"
        "ol_sport g = lh_localport a" "ol_data g = ?pl @ ae_slack env'" "unat (ol_length g) = length ?pl + 8"
      using udp_process_correct [OF p(2) w l8 _ receiver(1,3,4,5), of U] receiver(2) d by auto
    have "view (ring_push U g rb) = [g]" using ring_push_view [OF rings(1), of rb g] receiver(6) rings(2) by simp
    from nrecvfrom_correct [OF b(2) rings(1) _ this b(5,6), of env'' blen wakes] show ?thesis
      using b(1,3,4) pl by auto
  qed
  then show ?thesis using sta' p(1) by blast
qed

definition ex_udp :: "int \<Rightarrow> u32 \<Rightarrow> u16 \<Rightarrow> offload list localhost" where
  "ex_udp fd ip port = \<lparr>lh_ptr = 600, lh_fd = fd, lh_localip = ip, lh_localmac = replicate 6 9,
     lh_localport = port, lh_protocol = IPPROTO_UDP, lh_sndbuf = Some [], lh_rcvbuf = Some []\<rparr>"

lemma udp_end_to_end_witness:
  "\<exists>sta' a' a'' p. nsendto (list_ring 8) ex_api 3 [1, 2, 3] 3 \<lparr>sin_port = 5, sin_addr = 0x02020202\<rparr>
       (ex_empty\<lparr>st_lhost := [ex_udp 3 1 4]\<rparr>) = Some (3, sta') \<and>
     udp_out_one (\<lambda>_. 0) (\<lambda>_. 0) (list_ring 8) (replicate 6 9)
       (snd (ng_arp_entry_insert True 0x02020202 (replicate 6 1) \<lparr>arp_entries = [], arp_count = 0\<rparr>))
       (Some (replicate 2048 0)) a' = Some (a'', Some p) \<and>
     (\<forall>w. same_packet (mb_len p) (mb_data p) w \<longrightarrow>
       (\<exists>stb' stb''. udp_process (list_ring 8) ex_api w (ex_empty\<lparr>st_lhost := [ex_udp 4 0x02020202 5]\<rparr>) = Some (0, stb') \<and>
          nrecvfrom (list_ring 8) ex_api 4 100 [] stb' =
            Some (Done (11, [1, 2, 3] @ replicate 8 0xAA, Some \<lparr>sin_port = 4, sin_addr = 1\<rparr>, stb''))))"
proof -
  let ?d = "\<lparr>sin_port = 5, sin_addr = 0x02020202\<rparr>"
  let ?arpt = "snd (ng_arp_entry_insert True 0x02020202 (replicate 6 1) \<lparr>arp_entries = [], arp_count = 0\<rparr>)"
  have 1: "udp_sock (ex_empty\<lparr>st_lhost := [ex_udp 3 1 4]\<rparr>) 3 [] (ex_udp 3 1 4) []"
    "udp_sock (ex_empty\<lparr>st_lhost := [ex_udp 4 0x02020202 5]\<rparr>) 4 [] (ex_udp 4 0x02020202 5) []"
    by (simp_all add: udp_sock_def ex_udp_def)
  have 2: "ae_alloc ex_api k" "8 \<le> length (ae_slack ex_api)" "ae_slack ex_api = replicate 8 0xAA" for k
    by (simp_all add: ex_api_def)
  have 3: "lh_sndbuf (ex_udp fd i p) = Some []" "lh_rcvbuf (ex_udp fd i p) = Some []"
    "length (lh_localmac (ex_udp fd i p)) = 6" "lh_localip (ex_udp fd i p) = i" "lh_localport (ex_udp fd i p) = p" for fd i p
    by (simp_all add: ex_udp_def)
  have 4: "arp_inv ?arpt" "ng_get_dst_macaddr (sin_addr ?d) ?arpt = Some (replicate 6 1)"
    by (simp_all add: arp_inv_def ng_arp_entry_insert_def ng_get_dst_macaddr_def)
  have 5: "get_hostinfo_fromip_port (sin_addr ?d) (sin_port ?d) IPPROTO_UDP (ex_empty\<lparr>st_lhost := [ex_udp 4 0x02020202 5]\<rparr>)
      = Some (ex_udp 4 0x02020202 5)"
    by (simp add: get_hostinfo_fromip_port_def ex_udp_def)
  have 6: "3 \<le> length [1, 2, 3 :: u8]" "3 + 42 < (65536 :: nat)" "3 + 50 \<le> length (replicate 2048 (0 :: u8))" "0 < (8 :: nat)"
    by simp_all
  show ?thesis
    using udp_end_to_end [where ck = "\<lambda>_. 0" and uck = "\<lambda>_. 0" and srcmac = "replicate 6 9" and wakes = "[]"
        and blen = 100 and env'' = ex_api,
        OF 1(1) 2(1) 2(1) 2(2) 3(1) refl 3(3) 6(1,2) 4 6(3) list_ring_fifo [of 8] 6(4) 1(2) 5 2(1) 2(1) 3(2) refl]
    by (simp add: 2(3) 3(4,5)) blast
qed

end
