(* ===== verification/Stack.thy ===== *)
theory Stack
  imports Udp_Correct
begin

text \<open>
  The packet thread of \<^verbatim>\<open>tcp_concurrency.c\<close>: one round of \<open>pkt_process\<close> takes a burst from the
  input ring, learns the Ethernet address of every IPv4 sender, hands UDP and TCP packets to
  their handlers, which free them, and gives everything else to the kernel interface; then the
  two output loops run.

  The kernel interface (KNI) and the output ring are parameters. \<open>alive\<close> says which packets
  of the burst the thread still owns: handlers free them, the kernel interface takes over
  those it accepts, and a packet that is not owned may not be used any more.
\<close>

section \<open>One packet\<close>

record ('r, 'u) pkt_env =
  pe_arp_alloc :: bool
  pe_tcp :: "'r tcp_env"
  pe_udp :: "('r, 'u) api_env"

record ('r, 'u, 'k) host =
  hs_stack :: "('r, 'u) stack"
  hs_arp :: arp_table
  hs_kni :: 'k

text \<open>\<open>rte_kni_tx_burst(global_kni, mbufs, num_recvd)\<close>: the whole burst is offered, the first
  packets are accepted.\<close>

definition kni_burst :: "(bytes list \<Rightarrow> 'k \<Rightarrow> nat \<times> 'k) \<Rightarrow> bytes list \<Rightarrow> bool list \<Rightarrow> ('r, 'u, 'k) host \<Rightarrow>
    (bool list \<times> ('r, 'u, 'k) host) option" where
  "kni_burst kni_tx burst alive h =
     (let (n, k) = kni_tx burst (hs_kni h) in
      if False \<in> set (take n alive) then None
      else Some (replicate (min n (length alive)) False @ drop n alive, h\<lparr>hs_kni := k\<rparr>))"

definition pkt_handle ::
  "(bytes \<Rightarrow> u16) \<Rightarrow> ('r, ng_tcp_fragment) rte_ring \<Rightarrow> ('u, offload) rte_ring \<Rightarrow> (bytes list \<Rightarrow> 'k \<Rightarrow> nat \<times> 'k) \<Rightarrow>
     ('r, 'u) pkt_env \<Rightarrow> bytes list \<Rightarrow> nat \<Rightarrow> bool list \<Rightarrow> ('r, 'u, 'k) host \<Rightarrow>
     (bool list \<times> ('r, 'u, 'k) host) option" where
  "pkt_handle uck R U kni_tx env burst i alive h =
     (if \<not> alive ! i then None
      else
        do { let m = burst ! i;
             ether_type \<leftarrow> rd16 12 m;
             if ether_type = htons RTE_ETHER_TYPE_IPV4 then
               do { src \<leftarrow> rd32 26 m;
                    mac \<leftarrow> rd 6 6 m;
                    proto \<leftarrow> rd8 23 m;
                    let (_, arp) = ng_arp_entry_insert (pe_arp_alloc env) src mac (hs_arp h);
                    let h = h\<lparr>hs_arp := arp\<rparr>;
                    if proto = IPPROTO_UDP then
                      do { (_, st) \<leftarrow> udp_process U (pe_udp env) m (hs_stack h);
                           Some (alive[i := False], h\<lparr>hs_stack := st\<rparr>) }
                    else if proto = IPPROTO_TCP then
                      do { (_, t) \<leftarrow> ng_tcp_process uck R (pe_tcp env) m (st_tcp (hs_stack h));
                           Some (alive[i := False], h\<lparr>hs_stack := (hs_stack h)\<lparr>st_tcp := t\<rparr>\<rparr>) }
                    else kni_burst kni_tx burst alive h }
             else kni_burst kni_tx burst alive h })"

section \<open>A round\<close>

fun pkt_loop ::
  "(bytes \<Rightarrow> u16) \<Rightarrow> ('r, ng_tcp_fragment) rte_ring \<Rightarrow> ('u, offload) rte_ring \<Rightarrow> (bytes list \<Rightarrow> 'k \<Rightarrow> nat \<times> 'k) \<Rightarrow>
     bytes list \<Rightarrow> nat \<Rightarrow> ('r, 'u) pkt_env list \<Rightarrow> bool list \<Rightarrow> ('r, 'u, 'k) host \<Rightarrow>
     (bool list \<times> ('r, 'u, 'k) host) option" where
  "pkt_loop uck R U kni_tx burst i [] alive h = Some (alive, h)"
| "pkt_loop uck R U kni_tx burst i (env # envs) alive h =
     do { (alive, h) \<leftarrow> pkt_handle uck R U kni_tx env burst i alive h;
          pkt_loop uck R U kni_tx burst (i + 1) envs alive h }"

text \<open>\<open>packets\<close> is the burst with the environment of every packet; \<open>pool_u\<close> and \<open>pool_t\<close> are the
  packet allocations of the output loops.\<close>

definition pkt_round ::
  "(bytes \<Rightarrow> u16) \<Rightarrow> (bytes \<Rightarrow> u16) \<Rightarrow> ('r, ng_tcp_fragment) rte_ring \<Rightarrow> ('u, offload) rte_ring \<Rightarrow>
     (bytes list \<Rightarrow> 'k \<Rightarrow> nat \<times> 'k) \<Rightarrow> (mbuf \<Rightarrow> 'o \<Rightarrow> nat \<times> 'o) \<Rightarrow> bytes \<Rightarrow> (addr \<Rightarrow> bytes option) \<Rightarrow>
     (addr \<Rightarrow> bytes option) \<Rightarrow> (bytes \<times> ('r, 'u) pkt_env) list \<Rightarrow> ('r, 'u, 'k) host \<times> 'o \<Rightarrow>
     (('r, 'u, 'k) host \<times> 'o) option" where
  "pkt_round ck uck R U kni_tx enq srcmac pool_u pool_t packets s =
     do { let (h, out) = s;
          (_, h) \<leftarrow> pkt_loop uck R U kni_tx (map fst packets) 0 (map snd packets)
                     (replicate (length packets) True) h;
          (st, out) \<leftarrow> udp_out ck uck U srcmac (hs_arp h) pool_u enq (hs_stack h) out;
          (t, out) \<leftarrow> ng_tcp_out ck uck R srcmac (hs_arp h) pool_t enq (st_tcp st) out;
          Some (h\<lparr>hs_stack := st\<lparr>st_tcp := t\<rparr>\<rparr>, out) }"

section \<open>Bursts of UDP and TCP packets\<close>

definition l4_packet :: "bytes \<Rightarrow> bool" where
  "l4_packet m \<longleftrightarrow> 34 \<le> length m \<and> rd16 12 m = Some (htons RTE_ETHER_TYPE_IPV4) \<and>
     (rd8 23 m = Some IPPROTO_UDP \<or> rd8 23 m = Some IPPROTO_TCP)"

definition has_proto :: "u8 \<Rightarrow> bytes \<times> ('r, 'u) pkt_env \<Rightarrow> bool" where
  "has_proto proto p \<longleftrightarrow> rd8 23 (fst p) = Some proto"

text \<open>What the packets do to each part of the host, taken by itself: the TCP packets to the control blocks,
  the UDP packets to the UDP sockets, and the senders to the ARP table.\<close>

fun tcp_run :: "(bytes \<Rightarrow> u16) \<Rightarrow> ('r, ng_tcp_fragment) rte_ring \<Rightarrow> (bytes \<times> ('r, 'u) pkt_env) list \<Rightarrow> 'r ng_tcp_table \<Rightarrow>
    'r ng_tcp_table option" where
  "tcp_run uck R [] t = Some t"
| "tcp_run uck R (p # ps) t =
     do { (_, t) \<leftarrow> ng_tcp_process uck R (pe_tcp (snd p)) (fst p) t; tcp_run uck R ps t }"

fun udp_run :: "('u, offload) rte_ring \<Rightarrow> (bytes \<times> ('r, 'u) pkt_env) list \<Rightarrow> ('r, 'u) stack \<Rightarrow> ('r, 'u) stack option" where
  "udp_run U [] st = Some st"
| "udp_run U (p # ps) st =
     do { (_, st) \<leftarrow> udp_process U (pe_udp (snd p)) (fst p) st; udp_run U ps st }"

definition senders :: "(bytes \<times> ('r, 'u) pkt_env) list \<Rightarrow> (u32 \<times> bytes \<times> bool) list" where
  "senders = map (\<lambda>(m, env). (the (rd32 26 m), the (rd 6 6 m), pe_arp_alloc env))"

lemma udp_process_tcp:
  "udp_process U env m (st\<lparr>st_tcp := t\<rparr>) = map_option (\<lambda>(c, st). (c, st\<lparr>st_tcp := t\<rparr>)) (udp_process U env m st)"
  by (simp add: udp_process_def get_hostinfo_fromip_port_def lh_update_def Let_def map_option_bind
      split: option.splits bind_splits)

text \<open>What a round keeps of the sockets: the UDP sockets and the bitmap, and for every control block
  its descriptor and the table of those that existed before.\<close>

definition socks :: "('r, 'u) stack \<Rightarrow> (addr \<times> int) list \<times> fd_table" where
  "socks st = (map (\<lambda>h. (lh_ptr h, lh_fd h)) (st_lhost st), st_fds st)"

lemma udp_process_frame:
  assumes "udp_process U env m st = Some (c, st')"
  shows "st_tcp st' = st_tcp st" "socks st' = socks st"
  using assms
  by (auto simp: udp_process_def lh_update_def Let_def socks_def split: option.splits if_splits bind_splits)

lemma udp_run_tcp: "udp_run U ps (st\<lparr>st_tcp := t\<rparr>) = map_option (\<lambda>st. st\<lparr>st_tcp := t\<rparr>) (udp_run U ps st)"
proof (induction ps arbitrary: st)
  case (Cons p ps)
  then show ?case
    by (cases "udp_process U (pe_udp (snd p)) (fst p) st") (auto simp: udp_process_tcp)
qed simp

lemma pkt_handle_udp:
  assumes "l4_packet m" "rd8 23 m = Some IPPROTO_UDP" "alive ! i" "burst ! i = m"
  shows "pkt_handle uck R U kni_tx env burst i alive h =
     map_option (\<lambda>(_, st). (alive[i := False], h\<lparr>hs_arp := arp_learn (senders [(m, env)]) (hs_arp h), hs_stack := st\<rparr>))
       (udp_process U (pe_udp env) m (hs_stack h))"
  using assms
  by (cases "udp_process U (pe_udp env) m (hs_stack h)")
    (auto simp: pkt_handle_def l4_packet_def senders_def rd_def rd32_def Let_def split: prod.splits)

lemma pkt_handle_tcp:
  assumes "l4_packet m" "rd8 23 m = Some IPPROTO_TCP" "alive ! i" "burst ! i = m"
  shows "pkt_handle uck R U kni_tx env burst i alive h =
     map_option (\<lambda>(_, t). (alive[i := False], h\<lparr>hs_arp := arp_learn (senders [(m, env)]) (hs_arp h),
         hs_stack := (hs_stack h)\<lparr>st_tcp := t\<rparr>\<rparr>))
       (ng_tcp_process uck R (pe_tcp env) m (st_tcp (hs_stack h)))"
  using assms
  by (cases "ng_tcp_process uck R (pe_tcp env) m (st_tcp (hs_stack h))")
    (auto simp: pkt_handle_def l4_packet_def senders_def rd_def rd32_def Let_def split: prod.splits)

definition burst_effect ::
  "(bytes \<Rightarrow> u16) \<Rightarrow> ('r, ng_tcp_fragment) rte_ring \<Rightarrow> ('u, offload) rte_ring \<Rightarrow> (bytes \<times> ('r, 'u) pkt_env) list \<Rightarrow>
     ('r, 'u, 'k) host \<Rightarrow> ('r, 'u, 'k) host option" where
  "burst_effect uck R U packets h =
     do { t \<leftarrow> tcp_run uck R (filter (has_proto IPPROTO_TCP) packets) (st_tcp (hs_stack h));
          st \<leftarrow> udp_run U (filter (has_proto IPPROTO_UDP) packets) (hs_stack h);
          Some (h\<lparr>hs_stack := st\<lparr>st_tcp := t\<rparr>, hs_arp := arp_learn (senders packets) (hs_arp h)\<rparr>) }"

lemma pkt_loop_l4:
  assumes "\<forall>(m, env)\<in>set ps. l4_packet m"
  shows "pkt_loop uck R U kni_tx (pre @ map fst ps) (length pre) (map snd ps)
       (replicate (length pre) False @ replicate (length ps) True) h =
     map_option (Pair (replicate (length pre + length ps) False)) (burst_effect uck R U ps h)"
  using assms
proof (induction ps arbitrary: pre h)
  case Nil
  then show ?case by (simp add: burst_effect_def senders_def)
next
  case (Cons p ps)
  obtain m env where p: "p = (m, env)" by fastforce
  let ?alive = "replicate (length pre) False @ replicate (length (p # ps)) True"
  have l4: "l4_packet m" and rest: "\<forall>(m, env)\<in>set ps. l4_packet m" using Cons.prems p by auto
  have at: "?alive ! length pre" "(pre @ map fst (p # ps)) ! length pre = m" by (simp_all add: nth_append p)
  have upd: "?alive[length pre := False] = replicate (length (pre @ [m])) False @ replicate (length ps) True"
    using replicate_append_same [of "length pre" False] by (simp add: list_update_append)
  let ?arp = "arp_learn (senders [(m, env)]) (hs_arp h)"
  have arp: "arp_learn (senders (p # ps)) (hs_arp h) = arp_learn (senders ps) ?arp" by (simp add: senders_def p)
  note IH = Cons.IH [OF rest, of "pre @ [m]"]
  show ?case
  proof (cases "rd8 23 m = Some IPPROTO_UDP")
    case True
    then have f: "has_proto IPPROTO_UDP p" "\<not> has_proto IPPROTO_TCP p" by (simp_all add: has_proto_def p)
    note here = pkt_handle_udp [OF l4 True at, of uck R U kni_tx env h]
    show ?thesis
    proof (cases "udp_process U (pe_udp env) m (hs_stack h)")
      case None
      then show ?thesis using here f by (simp add: p burst_effect_def split: bind_splits)
    next
      case (Some r)
      obtain c st where r: "udp_process U (pe_udp env) m (hs_stack h) = Some (c, st)" using Some by (cases r) simp
      show ?thesis using here f r udp_process_frame(1) [OF r] IH [of "h\<lparr>hs_arp := ?arp, hs_stack := st\<rparr>"] upd arp
        by (simp add: p burst_effect_def)
    qed
  next
    case False
    then have True: "rd8 23 m = Some IPPROTO_TCP" using l4 by (simp add: l4_packet_def)
    then have f: "has_proto IPPROTO_TCP p" "\<not> has_proto IPPROTO_UDP p" by (simp_all add: has_proto_def p)
    note here = pkt_handle_tcp [OF l4 True at, of uck R U kni_tx env h]
    show ?thesis
    proof (cases "ng_tcp_process uck R (pe_tcp env) m (st_tcp (hs_stack h))")
      case None
      then show ?thesis using here f by (simp add: p burst_effect_def)
    next
      case (Some r)
      obtain c t where r: "ng_tcp_process uck R (pe_tcp env) m (st_tcp (hs_stack h)) = Some (c, t)" using Some by (cases r) simp
      show ?thesis
        using here f r IH [of "h\<lparr>hs_arp := ?arp, hs_stack := (hs_stack h)\<lparr>st_tcp := t\<rparr>\<rparr>"] upd arp
        by (simp add: p burst_effect_def udp_run_tcp map_option_case split: option.splits)
    qed
  qed
qed

lemma udp_out_tcp:
  "udp_out ck uck U srcmac arpt pool enq (st\<lparr>st_tcp := t\<rparr>) out =
     map_option (\<lambda>(st, out). (st\<lparr>st_tcp := t\<rparr>, out)) (udp_out ck uck U srcmac arpt pool enq st out)"
  by (simp add: udp_out_def map_option_bind split: bind_splits)

lemma find_in_set: "find P xs = Some x \<Longrightarrow> x \<in> set xs"
  by (induction xs) (auto split: if_splits)

lemma senders_macs: "\<forall>(m, env)\<in>set packets. l4_packet m \<Longrightarrow> \<forall>(ip, mac, alloc)\<in>set (senders packets). length mac = 6"
  by (fastforce simp: senders_def l4_packet_def rd_def)

text \<open>C13: In a burst that holds only UDP and TCP packets every packet is freed exactly once (a second use of it
  would crash) and none goes to the kernel. The two protocols do not interfere: the control blocks are as if only the TCP packets
  had come, the UDP sockets as if only the UDP packets had, each in order of arrival. Every sender that was unknown is
  known afterwards by the Ethernet address of its first packet for which there was memory; no other entry of
  the ARP table changes. The output loops of the round then work on this table and these sockets.\<close>

theorem pkt_round_dispatch:
  assumes l4: "\<forall>(m, env)\<in>set packets. l4_packet m" and arp: "arp_inv (hs_arp h)"
  shows "\<exists>arp.
    (\<forall>ip. ng_get_dst_macaddr ip arp = (case ng_get_dst_macaddr ip (hs_arp h) of
       Some mac \<Rightarrow> Some mac
     | None \<Rightarrow> map_option (\<lambda>(_, mac, _). mac) (find (\<lambda>(src, _, stored). src = ip \<and> stored) (senders packets)))) \<and>
    pkt_loop uck R U kni_tx (map fst packets) 0 (map snd packets) (replicate (length packets) True) h =
      do { t \<leftarrow> tcp_run uck R (filter (has_proto IPPROTO_TCP) packets) (st_tcp (hs_stack h));
           st \<leftarrow> udp_run U (filter (has_proto IPPROTO_UDP) packets) (hs_stack h);
           Some (replicate (length packets) False, h\<lparr>hs_stack := st\<lparr>st_tcp := t\<rparr>, hs_arp := arp\<rparr>) } \<and>
    pkt_round ck uck R U kni_tx enq srcmac pool_u pool_t packets (h, out) =
      do { t \<leftarrow> tcp_run uck R (filter (has_proto IPPROTO_TCP) packets) (st_tcp (hs_stack h));
           st \<leftarrow> udp_run U (filter (has_proto IPPROTO_UDP) packets) (hs_stack h);
           (st, out) \<leftarrow> udp_out ck uck U srcmac arp pool_u enq st out;
           (t, out) \<leftarrow> ng_tcp_out ck uck R srcmac arp pool_t enq t out;
           Some (h\<lparr>hs_stack := st\<lparr>st_tcp := t\<rparr>, hs_arp := arp\<rparr>, out) }"
proof -
  let ?arp = "arp_learn (senders packets) (hs_arp h)"
  have macs: "\<forall>(ip, mac, alloc)\<in>set (senders packets). 6 \<le> length mac" using senders_macs [OF l4] by fastforce
  have "map_option (\<lambda>(ip, mac, alloc). take 6 mac) (find P (senders packets)) =
      map_option (\<lambda>(_, mac, _). mac) (find P (senders packets))" for P
    using senders_macs [OF l4] find_in_set [of P "senders packets"]
    by (cases "find P (senders packets)") fastforce+
  then have learned: "ng_get_dst_macaddr ip ?arp = (case ng_get_dst_macaddr ip (hs_arp h) of
       Some mac \<Rightarrow> Some mac
     | None \<Rightarrow> map_option (\<lambda>(_, mac, _). mac) (find (\<lambda>(src, _, stored). src = ip \<and> stored) (senders packets)))" for ip
    by (simp add: arp_learn_lookup [OF arp macs] split: option.splits)
  have loop: "pkt_loop uck R U kni_tx (map fst packets) 0 (map snd packets) (replicate (length packets) True) h =
     map_option (Pair (replicate (length packets) False)) (burst_effect uck R U packets h)"
    using pkt_loop_l4 [OF l4, of uck R U kni_tx "[]" h] by simp
  show ?thesis
    by (intro exI [of _ ?arp] conjI allI learned)
      (simp_all add: pkt_round_def loop burst_effect_def map_option_bind udp_out_tcp split: bind_splits)
qed

section \<open>Mixed bursts\<close>

text \<open>a packet that is not for the stack makes the thread offer the whole burst to the kernel
  interface. When an earlier packet of the burst was handled (and thus freed) before, and the
  kernel interface accepts it, a freed packet is used: the round fails although every packet
  of the burst could be handled on its own.\<close>

theorem mixed_burst_uses_freed_packet:
  assumes l4: "l4_packet m" and other: "rd16 12 m' = Some e" "e \<noteq> htons RTE_ETHER_TYPE_IPV4"
    and acc: "\<forall>b k. b \<noteq> [] \<longrightarrow> 0 < fst (kni_tx b k)"
  shows "pkt_round ck uck R U kni_tx enq srcmac pool_u pool_t [(m, env), (m', env')] (h, out) = None \<and>
    (\<exists>h'. pkt_loop uck R U kni_tx [m'] 0 [env'] [True] h = Some ([False], h'))"
proof -
  have "kni_burst kni_tx [m, m'] [False, True] h1 = None" for h1
    using acc [rule_format, of "[m, m']" "hs_kni h1"]
    by (cases "kni_tx [m, m'] (hs_kni h1)"; cases "fst (kni_tx [m, m'] (hs_kni h1))") (auto simp: kni_burst_def)
  then have second: "pkt_handle uck R U kni_tx env' [m, m'] (Suc 0) [False, True] h1 = None" for h1
    using other by (simp add: pkt_handle_def)
  have first: "alive = [False, True]" if "pkt_handle uck R U kni_tx env [m, m'] 0 [True, True] h = Some (alive, h1)" for alive h1
    using that l4 pkt_handle_udp [OF l4, of "[True, True]" 0 "[m, m']" uck R U kni_tx env h]
      pkt_handle_tcp [OF l4, of "[True, True]" 0 "[m, m']" uck R U kni_tx env h]
    by (auto simp: l4_packet_def map_option_case split: option.splits)
  have "pkt_loop uck R U kni_tx [m, m'] 0 [env, env'] [True, True] h = None"
    using second by (cases "pkt_handle uck R U kni_tx env [m, m'] 0 [True, True] h") (auto dest: first)
  moreover have "\<exists>h'. pkt_loop uck R U kni_tx [m'] 0 [env'] [True] h = Some ([False], h')"
    using other acc [rule_format, of "[m']" "hs_kni h"]
    by (cases "kni_tx [m'] (hs_kni h)") (auto simp: pkt_handle_def kni_burst_def split: nat.splits)
  ultimately show ?thesis by (simp add: pkt_round_def numeral_2_eq_2 del: pkt_loop.simps)
qed

section \<open>Invariant\<close>

definition host_inv :: "('r, 'u, 'k) host \<Rightarrow> bool" where
  "host_inv h \<longleftrightarrow> tcb_wf (st_tcp (hs_stack h)) \<and> arp_inv (hs_arp h) \<and> distinct (map lh_ptr (st_lhost (hs_stack h)))"

definition raw_ptrs :: "('r, 'u) pkt_env list \<Rightarrow> addr list" where
  "raw_ptrs envs = concat (map (\<lambda>e. case te_stream (pe_tcp e) of None \<Rightarrow> [] | Some raw \<Rightarrow> [ts_ptr raw]) envs)"

definition tcb_ptrs :: "('r, 'u, 'k) host \<Rightarrow> addr set" where
  "tcb_ptrs h = ts_ptr ` set (tcb_set (st_tcp (hs_stack h)))"

lemma table_step_ptrs:
  "tcp_table_step env ss ss' \<Longrightarrow>
     ts_ptr ` set ss' \<subseteq> ts_ptr ` set ss \<union> (case te_stream env of None \<Rightarrow> {} | Some raw \<Rightarrow> {ts_ptr raw})"
  unfolding tcp_table_step_def by (auto simp: same_conn_def)

lemma pkt_handle_inv:
  assumes inv: "host_inv h" and run: "pkt_handle uck R U kni_tx env burst i alive h = Some (alive', h')"
    and fresh: "set (raw_ptrs [env]) \<inter> tcb_ptrs h = {}"
  shows "host_inv h' \<and> socks (hs_stack h') = socks (hs_stack h) \<and> tcb_ptrs h' \<subseteq> tcb_ptrs h \<union> set (raw_ptrs [env])"
proof -
  have kni: "host_inv h2 \<and> socks (hs_stack h2) = socks (hs_stack h1) \<and> tcb_ptrs h2 = tcb_ptrs h1"
    if "kni_burst kni_tx burst alive h1 = Some (a2, h2)" "host_inv h1" for h1 h2 :: "('a, 'b, 'c) host" and a2
    using that by (auto simp: kni_burst_def host_inv_def tcb_ptrs_def Let_def split: prod.splits if_splits)
  let ?m = "burst ! i"
  obtain e where e: "rd16 12 ?m = Some e" "alive ! i" using run by (auto simp: pkt_handle_def Let_def split: if_splits bind_splits)
  show ?thesis
  proof (cases "e = htons RTE_ETHER_TYPE_IPV4")
    case False
    then show ?thesis using run e kni [of h alive' h'] inv by (auto simp: pkt_handle_def Let_def)
  next
    case True
    obtain src mac proto where p: "rd32 26 ?m = Some src" "rd 6 6 ?m = Some mac" "rd8 23 ?m = Some proto"
      using run e True by (auto simp: pkt_handle_def Let_def split: bind_splits)
    define h1 where "h1 = h\<lparr>hs_arp := snd (ng_arp_entry_insert (pe_arp_alloc env) src mac (hs_arp h))\<rparr>"
    have "6 \<le> length mac" using p(2) by (auto simp: rd_def split: if_splits)
    then have inv1: "host_inv h1" "hs_stack h1 = hs_stack h"
      using inv arp_insert_inv by (simp_all add: host_inv_def h1_def)
    consider "proto = IPPROTO_UDP" | "proto = IPPROTO_TCP" | "proto \<noteq> IPPROTO_UDP" "proto \<noteq> IPPROTO_TCP" by blast
    then show ?thesis
    proof cases
      case 1
      then obtain c st where st: "udp_process U (pe_udp env) ?m (hs_stack h) = Some (c, st)" "h' = h1\<lparr>hs_stack := st\<rparr>"
        using run e True p by (auto simp: pkt_handle_def Let_def h1_def split: bind_splits prod.splits)
      then show ?thesis using udp_process_frame [OF st(1)] inv1
        by (auto simp: host_inv_def tcb_ptrs_def socks_def map_eq_conv) (metis (no_types, lifting) fst_conv list.map_comp map_eq_conv o_apply)
    next
      case 2
      then obtain c t where t: "ng_tcp_process uck R (pe_tcp env) ?m (st_tcp (hs_stack h)) = Some (c, t)"
          "h' = h1\<lparr>hs_stack := (hs_stack h)\<lparr>st_tcp := t\<rparr>\<rparr>"
        using run e True p by (auto simp: pkt_handle_def Let_def h1_def split: bind_splits prod.splits)
      have wf: "tcb_wf (st_tcp (hs_stack h))" using inv by (simp add: host_inv_def)
      have "ts_ptr raw \<notin> ts_ptr ` set (tcb_set (st_tcp (hs_stack h)))" if "te_stream (pe_tcp env) = Some raw" for raw
        using fresh that by (auto simp: raw_ptrs_def tcb_ptrs_def)
      from process_step [OF wf t(1) this] have
        "tcp_table_step (pe_tcp env) (tcb_set (st_tcp (hs_stack h))) (tcb_set t)" "tcb_wf t" by blast+
      moreover have "set (raw_ptrs [env]) = (case te_stream (pe_tcp env) of None \<Rightarrow> {} | Some raw \<Rightarrow> {ts_ptr raw})"
        by (auto simp: raw_ptrs_def split: option.splits)
      ultimately show ?thesis using table_step_ptrs [of "pe_tcp env"] t(2) inv1
        by (simp add: host_inv_def tcb_ptrs_def socks_def)
    next
      case 3
      then have "kni_burst kni_tx burst alive h1 = Some (alive', h')"
        using run e True p by (auto simp: pkt_handle_def Let_def h1_def split: prod.splits)
      from kni [OF this inv1(1)] show ?thesis using inv1(2) by (auto simp: tcb_ptrs_def)
    qed
  qed
qed

lemma pkt_loop_inv:
  assumes "host_inv h" "pkt_loop uck R U kni_tx burst i envs alive h = Some (alive', h')"
    and "distinct (raw_ptrs envs)" "set (raw_ptrs envs) \<inter> tcb_ptrs h = {}"
  shows "host_inv h' \<and> socks (hs_stack h') = socks (hs_stack h)"
  using assms
proof (induction envs arbitrary: i alive h)
  case (Cons env envs)
  have raw: "raw_ptrs (env # envs) = raw_ptrs [env] @ raw_ptrs envs" by (simp add: raw_ptrs_def)
  obtain alive1 h1 where s: "pkt_handle uck R U kni_tx env burst i alive h = Some (alive1, h1)"
      "pkt_loop uck R U kni_tx burst (i + 1) envs alive1 h1 = Some (alive', h')"
    using Cons.prems(2) by (auto split: bind_splits)
  have "set (raw_ptrs [env]) \<inter> tcb_ptrs h = {}" using Cons.prems(4) raw by auto
  from pkt_handle_inv [OF Cons.prems(1) s(1) this] have h1: "host_inv h1" "socks (hs_stack h1) = socks (hs_stack h)"
    "tcb_ptrs h1 \<subseteq> tcb_ptrs h \<union> set (raw_ptrs [env])" by blast+
  have "set (raw_ptrs envs) \<inter> tcb_ptrs h1 = {}" "distinct (raw_ptrs envs)"
    using h1(3) Cons.prems(3,4) raw by auto
  from Cons.IH [OF h1(1) s(2) this(2,1)] h1(2) show ?case by simp
qed simp

lemma out_loop_map:
  assumes "\<And>s s' m. one s = Some (s', m) \<Longrightarrow> f s' = f s"
  shows "out_loop one enq ss out = Some (ss', out') \<Longrightarrow> map f ss' = map f ss"
proof (induction ss arbitrary: out ss')
  case (Cons s ss)
  then show ?case using assms by (fastforce split: bind_splits)
qed simp

text \<open>C12: whatever packets arrive, a round of the packet thread that returns keeps the tables in
  order: the control blocks have distinct addresses, the ARP table has one entry per address
  with a 6 byte Ethernet address, and the UDP sockets with their descriptors and the
  descriptor bitmap are unchanged. (The allocator gives distinct fresh addresses.)\<close>

theorem pkt_round_invariant:
  assumes inv: "host_inv h"
    and run: "pkt_round ck uck R U kni_tx enq srcmac pool_u pool_t packets (h, out) = Some (h', out')"
    and fresh: "distinct (raw_ptrs (map snd packets))" "set (raw_ptrs (map snd packets)) \<inter> tcb_ptrs h = {}"
  shows "host_inv h' \<and> socks (hs_stack h') = socks (hs_stack h)"
proof -
  obtain alive1 h1 st out1 t where s:
      "pkt_loop uck R U kni_tx (map fst packets) 0 (map snd packets) (replicate (length packets) True) h = Some (alive1, h1)"
      "udp_out ck uck U srcmac (hs_arp h1) pool_u enq (hs_stack h1) out = Some (st, out1)"
      "ng_tcp_out ck uck R srcmac (hs_arp h1) pool_t enq (st_tcp st) out1 = Some (t, out')"
      "h' = h1\<lparr>hs_stack := st\<lparr>st_tcp := t\<rparr>\<rparr>"
    using run by (auto simp: pkt_round_def split: bind_splits)
  have h1: "host_inv h1" "socks (hs_stack h1) = socks (hs_stack h)" using pkt_loop_inv [OF inv s(1) fresh] by blast+
  obtain hs where hs: "out_loop (\<lambda>h. udp_out_one ck uck U srcmac (hs_arp h1) (pool_u (lh_ptr h)) h) enq
      (st_lhost (hs_stack h1)) out = Some (hs, out1)" "st = (hs_stack h1)\<lparr>st_lhost := hs\<rparr>"
    using s(2) by (auto simp: udp_out_def split: bind_splits)
  have "map (\<lambda>h. (lh_ptr h, lh_fd h)) hs = map (\<lambda>h. (lh_ptr h, lh_fd h)) (st_lhost (hs_stack h1))"
    by (rule out_loop_map [OF _ hs(1)]) (auto simp: udp_out_one_def split: bind_splits option.splits)
  then have socks: "socks st = socks (hs_stack h1)" using hs(2) by (simp add: socks_def)
  then have lhd: "distinct (map lh_ptr (st_lhost st))"
    using h1(1) by (auto simp: host_inv_def socks_def) (metis (no_types, lifting) fst_conv list.map_comp map_eq_conv o_apply)
  obtain ss where ss: "out_loop (\<lambda>s. tcp_out_one ck uck R srcmac (hs_arp h1) (pool_t (ts_ptr s)) s) enq
      (tcb_set (st_tcp st)) out1 = Some (ss, out')" "t = (st_tcp st)\<lparr>tcb_set := ss\<rparr>"
    using s(3) by (auto simp: ng_tcp_out_def split: bind_splits)
  have "map ts_ptr ss = map ts_ptr (tcb_set (st_tcp st))"
    by (rule out_loop_map [OF _ ss(1)]) (auto simp: tcp_out_one_def split: bind_splits option.splits)
  then have "tcb_wf t" using h1(1) hs(2) ss(2) by (simp add: tcb_wf_def host_inv_def)
  then show ?thesis using s(4) h1 lhd socks by (simp add: host_inv_def socks_def)
qed

section \<open>Witnesses\<close>

definition ex_frame :: bytes where
  "ex_frame = put 12 [8, 0] (ex_pkt 0x18)"

definition ex_host :: "(ng_tcp_fragment list, offload list, bytes list) host" where
  "ex_host = \<lparr>hs_stack = ex_empty, hs_arp = \<lparr>arp_entries = [], arp_count = 0\<rparr>, hs_kni = []\<rparr>"

definition ex_pe :: "(ng_tcp_fragment list, offload list) pkt_env" where
  "ex_pe = \<lparr>pe_arp_alloc = True, pe_tcp = ex_env, pe_udp = ex_api\<rparr>"

lemma ex_frame_l4: "l4_packet ex_frame"
  unfolding l4_packet_def ex_frame_def by code_simp

definition ex_dgram :: bytes where
  "ex_dgram = put 26 [9, 9, 9, 9] (put 23 [IPPROTO_UDP] ex_frame)"

lemma pkt_round_dispatch_witness:
  "\<exists>h'. pkt_loop (\<lambda>_. 0) (list_ring 8) (list_ring 8) (\<lambda>b k. (length b, k @ b)) [ex_frame, ex_dgram, ex_frame] 0 [ex_pe, ex_pe, ex_pe]
       [True, True, True] ex_host = Some ([False, False, False], h') \<and>
     pkt_round (\<lambda>_. 0) (\<lambda>_. 0) (list_ring 8) (list_ring 8) (\<lambda>b k. (length b, k @ b)) (\<lambda>m out. (1, out @ [m]))
       (replicate 6 9) (\<lambda>_. None) (\<lambda>_. None) [(ex_frame, ex_pe), (ex_dgram, ex_pe), (ex_frame, ex_pe)] (ex_host, []) = Some (h', []) \<and>
     ng_get_dst_macaddr 0x01010101 (hs_arp h') = Some (replicate 6 0) \<and>
     ng_get_dst_macaddr 0x09090909 (hs_arp h') = Some (replicate 6 0) \<and> hs_kni h' = []"
proof -
  let ?ps = "[(ex_frame, ex_pe), (ex_dgram, ex_pe), (ex_frame, ex_pe)]"
  have f: "parse_ip ex_frame = Some ex_ip" "parse_tcp ex_frame = Some (ex_hdr 0x18)" "rd8 23 ex_frame = Some IPPROTO_TCP"
    "rd8 23 ex_dgram = Some IPPROTO_UDP" "rd16 34 ex_dgram = Some 0x3412" "rd16 36 ex_dgram = Some 0x0F27"
    "parse_ip ex_dgram = Some (ex_ip\<lparr>ip_next_proto := IPPROTO_UDP, ip_src := 0x09090909\<rparr>)"
    unfolding ex_dgram_def ex_frame_def by code_simp+
  have l4: "\<forall>(m, env)\<in>set ?ps. l4_packet m"
    using ex_frame_l4 by (simp add: l4_packet_def ex_dgram_def) code_simp
  have arp: "arp_inv (hs_arp ex_host)" by (simp add: ex_host_def arp_inv_def)
  have tcp: "ng_tcp_process (\<lambda>_. 0) (list_ring 8) ex_env ex_frame (st_tcp ex_empty) = Some (- 2, st_tcp ex_empty)"
    by (simp add: ng_tcp_process_def f ex_hdr_def ex_empty_def ng_tcp_stream_search_def)
  have udp: "udp_process (list_ring 8) ex_api ex_dgram ex_empty = Some (- 3, ex_empty)"
    by (simp add: udp_process_def f get_hostinfo_fromip_port_def ex_empty_def)
  have runs: "tcp_run (\<lambda>_. 0) (list_ring 8) (filter (has_proto IPPROTO_TCP) ?ps) (st_tcp (hs_stack ex_host)) = Some (st_tcp ex_empty)"
    "udp_run (list_ring 8) (filter (has_proto IPPROTO_UDP) ?ps) (hs_stack ex_host) = Some ex_empty"
    using tcp udp by (simp_all add: has_proto_def f ex_host_def ex_pe_def)
  have snd: "senders ?ps = [(0x01010101, replicate 6 0, True), (0x09090909, replicate 6 0, True), (0x01010101, replicate 6 0, True)]"
    unfolding senders_def ex_pe_def ex_dgram_def ex_frame_def by code_simp
  from pkt_round_dispatch [OF l4 arp, of "\<lambda>_. 0" "list_ring 8" "list_ring 8" "\<lambda>b k. (length b, k @ b)" "\<lambda>_. 0"
      "\<lambda>m out. (1, out @ [m])" "replicate 6 9" "\<lambda>_. None" "\<lambda>_. None" "[]"]
  obtain arp where "\<forall>ip. ng_get_dst_macaddr ip arp = (case ng_get_dst_macaddr ip (hs_arp ex_host) of
       Some mac \<Rightarrow> Some mac
     | None \<Rightarrow> map_option (\<lambda>(_, mac, _). mac) (find (\<lambda>(src, _, stored). src = ip \<and> stored) (senders ?ps)))"
    "pkt_loop (\<lambda>_. 0) (list_ring 8) (list_ring 8) (\<lambda>b k. (length b, k @ b)) (map fst ?ps) 0 (map snd ?ps)
       (replicate (length ?ps) True) ex_host = Some (replicate (length ?ps) False, ex_host\<lparr>hs_arp := arp\<rparr>)"
    "pkt_round (\<lambda>_. 0) (\<lambda>_. 0) (list_ring 8) (list_ring 8) (\<lambda>b k. (length b, k @ b)) (\<lambda>m out. (1, out @ [m]))
       (replicate 6 9) (\<lambda>_. None) (\<lambda>_. None) ?ps (ex_host, []) = Some (ex_host\<lparr>hs_arp := arp\<rparr>, [])"
    unfolding runs by (auto simp: ex_host_def ex_empty_def udp_out_def ng_tcp_out_def)
  then show ?thesis
    by (intro exI [of _ "ex_host\<lparr>hs_arp := arp\<rparr>"]) (simp add: snd numeral_3_eq_3 ng_get_dst_macaddr_def ex_host_def)
qed

lemma mixed_burst_uses_freed_packet_witness:
  "pkt_round (\<lambda>_. 0) (\<lambda>_. 0) (list_ring 8) (list_ring 8) (\<lambda>b k. (length b, k @ b)) (\<lambda>m out. (1, out @ [m]))
     (replicate 6 9) (\<lambda>_. None) (\<lambda>_. None) [(ex_frame, ex_pe), (replicate 60 0, ex_pe)] (ex_host, []) = None"
proof -
  have 1: "rd16 12 (replicate 60 0) = Some 0" "0 \<noteq> htons RTE_ETHER_TYPE_IPV4" by code_simp+
  show ?thesis by (rule mixed_burst_uses_freed_packet [OF ex_frame_l4 1, THEN conjunct1]) simp
qed

lemma pkt_round_invariant_witness:
  "\<exists>h'. pkt_round (\<lambda>_. 0) (\<lambda>_. 0) (list_ring 8) (list_ring 8) (\<lambda>b k. (length b, k @ b)) (\<lambda>m out. (1, out @ [m]))
     (replicate 6 9) (\<lambda>_. None) (\<lambda>_. None) [(replicate 60 0, ex_pe)] (ex_host, []) = Some (h', []) \<and>
   host_inv h' \<and> hs_kni h' = [replicate 60 0]"
proof -
  have 1: "rd16 12 (replicate 60 0) = Some 0" "0 \<noteq> htons RTE_ETHER_TYPE_IPV4" by code_simp+
  let ?h = "ex_host\<lparr>hs_kni := [replicate 60 0]\<rparr>"
  have run: "pkt_round (\<lambda>_. 0) (\<lambda>_. 0) (list_ring 8) (list_ring 8) (\<lambda>b k. (length b, k @ b)) (\<lambda>m out. (1, out @ [m]))
     (replicate 6 9) (\<lambda>_. None) (\<lambda>_. None) [(replicate 60 0, ex_pe)] (ex_host, []) = Some (?h, [])"
    using 1 by (simp add: pkt_round_def pkt_handle_def kni_burst_def ex_host_def ex_empty_def udp_out_def ng_tcp_out_def)
  have "host_inv ex_host" by (simp add: host_inv_def ex_host_def ex_empty_def tcb_wf_def arp_inv_def)
  moreover have "distinct (raw_ptrs (map snd [(replicate 60 (0 :: u8), ex_pe)]))"
    "set (raw_ptrs (map snd [(replicate 60 (0 :: u8), ex_pe)])) \<inter> tcb_ptrs ex_host = {}"
    by (simp_all add: raw_ptrs_def ex_pe_def ex_env_def tcb_ptrs_def ex_host_def ex_empty_def)
  ultimately show ?thesis using pkt_round_invariant [OF _ run] run by auto
qed

end
