(* ===== verification/Dns.thy ===== *)
theory Dns
  imports Packet
begin

text \<open>
  The DNS server of \<^verbatim>\<open>dns/dns.c\<close>. The message is read from and the reply is written to a packet
  buffer (a list of bytes) at a cursor, the \<open>uint8_t **\<close> of the code; an access outside of the
  buffer is \<open>None\<close>. A C string is the list of its bytes before the terminating 0, and the
  linked lists of questions and resource records, which the code only prepends to and walks
  over, are lists. The small allocations (\<open>strdup\<close>, \<open>rte_malloc\<close>) succeed.
\<close>

section \<open>Data\<close>

record question =
  qName :: bytes
  qType :: u16
  qClass :: u16

text \<open>A union: reading another member than the one that was written is not given a meaning.\<close>

datatype resource_data =
    a_record bytes
  | aaaa_record bytes
  | txt_record u8 bytes

record resource_record =
  rr_name :: bytes
  rr_type :: u16
  rr_class :: u16
  rr_ttl :: u32
  rr_rd_length :: u16
  rr_rd_data :: resource_data

record message =
  dm_id :: u16
  dm_qr :: u16
  dm_opcode :: u16
  dm_aa :: u16
  dm_tc :: u16
  dm_rd :: u16
  dm_ra :: u16
  dm_rcode :: u16
  dm_qdCount :: u16
  dm_anCount :: u16
  dm_nsCount :: u16
  dm_arCount :: u16
  dm_questions :: "question list"
  dm_answers :: "resource_record list"
  dm_authorities :: "resource_record list"
  dm_additionals :: "resource_record list"

definition QR_MASK :: u32 where "QR_MASK = 0x8000"
definition OPCODE_MASK :: u32 where "OPCODE_MASK = 0x7800"
definition AA_MASK :: u32 where "AA_MASK = 0x0400"
definition TC_MASK :: u32 where "TC_MASK = 0x0200"
definition RD_MASK :: u32 where "RD_MASK = 0x0100"
definition RA_MASK :: u32 where "RA_MASK = 0x8000"
definition RCODE_MASK :: u32 where "RCODE_MASK = 0x000F"

definition Ok_ResponseType :: u16 where "Ok_ResponseType = 0"
definition NotImplemented_ResponseType :: u16 where "NotImplemented_ResponseType = 4"
definition A_Resource_RecordType :: u16 where "A_Resource_RecordType = 1"
definition TXT_Resource_RecordType :: u16 where "TXT_Resource_RecordType = 16"
definition AAAA_Resource_RecordType :: u16 where "AAAA_Resource_RecordType = 28"

text \<open>The string \<open>"foo.bar.com"\<close>.\<close>

definition foo_bar_com :: bytes where
  "foo_bar_com = [102, 111, 111, 46, 98, 97, 114, 46, 99, 111, 109]"

section \<open>The records of the server\<close>

definition get_A_Record :: "bytes \<Rightarrow> bytes option" where
  "get_A_Record domain_name = (if domain_name = foo_bar_com then Some [192, 168, 232, 133] else None)"

definition get_AAAA_Record :: "bytes \<Rightarrow> bytes option" where
  "get_AAAA_Record domain_name =
     (if domain_name = foo_bar_com
      then Some [0xfe, 0x80, 0, 0, 0, 0, 0, 0, 0, 0, 0, 0, 0, 0, 0, 1] else None)"

definition get_TXT_Record :: "bytes \<Rightarrow> bytes option" where
  "get_TXT_Record domain_name =
     (if domain_name = foo_bar_com then Some [97, 98, 99, 100, 101, 102, 103] else None)"

section \<open>Basic memory operations\<close>

type_synonym cursor = "nat \<times> bytes"

definition get16bits :: "bytes \<Rightarrow> nat \<Rightarrow> (u16 \<times> nat) option" where
  "get16bits buf p = do { v \<leftarrow> rd16 p buf; Some (htons v, p + 2) }"

definition put8bits :: "u8 \<Rightarrow> cursor \<Rightarrow> cursor option" where
  "put8bits v c = do { buf \<leftarrow> wr8 (fst c) v (snd c); Some (fst c + 1, buf) }"

definition put16bits :: "u16 \<Rightarrow> cursor \<Rightarrow> cursor option" where
  "put16bits v c = do { buf \<leftarrow> wr16 (fst c) (htons v) (snd c); Some (fst c + 2, buf) }"

definition put32bits :: "u32 \<Rightarrow> cursor \<Rightarrow> cursor option" where
  "put32bits v c = do { buf \<leftarrow> wr32 (fst c) (htonl v) (snd c); Some (fst c + 4, buf) }"

section \<open>Domain names\<close>

text \<open>The byte at the cursor, the length of the first label, is skipped. Every later length is
  below 64 and becomes a dot, and so does every other byte below 64.\<close>

definition decode_char :: "u8 \<Rightarrow> u8" where
  "decode_char c = (if c \<le> 63 then 46 else c)"

function decode_name_loop :: "bytes \<Rightarrow> nat \<Rightarrow> nat \<Rightarrow> nat \<Rightarrow> bytes \<Rightarrow> (bytes option \<times> nat) option" where
  "decode_name_loop buf p len i domain =
     (if i < min 256 len then
        do { c \<leftarrow> rd8 (p + i) buf;
             if c = 0 then Some (Some domain, p + i + 1)
             else decode_name_loop buf p len (i + 1) (domain @ [decode_char c]) }
      else Some (None, p))"
  by pat_completeness auto
termination by (relation "measure (\<lambda>(buf, p, len, i, domain). 256 - i)") auto

declare decode_name_loop.simps [simp del]

definition decode_domain_name :: "bytes \<Rightarrow> nat \<Rightarrow> nat \<Rightarrow> (bytes option \<times> nat) option" where
  "decode_domain_name buf p len = decode_name_loop buf p len 1 []"

text \<open>\<open>beg\<close> is the part of the name that is not yet written; \<open>i\<close> the offset from the cursor.\<close>

function encode_name_loop :: "bytes \<Rightarrow> nat \<Rightarrow> cursor \<Rightarrow> cursor option" where
  "encode_name_loop beg i c =
     (let label = takeWhile (\<lambda>b. b \<noteq> 46) beg in
      do { buf \<leftarrow> wr8 (fst c + i) (of_nat (length label)) (snd c);
           let i = i + 1;
           buf \<leftarrow> wr (fst c + i) label buf;
           let i = i + length label;
           case dropWhile (\<lambda>b. b \<noteq> 46) beg of
             dot # beg' \<Rightarrow> encode_name_loop beg' i (fst c, buf)
           | [] \<Rightarrow> do { buf \<leftarrow> wr8 (fst c + i) 0 buf;
                      Some (fst c + (i + 1), buf) } })"
  by pat_completeness auto
termination
proof (relation "measure (\<lambda>(beg, i, c). length beg)", goal_cases)
  case (2 beg)
  then show ?case using length_dropWhile_le [of "\<lambda>b. b \<noteq> 46" beg] by simp
qed simp

declare encode_name_loop.simps [simp del]

definition encode_domain_name :: "bytes \<Rightarrow> cursor \<Rightarrow> cursor option" where
  "encode_domain_name domain c = encode_name_loop domain 0 c"

section \<open>Headers\<close>

definition decode_header :: "message \<Rightarrow> bytes \<Rightarrow> nat \<Rightarrow> (message \<times> nat) option" where
  "decode_header msg buf p =
     do { (v, p) \<leftarrow> get16bits buf p;
          let msg = msg\<lparr>dm_id := v\<rparr>;
          (v, p) \<leftarrow> get16bits buf p;
          let fields = (ucast v :: u32);
          let msg = msg\<lparr>dm_qr := ucast (drop_bit 15 (fields AND QR_MASK))\<rparr>;
          let msg = msg\<lparr>dm_opcode := ucast (drop_bit 11 (fields AND OPCODE_MASK))\<rparr>;
          let msg = msg\<lparr>dm_aa := ucast (drop_bit 10 (fields AND AA_MASK))\<rparr>;
          let msg = msg\<lparr>dm_tc := ucast (drop_bit 9 (fields AND TC_MASK))\<rparr>;
          let msg = msg\<lparr>dm_rd := ucast (drop_bit 8 (fields AND RD_MASK))\<rparr>;
          let msg = msg\<lparr>dm_ra := ucast (drop_bit 7 (fields AND RA_MASK))\<rparr>;
          let msg = msg\<lparr>dm_rcode := ucast (fields AND RCODE_MASK)\<rparr>;
          (v, p) \<leftarrow> get16bits buf p;
          let msg = msg\<lparr>dm_qdCount := v\<rparr>;
          (v, p) \<leftarrow> get16bits buf p;
          let msg = msg\<lparr>dm_anCount := v\<rparr>;
          (v, p) \<leftarrow> get16bits buf p;
          let msg = msg\<lparr>dm_nsCount := v\<rparr>;
          (v, p) \<leftarrow> get16bits buf p;
          Some (msg\<lparr>dm_arCount := v\<rparr>, p) }"

definition encode_header :: "message \<Rightarrow> cursor \<Rightarrow> cursor option" where
  "encode_header msg c =
     do { c \<leftarrow> put16bits (dm_id msg) c;
          let fields = (0 :: u32);
          let fields = fields OR (push_bit 15 (ucast (dm_qr msg)) AND QR_MASK);
          let fields = fields OR (ucast (dm_rcode msg) AND RCODE_MASK);
          c \<leftarrow> put16bits (ucast fields) c;
          c \<leftarrow> put16bits (dm_qdCount msg) c;
          c \<leftarrow> put16bits (dm_anCount msg) c;
          c \<leftarrow> put16bits (dm_nsCount msg) c;
          put16bits (dm_arCount msg) c }"

section \<open>Messages\<close>

text \<open>The bound of the name is \<open>size\<close>, the size of the whole message, wherever the cursor is. The
  type and the class are read before the result of the name is checked.\<close>

fun decode_questions :: "bytes \<Rightarrow> nat \<Rightarrow> nat \<Rightarrow> nat \<Rightarrow> message \<Rightarrow> (int \<times> message) option" where
  "decode_questions buf sz 0 p msg = Some (0, msg)"
| "decode_questions buf sz (Suc n) p msg =
     do { (name, p) \<leftarrow> decode_domain_name buf p sz;
          (type, p) \<leftarrow> get16bits buf p;
          (cls, p) \<leftarrow> get16bits buf p;
          case name of
            None \<Rightarrow> Some (- 1, msg)
          | Some name \<Rightarrow>
              decode_questions buf sz n p
                (msg\<lparr>dm_questions := \<lparr>qName = name, qType = type, qClass = cls\<rparr> # dm_questions msg\<rparr>) }"

definition decode_msg :: "message \<Rightarrow> bytes \<Rightarrow> nat \<Rightarrow> nat \<Rightarrow> (int \<times> message) option" where
  "decode_msg msg buf p sz =
     do { (msg, p) \<leftarrow> decode_header msg buf p;
          if dm_anCount msg \<noteq> 0 \<or> dm_nsCount msg \<noteq> 0 then Some (- 1, msg)
          else decode_questions buf sz (unat (dm_qdCount msg)) p msg }"

text \<open>One turn of the loop of \<open>resolve_query\<close>: the switch over the type of the question.\<close>

definition resolve_question :: "question \<Rightarrow> message \<Rightarrow> message" where
  "resolve_question q msg =
     (let rr = (\<lambda>n d. \<lparr>rr_name = qName q, rr_type = qType q, rr_class = qClass q, rr_ttl = 60 * 60,
                       rr_rd_length = n, rr_rd_data = d\<rparr>);
          answer = (\<lambda>rr. msg\<lparr>dm_anCount := dm_anCount msg + 1, dm_answers := rr # dm_answers msg\<rparr>)
      in if qType q = A_Resource_RecordType then
           (case get_A_Record (qName q) of
              Some a \<Rightarrow> answer (rr 4 (a_record a))
            | None \<Rightarrow> msg)
         else if qType q = AAAA_Resource_RecordType then
           (case get_AAAA_Record (qName q) of
              Some a \<Rightarrow> answer (rr 16 (aaaa_record a))
            | None \<Rightarrow> msg)
         else if qType q = TXT_Resource_RecordType then
           (case get_TXT_Record (qName q) of
              Some txt \<Rightarrow> answer (rr (of_nat (length txt) + 1) (txt_record (of_nat (length txt)) txt))
            | None \<Rightarrow> msg)
         else msg\<lparr>dm_rcode := NotImplemented_ResponseType\<rparr>)"

fun resolve_loop :: "question list \<Rightarrow> message \<Rightarrow> message" where
  "resolve_loop [] msg = msg"
| "resolve_loop (q # qs) msg = resolve_loop qs (resolve_question q msg)"

definition resolve_query :: "message \<Rightarrow> message" where
  "resolve_query msg =
     (let msg = msg\<lparr>dm_qr := 1, dm_aa := 1, dm_ra := 0, dm_rcode := Ok_ResponseType,
                    dm_anCount := 0, dm_nsCount := 0, dm_arCount := 0\<rparr>
      in resolve_loop (dm_questions msg) msg)"

fun put_bytes :: "bytes \<Rightarrow> cursor \<Rightarrow> cursor option" where
  "put_bytes [] c = Some c"
| "put_bytes (b # bs) c = do { c \<leftarrow> put8bits b c; put_bytes bs c }"

text \<open>The three cases of the switch over the type of the record, which reads the member of the
  union that belongs to the type.\<close>

definition encode_rd_data :: "resource_record \<Rightarrow> cursor \<Rightarrow> cursor option" where
  "encode_rd_data rr c =
     (if rr_type rr = A_Resource_RecordType then
        (case rr_rd_data rr of
           a_record a \<Rightarrow> do { a \<leftarrow> rd 0 4 a; put_bytes a c }
         | _ \<Rightarrow> None)
      else if rr_type rr = AAAA_Resource_RecordType then
        (case rr_rd_data rr of
           aaaa_record a \<Rightarrow> do { a \<leftarrow> rd 0 16 a; put_bytes a c }
         | _ \<Rightarrow> None)
      else
        (case rr_rd_data rr of
           txt_record n txt \<Rightarrow> do { c \<leftarrow> put8bits n c; txt \<leftarrow> rd 0 (unat n) txt; put_bytes txt c }
         | _ \<Rightarrow> None))"

fun encode_resource_records :: "resource_record list \<Rightarrow> cursor \<Rightarrow> (int \<times> cursor) option" where
  "encode_resource_records [] c = Some (0, c)"
| "encode_resource_records (rr # rrs) c =
     do { c \<leftarrow> encode_domain_name (rr_name rr) c;
          c \<leftarrow> put16bits (rr_type rr) c;
          c \<leftarrow> put16bits (rr_class rr) c;
          c \<leftarrow> put32bits (rr_ttl rr) c;
          c \<leftarrow> put16bits (rr_rd_length rr) c;
          if rr_type rr \<in> {A_Resource_RecordType, AAAA_Resource_RecordType, TXT_Resource_RecordType} then
            do { c \<leftarrow> encode_rd_data rr c; encode_resource_records rrs c }
          else Some (1, c) }"

fun encode_questions :: "question list \<Rightarrow> cursor \<Rightarrow> cursor option" where
  "encode_questions [] c = Some c"
| "encode_questions (q # qs) c =
     do { c \<leftarrow> encode_domain_name (qName q) c;
          c \<leftarrow> put16bits (qType q) c;
          c \<leftarrow> put16bits (qClass q) c;
          encode_questions qs c }"

definition encode_msg :: "message \<Rightarrow> cursor \<Rightarrow> (int \<times> cursor) option" where
  "encode_msg msg c =
     do { c \<leftarrow> encode_header msg c;
          c \<leftarrow> encode_questions (dm_questions msg) c;
          (rc1, c) \<leftarrow> encode_resource_records (dm_answers msg) c;
          (rc2, c) \<leftarrow> encode_resource_records (dm_authorities msg) c;
          (rc3, c) \<leftarrow> encode_resource_records (dm_additionals msg) c;
          Some (rc1 OR rc2 OR rc3, c) }"

end
