(* ===== verification/Dns_Correct.thy ===== *)
theory Dns_Correct
  imports Dns
begin

text \<open>
  The wire format of DNS messages as a function from messages to bytes, the proof that the
  encoders of \<^verbatim>\<open>dns.c\<close> write exactly these bytes at the cursor (and fail exactly when they do not
  fit), that the decoders read them back, and what the server answers.
\<close>

section \<open>Bytes at a cursor\<close>

definition emit :: "bytes \<Rightarrow> cursor \<Rightarrow> cursor option" where
  "emit bs c = (if fst c + length bs \<le> length (snd c)
                then Some (fst c + length bs, put (fst c) bs (snd c)) else None)"

definition located :: "nat \<Rightarrow> bytes \<Rightarrow> bytes \<Rightarrow> bool" where
  "located p bs buf \<longleftrightarrow> rd p (length bs) buf = Some bs"

lemma located_nth:
  "located p bs buf \<longleftrightarrow> p + length bs \<le> length buf \<and> (\<forall>i<length bs. buf ! (p + i) = bs ! i)"
  by (auto simp: located_def rd_def list_eq_iff_nth_eq)

lemma located_append:
  "located p (a @ b) buf \<longleftrightarrow> located p a buf \<and> located (p + length a) b buf"
proof
  assume l: "located p (a @ b) buf"
  then have n: "i < length a + length b \<Longrightarrow> buf ! (p + i) = (a @ b) ! i" for i
    by (auto simp: located_nth)
  have "buf ! (p + length a + i) = b ! i" if "i < length b" for i
    using n [of "length a + i"] that by (simp add: add.assoc)
  with l n show "located p a buf \<and> located (p + length a) b buf"
    by (auto simp: located_nth nth_append)
next
  assume l: "located p a buf \<and> located (p + length a) b buf"
  have "buf ! (p + i) = (a @ b) ! i" if i: "i < length (a @ b)" for i
  proof (cases "i < length a")
    case False
    then have "buf ! (p + length a + (i - length a)) = b ! (i - length a)"
      using l i by (simp only: located_nth length_append)
    moreover have "p + length a + (i - length a) = p + i" using False by simp
    ultimately have "buf ! (p + i) = b ! (i - length a)" by (simp only:)
    with False show ?thesis by (simp add: nth_append)
  qed (use l in \<open>simp add: located_nth nth_append\<close>)
  with l show "located p (a @ b) buf" by (simp add: located_nth)
qed

lemma located_Cons: "located p (x # b) buf \<longleftrightarrow> located p [x] buf \<and> located (p + 1) b buf"
  using located_append [of p "[x]" b buf] by simp

lemma located_put: "p + length bs \<le> length buf \<Longrightarrow> located p bs (put p bs buf)"
  by (simp add: located_nth nth_put)

lemma put_append:
  assumes "p + length a + length b \<le> length buf"
  shows "put (p + length a) b (put p a buf) = put p (a @ b) buf"
proof (rule nth_equalityI)
  fix i assume "i < length (put (p + length a) b (put p a buf))"
  then have i: "i < length buf" by simp
  consider "i < p" | "p \<le> i" "i < p + length a" | "p + length a \<le> i" by linarith
  then show "put (p + length a) b (put p a buf) ! i = put p (a @ b) buf ! i"
    using i assms by cases (auto simp: nth_put nth_append diff_diff_left)
qed simp

lemma put_Nil [simp]: "put p [] buf = buf"
  by (rule nth_equalityI) (auto simp: nth_put)

lemma emit_Nil: "fst c \<le> length (snd c) \<Longrightarrow> emit [] c = Some c"
  by (simp add: emit_def)

text \<open>Two writes at the cursor are one.\<close>

lemma emit_bind: "Option.bind (emit a c) (emit b) = emit (a @ b) c"
  by (auto simp: emit_def put_append add.assoc)

lemma emit_bind_cont:
  "Option.bind (emit a c) (\<lambda>c. Option.bind (emit b c) k) = Option.bind (emit (a @ b) c) k"
  unfolding emit_bind [symmetric] by simp

lemma emit_located: "emit bs (p, buf) = Some (q, buf') \<Longrightarrow> located p bs buf'"
  by (auto simp: emit_def located_put split: if_splits)

definition be16 :: "u16 \<Rightarrow> bytes" where
  "be16 v = le16 (htons v)"

definition be32 :: "u32 \<Rightarrow> bytes" where
  "be32 v = le32 (htonl v)"

lemma length_be [simp]: "length (be16 v) = 2" "length (be32 w) = 4"
  by (simp_all add: be16_def be32_def)

lemma put_emit:
  "put8bits b c = emit [b] c" "put16bits v c = emit (be16 v) c" "put32bits w c = emit (be32 w) c"
  by (simp_all add: put8bits_def put16bits_def put32bits_def emit_def wr_defs be16_def be32_def)

lemma get16bits_located: "located p (be16 v) buf \<Longrightarrow> get16bits buf p = Some (v, p + 2)"
  by (simp add: get16bits_def located_def rd16_def be16_def)

lemma rd8_located: "located p [b] buf \<Longrightarrow> rd8 p buf = Some b"
  by (simp add: located_def rd8_def)

section \<open>Names\<close>

function name_wire :: "bytes \<Rightarrow> bytes" where
  "name_wire name =
     (let l = takeWhile (\<lambda>b. b \<noteq> 46) name in
      of_nat (length l) # l @ (case dropWhile (\<lambda>b. b \<noteq> 46) name of
                                dot # name' \<Rightarrow> name_wire name' | [] \<Rightarrow> [0]))"
  by pat_completeness auto
termination
proof (relation "measure length", goal_cases)
  case (2 name)
  then show ?case using length_dropWhile_le [of "\<lambda>b. b \<noteq> 46" name] by simp
qed simp

declare name_wire.simps [simp del]

lemma wr8_put: "wr8 p v buf = wr p [v] buf"
  by (simp add: wr8_def)

text \<open>The part of the loop that starts at offset \<open>i\<close> writes the wire form of what is left.\<close>

lemma encode_name_loop_emit:
  "encode_name_loop beg i (p, buf) = emit (name_wire beg) (p + i, buf)"
proof (induction beg arbitrary: i buf rule: name_wire.induct)
  case (1 beg)
  let ?l = "takeWhile (\<lambda>b. b \<noteq> 46) beg"
  have head: "Option.bind (wr8 (p + i) n buf) (\<lambda>b. Option.bind (wr (p + (i + 1)) ?l b) k) =
      Option.bind (emit (n # ?l) (p + i, buf)) (\<lambda>c. k (snd c))" for n and k :: "bytes \<Rightarrow> cursor option"
    using put_append [of "p + i" "[n]" ?l buf] by (auto simp: wr_defs emit_def)
  show ?case
  proof (cases "dropWhile (\<lambda>b. b \<noteq> 46) beg")
    case Nil
    have tail: "Option.bind (emit (n # ?l) (p + i, buf))
        (\<lambda>c. Option.bind (wr8 (p + (i + 1 + length ?l)) 0 (snd c)) (\<lambda>b. Some (p + (i + 1 + length ?l + 1), b))) =
        emit (n # ?l @ [0]) (p + i, buf)" for n
      using put_append [of "p + i" "n # ?l" "[0]" buf] by (auto simp: emit_def wr_defs add.assoc)
    show ?thesis
      by (subst encode_name_loop.simps, subst name_wire.simps)
         (simp only: Let_def Nil list.case fst_conv snd_conv head tail)
  next
    case (Cons dot beg')
    have IH: "encode_name_loop beg' j (p, b) = emit (name_wire beg') (p + j, b)" for j b
      using 1 [OF refl Cons] .
    have "Option.bind (emit (n # ?l) (p + i, buf))
        (\<lambda>c. emit (name_wire beg') (p + (i + 1 + length ?l), snd c)) =
        Option.bind (emit (n # ?l) (p + i, buf)) (emit (name_wire beg'))" for n
      by (auto simp: emit_def add.assoc)
    then have tail: "Option.bind (emit (n # ?l) (p + i, buf))
        (\<lambda>c. emit (name_wire beg') (p + (i + 1 + length ?l), snd c)) =
        emit (n # ?l @ name_wire beg') (p + i, buf)" for n
      by (simp add: emit_bind)
    show ?thesis
      by (subst encode_name_loop.simps, subst name_wire.simps)
         (simp only: Let_def Cons list.case fst_conv snd_conv head IH tail)
  qed
qed

lemma encode_domain_name_emit: "encode_domain_name name c = emit (name_wire name) c"
  using encode_name_loop_emit [of name 0 "fst c" "snd c"] by (simp add: encode_domain_name_def)

lemma length_name_wire: "length (name_wire name) = length name + 2"
proof (induction name rule: name_wire.induct)
  case (1 name)
  have n: "length (takeWhile (\<lambda>b. b \<noteq> 46) name) + length (dropWhile (\<lambda>b. b \<noteq> 46) name) = length name"
    by (metis length_append takeWhile_dropWhile_id)
  show ?case
  proof (cases "dropWhile (\<lambda>b. b \<noteq> 46) name")
    case Nil
    show ?thesis using n by (subst name_wire.simps) (simp add: Let_def Nil del: dropWhile_eq_Nil_conv)
  next
    case (Cons dot name')
    with n 1 [OF refl Cons] show ?thesis by (subst name_wire.simps) (simp add: Let_def)
  qed
qed

text \<open>The labels of a name. A name can be transmitted when it has no 0 byte and the labels after
  the first one, whose lengths are read as dots, have 1 to 63 bytes.\<close>

function labels :: "bytes \<Rightarrow> bytes list" where
  "labels name =
     takeWhile (\<lambda>b. b \<noteq> 46) name #
     (case dropWhile (\<lambda>b. b \<noteq> 46) name of dot # name' \<Rightarrow> labels name' | [] \<Rightarrow> [])"
  by pat_completeness auto
termination
proof (relation "measure length", goal_cases)
  case (2 name)
  then show ?case using length_dropWhile_le [of "\<lambda>b. b \<noteq> 46" name] by simp
qed simp

declare labels.simps [simp del]

definition name_ok :: "bytes \<Rightarrow> bool" where
  "name_ok name \<longleftrightarrow> 0 \<notin> set name \<and> (\<forall>l \<in> set (tl (labels name)). l \<noteq> [] \<and> length l \<le> 63)"

lemma decode_char_len: "0 < n \<Longrightarrow> n \<le> 63 \<Longrightarrow> decode_char (of_nat n) = 46 \<and> (of_nat n :: u8) \<noteq> 0"
proof -
  assume n: "0 < n" "n \<le> 63"
  then have "unat (of_nat n :: u8) = n" by (simp add: unsigned_of_nat take_bit_nat_eq_self)
  with n show ?thesis by (auto simp: decode_char_def word_le_nat_alt)
qed

lemma map_decode_char_label: "map decode_char (takeWhile (\<lambda>b. b \<noteq> 46) xs @ 46 # ys) =
    map decode_char (takeWhile (\<lambda>b. b \<noteq> 46) xs) @ 46 # map decode_char ys"
  by (simp add: decode_char_def)

lemma name_wire_body:
  assumes "0 \<notin> set name" "\<forall>l \<in> set (tl (labels name)). l \<noteq> [] \<and> length l \<le> 63"
  shows "\<exists>body. name_wire name = of_nat (length (hd (labels name))) # body @ [0] \<and> 0 \<notin> set body \<and>
           map decode_char body = map decode_char name"
  using assms
proof (induction name rule: name_wire.induct)
  case (1 name)
  let ?l = "takeWhile (\<lambda>b. b \<noteq> 46) name"
  have z: "0 \<notin> set ?l" using "1.prems"(1) by (auto dest: set_takeWhileD)
  have hd1: "hd (labels name) = ?l" by (subst labels.simps) simp
  show ?case
  proof (cases "dropWhile (\<lambda>b. b \<noteq> 46) name")
    case Nil
    then have "?l = name" by (metis append.right_neutral takeWhile_dropWhile_id)
    moreover from this Nil have "name_wire name = of_nat (length name) # name @ [0]"
      by (subst name_wire.simps) (simp add: Let_def del: dropWhile_eq_Nil_conv takeWhile_eq_all_conv)
    ultimately show ?thesis using "1.prems"(1) hd1 by metis
  next
    case (Cons dot name')
    then have dot: "dot = 46" using hd_dropWhile [of "\<lambda>b. b \<noteq> 46" name] by simp
    have name: "name = ?l @ 46 # name'" using Cons dot by (metis takeWhile_dropWhile_id)
    have sub: "set name' \<subseteq> set name"
      using arg_cong [OF name, of set] by auto
    have tl: "tl (labels name) = labels name'"
      by (subst labels.simps) (simp add: Cons)
    have hd: "labels name' \<noteq> []" by (subst labels.simps) simp
    then have first: "0 < length (hd (labels name'))" "length (hd (labels name')) \<le> 63"
      using "1.prems"(2) unfolding tl by (auto simp: hd_in_set)
    have "\<forall>l \<in> set (tl (labels name')). l \<noteq> [] \<and> length l \<le> 63"
      using "1.prems"(2) hd unfolding tl by (metis list.set_sel(2))
    then obtain body where b: "name_wire name' = of_nat (length (hd (labels name'))) # body @ [0]" "0 \<notin> set body"
        "map decode_char body = map decode_char name'"
      using "1.IH" [OF refl Cons] sub "1.prems"(1) by auto
    let ?body = "?l @ of_nat (length (hd (labels name'))) # body"
    have "name_wire name = of_nat (length (hd (labels name))) # ?body @ [0]"
      by (subst name_wire.simps) (simp add: Let_def Cons b(1) hd1)
    moreover have "0 \<notin> set ?body" using z b(2) decode_char_len [OF first] by auto
    moreover have "map decode_char ?body = map decode_char name"
    proof -
      have "map decode_char ?body = map decode_char ?l @ 46 # map decode_char name'"
        using decode_char_len [OF first] b(3) by simp
      also have "\<dots> = map decode_char (?l @ 46 # name')" by (simp add: decode_char_def)
      finally show ?thesis using name by metis
    qed
    ultimately show ?thesis by blast
  qed
qed

lemma decode_name_loop_located:
  assumes "located (p + i) (body @ [0]) buf" "0 \<notin> set body" "i + length body < min 256 len"
  shows "decode_name_loop buf p len i d = Some (Some (d @ map decode_char body), p + i + length body + 1)"
  using assms
proof (induction body arbitrary: i d)
  case Nil
  then show ?case by (subst decode_name_loop.simps) (simp add: rd8_located)
next
  case (Cons b body)
  from Cons.prems(1) have "located (p + i) [b] buf" "located (p + (i + 1)) (body @ [0]) buf"
    using located_Cons [of "p + i" b "body @ [0]" buf] by (simp_all add: add.assoc)
  with Cons show ?case
    by (subst decode_name_loop.simps) (simp add: rd8_located)
qed

lemma decode_domain_name_located:
  assumes "located p (name_wire name) buf" "name_ok name" "length name + 1 < min 256 len"
  shows "decode_domain_name buf p len = Some (Some (map decode_char name), p + length (name_wire name))"
proof -
  have "0 \<notin> set name" "\<forall>l \<in> set (tl (labels name)). l \<noteq> [] \<and> length l \<le> 63"
    using assms(2) by (simp_all add: name_ok_def)
  from name_wire_body [OF this] obtain body where
    b: "name_wire name = of_nat (length (hd (labels name))) # body @ [0]" "0 \<notin> set body"
      "map decode_char body = map decode_char name" by blast
  have "located (p + 1) (body @ [0]) buf"
    using assms(1) unfolding b(1) by (rule iffD1 [OF located_Cons, THEN conjunct2])
  moreover have len: "length body = length name" using arg_cong [OF b(3), of length] by simp
  moreover have "1 + length body < min 256 len" using len assms(3) by simp
  ultimately have "decode_name_loop buf p len 1 [] =
      Some (Some ([] @ map decode_char body), p + 1 + length body + 1)"
    using b(2) by (intro decode_name_loop_located)
  then show ?thesis by (simp add: decode_domain_name_def length_name_wire len b(3))
qed

section \<open>The wire format of messages\<close>

definition header_flags :: "message \<Rightarrow> u16" where
  "header_flags msg =
     ucast ((push_bit 15 (ucast (dm_qr msg)) AND QR_MASK) OR (ucast (dm_rcode msg) AND RCODE_MASK) :: u32)"

definition header_wire :: "message \<Rightarrow> bytes" where
  "header_wire msg = be16 (dm_id msg) @ be16 (header_flags msg) @ be16 (dm_qdCount msg) @
     be16 (dm_anCount msg) @ be16 (dm_nsCount msg) @ be16 (dm_arCount msg)"

definition question_wire :: "question \<Rightarrow> bytes" where
  "question_wire q = name_wire (qName q) @ be16 (qType q) @ be16 (qClass q)"

fun rd_wire :: "resource_data \<Rightarrow> bytes" where
  "rd_wire (a_record a) = a"
| "rd_wire (aaaa_record a) = a"
| "rd_wire (txt_record n txt) = n # take (unat n) txt"

definition rr_wire :: "resource_record \<Rightarrow> bytes" where
  "rr_wire rr = name_wire (rr_name rr) @ be16 (rr_type rr) @ be16 (rr_class rr) @
     be32 (rr_ttl rr) @ be16 (rr_rd_length rr) @ rd_wire (rr_rd_data rr)"

definition msg_wire :: "message \<Rightarrow> bytes" where
  "msg_wire msg = header_wire msg @ concat (map question_wire (dm_questions msg)) @
     concat (map rr_wire (dm_answers msg)) @ concat (map rr_wire (dm_authorities msg)) @
     concat (map rr_wire (dm_additionals msg))"

text \<open>The member of the union that was written belongs to the type.\<close>

definition rr_ok :: "resource_record \<Rightarrow> bool" where
  "rr_ok rr \<longleftrightarrow>
     (case rr_rd_data rr of
        a_record a \<Rightarrow> rr_type rr = A_Resource_RecordType \<and> length a = 4
      | aaaa_record a \<Rightarrow> rr_type rr = AAAA_Resource_RecordType \<and> length a = 16
      | txt_record n txt \<Rightarrow> rr_type rr = TXT_Resource_RecordType \<and> unat n \<le> length txt)"

lemma type_neq [simp]:
  "A_Resource_RecordType \<noteq> AAAA_Resource_RecordType" "AAAA_Resource_RecordType \<noteq> A_Resource_RecordType"
  "A_Resource_RecordType \<noteq> TXT_Resource_RecordType" "TXT_Resource_RecordType \<noteq> A_Resource_RecordType"
  "AAAA_Resource_RecordType \<noteq> TXT_Resource_RecordType" "TXT_Resource_RecordType \<noteq> AAAA_Resource_RecordType"
  by (simp_all add: A_Resource_RecordType_def AAAA_Resource_RecordType_def TXT_Resource_RecordType_def)

text \<open>A routine that writes \<open>b\<close> when the cursor is inside the buffer, after another write.\<close>

lemma emit_then:
  "(\<And>c. fst c \<le> length (snd c) \<Longrightarrow> f c = emit b c) \<Longrightarrow> Option.bind (emit a c) f = emit (a @ b) c"
proof -
  assume f: "\<And>c. fst c \<le> length (snd c) \<Longrightarrow> f c = emit b c"
  have "Option.bind (emit a c) f = Option.bind (emit a c) (emit b)"
    by (auto simp: emit_def [of a] intro!: f)
  then show ?thesis by (simp add: emit_bind)
qed

lemma encode_header_emit: "encode_header msg c = emit (header_wire msg) c"
  by (simp add: encode_header_def Let_def put_emit emit_bind emit_bind_cont header_wire_def header_flags_def)

lemma encode_questions_emit:
  "fst c \<le> length (snd c) \<Longrightarrow> encode_questions qs c = emit (concat (map question_wire qs)) c"
proof (induction qs arbitrary: c)
  case (Cons q qs)
  have "encode_questions (q # qs) c = Option.bind (emit (question_wire q) c) (encode_questions qs)"
    by (simp add: encode_domain_name_emit put_emit emit_bind_cont question_wire_def)
  also have "\<dots> = emit (question_wire q @ concat (map question_wire qs)) c"
    by (rule emit_then) (rule Cons.IH)
  finally show ?case by simp
qed (simp add: emit_Nil)

lemma put_bytes_emit: "fst c \<le> length (snd c) \<Longrightarrow> put_bytes bs c = emit bs c"
proof (induction bs arbitrary: c)
  case (Cons b bs)
  have "Option.bind (emit [b] c) (put_bytes bs) = emit ([b] @ bs) c"
    by (rule emit_then) (rule Cons.IH)
  then show ?case by (simp add: put_emit)
qed (simp add: emit_Nil)

lemma encode_rd_data_emit:
  assumes "rr_ok rr" "fst c \<le> length (snd c)"
  shows "encode_rd_data rr c = emit (rd_wire (rr_rd_data rr)) c"
proof (cases "rr_rd_data rr")
  case (txt_record n str)
  have "Option.bind (emit [n] c) (\<lambda>c. put_bytes (take (unat n) str) c) = emit ([n] @ take (unat n) str) c"
    by (rule emit_then) (rule put_bytes_emit)
  with txt_record assms show ?thesis
    by (simp add: rr_ok_def encode_rd_data_def put_emit rd_def)
qed (use assms in \<open>simp_all add: rr_ok_def encode_rd_data_def put_bytes_emit rd_def\<close>)

lemma encode_resource_records_emit:
  "\<forall>rr \<in> set rrs. rr_ok rr \<Longrightarrow> fst c \<le> length (snd c) \<Longrightarrow>
     encode_resource_records rrs c = map_option (Pair 0) (emit (concat (map rr_wire rrs)) c)"
proof (induction rrs arbitrary: c)
  case (Cons rr rrs)
  let ?w = "name_wire (rr_name rr) @ be16 (rr_type rr) @ be16 (rr_class rr) @ be32 (rr_ttl rr) @
    be16 (rr_rd_length rr)"
  have t: "rr_type rr \<in> {A_Resource_RecordType, AAAA_Resource_RecordType, TXT_Resource_RecordType}"
    using Cons.prems(1) by (auto simp: rr_ok_def split: resource_data.splits)
  have d: "Option.bind (emit ?w c) (encode_rd_data rr) = emit (rr_wire rr) c"
    using emit_then [of "encode_rd_data rr" "rd_wire (rr_rd_data rr)" ?w c] Cons.prems(1)
    by (simp add: encode_rd_data_emit rr_wire_def)
  have "encode_resource_records (rr # rrs) c =
      Option.bind (emit ?w c) (\<lambda>c. Option.bind (encode_rd_data rr c) (encode_resource_records rrs))"
    using t by (simp add: encode_domain_name_emit put_emit emit_bind_cont)
  also have "\<dots> = Option.bind (emit (rr_wire rr) c) (encode_resource_records rrs)"
    by (simp add: d [symmetric])
  also have "\<dots> = Option.bind (emit (rr_wire rr) c) (\<lambda>c. map_option (Pair 0) (emit (concat (map rr_wire rrs)) c))"
    using Cons.prems(1) by (auto simp: emit_def [of "rr_wire rr"] intro!: Cons.IH)
  also have "\<dots> = map_option (Pair 0) (Option.bind (emit (rr_wire rr) c) (emit (concat (map rr_wire rrs))))"
    by (cases "emit (rr_wire rr) c") simp_all
  finally show ?case by (simp add: emit_bind)
qed (simp add: emit_Nil)

definition msg_ok :: "message \<Rightarrow> bool" where
  "msg_ok msg \<longleftrightarrow> (\<forall>rr \<in> set (dm_answers msg @ dm_authorities msg @ dm_additionals msg). rr_ok rr)"

lemma bind_records:
  assumes "\<forall>rr \<in> set rrs. rr_ok rr"
  shows "Option.bind (emit a c) (\<lambda>c. Option.bind (encode_resource_records rrs c) (\<lambda>(rc, c). k rc c)) =
    Option.bind (emit (a @ concat (map rr_wire rrs)) c) (k 0)"
proof -
  have "Option.bind (emit a c) (\<lambda>c. Option.bind (encode_resource_records rrs c) (\<lambda>(rc, c). k rc c)) =
      Option.bind (emit a c) (\<lambda>c. Option.bind (emit (concat (map rr_wire rrs)) c) (k 0))"
  proof (cases "emit a c")
    case (Some d)
    then have "fst d \<le> length (snd d)" by (auto simp: emit_def split: if_splits)
    with Some assms show ?thesis
      by (cases "emit (concat (map rr_wire rrs)) d") (simp_all add: encode_resource_records_emit)
  qed simp
  then show ?thesis by (simp add: emit_bind_cont)
qed

lemma encode_msg_emit:
  assumes "msg_ok msg"
  shows "encode_msg msg c = map_option (Pair 0) (emit (msg_wire msg) c)"
proof -
  have ok: "\<forall>rr \<in> set (dm_answers msg). rr_ok rr" "\<forall>rr \<in> set (dm_authorities msg). rr_ok rr"
    "\<forall>rr \<in> set (dm_additionals msg). rr_ok rr" using assms by (auto simp: msg_ok_def)
  have q: "Option.bind (emit (header_wire msg) c) (\<lambda>c. Option.bind (encode_questions (dm_questions msg) c) k) =
      Option.bind (emit (header_wire msg @ concat (map question_wire (dm_questions msg))) c) k" for k :: "cursor \<Rightarrow> (int \<times> cursor) option"
    using emit_then [where f = "encode_questions (dm_questions msg)" and a = "header_wire msg" and c = c, OF encode_questions_emit]
    by (metis bind_assoc)
  have "encode_msg msg c = Option.bind (emit (msg_wire msg) c) (\<lambda>c. Some (0, c))"
    by (simp only: encode_msg_def encode_header_emit q bind_records [OF ok(1)] bind_records [OF ok(2)]
        bind_records [OF ok(3)] msg_wire_def append_assoc) simp
  then show ?thesis by (cases "emit (msg_wire msg) c") simp_all
qed

section \<open>Reading a message back\<close>

lemma bit_masks:
  "bit QR_MASK n \<longleftrightarrow> n = 15" "bit OPCODE_MASK n \<longleftrightarrow> 11 \<le> n \<and> n < 15" "bit AA_MASK n \<longleftrightarrow> n = 10"
  "bit TC_MASK n \<longleftrightarrow> n = 9" "bit RD_MASK n \<longleftrightarrow> n = 8" "bit RA_MASK n \<longleftrightarrow> n = 15" "bit RCODE_MASK n \<longleftrightarrow> n < 4"
proof -
  have m: "QR_MASK = push_bit 15 (mask 1)" "OPCODE_MASK = push_bit 11 (mask 4)" "AA_MASK = push_bit 10 (mask 1)"
    "TC_MASK = push_bit 9 (mask 1)" "RD_MASK = push_bit 8 (mask 1)" "RA_MASK = push_bit 15 (mask 1)" "RCODE_MASK = mask 4"
    by (simp_all add: QR_MASK_def OPCODE_MASK_def AA_MASK_def TC_MASK_def RD_MASK_def RA_MASK_def
        RCODE_MASK_def push_bit_eq_mult mask_eq_exp_minus_1)
  show "bit QR_MASK n \<longleftrightarrow> n = 15" "bit OPCODE_MASK n \<longleftrightarrow> 11 \<le> n \<and> n < 15" "bit AA_MASK n \<longleftrightarrow> n = 10"
    "bit TC_MASK n \<longleftrightarrow> n = 9" "bit RD_MASK n \<longleftrightarrow> n = 8" "bit RA_MASK n \<longleftrightarrow> n = 15" "bit RCODE_MASK n \<longleftrightarrow> n < 4"
    unfolding m by (simp only: bit_push_bit_iff bit_mask_iff; auto)+
qed

lemma bit_header_flags:
  "bit (header_flags msg) n \<longleftrightarrow> n = 15 \<and> bit (dm_qr msg) 0 \<or> n < 4 \<and> bit (dm_rcode msg) n"
  by (auto simp: header_flags_def bit_simps bit_masks)

lemma decode_flags:
  fixes msg :: message
  defines "f \<equiv> (ucast (header_flags msg) :: u32)"
  shows "ucast (drop_bit 15 (f AND QR_MASK)) = dm_qr msg AND mask 1"
    "ucast (drop_bit 11 (f AND OPCODE_MASK)) = (0 :: u16)"
    "ucast (drop_bit 10 (f AND AA_MASK)) = (0 :: u16)"
    "ucast (drop_bit 9 (f AND TC_MASK)) = (0 :: u16)"
    "ucast (drop_bit 8 (f AND RD_MASK)) = (0 :: u16)"
    "ucast (drop_bit 7 (f AND RA_MASK)) = push_bit 8 (dm_qr msg AND mask 1)"
    "ucast (f AND RCODE_MASK) = dm_rcode msg AND mask 4"
  unfolding f_def
  by (rule bit_word_eqI,
      simp only: bit_push_bit_iff bit_and_iff bit_mask_iff bit_ucast_iff bit_drop_bit_eq o_def bit_masks bit_header_flags
        bit_0_eq bot_apply, force)+

text \<open>What the decoder leaves in a message of a header that the encoder wrote: the flags between
  QR and RCODE are lost, and RA is 0 or 256, whatever was encoded.\<close>

definition read_header :: "message \<Rightarrow> message \<Rightarrow> message" where
  "read_header msg m =
     m\<lparr>dm_id := dm_id msg, dm_qr := dm_qr msg AND mask 1, dm_opcode := 0, dm_aa := 0, dm_tc := 0, dm_rd := 0,
       dm_ra := push_bit 8 (dm_qr msg AND mask 1), dm_rcode := dm_rcode msg AND mask 4,
       dm_qdCount := dm_qdCount msg, dm_anCount := dm_anCount msg, dm_nsCount := dm_nsCount msg,
       dm_arCount := dm_arCount msg\<rparr>"

lemma length_header_wire: "length (header_wire msg) = 12"
  by (simp add: header_wire_def)

lemma decode_header_located:
  assumes "located p (header_wire msg) buf"
  shows "decode_header m buf p = Some (read_header msg m, p + 12)"
proof -
  from assms have "located p (be16 (dm_id msg)) buf" "located (p + 2) (be16 (header_flags msg)) buf"
    "located (p + 2 + 2) (be16 (dm_qdCount msg)) buf" "located (p + 2 + 2 + 2) (be16 (dm_anCount msg)) buf"
    "located (p + 2 + 2 + 2 + 2) (be16 (dm_nsCount msg)) buf"
    "located (p + 2 + 2 + 2 + 2 + 2) (be16 (dm_arCount msg)) buf"
    by (simp_all only: header_wire_def located_append length_be)
  note g = this [THEN get16bits_located]
  show ?thesis
    by (simp only: decode_header_def g bind.simps prod.case Let_def decode_flags)
       (simp add: read_header_def)
qed

definition read_question :: "question \<Rightarrow> question" where
  "read_question q = q\<lparr>qName := map decode_char (qName q)\<rparr>"

lemma decode_questions_located:
  assumes "located p (concat (map question_wire qs)) buf"
    "\<forall>q \<in> set qs. name_ok (qName q) \<and> length (qName q) + 1 < min 256 sz"
  shows "decode_questions buf sz (length qs) p m =
    Some (0, m\<lparr>dm_questions := rev (map read_question qs) @ dm_questions m\<rparr>)"
  using assms
proof (induction qs arbitrary: p m)
  case (Cons q qs)
  let ?n = "length (name_wire (qName q))"
  have l: "located p (name_wire (qName q)) buf" "located (p + ?n) (be16 (qType q)) buf"
    "located (p + ?n + 2) (be16 (qClass q)) buf"
    "located (p + ?n + 2 + 2) (concat (map question_wire qs)) buf"
    using Cons.prems(1) by (simp_all only: list.map concat.simps question_wire_def [of q] located_append append_assoc length_be)
  have ok: "name_ok (qName q)" "length (qName q) + 1 < min 256 sz" using Cons.prems(2) by auto
  note d = decode_domain_name_located [OF l(1) ok] l(2,3) [THEN get16bits_located]
  have IH: "decode_questions buf sz (length qs) (p + ?n + 2 + 2) m' =
      Some (0, m'\<lparr>dm_questions := rev (map read_question qs) @ dm_questions m'\<rparr>)" for m'
    using Cons.prems(2) by (intro Cons.IH l(4)) simp
  show ?case
    by (simp only: length_Cons decode_questions.simps d bind.simps prod.case option.case IH)
       (simp add: read_question_def)
qed simp

lemma query_roundtrip:
  assumes "located p (msg_wire msg) buf"
    and "dm_anCount msg = 0" "dm_nsCount msg = 0" "unat (dm_qdCount msg) = length (dm_questions msg)"
    and "\<forall>q \<in> set (dm_questions msg). name_ok (qName q) \<and> length (qName q) + 1 < min 256 sz"
  shows "decode_msg m buf p sz =
    Some (0, (read_header msg m)\<lparr>dm_questions := rev (map read_question (dm_questions msg)) @ dm_questions m\<rparr>)"
proof -
  from assms(1) have l: "located p (header_wire msg) buf" "located (p + 12) (concat (map question_wire (dm_questions msg))) buf"
    unfolding msg_wire_def
    by (simp_all only: located_append [of _ "header_wire msg"] length_header_wire
        located_append [of _ "concat (map question_wire (dm_questions msg))"])
  show ?thesis
    using decode_questions_located [OF l(2) assms(5), of "read_header msg m"] assms(2-4)
    by (simp add: decode_msg_def decode_header_located [OF l(1)] read_header_def)
qed

text \<open>C17: What the encoder writes for a query the decoder reads back: the identifier, QR, RCODE and
  the counts, and the questions in the reverse order with every byte below 64 of a name turned
  into a dot. The other flags are lost, and RA is 256 for a message with QR.\<close>

theorem dns_query_roundtrip:
  assumes "msg_ok msg" and "encode_msg msg (p, buf) = Some (rc, q, buf')"
    and "dm_anCount msg = 0" "dm_nsCount msg = 0" "unat (dm_qdCount msg) = length (dm_questions msg)"
    and "\<forall>q \<in> set (dm_questions msg). name_ok (qName q) \<and> length (qName q) + 1 < min 256 sz"
  shows "decode_msg m buf' p sz =
    Some (0, m\<lparr>dm_id := dm_id msg, dm_qr := dm_qr msg AND mask 1, dm_opcode := 0, dm_aa := 0, dm_tc := 0,
               dm_rd := 0, dm_ra := push_bit 8 (dm_qr msg AND mask 1), dm_rcode := dm_rcode msg AND mask 4,
               dm_qdCount := dm_qdCount msg, dm_anCount := 0, dm_nsCount := 0,
               dm_arCount := dm_arCount msg,
               dm_questions := rev (map (\<lambda>q. q\<lparr>qName := map decode_char (qName q)\<rparr>) (dm_questions msg)) @
                 dm_questions m\<rparr>)"
proof -
  have "located p (msg_wire msg) buf'"
    using assms(2) by (auto simp: encode_msg_emit [OF assms(1)] intro: emit_located)
  from query_roundtrip [OF this assms(3-6), of m] assms(3,4) show ?thesis
    by (simp add: read_header_def read_question_def)
qed

section \<open>Names that were read\<close>

definition read_name :: "nat \<Rightarrow> bytes \<Rightarrow> bool" where
  "read_name len name \<longleftrightarrow> length name + 1 < min 256 len \<and> (\<forall>c \<in> set name. c = 46 \<or> 63 < c)"

lemma decode_name_loop_reads:
  "decode_name_loop buf p len i d = Some (Some name, p') \<Longrightarrow> i = length d + 1 \<Longrightarrow>
     \<forall>c \<in> set d. c = 46 \<or> 63 < c \<Longrightarrow> read_name len name \<and> p' = p + length name + 2"
proof (induction buf p len i d rule: decode_name_loop.induct)
  case (1 buf p len i d)
  from "1.prems"(1) have i: "i < min 256 len"
    by (subst (asm) decode_name_loop.simps) (auto split: if_splits)
  obtain c where c: "rd8 (p + i) buf = Some c"
    using "1.prems"(1) i by (subst (asm) decode_name_loop.simps) (auto split: if_splits bind_splits)
  show ?case
  proof (cases "c = 0")
    case True
    with "1.prems" i c show ?thesis
      by (subst (asm) decode_name_loop.simps) (auto simp: read_name_def)
  next
    case False
    then have "decode_name_loop buf p len (i + 1) (d @ [decode_char c]) = Some (Some name, p')"
      using "1.prems"(1) i c by (subst (asm) decode_name_loop.simps) simp
    moreover have "decode_char c = 46 \<or> 63 < decode_char c" by (auto simp: decode_char_def)
    ultimately show ?thesis using "1.IH" [OF i c False] "1.prems"(2,3) by auto
  qed
qed

lemma decode_questions_reads:
  "decode_questions buf sz n p m = Some (r, m') \<Longrightarrow>
     \<exists>qs. dm_questions m' = qs @ dm_questions m \<and> length qs \<le> n \<and> (r = 0 \<longleftrightarrow> length qs = n) \<and>
       (\<forall>q \<in> set qs. read_name sz (qName q))"
proof (induction n arbitrary: p m)
  case (Suc n)
  from Suc.prems obtain name p1 ty p2 cl p3 where
    d: "decode_domain_name buf p sz = Some (name, p1)" "get16bits buf p1 = Some (ty, p2)"
       "get16bits buf p2 = Some (cl, p3)"
    by (auto split: bind_splits)
  show ?case
  proof (cases name)
    case None
    with Suc.prems d show ?thesis by auto
  next
    case (Some nm)
    have "read_name sz nm"
      using decode_name_loop_reads [of buf p sz 1 "[]"] d(1) Some by (auto simp: decode_domain_name_def)
    moreover obtain qs where "dm_questions m' = qs @ \<lparr>qName = nm, qType = ty, qClass = cl\<rparr> # dm_questions m"
      "length qs \<le> n" "r = 0 \<longleftrightarrow> length qs = n" "\<forall>q \<in> set qs. read_name sz (qName q)"
      using Suc.IH Suc.prems d Some by fastforce
    ultimately show ?thesis
      by (intro exI [of _ "qs @ [\<lparr>qName = nm, qType = ty, qClass = cl\<rparr>]"]) auto
  qed
qed auto

lemma decode_header_keeps:
  "decode_header m buf p = Some (m', p') \<Longrightarrow> dm_questions m' = dm_questions m \<and> p' = p + 12"
  by (auto simp: decode_header_def get16bits_def Let_def split: bind_splits)

lemma decode_questions_header:
  "decode_questions buf sz n p m = Some (r, m') \<Longrightarrow> m' = m\<lparr>dm_questions := dm_questions m'\<rparr>"
  by (induction n arbitrary: p m) (fastforce split: bind_splits option.splits)+

lemma decode_msg_reads:
  assumes "decode_msg m buf p sz = Some (r, m')"
  shows "\<exists>qs. dm_questions m' = qs @ dm_questions m \<and> length qs \<le> unat (dm_qdCount m') \<and>
    (r = 0 \<longrightarrow> length qs = unat (dm_qdCount m')) \<and> (\<forall>q \<in> set qs. read_name sz (qName q))"
proof -
  from assms obtain m1 p1 where h: "decode_header m buf p = Some (m1, p1)"
    by (auto simp: decode_msg_def split: bind_splits)
  note k = decode_header_keeps [OF h]
  show ?thesis
  proof (cases "dm_anCount m1 \<noteq> 0 \<or> dm_nsCount m1 \<noteq> 0")
    case True
    with assms h k show ?thesis by (auto simp: decode_msg_def)
  next
    case False
    then have d: "decode_questions buf sz (unat (dm_qdCount m1)) p1 m1 = Some (r, m')"
      using assms h by (simp add: decode_msg_def)
    have "dm_qdCount m' = dm_qdCount m1"
      by (subst decode_questions_header [OF d]) simp
    with decode_questions_reads [OF d] k show ?thesis by auto
  qed
qed

text \<open>C18: Whatever bytes are decoded, the questions are put before the ones of the message, as many
  as the header announces when the result is 0 and fewer otherwise, and every name is a C string
  that fits its array: at most 254 bytes, each a dot or above 63.\<close>

theorem dns_decoded_names:
  assumes "decode_msg m buf p sz = Some (r, m')"
  shows "\<exists>qs. dm_questions m' = qs @ dm_questions m \<and> length qs \<le> unat (dm_qdCount m') \<and>
    (r = 0 \<longrightarrow> length qs = unat (dm_qdCount m')) \<and>
    (\<forall>q \<in> set qs. length (qName q) \<le> 254 \<and> length (qName q) + 1 < sz \<and> (\<forall>c \<in> set (qName q). c = 46 \<or> 63 < c))"
  using decode_msg_reads [OF assms] by (fastforce simp: read_name_def)

section \<open>The size of a message\<close>

definition question_size :: "question \<Rightarrow> nat" where
  "question_size q = length (qName q) + 6"

fun rd_size :: "resource_data \<Rightarrow> nat" where
  "rd_size (a_record a) = 4"
| "rd_size (aaaa_record a) = 16"
| "rd_size (txt_record n t) = unat n + 1"

definition rr_size :: "resource_record \<Rightarrow> nat" where
  "rr_size rr = length (rr_name rr) + 12 + rd_size (rr_rd_data rr)"

definition msg_size :: "message \<Rightarrow> nat" where
  "msg_size msg = 12 + sum_list (map question_size (dm_questions msg)) +
     sum_list (map rr_size (dm_answers msg @ dm_authorities msg @ dm_additionals msg))"

lemma length_rr_wire: "rr_ok rr \<Longrightarrow> length (rr_wire rr) = rr_size rr"
  by (cases "rr_rd_data rr") (simp_all add: rr_wire_def rr_size_def rr_ok_def length_name_wire)

lemma length_rrs_wire: "\<forall>rr \<in> set rrs. rr_ok rr \<Longrightarrow> length (concat (map rr_wire rrs)) = sum_list (map rr_size rrs)"
  by (induction rrs) (simp_all add: length_rr_wire)

lemma length_questions_wire: "length (concat (map question_wire qs)) = sum_list (map question_size qs)"
  by (induction qs) (simp_all add: question_wire_def question_size_def length_name_wire)

lemma length_msg_wire: "msg_ok msg \<Longrightarrow> length (msg_wire msg) = msg_size msg"
  unfolding msg_wire_def msg_size_def length_append length_header_wire length_questions_wire
  by (simp add: msg_ok_def length_rrs_wire ball_Un)

lemma encode_msg_fits:
  "msg_ok msg \<Longrightarrow> encode_msg msg (p, buf) =
     (if p + msg_size msg \<le> length buf then Some (0, p + msg_size msg, put p (msg_wire msg) buf) else None)"
  by (simp add: encode_msg_emit emit_def length_msg_wire)

text \<open>The encoder checks no bound: it writes 12 bytes for the header, the length of the name and 6
  bytes for a question, and the length of the name and 12 bytes and the data for a record,
  returns with the cursor behind them when the buffer has that many bytes left, and runs over
  its end otherwise.\<close>

theorem dns_encoded_size:
  assumes "msg_ok msg"
  shows "encode_msg msg (p, buf) =
    (if p + (12 + (\<Sum>q \<leftarrow> dm_questions msg. length (qName q) + 6) +
             (\<Sum>rr \<leftarrow> dm_answers msg @ dm_authorities msg @ dm_additionals msg.
                length (rr_name rr) + 12 + rd_size (rr_rd_data rr))) \<le> length buf
     then Some (0, p + msg_size msg, put p (msg_wire msg) buf) else None)"
  using encode_msg_fits [OF assms, of p buf]
  by (simp add: msg_size_def question_size_def [abs_def] rr_size_def [abs_def])

section \<open>The answers\<close>

text \<open>The server knows the records of one name.\<close>

definition server_answer :: "question \<Rightarrow> resource_record option" where
  "server_answer q =
     (if qName q \<noteq> foo_bar_com then None
      else map_option
        (\<lambda>(n, d). \<lparr>rr_name = foo_bar_com, rr_type = qType q, rr_class = qClass q, rr_ttl = 3600,
                   rr_rd_length = n, rr_rd_data = d\<rparr>)
        (if qType q = A_Resource_RecordType then Some (4, a_record [192, 168, 232, 133])
         else if qType q = AAAA_Resource_RecordType then
           Some (16, aaaa_record ([0xfe, 0x80] @ replicate 13 0 @ [1]))
         else if qType q = TXT_Resource_RecordType then
           Some (8, txt_record 7 [97, 98, 99, 100, 101, 102, 103])
         else None))"

definition supported :: "question \<Rightarrow> bool" where
  "supported q \<longleftrightarrow> qType q \<in> {A_Resource_RecordType, AAAA_Resource_RecordType, TXT_Resource_RecordType}"

lemma resolve_question_answer:
  "resolve_question q msg =
     (case server_answer q of
        Some rr \<Rightarrow> msg\<lparr>dm_anCount := dm_anCount msg + 1, dm_answers := rr # dm_answers msg\<rparr>
      | None \<Rightarrow> if supported q then msg else msg\<lparr>dm_rcode := NotImplemented_ResponseType\<rparr>)"
proof -
  have r: "replicate 13 (0::u8) = [0,0,0,0,0,0,0,0,0,0,0,0,0]" by (simp add: eval_nat_numeral)
  show ?thesis
    by (auto simp: resolve_question_def Let_def server_answer_def supported_def get_A_Record_def
        get_AAAA_Record_def get_TXT_Record_def r)
qed

lemma server_answer_rr_ok: "server_answer q = Some rr \<Longrightarrow> rr_ok rr \<and> supported q"
  by (auto simp: server_answer_def rr_ok_def supported_def split: if_splits)

lemma resolve_loop_answers:
  "resolve_loop qs msg =
     msg\<lparr>dm_rcode := if \<forall>q \<in> set qs. supported q then dm_rcode msg else NotImplemented_ResponseType,
         dm_anCount := dm_anCount msg + of_nat (length (List.map_filter server_answer qs)),
         dm_answers := rev (List.map_filter server_answer qs) @ dm_answers msg\<rparr>"
proof (induction qs arbitrary: msg)
  case (Cons q qs)
  show ?case
  proof (cases "server_answer q")
    case None
    then show ?thesis
      by (simp add: Cons.IH resolve_question_answer map_filter_simps)
  next
    case (Some rr)
    with server_answer_rr_ok [OF Some] show ?thesis
      by (simp add: Cons.IH resolve_question_answer map_filter_simps add.commute add.left_commute)
  qed
qed (simp add: map_filter_simps)

lemma resolve_query_answers:
  "resolve_query msg =
     msg\<lparr>dm_qr := 1, dm_aa := 1, dm_ra := 0,
         dm_rcode := if \<forall>q \<in> set (dm_questions msg). supported q then 0 else 4,
         dm_anCount := of_nat (length (List.map_filter server_answer (dm_questions msg))),
         dm_nsCount := 0, dm_arCount := 0,
         dm_answers := rev (List.map_filter server_answer (dm_questions msg)) @ dm_answers msg\<rparr>"
  by (simp add: resolve_query_def Let_def resolve_loop_answers Ok_ResponseType_def NotImplemented_ResponseType_def)

end
