(* ===== verification/Dns_Server.thy ===== *)
theory Dns_Server
  imports Dns_Correct
begin

text \<open>
  The packet path of the DNS server, \<^verbatim>\<open>dns/dpdk_kni.c\<close>: the encoder of a UDP packet, and what the
  main loop does with one received packet. A received packet is the list of the bytes from the
  start of its data to the end of its buffer; the reply is written over the query. The
  checksum functions, the buffer of a new packet and the burst functions are outside.
\<close>

section \<open>Sending\<close>

text \<open>\<open>encode_eth_ip\<close> writes the same Ethernet and IPv4 headers, the two MAC addresses in the other
  order.\<close>

definition create_eth_ip_udp_pkt ::
  "(bytes \<Rightarrow> u16) \<Rightarrow> (bytes \<Rightarrow> u16) \<Rightarrow> bytes \<Rightarrow> bytes \<Rightarrow> nat \<Rightarrow> bytes \<Rightarrow> u32 \<Rightarrow> u32 \<Rightarrow> u16 \<Rightarrow> u16 \<Rightarrow> bytes \<Rightarrow> nat \<Rightarrow>
     bytes option" where
  "create_eth_ip_udp_pkt ipv4_cksum udptcp_cksum srcmac msg total_len dst_mac src_ip dst_ip
       udp_src_port udp_dst_port data len =
     do { m \<leftarrow> encode_eth_ip ipv4_cksum msg IPPROTO_UDP src_ip dst_ip srcmac dst_mac (of_nat (total_len - 14));
          m \<leftarrow> wr16 34 (htons udp_src_port) m;
          m \<leftarrow> wr16 36 (htons udp_dst_port) m;
          m \<leftarrow> wr16 38 (htons (of_nat (len + 8))) m;
          payload \<leftarrow> rd 0 len data;
          m \<leftarrow> wr 42 payload m;
          m \<leftarrow> wr16 40 0 m;
          wr16 40 (udptcp_cksum (drop 14 m)) m }"

text \<open>The globals of the program; \<open>g_msg\<close> is the message variable of \<open>main\<close>.\<close>

record dns_globals =
  g_src_ip :: u32
  g_dest_ip :: u32
  g_src_port :: u16
  g_dest_port :: u16
  g_dest_mac_addr :: bytes
  g_msg :: message

text \<open>\<open>mbuf\<close> is the buffer of the new packet, \<open>None\<close> when there is none and the program exits. The
  result is the packet that is passed to \<open>rte_eth_tx_burst\<close>.\<close>

definition do_send_udp ::
  "(bytes \<Rightarrow> u16) \<Rightarrow> (bytes \<Rightarrow> u16) \<Rightarrow> bytes \<Rightarrow> bytes option \<Rightarrow> dns_globals \<Rightarrow> bytes \<Rightarrow> nat \<Rightarrow> bytes option" where
  "do_send_udp ipv4_cksum udptcp_cksum srcmac mbuf g data len =
     do { let eth_total_len = len + 42;
          pkt_data \<leftarrow> mbuf;
          m \<leftarrow> create_eth_ip_udp_pkt ipv4_cksum udptcp_cksum srcmac pkt_data eth_total_len (g_dest_mac_addr g)
                 (g_src_ip g) (g_dest_ip g) (g_src_port g) (g_dest_port g) data len;
          Some (take eth_total_len m) }"

section \<open>Receiving\<close>

definition UDP_PORT :: u16 where "UDP_PORT = 53"

datatype dns_action =
    To_kni \<comment> \<open>the burst is offered to the kernel\<close>
  | No_action
  | Send bytes

definition zero_message :: message where
  "zero_message = \<lparr>dm_id = 0, dm_qr = 0, dm_opcode = 0, dm_aa = 0, dm_tc = 0, dm_rd = 0, dm_ra = 0, dm_rcode = 0,
     dm_qdCount = 0, dm_anCount = 0, dm_nsCount = 0, dm_arCount = 0,
     dm_questions = [], dm_answers = [], dm_authorities = [], dm_additionals = []\<rparr>"

text \<open>The answer to the payload at offset 42. The result of \<open>decode_msg\<close> is not looked at.\<close>

definition dns_reply ::
  "(bytes \<Rightarrow> u16) \<Rightarrow> (bytes \<Rightarrow> u16) \<Rightarrow> bytes \<Rightarrow> bytes option \<Rightarrow> bytes \<Rightarrow> dns_globals \<Rightarrow>
     (dns_action \<times> dns_globals) option" where
  "dns_reply ipv4_cksum udptcp_cksum srcmac mbuf m g =
     do { dst \<leftarrow> rd32 30 m;
          src \<leftarrow> rd32 26 m;
          dport \<leftarrow> rd16 36 m;
          sport \<leftarrow> rd16 34 m;
          smac \<leftarrow> rd 6 6 m;
          let g = g\<lparr>g_src_ip := dst, g_dest_ip := src, g_src_port := htons dport, g_dest_port := htons sport,
                    g_dest_mac_addr := smac\<rparr>;
          len \<leftarrow> rd16 38 m;
          let nbytes = htons len - 8;
          (_, msg) \<leftarrow> decode_msg zero_message m 42 (unat nbytes);
          let msg = resolve_query msg;
          (_, p, m) \<leftarrow> encode_msg msg (42, m);
          pkt \<leftarrow> do_send_udp ipv4_cksum udptcp_cksum srcmac mbuf g (drop 42 m) (p - 42);
          Some (Send pkt, g\<lparr>g_msg := msg\<rparr>) }"

definition dns_handle ::
  "(bytes \<Rightarrow> u16) \<Rightarrow> (bytes \<Rightarrow> u16) \<Rightarrow> bytes \<Rightarrow> bytes option \<Rightarrow> bytes \<Rightarrow> dns_globals \<Rightarrow>
     (dns_action \<times> dns_globals) option" where
  "dns_handle ipv4_cksum udptcp_cksum srcmac mbuf m g =
     do { ether_type \<leftarrow> rd16 12 m;
          if ether_type \<noteq> htons RTE_ETHER_TYPE_IPV4 then Some (To_kni, g)
          else
            do { next_proto_id \<leftarrow> rd8 23 m;
                 if next_proto_id = IPPROTO_UDP then
                   do { dst_port \<leftarrow> rd16 36 m;
                        if UDP_PORT = htons dst_port
                        then dns_reply ipv4_cksum udptcp_cksum srcmac mbuf m g
                        else Some (No_action, g) }
                 else Some (To_kni, g) } }"

section \<open>The reply\<close>

text \<open>A received packet with a query to the DNS port.\<close>

definition query_packet :: "message \<Rightarrow> bytes \<Rightarrow> bool" where
  "query_packet q m \<longleftrightarrow>
     rd16 12 m = Some (htons RTE_ETHER_TYPE_IPV4) \<and> rd8 23 m = Some IPPROTO_UDP \<and>
     rd16 36 m = Some (htons UDP_PORT) \<and> located 42 (msg_wire q) m \<and>
     rd16 38 m = Some (htons (of_nat (8 + msg_size q))) \<and> 8 + msg_size q < 65536"

text \<open>A message that is only a query.\<close>

definition is_query :: "message \<Rightarrow> bool" where
  "is_query q \<longleftrightarrow> dm_anCount q = 0 \<and> dm_nsCount q = 0 \<and> unat (dm_qdCount q) = length (dm_questions q) \<and>
     dm_answers q = [] \<and> dm_authorities q = [] \<and> dm_additionals q = [] \<and>
     (\<forall>x \<in> set (dm_questions q). name_ok (qName x) \<and> length (qName x) \<le> 254)"

definition reply_to :: "message \<Rightarrow> message" where
  "reply_to q =
     (let qs = map (\<lambda>x. x\<lparr>qName := map decode_char (qName x)\<rparr>) (dm_questions q);
          rrs = List.map_filter server_answer qs
      in zero_message\<lparr>dm_id := dm_id q, dm_qr := 1, dm_aa := 1,
           dm_rcode := if \<forall>x \<in> set qs. supported x then 0 else 4,
           dm_qdCount := dm_qdCount q, dm_anCount := of_nat (length rrs),
           dm_questions := rev qs, dm_answers := rrs\<rparr>)"

lemma map_filter_rev: "List.map_filter f (rev xs) = rev (List.map_filter f xs)"
  by (simp add: List.map_filter_def rev_map rev_filter)

lemma decode_resolve:
  assumes q: "is_query q" and l: "located p (msg_wire q) m"
  shows "\<exists>msg. decode_msg zero_message m p (msg_size q) = Some (0, msg) \<and> resolve_query msg = reply_to q"
proof -
  have "length (qName x) + 6 \<le> (\<Sum>q \<leftarrow> dm_questions q. question_size q)" if "x \<in> set (dm_questions q)" for x
  proof -
    have "question_size x \<le> (\<Sum>q \<leftarrow> dm_questions q. question_size q)"
      using that by (intro member_le_sum_list) simp_all
    then show ?thesis by (simp add: question_size_def [of x])
  qed
  then have sz: "\<forall>x \<in> set (dm_questions q). name_ok (qName x) \<and> length (qName x) + 1 < min 256 (msg_size q)"
    using q by (fastforce simp: is_query_def msg_size_def)
  have r: "read_question = (\<lambda>x. x\<lparr>qName := map decode_char (qName x)\<rparr>)"
    by (simp add: fun_eq_iff read_question_def)
  have d: "decode_msg zero_message m p (msg_size q) =
      Some (0, (read_header q zero_message)\<lparr>dm_questions := rev (map read_question (dm_questions q)) @ dm_questions zero_message\<rparr>)"
    by (rule query_roundtrip [OF l _ _ _ sz]) (use q in \<open>simp_all add: is_query_def\<close>)
  show ?thesis
    unfolding d
    by (simp add: resolve_query_answers reply_to_def Let_def zero_message_def read_header_def r map_filter_rev
        rev_map [symmetric])
qed

lemma reply_msg_ok: "msg_ok (reply_to q)"
  by (auto simp: msg_ok_def reply_to_def Let_def zero_message_def List.map_filter_def dest: server_answer_rr_ok)

lemma read_fields:
  assumes "located 42 (msg_wire q) m" "msg_size q < 2 ^ 16"
  shows "\<exists>dst src sport smac. rd32 30 m = Some dst \<and> rd32 26 m = Some src \<and> rd16 34 m = Some sport \<and> rd 6 6 m = Some smac"
  using assms by (auto simp: located_nth rd32_def rd16_def rd_def)

lemma create_eth_ip_udp_pkt_spec:
  assumes "length m = room" "len + 42 \<le> room" "len \<le> length data" "length srcmac = 6" "length dst_mac = 6"
  shows "\<exists>m'. create_eth_ip_udp_pkt ck uck srcmac m (len + 42) dst_mac sip dip sport dport data len = Some m' \<and>
    length m' = room \<and> rd 0 6 m' = Some dst_mac \<and> rd 6 6 m' = Some srcmac \<and>
    rd16 12 m' = Some (htons RTE_ETHER_TYPE_IPV4) \<and> rd8 23 m' = Some IPPROTO_UDP \<and>
    rd32 26 m' = Some sip \<and> rd32 30 m' = Some dip \<and>
    rd16 34 m' = Some (htons sport) \<and> rd16 36 m' = Some (htons dport) \<and>
    rd16 38 m' = Some (htons (of_nat (len + 8))) \<and> rd 42 len m' = Some (take len data)"
proof -
  have "rd 0 len data = Some (take len data)" using assms(3) by (simp add: rd_def)
  with assms show ?thesis
    by (simp add: create_eth_ip_udp_pkt_def encode_eth_ip_def wr_defs buf_simps rd_wr_same)
qed

lemma rd_take: "off + n \<le> k \<Longrightarrow> k \<le> length buf \<Longrightarrow> rd off n (take k buf) = rd off n buf"
  by (simp add: rd_def drop_take min_def)

lemma do_send_udp_spec:
  assumes "length b = room" "len + 42 \<le> room" "len \<le> length data" "length srcmac = 6" "length (g_dest_mac_addr g) = 6"
  shows "\<exists>pkt. do_send_udp ck uck srcmac (Some b) g data len = Some pkt \<and> length pkt = len + 42 \<and>
    rd 0 6 pkt = Some (g_dest_mac_addr g) \<and> rd32 26 pkt = Some (g_src_ip g) \<and> rd32 30 pkt = Some (g_dest_ip g) \<and>
    rd16 34 pkt = Some (htons (g_src_port g)) \<and> rd16 36 pkt = Some (htons (g_dest_port g)) \<and>
    rd16 38 pkt = Some (htons (of_nat (len + 8))) \<and> rd 42 len pkt = Some (take len data)"
proof -
  obtain m where m: "create_eth_ip_udp_pkt ck uck srcmac b (len + 42) (g_dest_mac_addr g) (g_src_ip g) (g_dest_ip g)
      (g_src_port g) (g_dest_port g) data len = Some m" "length m = room"
    "rd 0 6 m = Some (g_dest_mac_addr g)" "rd32 26 m = Some (g_src_ip g)" "rd32 30 m = Some (g_dest_ip g)"
    "rd16 34 m = Some (htons (g_src_port g))" "rd16 36 m = Some (htons (g_dest_port g))"
    "rd16 38 m = Some (htons (of_nat (len + 8)))" "rd 42 len m = Some (take len data)"
    using create_eth_ip_udp_pkt_spec [OF assms] by blast
  have k: "len + 42 \<le> length m" using m(2) assms(2) by simp
  show ?thesis
    using m k by (simp add: do_send_udp_def rd16_def rd32_def rd_take)
qed

lemma dns_reply_cases:
  assumes pkt: "query_packet q m" and q: "is_query q"
    and f: "rd32 30 m = Some dst" "rd32 26 m = Some src" "rd16 34 m = Some sport" "rd 6 6 m = Some smac"
  shows "dns_handle ck uck srcmac mbuf m g =
    (if 42 + msg_size (reply_to q) \<le> length m then
       Option.bind (do_send_udp ck uck srcmac mbuf
           (g\<lparr>g_src_ip := dst, g_dest_ip := src, g_src_port := UDP_PORT, g_dest_port := htons sport, g_dest_mac_addr := smac\<rparr>)
           (drop 42 (put 42 (msg_wire (reply_to q)) m)) (msg_size (reply_to q)))
         (\<lambda>pkt. Some (Send pkt,
           g\<lparr>g_src_ip := dst, g_dest_ip := src, g_src_port := UDP_PORT, g_dest_port := htons sport, g_dest_mac_addr := smac,
             g_msg := reply_to q\<rparr>))
     else None)"
proof -
  have n: "unat (of_nat (8 + msg_size q) - 8 :: u16) = msg_size q"
    using pkt by (simp add: query_packet_def unsigned_of_nat take_bit_nat_eq_self)
  obtain msg where msg: "decode_msg zero_message m 42 (msg_size q) = Some (0, msg)" "resolve_query msg = reply_to q"
    using decode_resolve [OF q, of 42 m] pkt by (auto simp: query_packet_def)
  have h: "dns_handle ck uck srcmac mbuf m g = dns_reply ck uck srcmac mbuf m g"
    using pkt by (simp add: dns_handle_def query_packet_def)
  have len: "rd16 38 m = Some (htons (of_nat (8 + msg_size q)))" "rd16 36 m = Some (htons UDP_PORT)"
    using pkt by (simp_all only: query_packet_def)
  show ?thesis
    unfolding h dns_reply_def f len bind.simps Let_def htons_htons n msg prod.case
      encode_msg_fits [OF reply_msg_ok]
    by simp
qed

lemma dns_query_answered:
  assumes "query_packet q m" and "is_query q"
    and "rd32 30 m = Some dst" "rd32 26 m = Some src" "rd16 34 m = Some sport" "rd 6 6 m = Some smac"
    and "42 + msg_size (reply_to q) \<le> length m" "42 + msg_size (reply_to q) \<le> length b" "length srcmac = 6"
  shows "\<exists>pkt g'. dns_handle ck uck srcmac (Some b) m g = Some (Send pkt, g') \<and> g_msg g' = reply_to q \<and>
    length pkt = 42 + msg_size (reply_to q) \<and> rd 0 6 pkt = Some smac \<and>
    rd32 26 pkt = Some dst \<and> rd32 30 pkt = Some src \<and> rd16 34 pkt = Some (htons 53) \<and> rd16 36 pkt = Some sport \<and>
    rd16 38 pkt = Some (htons (of_nat (msg_size (reply_to q) + 8))) \<and>
    rd 42 (msg_size (reply_to q)) pkt = Some (msg_wire (reply_to q))"
proof -
  let ?w = "msg_wire (reply_to q)" and ?n = "msg_size (reply_to q)"
  have n: "length ?w = ?n" by (rule length_msg_wire [OF reply_msg_ok])
  let ?g = "g\<lparr>g_src_ip := dst, g_dest_ip := src, g_src_port := UDP_PORT, g_dest_port := htons sport, g_dest_mac_addr := smac\<rparr>"
  have d: "take ?n (drop 42 (put 42 ?w m)) = ?w" using assms(7) n by (intro take_drop_put_same) simp_all
  have "length smac = 6" using assms(6) by (auto simp: rd_def split: if_splits)
  then have sm: "length (g_dest_mac_addr ?g) = 6" by simp
  have fit: "?n + 42 \<le> length b" "?n \<le> length (drop 42 (put 42 ?w m))" using assms(7,8) by simp_all
  obtain pkt where "do_send_udp ck uck srcmac (Some b) ?g (drop 42 (put 42 ?w m)) ?n = Some pkt"
    "length pkt = ?n + 42" "rd 0 6 pkt = Some smac" "rd32 26 pkt = Some dst" "rd32 30 pkt = Some src"
    "rd16 34 pkt = Some (htons UDP_PORT)" "rd16 36 pkt = Some sport" "rd16 38 pkt = Some (htons (of_nat (?n + 8)))"
    "rd 42 ?n pkt = Some ?w"
    using do_send_udp_spec [of b "length b" ?n "drop 42 (put 42 ?w m)" srcmac ?g ck uck, OF refl fit assms(9) sm]
    unfolding d by auto
  then show ?thesis
    using assms(7) by (simp add: dns_reply_cases [OF assms(1-6)] UDP_PORT_def)
qed

text \<open>The DNS server answers a query on port 53, if the reply fits into the buffer of the query,
  with one packet that goes back to the sender, MAC address, IP address and port, and carries
  exactly the reply: the questions, their answers, and NOTIMP when a type is not supported.\<close>

theorem dns_server_replies:
  assumes "query_packet q m" and "is_query q"
    and "rd32 30 m = Some dst" "rd32 26 m = Some src" "rd16 34 m = Some sport" "rd 6 6 m = Some smac"
    and "42 + msg_size (reply_to q) \<le> length m" "42 + msg_size (reply_to q) \<le> length b" "length srcmac = 6"
  shows "\<exists>pkt g'. dns_handle ck uck srcmac (Some b) m g = Some (Send pkt, g') \<and> g_msg g' = reply_to q \<and>
    length pkt = 42 + msg_size (reply_to q) \<and> rd 0 6 pkt = Some smac \<and>
    rd32 26 pkt = Some dst \<and> rd32 30 pkt = Some src \<and> rd16 34 pkt = Some (htons 53) \<and> rd16 36 pkt = Some sport \<and>
    rd16 38 pkt = Some (htons (of_nat (msg_size (reply_to q) + 8))) \<and>
    rd 42 (msg_size (reply_to q)) pkt = Some (msg_wire (reply_to q))"
  by (rule dns_query_answered [OF assms])

definition aaaa_question :: question where
  "aaaa_question = \<lparr>qName = foo_bar_com, qType = AAAA_Resource_RecordType, qClass = 1\<rparr>"

lemma decode_foo_bar_com [simp]: "map decode_char foo_bar_com = foo_bar_com"
  by (simp add: foo_bar_com_def decode_char_def)

lemma aaaa_reply_size:
  assumes "dm_questions q = replicate n aaaa_question"
  shows "msg_size (reply_to q) = 12 + 56 * n"
proof -
  have d: "aaaa_question\<lparr>qName := map decode_char (qName aaaa_question)\<rparr> = aaaa_question"
    by (simp add: aaaa_question_def)
  have f: "length foo_bar_com = 11" by (simp add: foo_bar_com_def)
  obtain rr where rr: "server_answer aaaa_question = Some rr" "rr_size rr = 39"
    by (simp add: server_answer_def aaaa_question_def rr_size_def f)
  have m: "List.map_filter server_answer (replicate n aaaa_question) = replicate n rr"
    by (induction n) (simp_all add: map_filter_simps rr(1))
  have s: "question_size aaaa_question = 17" by (simp add: question_size_def aaaa_question_def f)
  show ?thesis
    by (simp add: reply_to_def Let_def assms d m msg_size_def zero_message_def sum_list_replicate rr(2) s)
qed

text \<open>A query with 36 or more questions for the IPv6 address of the known name, 17 bytes each, is
  answered with 56 bytes for each, which do not fit into the 2048 bytes of the packet buffer: the
  server writes over its end.\<close>

theorem dns_reply_overflow:
  assumes "query_packet q m" and "is_query q" and "length m = 2048"
    and "dm_questions q = replicate n aaaa_question" "36 \<le> n"
  shows "dns_handle ck uck srcmac mbuf m g = None"
proof -
  have "msg_size q < 2 ^ 16" using assms(1) by (simp add: query_packet_def)
  then obtain dst src sport smac where
    "rd32 30 m = Some dst" "rd32 26 m = Some src" "rd16 34 m = Some sport" "rd 6 6 m = Some smac"
    using read_fields [of q m] assms(1) by (auto simp: query_packet_def)
  from dns_reply_cases [OF assms(1,2) this] show ?thesis
    using aaaa_reply_size [OF assms(4)] assms(3,5) by simp
qed

section \<open>Witnesses\<close>

definition ex_query :: "question list \<Rightarrow> message" where
  "ex_query qs = zero_message\<lparr>dm_id := 7, dm_qdCount := of_nat (length qs), dm_questions := qs\<rparr>"

definition ex_query_packet :: "message \<Rightarrow> bytes" where
  "ex_query_packet q =
     put 42 (msg_wire q) (put 38 (le16 (htons (of_nat (8 + msg_size q)))) (put 36 (le16 (htons UDP_PORT))
       (put 23 [IPPROTO_UDP] (put 12 (le16 (htons RTE_ETHER_TYPE_IPV4)) (replicate 2048 1)))))"

lemma ex_query_ok: "msg_ok (ex_query qs)"
  by (simp add: ex_query_def msg_ok_def zero_message_def)

lemma foo_bar_com_ok: "name_ok foo_bar_com"
  by (simp add: name_ok_def foo_bar_com_def labels.simps)

lemma ex_query_packet_ok:
  assumes "42 + msg_size (ex_query qs) \<le> 2048"
  shows "query_packet (ex_query qs) (ex_query_packet (ex_query qs))"
  using assms length_msg_wire [OF ex_query_ok [of qs]]
  by (simp add: query_packet_def ex_query_packet_def buf_simps located_put)

lemma ex_query_is_query:
  assumes "\<forall>x \<in> set qs. qName x = foo_bar_com" "length qs < 2 ^ 16"
  shows "is_query (ex_query qs)"
  using assms foo_bar_com_ok
  by (simp add: is_query_def ex_query_def zero_message_def unsigned_of_nat take_bit_nat_eq_self)
     (simp add: foo_bar_com_def)

definition ex_globals :: dns_globals where
  "ex_globals = \<lparr>g_src_ip = 0, g_dest_ip = 0, g_src_port = 0, g_dest_port = 0,
     g_dest_mac_addr = replicate 6 0, g_msg = zero_message\<rparr>"

lemma ex_query_size: "msg_size (ex_query (replicate n aaaa_question)) = 12 + 17 * n"
  by (simp add: msg_size_def ex_query_def zero_message_def sum_list_replicate question_size_def
      aaaa_question_def) (simp add: foo_bar_com_def)

lemma aaaa_question_name: "qName aaaa_question = foo_bar_com"
  by (simp add: aaaa_question_def)

lemma ex_query_packet_aaaa:
  assumes "n \<le> 100"
  shows "query_packet (ex_query (replicate n aaaa_question)) (ex_query_packet (ex_query (replicate n aaaa_question)))"
    and "is_query (ex_query (replicate n aaaa_question))"
    and "dm_questions (ex_query (replicate n aaaa_question)) = replicate n aaaa_question"
  using assms
  by (simp_all add: ex_query_packet_ok ex_query_size ex_query_is_query aaaa_question_name)
     (simp add: ex_query_def)

lemma ex_query_packet_fields:
  assumes "n \<le> 100"
  defines "m \<equiv> ex_query_packet (ex_query (replicate n aaaa_question))"
  shows "rd32 30 m = Some 0x01010101" "rd32 26 m = Some 0x01010101" "rd16 34 m = Some 0x0101"
    "rd 6 6 m = Some (replicate 6 1)" "length m = 2048"
  using assms length_msg_wire [OF ex_query_ok [of "replicate n aaaa_question"]] ex_query_size [of n]
  by (simp_all add: ex_query_packet_def buf_simps)
     (simp_all add: rd32_def rd16_def rd_def of_le32_def of_le16_def)

theorem dns_server_replies_witness:
  "\<exists>pkt g'. dns_handle (\<lambda>_. 0) (\<lambda>_. 0) (replicate 6 2) (Some (replicate 2048 0))
      (ex_query_packet (ex_query (replicate 2 aaaa_question))) ex_globals = Some (Send pkt, g') \<and>
    length pkt = 166 \<and> rd16 34 pkt = Some (htons 53)"
proof -
  have n: "(2::nat) \<le> 100" by simp
  have q: "dm_questions (ex_query (replicate 2 aaaa_question)) = replicate 2 aaaa_question"
    by (rule ex_query_packet_aaaa [OF n])
  show ?thesis
    using dns_server_replies [OF ex_query_packet_aaaa(1,2) [OF n] ex_query_packet_fields(1-4) [OF n],
        of "replicate 2048 0" "replicate 6 2" "\<lambda>_. 0" "\<lambda>_. 0" ex_globals]
      ex_query_packet_fields(5) [OF n] aaaa_reply_size [OF q] by fastforce
qed

theorem dns_reply_overflow_witness:
  "dns_handle (\<lambda>_. 0) (\<lambda>_. 0) (replicate 6 2) (Some (replicate 2048 0))
      (ex_query_packet (ex_query (replicate 36 aaaa_question))) ex_globals = None"
  using ex_query_packet_aaaa [of 36] ex_query_packet_fields(5) [of 36]
  by (intro dns_reply_overflow [where n = 36]) simp_all

theorem dns_encoded_size_witness:
  "encode_msg (ex_query [aaaa_question]) (0, replicate 28 0) = None"
  unfolding dns_encoded_size [OF ex_query_ok]
  by (simp add: ex_query_def aaaa_question_def foo_bar_com_def)

lemma ex_encoded:
  "\<exists>rc q buf. encode_msg (ex_query [aaaa_question]) (0, replicate 29 0) = Some (rc, q, buf)"
  using ex_query_size [of 1] encode_msg_fits [OF ex_query_ok] by simp

lemma ex_query_names:
  "\<forall>q \<in> set (dm_questions (ex_query [aaaa_question])). name_ok (qName q) \<and> length (qName q) + 1 < min 256 29"
  by (simp add: ex_query_def aaaa_question_name foo_bar_com_ok) (simp add: foo_bar_com_def)

theorem dns_query_roundtrip_witness:
  "\<exists>rc q buf m'. encode_msg (ex_query [aaaa_question]) (0, replicate 29 0) = Some (rc, q, buf) \<and>
     decode_msg zero_message buf 0 29 = Some (0, m') \<and> dm_questions m' = [aaaa_question]"
proof -
  obtain rc q buf where e: "encode_msg (ex_query [aaaa_question]) (0, replicate 29 0) = Some (rc, q, buf)"
    using ex_encoded by blast
  show ?thesis
    using dns_query_roundtrip [OF ex_query_ok e _ _ _ ex_query_names, of zero_message] e
    by (simp add: ex_query_def zero_message_def aaaa_question_def)
qed

theorem dns_decoded_names_witness:
  "\<exists>qs m'. decode_msg zero_message (put 0 (msg_wire (ex_query [aaaa_question])) (replicate 29 0)) 0 29 = Some (0, m') \<and>
     dm_questions m' = qs \<and> length qs = 1 \<and> (\<forall>q \<in> set qs. length (qName q) \<le> 254)"
proof -
  let ?q = "ex_query [aaaa_question]"
  have n: "length (msg_wire ?q) = 29" using length_msg_wire [OF ex_query_ok] ex_query_size [of 1] by simp
  have l: "located 0 (msg_wire ?q) (put 0 (msg_wire ?q) (replicate 29 0))"
    by (rule located_put) (simp add: n)
  have h: "dm_anCount ?q = 0" "dm_nsCount ?q = 0" "unat (dm_qdCount ?q) = length (dm_questions ?q)"
    by (simp_all add: ex_query_def zero_message_def)
  obtain m' where d: "decode_msg zero_message (put 0 (msg_wire ?q) (replicate 29 0)) 0 29 = Some (0, m')"
      "unat (dm_qdCount m') = 1"
    using query_roundtrip [OF l h ex_query_names, of zero_message]
    by (simp add: read_header_def ex_query_def)
  show ?thesis using dns_decoded_names [OF d(1)] d by (auto simp: zero_message_def)
qed

end
