(* ===== verification/Vring.thy ===== *)
theory Vring
  imports Packet
begin

text \<open>
  The virtio ring of \<^verbatim>\<open>vring_test/vring.c\<close>: the driver side that puts packets into the
  descriptor table (\<open>put_vring\<close>, \<open>process_used_vring\<close>) and the device side that consumes them
  (\<open>process_avail_vring\<close>). The shared memory holds the tables and the packet buffers under their
  addresses in one address space; the objects do not overlap. A \<open>Vring\<close> is the private view of
  one side. The other side does not change the memory during a call.
\<close>

section \<open>Memory\<close>

type_synonym mem = "nat \<Rightarrow> u8 option"

definition mem_rd :: "nat \<Rightarrow> nat \<Rightarrow> mem \<Rightarrow> bytes option" where
  "mem_rd a n mem = (if \<forall>i<n. mem (a + i) \<noteq> None then Some (map (\<lambda>i. the (mem (a + i))) [0..<n]) else None)"

definition mem_wr :: "nat \<Rightarrow> bytes \<Rightarrow> mem \<Rightarrow> mem option" where
  "mem_wr a bs mem =
     (if \<forall>i<length bs. mem (a + i) \<noteq> None
      then Some (\<lambda>x. if a \<le> x \<and> x < a + length bs then Some (bs ! (x - a)) else mem x) else None)"

definition nth_opt :: "'a list \<Rightarrow> nat \<Rightarrow> 'a option" where
  "nth_opt xs i = (if i < length xs then Some (xs ! i) else None)"

definition upd_opt :: "'a list \<Rightarrow> nat \<Rightarrow> 'a \<Rightarrow> 'a list option" where
  "upd_opt xs i x = (if i < length xs then Some (xs[i := x]) else None)"

section \<open>Data\<close>

definition VHOST_VRING_SIZE :: nat where "VHOST_VRING_SIZE = 32 * 1024"
definition ETH_PACKET_SIZE :: nat where "ETH_PACKET_SIZE = 1518"
definition VIRTIO_NET_HDR_LEN :: nat where "VIRTIO_NET_HDR_LEN = 10"
definition BUFFER_SIZE :: nat where "BUFFER_SIZE = VIRTIO_NET_HDR_LEN + ETH_PACKET_SIZE"
definition BUFFER_ALIGNMENT :: u64 where "BUFFER_ALIGNMENT = 8"
definition VRING_IDX_NONE :: u16 where "VRING_IDX_NONE = - 1"
definition VIRTIO_DESC_F_NEXT :: u16 where "VIRTIO_DESC_F_NEXT = 1"
definition VIRTIO_DESC_F_WRITE :: u16 where "VIRTIO_DESC_F_WRITE = 2"

definition ALIGN :: "u64 \<Rightarrow> u64 \<Rightarrow> u64" where
  "ALIGN v b = (v + b - 1) AND (- b)"

record vring_desc =
  d_addr :: u64
  d_len :: u32
  d_flags :: u16
  d_next :: u16

record vring_avail =
  av_idx :: u16
  av_ring :: "u16 list"

record vring_used_elem =
  ue_id :: u32
  ue_len :: u32

record vring_used =
  us_idx :: u16
  us_ring :: "vring_used_elem list"

text \<open>What an address space holds: tables and bytes.\<close>

record shm =
  sm_desc :: "nat \<Rightarrow> vring_desc list option"
  sm_avail :: "nat \<Rightarrow> vring_avail option"
  sm_used :: "nat \<Rightarrow> vring_used option"
  sm_mem :: mem

record Vring =
  vr_kickfd :: int
  vr_callfd :: int
  vr_desc :: nat
  vr_avail :: nat
  vr_used :: nat
  vr_num :: u32
  vr_last_avail_idx :: u16
  vr_last_used_idx :: u16

section \<open>A new ring\<close>

text \<open>The offsets of the tables in \<open>struct vhost_vring\<close>, whose \<open>used\<close> member is aligned to 4096
  bytes, and its size.\<close>

definition desc_offset :: nat where "desc_offset = 8"
definition avail_offset :: nat where "avail_offset = 524296"
definition used_offset :: nat where "used_offset = 593920"
definition vhost_vring_size :: nat where "vhost_vring_size = 860160"

fun new_desc_loop :: "nat \<Rightarrow> nat \<Rightarrow> u64 \<Rightarrow> vring_desc list" where
  "new_desc_loop 0 i ptr = []"
| "new_desc_loop (Suc n) i ptr =
     (let ptr = ALIGN ptr BUFFER_ALIGNMENT
      in \<lparr>d_addr = ptr, d_len = of_nat BUFFER_SIZE, d_flags = VIRTIO_DESC_F_WRITE, d_next = of_nat (i + 1)\<rparr> #
         new_desc_loop n (i + 1) (ptr + of_nat BUFFER_SIZE))"

definition new_desc_table :: "nat \<Rightarrow> u64 \<Rightarrow> vring_desc list" where
  "new_desc_table n ptr =
     (let desc = new_desc_loop n 0 ptr
      in desc[n - 1 := (desc ! (n - 1))\<lparr>d_next := VRING_IDX_NONE\<rparr>])"

definition new_vring :: "nat \<Rightarrow> shm \<Rightarrow> shm option" where
  "new_vring base sh =
     do { avail \<leftarrow> sm_avail sh (base + avail_offset);
          used \<leftarrow> sm_used sh (base + used_offset);
          Some (sh\<lparr>sm_desc := (sm_desc sh)(base + desc_offset \<mapsto>
                     new_desc_table VHOST_VRING_SIZE (of_nat (base + vhost_vring_size))),
                  sm_avail := (sm_avail sh)(base + avail_offset \<mapsto> avail\<lparr>av_idx := 0\<rparr>),
                  sm_used := (sm_used sh)(base + used_offset \<mapsto> used\<lparr>us_idx := 0\<rparr>)\<rparr>) }"

section \<open>The driver side\<close>

definition map_addr :: "(u64 \<Rightarrow> u64) option \<Rightarrow> u64 \<Rightarrow> nat" where
  "map_addr h a = unat (case h of Some f \<Rightarrow> f a | None \<Rightarrow> a)"

definition put_vring :: "(u64 \<Rightarrow> u64) option \<Rightarrow> Vring \<Rightarrow> bytes \<Rightarrow> shm \<Rightarrow> (int \<times> Vring \<times> shm) option" where
  "put_vring map_handler v buf sh =
     do { let a_idx = vr_last_avail_idx v;
          desc \<leftarrow> sm_desc sh (vr_desc v);
          d \<leftarrow> nth_opt desc (unat a_idx);
          if length buf > unat (d_len d) then Some (- 1, v, sh)
          else
            do { let v = v\<lparr>vr_last_avail_idx := d_next d\<rparr>;
                 let dest_buf = map_addr map_handler (d_addr d);
                 mem \<leftarrow> mem_wr dest_buf (replicate VIRTIO_NET_HDR_LEN 0) (sm_mem sh);
                 mem \<leftarrow> mem_wr (dest_buf + VIRTIO_NET_HDR_LEN) buf mem;
                 let desc = desc[unat a_idx := d\<lparr>d_len := of_nat (VIRTIO_NET_HDR_LEN + length buf),
                                                d_flags := 0, d_next := VRING_IDX_NONE\<rparr>];
                 avail \<leftarrow> sm_avail sh (vr_avail v);
                 ring \<leftarrow> (if vr_num v = 0 then None
                         else upd_opt (av_ring avail) (unat (av_idx avail) mod unat (vr_num v)) a_idx);
                 let avail = avail\<lparr>av_ring := ring, av_idx := av_idx avail + 1\<rparr>;
                 Some (0, v, sh\<lparr>sm_desc := (sm_desc sh)(vr_desc v \<mapsto> desc),
                               sm_avail := (sm_avail sh)(vr_avail v \<mapsto> avail), sm_mem := mem\<rparr>) } }"

definition free_vring :: "Vring \<Rightarrow> u32 \<Rightarrow> shm \<Rightarrow> (Vring \<times> shm) option" where
  "free_vring v d_idx sh =
     do { desc \<leftarrow> sm_desc sh (vr_desc v);
          if unat d_idx < VHOST_VRING_SIZE then
            do { d \<leftarrow> nth_opt desc (unat d_idx);
                 let desc = desc[unat d_idx := d\<lparr>d_len := of_nat BUFFER_SIZE,
                                                d_flags := d_flags d OR VIRTIO_DESC_F_WRITE,
                                                d_next := vr_last_avail_idx v\<rparr>];
                 Some (v\<lparr>vr_last_avail_idx := ucast d_idx\<rparr>,
                       sh\<lparr>sm_desc := (sm_desc sh)(vr_desc v \<mapsto> desc)\<rparr>) }
          else None }"

text \<open>The loop only ends when the index reaches the one of the device.\<close>

partial_function (option) used_loop :: "vring_used \<Rightarrow> u16 \<Rightarrow> Vring \<Rightarrow> shm \<Rightarrow> (u16 \<times> Vring \<times> shm) option" where
  "used_loop used u_idx v sh =
     (if u_idx = us_idx used then Some (u_idx, v, sh)
      else
        do { e \<leftarrow> nth_opt (us_ring used) (unat u_idx);
             vs \<leftarrow> free_vring v (ue_id e) sh;
             if vr_num v = 0 then None
             else used_loop used (of_nat ((unat u_idx + 1) mod unat (vr_num v))) (fst vs) (snd vs) })"

definition process_used_vring :: "Vring \<Rightarrow> shm \<Rightarrow> (Vring \<times> shm) option" where
  "process_used_vring v sh =
     do { used \<leftarrow> sm_used sh (vr_used v);
          (u_idx, v, sh) \<leftarrow> used_loop used (vr_last_used_idx v) v sh;
          Some (v\<lparr>vr_last_used_idx := u_idx\<rparr>, sh) }"

section \<open>The device side\<close>

text \<open>\<open>buf\<close> is the part of the local array of \<open>ETH_PACKET_SIZE\<close> bytes that is filled; its length is
  \<open>len\<close>. The sum of the lengths is a 32-bit sum: when it wraps, it passes the comparison, and the copy of
  nearly 4 GB runs over the array. This is the only crash of the copy itself; that the array is otherwise large
  enough is not built in but follows from the comparison (\<open>chain_loop_fits\<close> in \<^verbatim>\<open>Vring_Correct\<close>).\<close>

partial_function (option) chain_loop ::
  "(u64 \<Rightarrow> u64) option \<Rightarrow> vring_desc list \<Rightarrow> mem \<Rightarrow> nat \<Rightarrow> bytes \<Rightarrow> bytes option" where
  "chain_loop map_handler desc mem i buf =
     do { d \<leftarrow> nth_opt desc i;
          let cur = map_addr map_handler (d_addr d);
          if unat (of_nat (length buf) + d_len d) < ETH_PACKET_SIZE then
            do { bs \<leftarrow> mem_rd cur (unat (d_len d)) mem;
                 if length buf + length bs < 2 ^ 32 then
                   if d_flags d AND VIRTIO_DESC_F_NEXT \<noteq> 0
                   then chain_loop map_handler desc mem (unat (d_next d)) (buf @ bs)
                   else Some (buf @ bs)
                 else None }
          else Some buf }"

text \<open>\<open>avail_handler\<close> is called with the packet behind the header. A length below the header's is passed as a
  huge number, here \<open>None\<close>: what comes of it depends on the handler.\<close>

definition process_desc ::
  "(u64 \<Rightarrow> u64) option \<Rightarrow> (bytes option \<Rightarrow> 'c \<Rightarrow> 'c option) option \<Rightarrow> nat \<Rightarrow> Vring \<Rightarrow> shm \<times> 'c \<Rightarrow> (int \<times> shm \<times> 'c) option" where
  "process_desc map_handler avail_handler a_idx v s =
     do { let (sh, ctx) = s;
          desc \<leftarrow> sm_desc sh (vr_desc v);
          avail \<leftarrow> sm_avail sh (vr_avail v);
          u_idx \<leftarrow> (if vr_num v = 0 then None else Some (unat (vr_last_used_idx v) mod unat (vr_num v)));
          d_idx \<leftarrow> nth_opt (av_ring avail) a_idx;
          buf \<leftarrow> chain_loop map_handler desc (sm_mem sh) (unat d_idx) [];
          if length buf = 0 then Some (- 1, sh, ctx)
          else
            do { used \<leftarrow> sm_used sh (vr_used v);
                 ring \<leftarrow> upd_opt (us_ring used) u_idx \<lparr>ue_id = ucast d_idx, ue_len = of_nat (length buf)\<rparr>;
                 let sh = sh\<lparr>sm_used := (sm_used sh)(vr_used v \<mapsto> used\<lparr>us_ring := ring\<rparr>)\<rparr>;
                 ctx \<leftarrow> (case avail_handler of
                           Some h \<Rightarrow> h (if length buf < VIRTIO_NET_HDR_LEN then None
                                       else Some (drop VIRTIO_NET_HDR_LEN buf)) ctx
                         | None \<Rightarrow> Some ctx);
                 Some (0, sh, ctx) } }"

lemma ring_distance_decreases:
  fixes l e :: u16
  assumes "l \<noteq> e"
  shows "unat (e - (l + 1)) < unat (e - l)"
proof -
  have d: "e - l \<noteq> 0" using assms by simp
  have s: "e - (l + 1) = (e - l) - 1" by simp
  have "unat (e - (l + 1)) = unat (e - l) - 1" unfolding s by (rule unat_minus_one [OF d])
  moreover have "unat (e - l) \<noteq> 0" using d by (metis unat_eq_zero)
  ultimately show ?thesis by simp
qed

function avail_loop ::
  "(u64 \<Rightarrow> u64) option \<Rightarrow> (bytes option \<Rightarrow> 'c \<Rightarrow> 'c option) option \<Rightarrow> u16 \<Rightarrow> nat \<Rightarrow> u32 \<Rightarrow> Vring \<Rightarrow> shm \<times> 'c \<Rightarrow>
     (u32 \<times> Vring \<times> shm \<times> 'c) option" where
  "avail_loop map_handler avail_handler aend a_idx count v s =
     (if vr_last_avail_idx v = aend then Some (count, v, s)
      else
        do { (_, s) \<leftarrow> process_desc map_handler avail_handler a_idx v s;
             avail_loop map_handler avail_handler aend ((a_idx + 1) mod unat (vr_num v)) (count + 1)
               (v\<lparr>vr_last_avail_idx := vr_last_avail_idx v + 1, vr_last_used_idx := vr_last_used_idx v + 1\<rparr>) s })"
  by pat_completeness auto
termination
proof (relation "measure (\<lambda>(mh, ah, aend, a_idx, count, v, s). unat (aend - vr_last_avail_idx v))", goal_cases)
  case (2 mh ah aend a_idx count v s)
  then show ?case by (auto intro: ring_distance_decreases)
qed simp

declare avail_loop.simps [simp del]

definition process_avail_vring ::
  "(u64 \<Rightarrow> u64) option \<Rightarrow> (bytes option \<Rightarrow> 'c \<Rightarrow> 'c option) option \<Rightarrow> Vring \<Rightarrow> shm \<times> 'c \<Rightarrow> (u32 \<times> Vring \<times> shm \<times> 'c) option" where
  "process_avail_vring map_handler avail_handler v s =
     do { avail \<leftarrow> sm_avail (fst s) (vr_avail v);
          (if vr_num v = 0 then None else Some ());
          (count, v, sh, ctx) \<leftarrow> avail_loop map_handler avail_handler (av_idx avail)
             (unat (vr_last_avail_idx v) mod unat (vr_num v)) 0 v s;
          used \<leftarrow> sm_used sh (vr_used v);
          Some (count, v, sh\<lparr>sm_used := (sm_used sh)(vr_used v \<mapsto> used\<lparr>us_idx := vr_last_used_idx v\<rparr>)\<rparr>, ctx) }"

end
