(* ===== verification/Fd_List.thy ===== *)
theory Fd_List
  imports Prelude "HOL-Library.Multiset"
begin

text \<open>
  The descriptor list of \<^verbatim>\<open>vring_test/fd_list.c\<close>, with which client and server wait for input. A node
  has a descriptor, -1 when it is free, and a handler, the C function with its context. The
  handlers run on the state of the program, which contains the list, and may change the list
  while it is traversed. \<open>select\<close> is outside, and so is the value of \<open>FD_ISSET\<close>, which the code also
  asks for the descriptor -1 of a free node.
\<close>

definition FD_LIST_SIZE :: nat where "FD_LIST_SIZE = 10"
definition FD_SETSIZE :: int where "FD_SETSIZE = 1024"

record 'h fd_node =
  fn_fd :: int
  fn_handler :: "'h option"

record 'h fd_list =
  fl_nfds :: nat
  fl_fdmax :: int
  fl_read_fds :: "'h fd_node list"
  fl_write_fds :: "'h fd_node list"
  fl_ms :: u32

datatype fd_type = FD_READ | FD_WRITE

definition fl_nodes :: "fd_type \<Rightarrow> 'h fd_list \<Rightarrow> 'h fd_node list" where
  "fl_nodes type l = (if type = FD_READ then fl_read_fds l else fl_write_fds l)"

definition fl_set_nodes :: "fd_type \<Rightarrow> 'h fd_node list \<Rightarrow> 'h fd_list \<Rightarrow> 'h fd_list" where
  "fl_set_nodes type ns l = (if type = FD_READ then l\<lparr>fl_read_fds := ns\<rparr> else l\<lparr>fl_write_fds := ns\<rparr>)"

definition reset_fd_node :: "'h fd_node" where
  "reset_fd_node = \<lparr>fn_fd = - 1, fn_handler = None\<rparr>"

definition init_fd_list :: "u32 \<Rightarrow> 'h fd_list" where
  "init_fd_list ms =
     \<lparr>fl_nfds = 0, fl_fdmax = - 1, fl_read_fds = replicate FD_LIST_SIZE reset_fd_node,
      fl_write_fds = replicate FD_LIST_SIZE reset_fd_node, fl_ms = ms\<rparr>"

fun find_fd_node_by_fd :: "'h fd_node list \<Rightarrow> int \<Rightarrow> nat option" where
  "find_fd_node_by_fd [] fd = None"
| "find_fd_node_by_fd (n # ns) fd =
     (if fn_fd n = fd then Some 0 else map_option Suc (find_fd_node_by_fd ns fd))"

definition add_fd_list :: "fd_type \<Rightarrow> int \<Rightarrow> 'h option \<Rightarrow> 'h fd_list \<Rightarrow> int \<times> 'h fd_list" where
  "add_fd_list type fd handler l =
     (case find_fd_node_by_fd (fl_nodes type l) (- 1) of
        None \<Rightarrow> (- 1, l)
      | Some i \<Rightarrow> (0, fl_set_nodes type ((fl_nodes type l)[i := \<lparr>fn_fd = fd, fn_handler = handler\<rparr>]) l))"

definition del_fd_list :: "fd_type \<Rightarrow> int \<Rightarrow> 'h fd_list \<Rightarrow> int \<times> 'h fd_list" where
  "del_fd_list type fd l =
     (case find_fd_node_by_fd (fl_nodes type l) fd of
        None \<Rightarrow> (- 1, l)
      | Some i \<Rightarrow> (0, fl_set_nodes type ((fl_nodes type l)[i := reset_fd_node]) l))"

text \<open>\<open>FD_SET\<close> is undefined for a descriptor that is negative or not below \<open>FD_SETSIZE\<close>.\<close>

fun fd_set_loop :: "'h fd_node list \<Rightarrow> int set \<times> int \<Rightarrow> (int set \<times> int) option" where
  "fd_set_loop [] s = Some s"
| "fd_set_loop (n # ns) (fdset, fdmax) =
     (if fn_fd n \<noteq> - 1 then
        if 0 \<le> fn_fd n \<and> fn_fd n < FD_SETSIZE
        then fd_set_loop ns (insert (fn_fd n) fdset, max (fn_fd n) fdmax) else None
      else fd_set_loop ns (fdset, fdmax))"

definition fd_set_from_fd_list :: "fd_type \<Rightarrow> 'h fd_list \<Rightarrow> (int set \<times> 'h fd_list) option" where
  "fd_set_from_fd_list type l =
     do { (fdset, fdmax) \<leftarrow> fd_set_loop (fl_nodes type l) ({}, fl_fdmax l);
          Some (fdset, l\<lparr>fl_fdmax := fdmax\<rparr>) }"

text \<open>\<open>get\<close> finds the list in the state \<open>s\<close>, \<open>call\<close> runs a handler. The loop goes over the nodes from
  \<open>idx\<close> on, of which \<open>n\<close> are left.\<close>

fun process_fd_set ::
  "('s \<Rightarrow> 'h fd_list) \<Rightarrow> ('h \<Rightarrow> int \<Rightarrow> 's \<Rightarrow> 's option) \<Rightarrow> fd_type \<Rightarrow> (int \<Rightarrow> bool) \<Rightarrow> nat \<Rightarrow> nat \<Rightarrow> 's \<Rightarrow> 's option" where
  "process_fd_set get call type isset idx 0 s = Some s"
| "process_fd_set get call type isset idx (Suc n) s =
     do { let node = fl_nodes type (get s) ! idx;
          s \<leftarrow> (if isset (fn_fd node) then
                  (case fn_handler node of
                     Some h \<Rightarrow> call h (fn_fd node) s
                   | None \<Rightarrow> Some s)
                else Some s);
          process_fd_set get call type isset (idx + 1) n s }"

text \<open>\<open>select\<close> gets the number of descriptors, the sets, and the seconds and microseconds of the time
  limit.\<close>

definition traverse_fd_list ::
  "('s \<Rightarrow> 'h fd_list) \<Rightarrow> ('h fd_list \<Rightarrow> 's \<Rightarrow> 's) \<Rightarrow> ('h \<Rightarrow> int \<Rightarrow> 's \<Rightarrow> 's option) \<Rightarrow>
     (int \<Rightarrow> int set \<Rightarrow> int set \<Rightarrow> u32 \<times> u32 \<Rightarrow> int \<times> (int \<Rightarrow> bool) \<times> (int \<Rightarrow> bool)) \<Rightarrow> 's \<Rightarrow> 's option" where
  "traverse_fd_list get upd call select s =
     do { let l = get s;
          let tv = (fl_ms l div 1000, (fl_ms l mod 1000) * 1000);
          let l = l\<lparr>fl_fdmax := - 1\<rparr>;
          (read_fdset, l) \<leftarrow> fd_set_from_fd_list FD_READ l;
          (write_fdset, l) \<leftarrow> fd_set_from_fd_list FD_WRITE l;
          let s = upd l s;
          let (r, read_isset, write_isset) = select (fl_fdmax l + 1) read_fdset write_fdset tv;
          if r = - 1 \<or> r = 0 then Some s
          else
            do { s \<leftarrow> process_fd_set get call FD_READ read_isset 0 FD_LIST_SIZE s;
                 process_fd_set get call FD_WRITE write_isset 0 FD_LIST_SIZE s } }"

section \<open>The list as a multiset of watched descriptors\<close>

definition watched :: "fd_type \<Rightarrow> 'h fd_list \<Rightarrow> ('h option \<times> int) list" where
  "watched type l = map (\<lambda>n. (fn_handler n, fn_fd n)) (filter (\<lambda>n. fn_fd n \<noteq> - 1) (fl_nodes type l))"

lemma fl_nodes_set [simp]: "fl_nodes type (fl_set_nodes type ns l) = ns"
  by (simp add: fl_nodes_def fl_set_nodes_def)

lemma find_fd_node_Some:
  "find_fd_node_by_fd ns fd = Some i \<Longrightarrow> i < length ns \<and> fn_fd (ns ! i) = fd"
  by (induction ns arbitrary: i) (auto split: if_splits)

lemma find_fd_node_None: "find_fd_node_by_fd ns fd = None \<longleftrightarrow> fd \<notin> fn_fd ` set ns"
  by (induction ns) auto

lemma mset_filter_update:
  assumes "i < length ns"
  shows "mset (filter P (ns[i := x])) + (if P (ns ! i) then {# ns ! i #} else {#}) =
    mset (filter P ns) + (if P x then {# x #} else {#})"
  using assms by (subst (2) id_take_nth_drop [OF assms]) (simp add: upd_conv_take_nth_drop)

abbreviation (input) busy :: "'h fd_node \<Rightarrow> bool" where
  "busy \<equiv> \<lambda>n. fn_fd n \<noteq> - 1"

definition entry :: "'h fd_node \<Rightarrow> 'h option \<times> int" where
  "entry n = (fn_handler n, fn_fd n)"

lemma watched_entry: "mset (watched type l) = image_mset entry (mset (filter busy (fl_nodes type l)))"
  by (simp add: watched_def entry_def [abs_def])

lemma size_watched: "length (watched type l) = length (filter busy (fl_nodes type l))"
  by (simp add: watched_def)

lemma add_fd_list_watched:
  assumes "fd \<noteq> - 1" "length (fl_nodes type l) = FD_LIST_SIZE"
  shows "if length (watched type l) = FD_LIST_SIZE then add_fd_list type fd h l = (- 1, l)
    else \<exists>l'. add_fd_list type fd h l = (0, l') \<and> length (fl_nodes type l') = FD_LIST_SIZE \<and>
           mset (watched type l') = add_mset (h, fd) (mset (watched type l))"
proof (cases "find_fd_node_by_fd (fl_nodes type l) (- 1)")
  case None
  then have "\<forall>n \<in> set (fl_nodes type l). busy n" by (force simp: find_fd_node_None)
  then have "filter busy (fl_nodes type l) = fl_nodes type l" by simp
  with None assms(2) show ?thesis by (simp only: size_watched) (simp add: add_fd_list_def)
next
  case (Some i)
  note i = find_fd_node_Some [OF Some]
  let ?ns = "fl_nodes type l" and ?n = "\<lparr>fn_fd = fd, fn_handler = h\<rparr>"
  have "?ns ! i \<in> set ?ns" "\<not> busy (?ns ! i)" using i by simp_all
  then have "length (filter busy ?ns) < length ?ns" by (rule length_filter_less)
  moreover have "mset (filter busy (?ns[i := ?n])) = add_mset ?n (mset (filter busy ?ns))"
    using mset_filter_update [of i ?ns busy ?n] i assms(1) by simp
  ultimately show ?thesis
    using assms(2) i by (simp only: size_watched watched_entry) (simp add: add_fd_list_def Some entry_def)
qed

lemma del_fd_list_watched:
  assumes "fd \<noteq> - 1" "length (fl_nodes type l) = FD_LIST_SIZE"
  shows "if fd \<notin> snd ` set (watched type l) then del_fd_list type fd l = (- 1, l)
    else \<exists>l' h. del_fd_list type fd l = (0, l') \<and> length (fl_nodes type l') = FD_LIST_SIZE \<and>
           mset (watched type l) = add_mset (h, fd) (mset (watched type l'))"
proof (cases "find_fd_node_by_fd (fl_nodes type l) fd")
  case None
  then have "fd \<notin> snd ` set (watched type l)" by (auto simp: find_fd_node_None watched_def)
  with None show ?thesis by (simp add: del_fd_list_def)
next
  case (Some i)
  note i = find_fd_node_Some [OF Some]
  let ?ns = "fl_nodes type l"
  have b: "busy (?ns ! i)" using i assms(1) by simp
  have "?ns ! i \<in> set (filter busy ?ns)" using i b by simp
  then have m: "fd \<in> snd ` set (watched type l)" using i by (force simp: watched_def)
  have "mset (filter busy ?ns) = add_mset (?ns ! i) (mset (filter busy (?ns[i := reset_fd_node])))"
    using mset_filter_update [of i ?ns busy reset_fd_node] i b by (simp add: reset_fd_node_def)
  then have "mset (watched type l) =
      add_mset (fn_handler (?ns ! i), fd) (mset (watched type (fl_set_nodes type (?ns[i := reset_fd_node]) l)))"
    using i by (simp add: watched_entry entry_def)
  moreover have "del_fd_list type fd l = (0, fl_set_nodes type (?ns[i := reset_fd_node]) l)"
    using Some by (simp add: del_fd_list_def)
  ultimately have "\<exists>l' h. del_fd_list type fd l = (0, l') \<and> length (fl_nodes type l') = FD_LIST_SIZE \<and>
      mset (watched type l) = add_mset (h, fd) (mset (watched type l'))"
    using assms(2) by (intro exI conjI) (assumption, simp, assumption)
  with m show ?thesis by (simp only: if_not_P not_not if_False simp_thms)
qed

text \<open>The descriptor list implements a bag of at most 10 watched descriptors: adding puts the
  descriptor with its handler into the bag or fails when it is full, and deleting takes one
  entry of the descriptor out or fails when there is none.\<close>

theorem fd_list_refines_bag:
  assumes "fd \<noteq> - 1" "length (fl_nodes type l) = FD_LIST_SIZE"
  shows "(if length (watched type l) = FD_LIST_SIZE then add_fd_list type fd h l = (- 1, l)
     else \<exists>l'. add_fd_list type fd h l = (0, l') \<and> length (fl_nodes type l') = FD_LIST_SIZE \<and>
            mset (watched type l') = add_mset (h, fd) (mset (watched type l))) \<and>
    (if fd \<notin> snd ` set (watched type l) then del_fd_list type fd l = (- 1, l)
     else \<exists>l' h'. del_fd_list type fd l = (0, l') \<and> length (fl_nodes type l') = FD_LIST_SIZE \<and>
            mset (watched type l) = add_mset (h', fd) (mset (watched type l')))"
  using add_fd_list_watched [OF assms, of h] del_fd_list_watched [OF assms] by (rule conjI)

theorem fd_list_refines_bag_witness:
  "\<exists>l'. add_fd_list FD_READ 5 (Some ()) (init_fd_list 200) = (0, l') \<and> mset (watched FD_READ l') = {# (Some (), 5) #}"
proof -
  have l: "length (fl_nodes FD_READ (init_fd_list 200 :: unit fd_list)) = FD_LIST_SIZE"
    by (simp add: fl_nodes_def init_fd_list_def)
  have w: "watched FD_READ (init_fd_list 200 :: unit fd_list) = []"
    by (simp add: watched_def fl_nodes_def init_fd_list_def reset_fd_node_def)
  show ?thesis using fd_list_refines_bag [OF _ l, of 5 "Some ()"] by (auto simp: w FD_LIST_SIZE_def)
qed

end
