(* ===== verification/Address_Map.thy ===== *)
theory Address_Map
  imports Prelude
begin

text \<open>
  The translation of guest addresses that both vhost programs do: a table of regions, each with a
  base, a size and the host address of its first byte, which is searched for the first region
  that contains the address. The two programs differ in what \<open>contains\<close> means at the end of a
  region, so the interface leaves it open, up to a distance \<open>gap\<close> that regions must keep.
  \<open>table_ok\<close> says that the search does not leave the table.
\<close>

type_synonym region = "u64 \<times> u64 \<times> u64"

text \<open>A region does not wrap around the end of the address space.\<close>

definition proper :: "u64 \<Rightarrow> u64 \<Rightarrow> bool" where
  "proper b n \<longleftrightarrow> unat b + unat n < 2 ^ 64"

text \<open>The second region ends at least \<open>gap\<close> bytes before the first one, or begins behind it.\<close>

definition apart :: "nat \<Rightarrow> u64 \<Rightarrow> u64 \<Rightarrow> u64 \<Rightarrow> u64 \<Rightarrow> bool" where
  "apart gap b n b' n' \<longleftrightarrow> unat b + unat n \<le> unat b' \<or> unat b' + unat n' + gap \<le> unat b"

lemma unat_add_proper: "proper b n \<Longrightarrow> unat (b + n) = unat b + unat n"
  by (simp add: proper_def unat_word_ariths)

lemma unat_add_of_nat: "proper b n \<Longrightarrow> k \<le> unat n \<Longrightarrow> unat (b + of_nat k) = unat b + k"
proof -
  assume p: "proper b n" and k: "k \<le> unat n"
  have "k < 2 ^ 64" using k p by (simp add: proper_def)
  then have "unat (of_nat k :: u64) = k" by (simp add: unsigned_of_nat take_bit_nat_eq_self)
  then show ?thesis using p k by (simp add: proper_def unat_word_ariths)
qed

locale address_map =
  fixes table_ok :: "'m \<Rightarrow> bool"
    and trans :: "'m \<Rightarrow> u64 \<Rightarrow> u64 option"
    and regions :: "'m \<Rightarrow> region list"
    and inside :: "u64 \<Rightarrow> u64 \<Rightarrow> u64 \<Rightarrow> bool"
    and gap :: nat
  assumes first_match:
      "table_ok m \<Longrightarrow> trans m a =
         Some (case find (\<lambda>(b, n, h). inside b n a) (regions m) of Some (b, n, h) \<Rightarrow> h + (a - b) | None \<Rightarrow> 0)"
    and inside_own: "proper b n \<Longrightarrow> k < unat n \<Longrightarrow> inside b n (b + of_nat k)"
    and inside_other: "proper b n \<Longrightarrow> proper b' n' \<Longrightarrow> apart gap b n b' n' \<Longrightarrow> k < unat n \<Longrightarrow>
      \<not> inside b' n' (b + of_nat k)"
begin

text \<open>Every byte of a region is translated to the same byte of its host mapping, when the other
  regions keep their distance.\<close>

lemma translates:
  assumes "table_ok m" "(b, n, h) \<in> set (regions m)" "proper b n" "k < unat n"
    and "\<And>b' n' h'. (b', n', h') \<in> set (regions m) \<Longrightarrow> (b', n', h') \<noteq> (b, n, h) \<Longrightarrow>
           proper b' n' \<and> apart gap b n b' n'"
  shows "trans m (b + of_nat k) = Some (h + of_nat k)"
proof (cases "find (\<lambda>(b', n', h'). inside b' n' (b + of_nat k)) (regions m)")
  case None
  then have "\<not> inside b n (b + of_nat k)" using assms(2) by (auto simp: find_None_iff)
  then show ?thesis using inside_own [OF assms(3,4)] by blast
next
  case (Some r)
  obtain b' n' h' where r: "r = (b', n', h')" by (cases r)
  have "r \<in> set (regions m)" "inside b' n' (b + of_nat k)"
    using Some r by (auto simp: find_Some_iff in_set_conv_nth)
  then have "r = (b, n, h)" using assms(5) inside_other [OF assms(3) _ _ assms(4)] r by blast
  then show ?thesis using Some by (simp add: first_match [OF assms(1)])
qed

lemma translates_two:
  assumes "table_ok m" "regions m = [(b, n, h), (b', n', h')]" "proper b n" "proper b' n'"
    and "apart gap b n b' n'" "apart gap b' n' b n"
  shows "k < unat n \<Longrightarrow> trans m (b + of_nat k) = Some (h + of_nat k)"
    and "k < unat n' \<Longrightarrow> trans m (b' + of_nat k) = Some (h' + of_nat k)"
proof -
  show "trans m (b + of_nat k) = Some (h + of_nat k)" if "k < unat n"
    by (rule translates [OF assms(1) _ assms(3) that]) (use assms in auto)
  show "trans m (b' + of_nat k) = Some (h' + of_nat k)" if "k < unat n'"
    by (rule translates [OF assms(1) _ assms(4) that]) (use assms in auto)
qed

text \<open>An address that no region contains is translated to 0.\<close>

lemma unmapped:
  assumes "table_ok m" "\<And>b n h. (b, n, h) \<in> set (regions m) \<Longrightarrow> \<not> inside b n a"
  shows "trans m a = Some 0"
proof -
  have "find (\<lambda>(b, n, h). inside b n a) (regions m) = None"
    using assms(2) by (auto simp: find_None_iff)
  then show ?thesis by (simp add: first_match [OF assms(1)])
qed

text \<open>What is translated lies in a region.\<close>

lemma translated_inside:
  assumes "table_ok m" "trans m a = Some x" "x \<noteq> 0"
  shows "\<exists>b n h. (b, n, h) \<in> set (regions m) \<and> inside b n a \<and> x = h + (a - b)"
proof -
  obtain r where r: "find (\<lambda>(b, n, h). inside b n a) (regions m) = Some r"
    using assms(2,3) first_match [OF assms(1), of a] by (cases "find (\<lambda>(b, n, h). inside b n a) (regions m)") auto
  then have "r \<in> set (regions m)" "case r of (b, n, h) \<Rightarrow> inside b n a"
    by (auto simp: find_Some_iff in_set_conv_nth)
  then show ?thesis using r assms(2) first_match [OF assms(1), of a] by (cases r) auto
qed

end

section \<open>The two meanings of the end of a region\<close>

definition inside_strict :: "u64 \<Rightarrow> u64 \<Rightarrow> u64 \<Rightarrow> bool" where
  "inside_strict b n a \<longleftrightarrow> b \<le> a \<and> a < b + n"

definition inside_closed :: "u64 \<Rightarrow> u64 \<Rightarrow> u64 \<Rightarrow> bool" where
  "inside_closed b n a \<longleftrightarrow> a \<le> b + n \<and> b \<le> a"

lemma inside_strict_own: "proper b n \<Longrightarrow> k < unat n \<Longrightarrow> inside_strict b n (b + of_nat k)"
  by (simp add: inside_strict_def word_le_nat_alt word_less_nat_alt unat_add_proper unat_add_of_nat)

lemma inside_closed_own: "proper b n \<Longrightarrow> k < unat n \<Longrightarrow> inside_closed b n (b + of_nat k)"
  by (simp add: inside_closed_def word_le_nat_alt word_less_nat_alt unat_add_proper unat_add_of_nat)

lemma inside_strict_other:
  "proper b n \<Longrightarrow> proper b' n' \<Longrightarrow> apart 0 b n b' n' \<Longrightarrow> k < unat n \<Longrightarrow> \<not> inside_strict b' n' (b + of_nat k)"
  by (auto simp: inside_strict_def word_le_nat_alt word_less_nat_alt unat_add_proper unat_add_of_nat apart_def)

lemma inside_closed_other:
  "proper b n \<Longrightarrow> proper b' n' \<Longrightarrow> apart 1 b n b' n' \<Longrightarrow> k < unat n \<Longrightarrow> \<not> inside_closed b' n' (b + of_nat k)"
  by (auto simp: inside_closed_def word_le_nat_alt word_less_nat_alt unat_add_proper unat_add_of_nat apart_def)

end
