(* ===== verification/Vhost_Server.thy ===== *)
theory Vhost_Server
  imports Vring Fd_List Address_Map
begin

text \<open>
  The vhost-user server of \<^verbatim>\<open>vring_test/vhost_server.c\<close> with the connection handling of
  \<^verbatim>\<open>vring_test/server.c\<close>, and the requests of \<^verbatim>\<open>vring_test/client.c\<close>. A failed assertion is
  \<open>None\<close>, like a crash. Outside are \<open>mmap\<close>, which maps a descriptor into the address space of
  the server, and the results of the system calls on sockets and event descriptors.
\<close>

section \<open>Messages\<close>

definition VHOST_MEMORY_MAX_NREGIONS :: nat where "VHOST_MEMORY_MAX_NREGIONS = 8"
definition VHOST_CLIENT_VRING_IDX_RX :: nat where "VHOST_CLIENT_VRING_IDX_RX = 0"
definition VHOST_CLIENT_VRING_IDX_TX :: nat where "VHOST_CLIENT_VRING_IDX_TX = 1"
definition VHOST_CLIENT_VRING_NUM :: nat where "VHOST_CLIENT_VRING_NUM = 2"
definition VHOST_USER_VERSION_MASK :: u32 where "VHOST_USER_VERSION_MASK = 0x3"
definition VHOST_USER_REPLY_MASK :: u32 where "VHOST_USER_REPLY_MASK = 0x4"
definition VHOST_USER_VERSION :: u32 where "VHOST_USER_VERSION = 0x1"
definition VHOST_USER_VRING_IDX_MASK :: u64 where "VHOST_USER_VRING_IDX_MASK = 0xff"
definition VHOST_USER_VRING_NOFD_MASK :: u64 where "VHOST_USER_VRING_NOFD_MASK = 0x100"

record memory_region =
  mr_guest_phys_addr :: u64
  mr_memory_size :: u64
  mr_userspace_addr :: u64
  mr_mmap_offset :: u64

record vhost_user_memory =
  um_nregions :: u32
  um_regions :: "memory_region list"

record vring_state =
  st_index :: u32
  st_num :: u32

record vring_addr =
  va_index :: u32
  va_flags :: u32
  va_desc_user_addr :: u64
  va_used_user_addr :: u64
  va_avail_user_addr :: u64
  va_log_guest_addr :: u64

text \<open>The union of the payloads; reading another member than the one that was written is not given
  a meaning.\<close>

datatype payload =
    U64 u64
  | State vring_state
  | Addr vring_addr
  | Memory vhost_user_memory

datatype vhost_request =
    VHOST_USER_NONE | VHOST_USER_GET_FEATURES | VHOST_USER_SET_FEATURES | VHOST_USER_SET_OWNER
  | VHOST_USER_RESET_OWNER | VHOST_USER_SET_MEM_TABLE | VHOST_USER_SET_LOG_BASE | VHOST_USER_SET_LOG_FD
  | VHOST_USER_SET_VRING_NUM | VHOST_USER_SET_VRING_ADDR | VHOST_USER_SET_VRING_BASE
  | VHOST_USER_GET_VRING_BASE | VHOST_USER_SET_VRING_KICK | VHOST_USER_SET_VRING_CALL
  | VHOST_USER_SET_VRING_ERR | VHOST_USER_MAX

text \<open>A message with the descriptors that came with it; the array \<open>fds\<close> has
  \<open>VHOST_MEMORY_MAX_NREGIONS\<close> elements, of which \<open>fd_num\<close> were received.\<close>

record server_msg =
  sg_request :: vhost_request
  sg_flags :: u32
  sg_size :: u32
  sg_payload :: payload
  sg_fd_num :: nat
  sg_fds :: "int list"

section \<open>State\<close>

record server_region =
  sr_guest_phys_addr :: u64
  sr_memory_size :: u64
  sr_userspace_addr :: u64
  sr_mmap_addr :: u64

record server_memory =
  sv_nregions :: u32
  sv_regions :: "server_region list"

datatype fd_handler = Kick_server | Receive_sock_server | Accept_sock_server

text \<open>\<open>vs_buffer\<close> is the used part of the private packet buffer, an array of \<open>BUFFER_SIZE\<close> bytes. \<open>vs_high\<close> is
  not in the code: it is the largest number of bytes that was ever copied into the array, so a copy beyond the end
  of the array is visible in the state.\<close>

record vhost_server =
  vs_memory :: server_memory
  vs_vring :: "Vring list"
  vs_is_polling :: bool
  vs_buffer :: bytes
  vs_high :: nat
  vs_fd_list :: "fd_handler fd_list"
  vs_shm :: shm

definition new_vhost_server :: "fd_handler fd_list \<Rightarrow> server_region list \<Rightarrow> shm \<Rightarrow> vhost_server" where
  "new_vhost_server fds regions sh =
     \<lparr>vs_memory = \<lparr>sv_nregions = 0, sv_regions = regions\<rparr>,
      vs_vring = replicate VHOST_CLIENT_VRING_NUM
        \<lparr>vr_kickfd = - 1, vr_callfd = - 1, vr_desc = 0, vr_avail = 0, vr_used = 0, vr_num = 0,
         vr_last_avail_idx = 0, vr_last_used_idx = 0\<rparr>,
      vs_is_polling = False, vs_buffer = [], vs_high = 0, vs_fd_list = fds, vs_shm = sh\<rparr>"

definition vring_at :: "nat \<Rightarrow> vhost_server \<Rightarrow> Vring option" where
  "vring_at i s = nth_opt (vs_vring s) i"

definition vring_upd :: "nat \<Rightarrow> (Vring \<Rightarrow> Vring) \<Rightarrow> vhost_server \<Rightarrow> vhost_server" where
  "vring_upd i f s = s\<lparr>vs_vring := (vs_vring s)[i := f (vs_vring s ! i)]\<rparr>"

section \<open>Address translation\<close>

text \<open>The first region that contains the address, with 64-bit arithmetic; 0 when there is none.\<close>

fun map_loop :: "(server_region \<Rightarrow> u64) \<Rightarrow> server_region list \<Rightarrow> u64 \<Rightarrow> u64" where
  "map_loop base [] a = 0"
| "map_loop base (r # rs) a =
     (if base r \<le> a \<and> a < base r + sr_memory_size r then sr_mmap_addr r + a - base r
      else map_loop base rs a)"

definition map_guest_addr :: "server_memory \<Rightarrow> u64 \<Rightarrow> u64" where
  "map_guest_addr m a = map_loop sr_guest_phys_addr (take (unat (sv_nregions m)) (sv_regions m)) a"

definition map_user_addr :: "server_memory \<Rightarrow> u64 \<Rightarrow> u64" where
  "map_user_addr m a = map_loop sr_userspace_addr (take (unat (sv_nregions m)) (sv_regions m)) a"

text \<open>Both translations are first-match searches with half-open regions.\<close>

definition guest_regions :: "server_memory \<Rightarrow> region list" where
  "guest_regions m =
     map (\<lambda>r. (sr_guest_phys_addr r, sr_memory_size r, sr_mmap_addr r)) (take (unat (sv_nregions m)) (sv_regions m))"

definition user_regions :: "server_memory \<Rightarrow> region list" where
  "user_regions m =
     map (\<lambda>r. (sr_userspace_addr r, sr_memory_size r, sr_mmap_addr r)) (take (unat (sv_nregions m)) (sv_regions m))"

lemma map_loop_first_match:
  "map_loop base rs a =
     (case find (\<lambda>(b, n, h). inside_strict b n a) (map (\<lambda>r. (base r, sr_memory_size r, sr_mmap_addr r)) rs) of
        Some (b, n, h) \<Rightarrow> h + (a - b) | None \<Rightarrow> 0)"
  by (induction rs) (auto simp: inside_strict_def)

interpretation guest: address_map "\<lambda>_. True" "\<lambda>m a. Some (map_guest_addr m a)" guest_regions inside_strict 0
  by unfold_locales
    (simp_all add: map_guest_addr_def guest_regions_def map_loop_first_match inside_strict_own inside_strict_other)

interpretation user: address_map "\<lambda>_. True" "\<lambda>m a. Some (map_user_addr m a)" user_regions inside_strict 0
  by unfold_locales
    (simp_all add: map_user_addr_def user_regions_def map_loop_first_match inside_strict_own inside_strict_other)

section \<open>The handlers\<close>

text \<open>A handler returns 1 when the message is to be sent back.\<close>

type_synonym handler_result = "(int \<times> server_msg \<times> vhost_server) option"

definition get_features :: "server_msg \<Rightarrow> vhost_server \<Rightarrow> handler_result" where
  "get_features msg s = Some (1, msg\<lparr>sg_payload := U64 0, sg_size := 8\<rparr>, s)"

text \<open>\<open>_set_features\<close>, \<open>_set_owner\<close>, \<open>_reset_owner\<close>, \<open>_set_log_base\<close>, \<open>_set_log_fd\<close>, \<open>_set_vring_err\<close>.\<close>

definition no_effect :: "server_msg \<Rightarrow> vhost_server \<Rightarrow> handler_result" where
  "no_effect msg s = Some (0, msg, s)"

fun mem_table_loop ::
  "(int \<Rightarrow> u64 \<Rightarrow> u64) \<Rightarrow> server_msg \<Rightarrow> vhost_user_memory \<Rightarrow> nat \<Rightarrow> nat \<Rightarrow> server_memory \<Rightarrow> server_memory option" where
  "mem_table_loop mmap msg m idx 0 sm = Some sm"
| "mem_table_loop mmap msg m idx (Suc n) sm =
     do { fd \<leftarrow> nth_opt (sg_fds msg) idx;
          sm \<leftarrow> (if fd > 0 then
                  do { r \<leftarrow> nth_opt (um_regions m) idx;
                       regions \<leftarrow> upd_opt (sv_regions sm) idx
                         \<lparr>sr_guest_phys_addr = mr_guest_phys_addr r, sr_memory_size = mr_memory_size r,
                          sr_userspace_addr = mr_userspace_addr r,
                          sr_mmap_addr = mmap fd (mr_memory_size r) + mr_mmap_offset r\<rparr>;
                       if idx < sg_fd_num msg
                       then Some (sm\<lparr>sv_regions := regions, sv_nregions := sv_nregions sm + 1\<rparr>) else None }
                else Some sm);
          mem_table_loop mmap msg m (idx + 1) n sm }"

definition set_mem_table :: "(int \<Rightarrow> u64 \<Rightarrow> u64) \<Rightarrow> server_msg \<Rightarrow> vhost_server \<Rightarrow> handler_result" where
  "set_mem_table mmap msg s =
     (case sg_payload msg of
        Memory m \<Rightarrow>
          do { sm \<leftarrow> mem_table_loop mmap msg m 0 (unat (um_nregions m)) ((vs_memory s)\<lparr>sv_nregions := 0\<rparr>);
               Some (0, msg, s\<lparr>vs_memory := sm\<rparr>) }
      | _ \<Rightarrow> None)"

definition set_vring_num :: "server_msg \<Rightarrow> vhost_server \<Rightarrow> handler_result" where
  "set_vring_num msg s =
     (case sg_payload msg of
        State st \<Rightarrow>
          if unat (st_index st) < VHOST_CLIENT_VRING_NUM
          then Some (0, msg, vring_upd (unat (st_index st)) (\<lambda>v. v\<lparr>vr_num := st_num st\<rparr>) s) else None
      | _ \<Rightarrow> None)"

definition set_vring_addr :: "server_msg \<Rightarrow> vhost_server \<Rightarrow> handler_result" where
  "set_vring_addr msg s =
     (case sg_payload msg of
        Addr a \<Rightarrow>
          if unat (va_index a) < VHOST_CLIENT_VRING_NUM then
            do { let desc = unat (map_user_addr (vs_memory s) (va_desc_user_addr a));
                 let avail = unat (map_user_addr (vs_memory s) (va_avail_user_addr a));
                 let used = unat (map_user_addr (vs_memory s) (va_used_user_addr a));
                 u \<leftarrow> sm_used (vs_shm s) used;
                 Some (0, msg, vring_upd (unat (va_index a))
                   (\<lambda>v. v\<lparr>vr_desc := desc, vr_avail := avail, vr_used := used, vr_last_used_idx := us_idx u\<rparr>) s) }
          else None
      | _ \<Rightarrow> None)"

definition set_vring_base :: "server_msg \<Rightarrow> vhost_server \<Rightarrow> handler_result" where
  "set_vring_base msg s =
     (case sg_payload msg of
        State st \<Rightarrow>
          if unat (st_index st) < VHOST_CLIENT_VRING_NUM
          then Some (0, msg, vring_upd (unat (st_index st)) (\<lambda>v. v\<lparr>vr_last_avail_idx := ucast (st_num st)\<rparr>) s)
          else None
      | _ \<Rightarrow> None)"

definition get_vring_base :: "server_msg \<Rightarrow> vhost_server \<Rightarrow> handler_result" where
  "get_vring_base msg s =
     (case sg_payload msg of
        State st \<Rightarrow>
          if unat (st_index st) < VHOST_CLIENT_VRING_NUM then
            do { v \<leftarrow> vring_at (unat (st_index st)) s;
                 Some (1, msg\<lparr>sg_payload := State (st\<lparr>st_num := ucast (vr_last_avail_idx v)\<rparr>), sg_size := 8\<rparr>, s) }
          else None
      | _ \<Rightarrow> None)"

definition set_vring_kick :: "server_msg \<Rightarrow> vhost_server \<Rightarrow> handler_result" where
  "set_vring_kick msg s =
     (case sg_payload msg of
        U64 u \<Rightarrow>
          do { let idx = unat (u AND VHOST_USER_VRING_IDX_MASK);
               let validfd = (u AND VHOST_USER_VRING_NOFD_MASK = 0);
               if idx < VHOST_CLIENT_VRING_NUM then
                 if validfd then
                   if sg_fd_num msg = 1 then
                     do { fd \<leftarrow> nth_opt (sg_fds msg) 0;
                          let s = vring_upd idx (\<lambda>v. v\<lparr>vr_kickfd := fd\<rparr>) s;
                          let s = (if idx = VHOST_CLIENT_VRING_IDX_TX
                                   then s\<lparr>vs_fd_list := snd (add_fd_list FD_READ fd (Some Kick_server) (vs_fd_list s))\<rparr>
                                   else s);
                          Some (0, msg, s\<lparr>vs_is_polling := False\<rparr>) }
                   else None
                 else Some (0, msg, s\<lparr>vs_is_polling := True\<rparr>)
               else None }
      | _ \<Rightarrow> None)"

definition set_vring_call :: "server_msg \<Rightarrow> vhost_server \<Rightarrow> handler_result" where
  "set_vring_call msg s =
     (case sg_payload msg of
        U64 u \<Rightarrow>
          do { let idx = unat (u AND VHOST_USER_VRING_IDX_MASK);
               let validfd = (u AND VHOST_USER_VRING_NOFD_MASK = 0);
               if idx < VHOST_CLIENT_VRING_NUM then
                 if validfd then
                   if sg_fd_num msg = 1 then
                     do { fd \<leftarrow> nth_opt (sg_fds msg) 0;
                          Some (0, msg, vring_upd idx (\<lambda>v. v\<lparr>vr_callfd := fd\<rparr>) s) }
                   else None
                 else Some (0, msg, s)
               else None }
      | _ \<Rightarrow> None)"

definition in_msg_server :: "(int \<Rightarrow> u64 \<Rightarrow> u64) \<Rightarrow> server_msg \<Rightarrow> vhost_server \<Rightarrow> handler_result" where
  "in_msg_server mmap msg s =
     (case sg_request msg of
        VHOST_USER_NONE \<Rightarrow> None
      | VHOST_USER_GET_FEATURES \<Rightarrow> get_features msg s
      | VHOST_USER_SET_FEATURES \<Rightarrow> no_effect msg s
      | VHOST_USER_SET_OWNER \<Rightarrow> no_effect msg s
      | VHOST_USER_RESET_OWNER \<Rightarrow> no_effect msg s
      | VHOST_USER_SET_MEM_TABLE \<Rightarrow> set_mem_table mmap msg s
      | VHOST_USER_SET_LOG_BASE \<Rightarrow> no_effect msg s
      | VHOST_USER_SET_LOG_FD \<Rightarrow> no_effect msg s
      | VHOST_USER_SET_VRING_NUM \<Rightarrow> set_vring_num msg s
      | VHOST_USER_SET_VRING_ADDR \<Rightarrow> set_vring_addr msg s
      | VHOST_USER_SET_VRING_BASE \<Rightarrow> set_vring_base msg s
      | VHOST_USER_GET_VRING_BASE \<Rightarrow> get_vring_base msg s
      | VHOST_USER_SET_VRING_KICK \<Rightarrow> set_vring_kick msg s
      | VHOST_USER_SET_VRING_CALL \<Rightarrow> set_vring_call msg s
      | VHOST_USER_SET_VRING_ERR \<Rightarrow> no_effect msg s
      | VHOST_USER_MAX \<Rightarrow> None)"

section \<open>Packets\<close>

text \<open>The size is not checked; a copy of a huge number of bytes is a crash.\<close>

definition avail_handler_server :: "bytes option \<Rightarrow> bytes \<times> nat \<Rightarrow> (bytes \<times> nat) option" where
  "avail_handler_server p ctx = map_option (\<lambda>p. (p, max (snd ctx) (length p))) p"

definition poll_avail_vring :: "nat \<Rightarrow> vhost_server \<Rightarrow> vhost_server option" where
  "poll_avail_vring idx s =
     do { v \<leftarrow> vring_at idx s;
          if vr_desc v \<noteq> 0 then
            do { (_, v, sh, buffer, high) \<leftarrow> process_avail_vring (Some (map_guest_addr (vs_memory s)))
                   (Some avail_handler_server) v (vs_shm s, vs_buffer s, vs_high s);
                 Some (s\<lparr>vs_vring := (vs_vring s)[idx := v], vs_shm := sh, vs_buffer := buffer, vs_high := high\<rparr>) }
          else Some s }"

text \<open>\<open>r\<close> is the result of reading the event descriptor.\<close>

definition kick_server :: "int \<Rightarrow> int \<Rightarrow> vhost_server \<Rightarrow> vhost_server option" where
  "kick_server r kickfd s =
     (if r < 0 then Some s
      else if r = 0 then Some (s\<lparr>vs_fd_list := snd (del_fd_list FD_READ kickfd (vs_fd_list s))\<rparr>)
      else poll_avail_vring VHOST_CLIENT_VRING_IDX_TX s)"

text \<open>The result says whether the client was signalled.\<close>

definition poll_server :: "vhost_server \<Rightarrow> (bool \<times> vhost_server) option" where
  "poll_server s =
     do { rx \<leftarrow> vring_at VHOST_CLIENT_VRING_IDX_RX s;
          if vr_desc rx \<noteq> 0 then
            do { s \<leftarrow> (if vs_is_polling s then poll_avail_vring VHOST_CLIENT_VRING_IDX_TX s else Some s);
                 if vs_buffer s \<noteq> [] then
                   do { rx \<leftarrow> vring_at VHOST_CLIENT_VRING_IDX_RX s;
                        (_, rx, sh) \<leftarrow> put_vring (Some (map_guest_addr (vs_memory s))) rx (vs_buffer s) (vs_shm s);
                        Some (True, s\<lparr>vs_vring := (vs_vring s)[VHOST_CLIENT_VRING_IDX_RX := rx],
                                     vs_shm := sh, vs_buffer := []\<rparr>) }
                 else Some (False, s) }
          else Some (False, s) }"

section \<open>Connections\<close>

datatype sock_status = ServerSockInit | ServerSockAccept | ServerSockDone | ServerSockError

text \<open>\<open>r\<close> and \<open>msg\<close> are what \<open>vhost_user_recv_fds\<close> delivers. The result has the reply to send;
  \<open>sent\<close> says whether sending succeeds.\<close>

definition receive_sock_server ::
  "(int \<Rightarrow> u64 \<Rightarrow> u64) \<Rightarrow> int \<Rightarrow> server_msg \<Rightarrow> bool \<Rightarrow> int \<Rightarrow> vhost_server \<Rightarrow>
     (sock_status \<times> server_msg option \<times> vhost_server) option" where
  "receive_sock_server mmap r msg sent sock s =
     (if r < 0 then Some (ServerSockError, None, s)
      else if r = 0 then
        Some (ServerSockDone, None, s\<lparr>vs_fd_list := snd (del_fd_list FD_READ sock (vs_fd_list s))\<rparr>)
      else
        do { (r, msg, s) \<leftarrow> in_msg_server mmap msg s;
             if r < 0 then Some (ServerSockError, None, s)
             else if r > 0 then
               (let flags = sg_flags msg AND NOT VHOST_USER_VERSION_MASK;
                    flags = flags OR VHOST_USER_VERSION;
                    flags = flags OR VHOST_USER_REPLY_MASK
                in Some (if sent then ServerSockAccept else ServerSockError, Some (msg\<lparr>sg_flags := flags\<rparr>), s))
             else Some (ServerSockAccept, None, s) })"

text \<open>\<open>sock\<close> is the result of \<open>accept\<close>, which is -1 on failure.\<close>

definition accept_sock_server :: "int \<Rightarrow> vhost_server \<Rightarrow> sock_status \<times> vhost_server" where
  "accept_sock_server sock s =
     (if sock = - 1 then ServerSockInit else ServerSockAccept,
      s\<lparr>vs_fd_list := snd (add_fd_list FD_READ sock (Some Receive_sock_server) (vs_fd_list s))\<rparr>)"

end
