(* ===== verification/Vhost_Client.thy ===== *)
theory Vhost_Client
  imports Vhost_Server
begin

text \<open>
  The client side of the vhost-user protocol: the requests of \<^verbatim>\<open>vring_test/client.c\<close>, the set-up of
  the rings in \<^verbatim>\<open>vring.c\<close>, and the start and the polling of \<^verbatim>\<open>vhost_client.c\<close>. The connection is an
  argument: it takes a message and the state of the other side to the result of sending, the
  reply if there is one, and the new state.
\<close>

type_synonym 's channel = "server_msg \<Rightarrow> 's \<Rightarrow> (int \<times> server_msg option \<times> 's) option"

datatype ioctl_arg =
    Arg_none | Arg_u64 u64 | Arg_state vring_state | Arg_addr vring_addr | Arg_memory vhost_user_memory
  | Arg_fd int | Arg_file u32 int

text \<open>The payload, its size and the descriptors of a request; \<open>None\<close> for a request that is refused.
  An argument of the wrong type is not given a meaning. The payload of a request without an
  argument is zero.\<close>

definition ioctl_msg :: "int list \<Rightarrow> vhost_request \<Rightarrow> ioctl_arg \<Rightarrow> (payload \<times> u32 \<times> int list) option option" where
  "ioctl_msg shm_fds request arg =
     (case request of
        VHOST_USER_GET_FEATURES \<Rightarrow> Some (Some (U64 0, 0, []))
      | VHOST_USER_GET_VRING_BASE \<Rightarrow> Some (Some (State \<lparr>st_index = 0, st_num = 0\<rparr>, 0, []))
      | VHOST_USER_SET_FEATURES \<Rightarrow> (case arg of Arg_u64 u \<Rightarrow> Some (Some (U64 u, 8, [])) | _ \<Rightarrow> None)
      | VHOST_USER_SET_LOG_BASE \<Rightarrow> (case arg of Arg_u64 u \<Rightarrow> Some (Some (U64 u, 8, [])) | _ \<Rightarrow> None)
      | VHOST_USER_SET_OWNER \<Rightarrow> Some (Some (U64 0, 0, []))
      | VHOST_USER_RESET_OWNER \<Rightarrow> Some (Some (U64 0, 0, []))
      | VHOST_USER_SET_MEM_TABLE \<Rightarrow>
          (case arg of
             Arg_memory m \<Rightarrow>
               if unat (um_nregions m) \<le> VHOST_MEMORY_MAX_NREGIONS \<and> unat (um_nregions m) \<le> length shm_fds
               then Some (Some (Memory m, 8 + 32 * um_nregions m, take (unat (um_nregions m)) shm_fds))
               else None
           | _ \<Rightarrow> None)
      | VHOST_USER_SET_LOG_FD \<Rightarrow> (case arg of Arg_fd fd \<Rightarrow> Some (Some (U64 0, 0, [fd])) | _ \<Rightarrow> None)
      | VHOST_USER_SET_VRING_NUM \<Rightarrow> (case arg of Arg_state st \<Rightarrow> Some (Some (State st, 8, [])) | _ \<Rightarrow> None)
      | VHOST_USER_SET_VRING_BASE \<Rightarrow> (case arg of Arg_state st \<Rightarrow> Some (Some (State st, 8, [])) | _ \<Rightarrow> None)
      | VHOST_USER_SET_VRING_ADDR \<Rightarrow> (case arg of Arg_addr a \<Rightarrow> Some (Some (Addr a, 40, [])) | _ \<Rightarrow> None)
      | VHOST_USER_SET_VRING_KICK \<Rightarrow>
          (case arg of Arg_file i fd \<Rightarrow> Some (Some (U64 (ucast i), 8, if fd > 0 then [fd] else [])) | _ \<Rightarrow> None)
      | VHOST_USER_SET_VRING_CALL \<Rightarrow>
          (case arg of Arg_file i fd \<Rightarrow> Some (Some (U64 (ucast i), 8, if fd > 0 then [fd] else [])) | _ \<Rightarrow> None)
      | VHOST_USER_SET_VRING_ERR \<Rightarrow>
          (case arg of Arg_file i fd \<Rightarrow> Some (Some (U64 (ucast i), 8, if fd > 0 then [fd] else [])) | _ \<Rightarrow> None)
      | VHOST_USER_NONE \<Rightarrow> Some (Some (U64 0, 0, []))
      | VHOST_USER_MAX \<Rightarrow> Some None)"

text \<open>The second component is what a reply stores through the argument.\<close>

definition vhost_ioctl ::
  "'s channel \<Rightarrow> int list \<Rightarrow> vhost_request \<Rightarrow> ioctl_arg \<Rightarrow> 's \<Rightarrow> (int \<times> payload option \<times> 's) option" where
  "vhost_ioctl chan shm_fds request arg s =
     do { m \<leftarrow> ioctl_msg shm_fds request arg;
          case m of
            None \<Rightarrow> Some (- 1, None, s)
          | Some (payload, sz, fds) \<Rightarrow>
              do { (r, reply, s) \<leftarrow> chan \<lparr>sg_request = request, sg_flags = VHOST_USER_VERSION, sg_size = sz,
                                         sg_payload = payload, sg_fd_num = length fds, sg_fds = fds\<rparr> s;
                   if r < 0 then Some (- 1, None, s)
                   else if request \<in> {VHOST_USER_GET_FEATURES, VHOST_USER_GET_VRING_BASE} then
                     do { msg \<leftarrow> reply;
                          if sg_request msg = request \<and>
                             sg_flags msg AND VHOST_USER_VERSION_MASK = VHOST_USER_VERSION
                          then Some (0, Some (sg_payload msg), s) else None }
                   else Some (0, None, s) } }"

text \<open>The requests are made in turn until one fails.\<close>

fun ioctls :: "'s channel \<Rightarrow> int list \<Rightarrow> (vhost_request \<times> ioctl_arg) list \<Rightarrow> 's \<Rightarrow> (int \<times> 's) option" where
  "ioctls chan shm_fds [] s = Some (0, s)"
| "ioctls chan shm_fds ((request, arg) # rs) s =
     do { (r, _, s) \<leftarrow> vhost_ioctl chan shm_fds request arg s;
          if r \<noteq> 0 then Some (- 1, s) else ioctls chan shm_fds rs s }"

text \<open>The ring at \<open>base\<close> is announced to the server; \<open>kickfd\<close> and \<open>callfd\<close> are what the two calls of \<open>eventfd\<close>
  return. \<open>fds\<close> are the open descriptors of the client, to which they are added.\<close>

definition set_host_vring ::
  "'s channel \<Rightarrow> int list \<Rightarrow> nat \<Rightarrow> int \<times> int \<Rightarrow> u32 \<Rightarrow> int set \<times> 's \<Rightarrow> (int \<times> int set \<times> 's) option" where
  "set_host_vring chan shm_fds base efds index fs =
     do { let (kickfd, callfd) = efds;
          let (fds, s) = fs;
          if kickfd \<ge> 0 \<and> callfd \<ge> 0 then do {
            (r, s) \<leftarrow> ioctls chan shm_fds
              [(VHOST_USER_SET_VRING_NUM, Arg_state \<lparr>st_index = index, st_num = of_nat VHOST_VRING_SIZE\<rparr>),
               (VHOST_USER_SET_VRING_BASE, Arg_state \<lparr>st_index = index, st_num = 0\<rparr>),
               (VHOST_USER_SET_VRING_KICK, Arg_file index kickfd),
               (VHOST_USER_SET_VRING_CALL, Arg_file index callfd),
               (VHOST_USER_SET_VRING_ADDR, Arg_addr
                  \<lparr>va_index = index, va_flags = 0, va_desc_user_addr = of_nat (base + desc_offset),
                   va_used_user_addr = of_nat (base + used_offset),
                   va_avail_user_addr = of_nat (base + avail_offset), va_log_guest_addr = 0\<rparr>)] s;
            Some (r, fds \<union> {kickfd, callfd}, s) }
          else None }"

fun set_host_vring_table ::
  "'s channel \<Rightarrow> int list \<Rightarrow> (nat \<times> int \<times> int) list \<Rightarrow> u32 \<Rightarrow> int set \<times> 's \<Rightarrow> (int \<times> int set \<times> 's) option" where
  "set_host_vring_table chan shm_fds [] i fs = Some (0, fs)"
| "set_host_vring_table chan shm_fds ((base, efds) # rs) i fs =
     do { (r, fs) \<leftarrow> set_host_vring chan shm_fds base efds i fs;
          if r \<noteq> 0 then Some (- 1, fs) else set_host_vring_table chan shm_fds rs (i + 1) fs }"

section \<open>The client\<close>

record vhost_client =
  vc_memory :: vhost_user_memory
  vc_vring :: "Vring list"
  vc_features :: u64
  vc_fd_list :: "unit fd_list"
  vc_shm :: shm

text \<open>\<open>rings\<close> are the addresses of the shared ring structures with the event descriptors that the system gives
  for them, \<open>fds\<close> the open descriptors of the client. The results of the requests are ignored.\<close>

definition client_vring :: "nat \<times> int \<times> int \<Rightarrow> Vring" where
  "client_vring r =
     (let (base, kickfd, callfd) = r
      in \<lparr>vr_kickfd = kickfd, vr_callfd = callfd, vr_desc = base + desc_offset, vr_avail = base + avail_offset,
          vr_used = base + used_offset, vr_num = of_nat VHOST_VRING_SIZE,
          vr_last_avail_idx = 0, vr_last_used_idx = 0\<rparr>)"

definition init_vhost_client ::
  "'s channel \<Rightarrow> int list \<Rightarrow> (nat \<times> int \<times> int) list \<Rightarrow> vhost_client \<Rightarrow> int set \<times> 's \<Rightarrow> (vhost_client \<times> int set \<times> 's) option" where
  "init_vhost_client chan shm_fds rings c fs =
     do { let (fds, s) = fs;
          (_, _, s) \<leftarrow> vhost_ioctl chan shm_fds VHOST_USER_SET_OWNER Arg_none s;
          (_, reply, s) \<leftarrow> vhost_ioctl chan shm_fds VHOST_USER_GET_FEATURES Arg_none s;
          let c = (case reply of Some (U64 f) \<Rightarrow> c\<lparr>vc_features := f\<rparr> | _ \<Rightarrow> c);
          (_, _, s) \<leftarrow> vhost_ioctl chan shm_fds VHOST_USER_SET_MEM_TABLE (Arg_memory (vc_memory c)) s;
          (_, fds, s) \<leftarrow> set_host_vring_table chan shm_fds rings 0 (fds, s);
          let c = c\<lparr>vc_vring := map client_vring rings\<rparr>;
          rx \<leftarrow> nth_opt (vc_vring c) VHOST_CLIENT_VRING_IDX_RX;
          Some (c\<lparr>vc_fd_list := snd (add_fd_list FD_READ (vr_kickfd rx) (Some ()) (vc_fd_list c))\<rparr>, fds, s) }"

text \<open>The result says whether the server was signalled.\<close>

definition send_packet :: "bytes \<Rightarrow> vhost_client \<Rightarrow> (int \<times> bool \<times> vhost_client) option" where
  "send_packet p c =
     do { tx \<leftarrow> nth_opt (vc_vring c) VHOST_CLIENT_VRING_IDX_TX;
          (r, tx, sh) \<leftarrow> put_vring None tx p (vc_shm c);
          let c = c\<lparr>vc_vring := (vc_vring c)[VHOST_CLIENT_VRING_IDX_TX := tx], vc_shm := sh\<rparr>;
          if r \<noteq> 0 then Some (- 1, False, c) else Some (0, True, c) }"

definition kick_client :: "int \<Rightarrow> int \<Rightarrow> vhost_client \<Rightarrow> vhost_client option" where
  "kick_client r kickfd c =
     (if r < 0 then Some c
      else if r = 0 then Some (c\<lparr>vc_fd_list := snd (del_fd_list FD_READ kickfd (vc_fd_list c))\<rparr>)
      else
        do { rx \<leftarrow> nth_opt (vc_vring c) VHOST_CLIENT_VRING_IDX_RX;
             (_, rx, sh, _) \<leftarrow> process_avail_vring None (Some (\<lambda>_. Some)) rx (vc_shm c, ());
             Some (c\<lparr>vc_vring := (vc_vring c)[VHOST_CLIENT_VRING_IDX_RX := rx], vc_shm := sh\<rparr>) })"

definition poll_client :: "bytes \<Rightarrow> vhost_client \<Rightarrow> (int \<times> bool \<times> vhost_client) option" where
  "poll_client test_message c =
     do { tx \<leftarrow> nth_opt (vc_vring c) VHOST_CLIENT_VRING_IDX_TX;
          (tx, sh) \<leftarrow> process_used_vring tx (vc_shm c);
          let c = c\<lparr>vc_vring := (vc_vring c)[VHOST_CLIENT_VRING_IDX_TX := tx], vc_shm := sh\<rparr>;
          (r, kicked, c) \<leftarrow> send_packet test_message c;
          if r \<noteq> 0 then Some (- 1, kicked, c) else Some (0, kicked, c) }"

section \<open>The connection to the server\<close>

text \<open>The elements of the array of descriptors behind the received ones are not initialised.\<close>

definition server_channel :: "(int \<Rightarrow> u64 \<Rightarrow> u64) \<Rightarrow> int list \<Rightarrow> int \<Rightarrow> vhost_server channel" where
  "server_channel mmap pad sock msg s =
     do { (_, reply, s) \<leftarrow> receive_sock_server mmap 1 (msg\<lparr>sg_fds := sg_fds msg @ pad\<rparr>) True sock s;
          Some (1, reply, s) }"

end
