(* ===== verification/Vring_Correct.thy ===== *)
theory Vring_Correct
  imports Vring
begin

text \<open>
  Correctness of the virtio ring: the driver's descriptors form a free list, a packet that the
  driver puts is what the device hands to its handler, the device consumes everything that is
  available, and when the driver's walk over the used ring ends.
\<close>

section \<open>Memory\<close>

lemma mem_wr_apply:
  assumes "mem_wr a bs mem = Some mem'"
  shows "mem' x = (if a \<le> x \<and> x < a + length bs then Some (bs ! (x - a)) else mem x)"
    and "a \<le> x \<Longrightarrow> x < a + length bs \<Longrightarrow> mem x \<noteq> None"
proof -
  have d: "\<forall>i<length bs. mem (a + i) \<noteq> None"
    using assms unfolding mem_wr_def by (metis option.distinct(1))
  then show "mem' x = (if a \<le> x \<and> x < a + length bs then Some (bs ! (x - a)) else mem x)"
    using assms by (auto simp: mem_wr_def)
  show "mem x \<noteq> None" if "a \<le> x" "x < a + length bs"
    using d [rule_format, of "x - a"] that by simp
qed

lemma mem_wr_length:
  assumes "mem_wr a bs mem = Some mem'"
  shows "mem' x = None \<longleftrightarrow> mem x = None"
  using mem_wr_apply [OF assms, of x] by (cases "a \<le> x \<and> x < a + length bs") auto

lemma mem_rd_wr:
  assumes "mem_wr a bs mem = Some mem'"
  shows "mem_rd a (length bs) mem' = Some bs"
proof -
  have "mem' (a + i) = Some (bs ! i)" if "i < length bs" for i
    using mem_wr_apply(1) [OF assms, of "a + i"] that by simp
  then have "\<forall>i<length bs. mem' (a + i) \<noteq> None" and "map (\<lambda>i. the (mem' (a + i))) [0..<length bs] = bs"
    by (simp, intro nth_equalityI) simp_all
  then show ?thesis unfolding mem_rd_def by (subst if_P) (assumption, rule arg_cong [of _ _ Some])
qed

lemma mem_rd_append:
  "mem_rd a n mem = Some xs \<Longrightarrow> mem_rd (a + n) k mem = Some ys \<Longrightarrow> mem_rd a (n + k) mem = Some (xs @ ys)"
proof -
  assume xs: "mem_rd a n mem = Some xs" and ys: "mem_rd (a + n) k mem = Some ys"
  then have d: "\<forall>i<n. mem (a + i) \<noteq> None" "\<forall>i<k. mem (a + n + i) \<noteq> None"
    and e: "xs = map (\<lambda>i. the (mem (a + i))) [0..<n]" "ys = map (\<lambda>i. the (mem (a + n + i))) [0..<k]"
    by (auto simp: mem_rd_def split: if_splits)
  have "\<forall>i<n + k. mem (a + i) \<noteq> None"
  proof (intro allI impI)
    fix i assume "i < n + k"
    then show "mem (a + i) \<noteq> None"
      using d(1) d(2)[rule_format, of "i - n"] by (cases "i < n") (simp_all add: add.assoc)
  qed
  moreover have "map (\<lambda>i. the (mem (a + i))) [0..<n + k] = xs @ ys"
  proof (rule nth_equalityI)
    fix i assume "i < length (map (\<lambda>i. the (mem (a + i))) [0..<n + k])"
    then have i: "i < n + k" by simp
    show "map (\<lambda>i. the (mem (a + i))) [0..<n + k] ! i = (xs @ ys) ! i"
    proof (cases "i < n")
      case False
      then have "i - n < k" using i by simp
      with False i show ?thesis by (simp add: e nth_append del: upt_Suc)
    qed (use i in \<open>simp add: e nth_append\<close>)
  qed (simp add: e)
  ultimately show ?thesis by (simp add: mem_rd_def)
qed

lemma mem_rd_frame:
  assumes "mem_wr b bs mem = Some mem'" "a + n \<le> b \<or> b + length bs \<le> a"
  shows "mem_rd a n mem' = mem_rd a n mem"
proof -
  have "mem' (a + i) = mem (a + i)" if "i < n" for i
    using mem_wr_apply(1) [OF assms(1), of "a + i"] assms(2) that by auto
  then show ?thesis by (simp add: mem_rd_def cong: map_cong)
qed

lemma mem_wr_fits: "\<forall>i<length bs. mem (a + i) \<noteq> None \<Longrightarrow> \<exists>mem'. mem_wr a bs mem = Some mem'"
  by (simp add: mem_wr_def)

lemma length_mem_rd: "mem_rd a n mem = Some bs \<Longrightarrow> length bs = n"
  by (auto simp: mem_rd_def split: if_splits)

section \<open>The free list\<close>

fun free_list :: "vring_desc list \<Rightarrow> u16 \<Rightarrow> nat list \<Rightarrow> bool" where
  "free_list desc i [] = (i = VRING_IDX_NONE)"
| "free_list desc i (x # xs) = (unat i = x \<and> x < length desc \<and> x \<noteq> 65535 \<and> free_list desc (d_next (desc ! x)) xs)"

lemma free_list_frame:
  "x \<notin> set xs \<Longrightarrow> free_list (desc[x := d]) i xs = free_list desc i xs"
  by (induction xs arbitrary: i) auto

text \<open>The state of a driver: its view, the tables, and the free descriptors in order.\<close>

definition driver :: "Vring \<Rightarrow> shm \<Rightarrow> vring_desc list \<Rightarrow> vring_avail \<Rightarrow> nat list \<Rightarrow> bool" where
  "driver v sh desc avail free \<longleftrightarrow>
     sm_desc sh (vr_desc v) = Some desc \<and> sm_avail sh (vr_avail v) = Some avail \<and>
     length desc \<le> 65535 \<and> 0 < unat (vr_num v) \<and> unat (vr_num v) \<le> length (av_ring avail) \<and>
     free_list desc (vr_last_avail_idx v) free \<and> distinct free"

text \<open>The buffer of a descriptor.\<close>

definition owns :: "(u64 \<Rightarrow> u64) option \<Rightarrow> shm \<Rightarrow> vring_desc \<Rightarrow> nat \<Rightarrow> bool" where
  "owns mh sh d n \<longleftrightarrow> (\<forall>i<n. sm_mem sh (map_addr mh (d_addr d) + i) \<noteq> None)"

definition put_desc :: "vring_desc \<Rightarrow> nat \<Rightarrow> vring_desc" where
  "put_desc d n = d\<lparr>d_len := of_nat (10 + n), d_flags := 0, d_next := VRING_IDX_NONE\<rparr>"

lemma put_vring_spec:
  assumes "driver v sh desc avail (x # free)" "length buf \<le> unat (d_len (desc ! x))"
    and "owns mh sh (desc ! x) (10 + length buf)"
  shows "\<exists>mem. put_vring mh v buf sh =
      Some (0, v\<lparr>vr_last_avail_idx := d_next (desc ! x)\<rparr>,
        sh\<lparr>sm_desc := (sm_desc sh)(vr_desc v \<mapsto> desc[x := put_desc (desc ! x) (length buf)]),
           sm_avail := (sm_avail sh)(vr_avail v \<mapsto>
             avail\<lparr>av_ring := (av_ring avail)[unat (av_idx avail) mod unat (vr_num v) := of_nat x], av_idx := av_idx avail + 1\<rparr>),
           sm_mem := mem\<rparr>) \<and>
      mem_rd (map_addr mh (d_addr (desc ! x))) (10 + length buf) mem = Some (replicate 10 0 @ buf) \<and>
      (\<forall>y. mem y = None \<longleftrightarrow> sm_mem sh y = None)"
proof -
  let ?a = "map_addr mh (d_addr (desc ! x))"
  have x: "unat (vr_last_avail_idx v) = x" "x < length desc" using assms(1) by (auto simp: driver_def)
  have xi: "vr_last_avail_idx v = of_nat x" using x(1) by auto
  have n: "vr_num v \<noteq> 0" "unat (av_idx avail) mod unat (vr_num v) < length (av_ring avail)"
    using assms(1) mod_less_divisor [of "unat (vr_num v)" "unat (av_idx avail)"]
    by (auto simp: driver_def simp del: mod_less_divisor)
  have "\<forall>i<length (replicate VIRTIO_NET_HDR_LEN (0::u8)). sm_mem sh (?a + i) \<noteq> None"
    using assms(3) by (simp add: owns_def VIRTIO_NET_HDR_LEN_def)
  from mem_wr_fits [OF this] obtain m1 where m1: "mem_wr ?a (replicate VIRTIO_NET_HDR_LEN 0) (sm_mem sh) = Some m1" by blast
  have "\<forall>i<length buf. m1 (?a + VIRTIO_NET_HDR_LEN + i) \<noteq> None"
    using assms(3) unfolding mem_wr_length [OF m1] by (simp add: owns_def VIRTIO_NET_HDR_LEN_def add.assoc)
  from mem_wr_fits [OF this] obtain m2 where m2: "mem_wr (?a + VIRTIO_NET_HDR_LEN) buf m1 = Some m2" by blast
  have "mem_rd ?a 10 m2 = Some (replicate 10 0)"
    using mem_rd_frame [OF m2, of ?a 10] mem_rd_wr [OF m1] by (simp add: VIRTIO_NET_HDR_LEN_def)
  moreover have "mem_rd (?a + 10) (length buf) m2 = Some buf"
    using mem_rd_wr [OF m2] by (simp add: VIRTIO_NET_HDR_LEN_def)
  ultimately have r: "mem_rd ?a (10 + length buf) m2 = Some (replicate 10 0 @ buf)"
    by (rule mem_rd_append)
  have p: "put_vring mh v buf sh = Some (0, v\<lparr>vr_last_avail_idx := d_next (desc ! x)\<rparr>,
        sh\<lparr>sm_desc := (sm_desc sh)(vr_desc v \<mapsto> desc[x := put_desc (desc ! x) (length buf)]),
           sm_avail := (sm_avail sh)(vr_avail v \<mapsto>
             avail\<lparr>av_ring := (av_ring avail)[unat (av_idx avail) mod unat (vr_num v) := of_nat x], av_idx := av_idx avail + 1\<rparr>),
           sm_mem := m2\<rparr>)"
    using assms(1,2) n m1 m2 x
    by (simp add: put_vring_def driver_def nth_opt_def upd_opt_def put_desc_def xi VIRTIO_NET_HDR_LEN_def)
  show ?thesis using p r mem_wr_length [OF m1] mem_wr_length [OF m2] by blast
qed

section \<open>The device side\<close>

text \<open>A packet, with its header, in the buffer of a descriptor that is not chained.\<close>

definition ready :: "(u64 \<Rightarrow> u64) option \<Rightarrow> vring_desc list \<Rightarrow> mem \<Rightarrow> u16 \<Rightarrow> bytes \<Rightarrow> bool" where
  "ready mh desc mem i p \<longleftrightarrow>
     unat i < length desc \<and>
     (let d = desc ! unat i
      in d_flags d AND VIRTIO_DESC_F_NEXT = 0 \<and> 10 \<le> unat (d_len d) \<and> unat (d_len d) < 1518 \<and>
         mem_rd (map_addr mh (d_addr d)) (unat (d_len d)) mem = Some p)"

definition device :: "Vring \<Rightarrow> shm \<Rightarrow> vring_desc list \<Rightarrow> vring_avail \<Rightarrow> vring_used \<Rightarrow> bool" where
  "device v sh desc avail used \<longleftrightarrow>
     sm_desc sh (vr_desc v) = Some desc \<and> sm_avail sh (vr_avail v) = Some avail \<and>
     sm_used sh (vr_used v) = Some used \<and> 0 < unat (vr_num v) \<and>
     unat (vr_num v) \<le> length (av_ring avail) \<and> unat (vr_num v) \<le> length (us_ring used)"

lemma ready_length: "ready mh desc mem i p \<Longrightarrow> 10 \<le> length p \<and> length p < 1518"
  by (auto simp: ready_def Let_def dest: length_mem_rd)

lemma chain_ready: "ready mh desc mem i p \<Longrightarrow> chain_loop mh desc mem (unat i) [] = Some p"
  using length_mem_rd [of "map_addr mh (d_addr (desc ! unat i))" "unat (d_len (desc ! unat i))" mem p]
  by (subst chain_loop.simps) (simp add: ready_def Let_def nth_opt_def ETH_PACKET_SIZE_def)

text \<open>The comparison keeps the packet within the array, with a byte to spare.\<close>

lemma chain_loop_fits:
  assumes "chain_loop mh desc mem i buf = Some p"
  shows "length buf < ETH_PACKET_SIZE \<longrightarrow> length p < ETH_PACKET_SIZE"
proof (rule chain_loop.raw_induct [where P = "\<lambda>_ _ _ _ buf p. length buf < ETH_PACKET_SIZE \<longrightarrow> length p < ETH_PACKET_SIZE", OF _ assms],
    intro impI)
  fix loop :: "(u64 \<Rightarrow> u64) option \<Rightarrow> vring_desc list \<Rightarrow> mem \<Rightarrow> nat \<Rightarrow> bytes \<Rightarrow> bytes option" and mh desc mem i buf p
  assume IH: "\<And>mh desc mem i buf p. loop mh desc mem i buf = Some p \<Longrightarrow>
      length buf < ETH_PACKET_SIZE \<longrightarrow> length p < ETH_PACKET_SIZE"
    and body: "do { d \<leftarrow> nth_opt desc i;
          let cur = map_addr mh (d_addr d);
          if unat (of_nat (length buf) + d_len d) < ETH_PACKET_SIZE then
            do { bs \<leftarrow> mem_rd cur (unat (d_len d)) mem;
                 if length buf + length bs < 2 ^ 32 then
                   if d_flags d AND VIRTIO_DESC_F_NEXT \<noteq> 0 then loop mh desc mem (unat (d_next d)) (buf @ bs)
                   else Some (buf @ bs)
                 else None }
          else Some buf } = Some p"
    and len: "length buf < ETH_PACKET_SIZE"
  obtain d where d: "nth_opt desc i = Some d" using body by (auto simp: bind_eq_Some_conv)
  show "length p < ETH_PACKET_SIZE"
  proof (cases "unat (of_nat (length buf) + d_len d) < ETH_PACKET_SIZE")
    case True
    then obtain bs where bs: "mem_rd (map_addr mh (d_addr d)) (unat (d_len d)) mem = Some bs" "length buf + length bs < 2 ^ 32"
      and r: "loop mh desc mem (unat (d_next d)) (buf @ bs) = Some p \<or> buf @ bs = p"
      using body d by (auto simp: bind_eq_Some_conv Let_def split: if_splits)
    have "length bs = unat (d_len d)" using length_mem_rd [OF bs(1)] .
    then have "unat (of_nat (length buf) + d_len d) = length buf + length bs"
      using bs(2) by (simp add: unat_word_ariths unsigned_of_nat take_bit_eq_mod mod_simps)
    then have "length (buf @ bs) < ETH_PACKET_SIZE" using True by simp
    with r IH [of mh desc mem "unat (d_next d)" "buf @ bs" p] show ?thesis by blast
  next
    case False
    then show ?thesis using body len d by (simp add: Let_def)
  qed
qed

text \<open>A client can make the sum wrap with a second descriptor of nearly \<open>2 ^ 32\<close> bytes: the comparison lets it
  pass, and the copy crashes.\<close>

lemma chain_loop_wraps:
  assumes "nth_opt desc i = Some d" "unat (of_nat (length buf) + d_len d) < ETH_PACKET_SIZE" "2 ^ 32 \<le> length buf + unat (d_len d)"
  shows "chain_loop mh desc mem i buf = None"
  using assms length_mem_rd [of "map_addr mh (d_addr d)" "unat (d_len d)" mem]
  by (subst chain_loop.simps) (cases "mem_rd (map_addr mh (d_addr d)) (unat (d_len d)) mem"; simp)

abbreviation use_desc :: "Vring \<Rightarrow> vring_used \<Rightarrow> u16 \<Rightarrow> bytes \<Rightarrow> vring_used" where
  "use_desc v used i p \<equiv>
     used\<lparr>us_ring := (us_ring used)[unat (vr_last_used_idx v) mod unat (vr_num v) :=
                                     \<lparr>ue_id = ucast i, ue_len = of_nat (length p)\<rparr>]\<rparr>"

lemma process_desc_ready:
  assumes "device v sh desc avail used" "a < unat (vr_num v)"
    and "ready mh desc (sm_mem sh) (av_ring avail ! a) p" and "h (Some (drop 10 p)) ctx = Some ctx'"
  shows "process_desc mh (Some h) a v (sh, ctx) =
    Some (0, sh\<lparr>sm_used := (sm_used sh)(vr_used v \<mapsto> use_desc v used (av_ring avail ! a) p)\<rparr>, ctx')"
proof -
  have "unat (vr_last_used_idx v) mod unat (vr_num v) < unat (vr_num v)"
    using assms(1) by (simp add: device_def)
  then have u: "unat (vr_last_used_idx v) mod unat (vr_num v) < length (us_ring used)"
    using assms(1) unfolding device_def by linarith
  have n: "vr_num v \<noteq> 0" using assms(1) by (auto simp: device_def)
  have a: "a < length (av_ring avail)" using assms(1,2) by (simp add: device_def)
  have p: "p \<noteq> []" using ready_length [OF assms(3)] by auto
  show ?thesis
    using assms(1,4) u n a p chain_ready [OF assms(3)] ready_length [OF assms(3)]
    by (simp add: process_desc_def device_def nth_opt_def upd_opt_def VIRTIO_NET_HDR_LEN_def)
qed

fun deliver :: "(bytes option \<Rightarrow> 'c \<Rightarrow> 'c option) \<Rightarrow> bytes list \<Rightarrow> 'c \<Rightarrow> 'c option" where
  "deliver h [] ctx = Some ctx"
| "deliver h (p # ps) ctx = Option.bind (h (Some p) ctx) (deliver h ps)"

lemma avail_loop_consumes:
  assumes "device v sh desc avail used" "a < unat (vr_num v)"
    and "unat (aend - vr_last_avail_idx v) = length ps"
    and "\<forall>k<length ps. ready mh desc (sm_mem sh) (av_ring avail ! ((a + k) mod unat (vr_num v))) (ps ! k)"
    and "deliver h (map (drop 10) ps) ctx = Some ctx'"
  shows "\<exists>used'. avail_loop mh (Some h) aend a count v (sh, ctx) =
      Some (count + of_nat (length ps),
            v\<lparr>vr_last_avail_idx := aend, vr_last_used_idx := vr_last_used_idx v + of_nat (length ps)\<rparr>,
            sh\<lparr>sm_used := (sm_used sh)(vr_used v \<mapsto> used')\<rparr>, ctx') \<and>
      length (us_ring used') = length (us_ring used) \<and> us_idx used' = us_idx used"
  using assms
proof (induction ps arbitrary: v sh used a count ctx)
  case Nil
  then have e: "vr_last_avail_idx v = aend" by (simp add: unat_eq_zero)
  have s: "sh\<lparr>sm_used := (sm_used sh)(vr_used v \<mapsto> used)\<rparr> = sh"
    using Nil.prems(1) by (simp add: device_def fun_upd_idem)
  show ?case using Nil.prems(5) e s
    by (intro exI [of _ used], subst avail_loop.simps) simp
next
  case (Cons p ps)
  let ?n = "unat (vr_num v)" and ?u = "use_desc v used (av_ring avail ! a) p"
  let ?v = "v\<lparr>vr_last_avail_idx := vr_last_avail_idx v + 1, vr_last_used_idx := vr_last_used_idx v + 1\<rparr>"
  let ?sh = "sh\<lparr>sm_used := (sm_used sh)(vr_used v \<mapsto> ?u)\<rparr>"
  have ne: "vr_last_avail_idx v \<noteq> aend" using Cons.prems(3) by auto
  have d: "aend - (vr_last_avail_idx v + 1) = (aend - vr_last_avail_idx v) - 1" by simp
  have len: "unat (aend - (vr_last_avail_idx v + 1)) = length ps"
    unfolding d using Cons.prems(3) ne by (subst unat_minus_one) auto
  obtain ctx1 where c: "h (Some (drop 10 p)) ctx = Some ctx1" "deliver h (map (drop 10) ps) ctx1 = Some ctx'"
    using Cons.prems(5) by (auto split: bind_splits)
  have "ready mh desc (sm_mem sh) (av_ring avail ! a) p"
    using Cons.prems(4) [rule_format, of 0] Cons.prems(2) by simp
  note pd = process_desc_ready [where h = h and ctx = ctx, OF Cons.prems(1,2) this c(1)]
  have dev: "device ?v ?sh desc avail ?u" using Cons.prems(1) by (simp add: device_def)
  have nz: "0 < ?n" using Cons.prems(1) by (simp add: device_def)
  have rd: "\<forall>k<length ps. ready mh desc (sm_mem ?sh) (av_ring avail ! (((a + 1) mod ?n + k) mod unat (vr_num ?v))) (ps ! k)"
  proof (intro allI impI)
    fix k assume "k < length ps"
    then have "ready mh desc (sm_mem sh) (av_ring avail ! ((a + Suc k) mod ?n)) (ps ! k)"
      using Cons.prems(4) [rule_format, of "Suc k"] by simp
    then show "ready mh desc (sm_mem ?sh) (av_ring avail ! (((a + 1) mod ?n + k) mod unat (vr_num ?v))) (ps ! k)"
      by (simp add: mod_simps)
  qed
  have a1: "(a + 1) mod ?n < unat (vr_num ?v)" using nz by simp
  have len': "unat (aend - vr_last_avail_idx ?v) = length ps" using len by simp
  from Cons.IH [OF dev a1 len' rd c(2), of "count + 1"] obtain used' where
    ih: "avail_loop mh (Some h) aend ((a + 1) mod ?n) (count + 1) ?v (?sh, ctx1) =
      Some (count + 1 + of_nat (length ps), ?v\<lparr>vr_last_avail_idx := aend, vr_last_used_idx := vr_last_used_idx ?v + of_nat (length ps)\<rparr>,
        ?sh\<lparr>sm_used := (sm_used ?sh)(vr_used ?v \<mapsto> used')\<rparr>, ctx')"
      "length (us_ring used') = length (us_ring ?u)" "us_idx used' = us_idx ?u"
    by blast
  show ?case
    by (rule exI [of _ used'], subst avail_loop.simps)
       (use ne pd ih in \<open>simp add: add.assoc\<close>)
qed

lemma avail_vring_consumes:
  assumes "device v sh desc avail used"
    and "length ps = unat (av_idx avail - vr_last_avail_idx v)"
    and "\<forall>k<length ps. ready mh desc (sm_mem sh)
           (av_ring avail ! ((unat (vr_last_avail_idx v) + k) mod unat (vr_num v))) (ps ! k)"
    and "deliver h (map (drop 10) ps) ctx = Some ctx'"
  shows "\<exists>v' sh' used'. process_avail_vring mh (Some h) v (sh, ctx) = Some (of_nat (length ps), v', sh', ctx') \<and>
    vr_last_avail_idx v' = av_idx avail \<and> sm_used sh' (vr_used v) = Some used' \<and>
    us_idx used' = vr_last_used_idx v + of_nat (length ps)"
proof -
  let ?a = "unat (vr_last_avail_idx v) mod unat (vr_num v)"
  have a: "?a < unat (vr_num v)" and nz: "vr_num v \<noteq> 0" using assms(1) by (auto simp: device_def)
  have "\<forall>k<length ps. ready mh desc (sm_mem sh) (av_ring avail ! ((?a + k) mod unat (vr_num v))) (ps ! k)"
    using assms(3) by (simp add: mod_simps)
  from avail_loop_consumes [OF assms(1) a assms(2) [symmetric] this assms(4), of 0] obtain used' where
    l: "avail_loop mh (Some h) (av_idx avail) ?a 0 v (sh, ctx) =
      Some (0 + of_nat (length ps),
            v\<lparr>vr_last_avail_idx := av_idx avail, vr_last_used_idx := vr_last_used_idx v + of_nat (length ps)\<rparr>,
            sh\<lparr>sm_used := (sm_used sh)(vr_used v \<mapsto> used')\<rparr>, ctx')" by blast
  have "sm_avail sh (vr_avail v) = Some avail" using assms(1) by (simp add: device_def)
  then show ?thesis using l nz by (simp add: process_avail_vring_def)
qed

text \<open>C21: One call consumes everything that is available: if each of the positions between the
  device's index and the driver's has a readable buffer with a packet, the packets are handed to
  the handler in order, the count is their number, and both indices catch up.\<close>

theorem vring_consumes_all:
  assumes "device v sh desc avail used"
    and "length ps = unat (av_idx avail - vr_last_avail_idx v)"
    and "\<forall>k<length ps. ready mh desc (sm_mem sh)
           (av_ring avail ! ((unat (vr_last_avail_idx v) + k) mod unat (vr_num v))) (ps ! k)"
    and "deliver h (map (drop 10) ps) ctx = Some ctx'"
  shows "\<exists>v' sh' used'. process_avail_vring mh (Some h) v (sh, ctx) = Some (of_nat (length ps), v', sh', ctx') \<and>
    vr_last_avail_idx v' = av_idx avail \<and> sm_used sh' (vr_used v) = Some used' \<and>
    us_idx used' = vr_last_used_idx v + of_nat (length ps)"
  by (rule avail_vring_consumes [OF assms])

section \<open>From the driver to the device\<close>

lemma avail_vring_single:
  assumes "device v sh desc avail used" and "av_idx avail = vr_last_avail_idx v + 1"
    and "av_ring avail ! (unat (vr_last_avail_idx v) mod unat (vr_num v)) = i"
    and "ready mh desc (sm_mem sh) i p" and "h (Some (drop 10 p)) ctx = Some ctx'"
  shows "process_avail_vring mh (Some h) v (sh, ctx) =
    Some (1, v\<lparr>vr_last_avail_idx := vr_last_avail_idx v + 1, vr_last_used_idx := vr_last_used_idx v + 1\<rparr>,
      sh\<lparr>sm_used := (sm_used sh)(vr_used v \<mapsto> (use_desc v used i p)\<lparr>us_idx := vr_last_used_idx v + 1\<rparr>)\<rparr>, ctx')"
proof -
  let ?a = "unat (vr_last_avail_idx v) mod unat (vr_num v)"
  have a: "?a < unat (vr_num v)" and nz: "vr_num v \<noteq> 0" using assms(1) by (auto simp: device_def)
  have "ready mh desc (sm_mem sh) (av_ring avail ! ?a) p" using assms(3,4) by simp
  note pd = process_desc_ready [where h = h and ctx = ctx, OF assms(1) a this assms(5)]
  have "sm_avail sh (vr_avail v) = Some avail" using assms(1) by (simp add: device_def)
  then show ?thesis
    using pd nz assms(2,3)
    by (simp add: process_avail_vring_def avail_loop.simps [of _ _ "vr_last_avail_idx v + 1"])
qed

lemma put_desc_ready:
  assumes "x < length desc" "x < 65536" "10 + length buf < 1518"
    and "map_addr mh' (d_addr (desc ! x)) = a"
    and "mem_rd a (10 + length buf) mem = Some (replicate 10 0 @ buf)"
  shows "ready mh' (desc[x := put_desc (desc ! x) (length buf)]) mem (of_nat x) (replicate 10 0 @ buf)"
proof -
  have "unat (of_nat (10 + length buf) :: u32) = 10 + length buf"
    using assms(3) by (simp add: unsigned_of_nat take_bit_nat_eq_self del: of_nat_add)
  with assms show ?thesis
    by (simp add: ready_def put_desc_def Let_def unsigned_of_nat take_bit_nat_eq_self del: of_nat_add)
qed

text \<open>What the driver puts the device delivers: when the device has consumed everything before,
  a packet that fits the descriptor and the device's array is handed to the handler unchanged,
  without the virtio header, and the used ring returns the descriptor that carried it.\<close>

theorem vring_packet_delivered:
  assumes "driver v sh desc avail (x # free)" "length buf \<le> unat (d_len (desc ! x))" "10 + length buf < 1518"
    and "owns mh sh (desc ! x) (10 + length buf)"
    and "vr_desc w = vr_desc v" "vr_avail w = vr_avail v" "vr_num w = vr_num v" "vr_last_avail_idx w = av_idx avail"
    and "map_addr mh' (d_addr (desc ! x)) = map_addr mh (d_addr (desc ! x))"
    and "sm_used sh (vr_used w) = Some used" "unat (vr_num w) \<le> length (us_ring used)"
    and "h (Some buf) ctx = Some ctx'"
  shows "\<exists>v' sh' w' sh'' used'. put_vring mh v buf sh = Some (0, v', sh') \<and>
    process_avail_vring mh' (Some h) w (sh', ctx) = Some (1, w', sh'', ctx') \<and>
    sm_used sh'' (vr_used w) = Some used' \<and> us_idx used' = vr_last_used_idx w + 1 \<and>
    us_ring used' ! (unat (vr_last_used_idx w) mod unat (vr_num w)) = \<lparr>ue_id = of_nat x, ue_len = of_nat (10 + length buf)\<rparr>"
proof -
  let ?desc = "desc[x := put_desc (desc ! x) (length buf)]"
  let ?i = "unat (av_idx avail) mod unat (vr_num v)"
  let ?avail = "avail\<lparr>av_ring := (av_ring avail)[?i := of_nat x], av_idx := av_idx avail + 1\<rparr>"
  obtain mem where put: "put_vring mh v buf sh = Some (0, v\<lparr>vr_last_avail_idx := d_next (desc ! x)\<rparr>,
        sh\<lparr>sm_desc := (sm_desc sh)(vr_desc v \<mapsto> ?desc), sm_avail := (sm_avail sh)(vr_avail v \<mapsto> ?avail), sm_mem := mem\<rparr>)"
    and mem: "mem_rd (map_addr mh (d_addr (desc ! x))) (10 + length buf) mem = Some (replicate 10 0 @ buf)"
    using put_vring_spec [OF assms(1,2,4)] by blast
  let ?sh = "sh\<lparr>sm_desc := (sm_desc sh)(vr_desc v \<mapsto> ?desc), sm_avail := (sm_avail sh)(vr_avail v \<mapsto> ?avail), sm_mem := mem\<rparr>"
  have x: "x < length desc" "x < 65536" "0 < unat (vr_num v)" "unat (vr_num v) \<le> length (av_ring avail)"
    using assms(1) by (auto simp: driver_def)
  have i: "?i < length (av_ring avail)" "unat (vr_last_used_idx w) mod unat (vr_num w) < length (us_ring used)"
    using x(3,4) assms(7,11) mod_less_divisor [OF x(3)] by (metis less_le_trans)+
  have dev: "device w ?sh ?desc ?avail used"
    using assms(5-7,10,11) x by (simp add: device_def)
  have pos: "av_ring ?avail ! (unat (vr_last_avail_idx w) mod unat (vr_num w)) = of_nat x"
    using i assms(7,8) by simp
  have rdy: "ready mh' ?desc (sm_mem ?sh) (of_nat x) (replicate 10 0 @ buf)"
    using put_desc_ready [OF x(1,2) assms(3,9) mem] by simp
  have h: "h (Some (drop 10 (replicate 10 0 @ buf))) ctx = Some ctx'" using assms(12) by simp
  have idx: "av_idx ?avail = vr_last_avail_idx w + 1" using assms(8) by simp
  have "(ucast (of_nat x :: u16) :: u32) = of_nat x"
    using x(2) by (intro unsigned_word_eqI) (simp add: unsigned_ucast_eq unsigned_of_nat take_bit_nat_eq_self)
  then show ?thesis
    using put avail_vring_single [where h = h and ctx = ctx and p = "replicate 10 0 @ buf", OF dev idx pos rdy h] i(2) by (simp add: add.commute)
qed

section \<open>The driver and its free list\<close>

lemma driver_empty: "driver v sh desc avail [] \<Longrightarrow> put_vring mh v buf sh = None"
proof -
  assume "driver v sh desc avail []"
  moreover have "unat (VRING_IDX_NONE) = 65535"
    by (simp add: VRING_IDX_NONE_def unsigned_minus_1_eq_mask mask_eq_exp_minus_1)
  ultimately show ?thesis by (simp add: driver_def put_vring_def nth_opt_def Let_def)
qed

lemma driver_put:
  assumes "driver v sh desc avail (x # free)"
  shows "driver (v\<lparr>vr_last_avail_idx := d_next (desc ! x)\<rparr>)
    (sh\<lparr>sm_desc := (sm_desc sh)(vr_desc v \<mapsto> desc[x := put_desc (desc ! x) n]),
        sm_avail := (sm_avail sh)(vr_avail v \<mapsto> avail\<lparr>av_ring := (av_ring avail)[i := j], av_idx := k\<rparr>), sm_mem := mem\<rparr>)
    (desc[x := put_desc (desc ! x) n]) (avail\<lparr>av_ring := (av_ring avail)[i := j], av_idx := k\<rparr>) free"
  using assms by (simp add: driver_def free_list_frame)

lemma put_vring_free_list:
  assumes "driver v sh desc avail free"
    and "\<And>x xs. free = x # xs \<Longrightarrow> owns mh sh (desc ! x) (10 + length buf)"
  shows "case free of
      [] \<Rightarrow> put_vring mh v buf sh = None
    | x # xs \<Rightarrow>
        if unat (d_len (desc ! x)) < length buf then put_vring mh v buf sh = Some (- 1, v, sh)
        else \<exists>v' sh' desc' avail'. put_vring mh v buf sh = Some (0, v', sh') \<and> driver v' sh' desc' avail' xs \<and>
               av_idx avail' = av_idx avail + 1 \<and>
               unat (av_ring avail' ! (unat (av_idx avail) mod unat (vr_num v))) = x"
proof (cases free)
  case Nil
  with assms(1) show ?thesis by (simp add: driver_empty)
next
  case (Cons x xs)
  with assms(1) have d: "driver v sh desc avail (x # xs)" by simp
  then have x: "x < 65536" "0 < unat (vr_num v)" "unat (vr_num v) \<le> length (av_ring avail)"
    "unat (vr_last_avail_idx v) = x" "x < length desc" "sm_desc sh (vr_desc v) = Some desc" by (auto simp: driver_def)
  have i: "unat (av_idx avail) mod unat (vr_num v) < length (av_ring avail)"
    using x(2,3) mod_less_divisor [OF x(2)] by (metis less_le_trans)
  show ?thesis
  proof (cases "unat (d_len (desc ! x)) < length buf")
    case True
    with x show ?thesis by (simp add: Cons put_vring_def nth_opt_def)
  next
    case False
    then have fits: "length buf \<le> unat (d_len (desc ! x))" by simp
    obtain mem where p: "put_vring mh v buf sh =
      Some (0, v\<lparr>vr_last_avail_idx := d_next (desc ! x)\<rparr>,
        sh\<lparr>sm_desc := (sm_desc sh)(vr_desc v \<mapsto> desc[x := put_desc (desc ! x) (length buf)]),
           sm_avail := (sm_avail sh)(vr_avail v \<mapsto>
             avail\<lparr>av_ring := (av_ring avail)[unat (av_idx avail) mod unat (vr_num v) := of_nat x], av_idx := av_idx avail + 1\<rparr>),
           sm_mem := mem\<rparr>)"
      using put_vring_spec [OF d fits assms(2) [OF Cons]] by blast
    have "driver (v\<lparr>vr_last_avail_idx := d_next (desc ! x)\<rparr>)
      (sh\<lparr>sm_desc := (sm_desc sh)(vr_desc v \<mapsto> desc[x := put_desc (desc ! x) (length buf)]),
           sm_avail := (sm_avail sh)(vr_avail v \<mapsto>
             avail\<lparr>av_ring := (av_ring avail)[unat (av_idx avail) mod unat (vr_num v) := of_nat x], av_idx := av_idx avail + 1\<rparr>),
           sm_mem := mem\<rparr>)
      (desc[x := put_desc (desc ! x) (length buf)])
      (avail\<lparr>av_ring := (av_ring avail)[unat (av_idx avail) mod unat (vr_num v) := of_nat x], av_idx := av_idx avail + 1\<rparr>) xs"
      by (rule driver_put [OF d])
    moreover have "unat (of_nat x :: u16) = x" using x(1) by (simp add: unsigned_of_nat take_bit_nat_eq_self)
    ultimately show ?thesis using p i False by (fastforce simp: Cons)
  qed
qed

text \<open>C22: The driver implements a list of free descriptors and a queue of available ones: putting a
  packet moves the head of the free list to the end of the queue; a packet longer than its
  buffer is refused; with no free descriptor, which is not checked, the call is out of bounds.\<close>

theorem put_vring_refines_free_list:
  assumes "driver v sh desc avail free"
    and "\<And>x xs. free = x # xs \<Longrightarrow> owns mh sh (desc ! x) (10 + length buf)"
  shows "case free of
      [] \<Rightarrow> put_vring mh v buf sh = None
    | x # xs \<Rightarrow>
        if unat (d_len (desc ! x)) < length buf then put_vring mh v buf sh = Some (- 1, v, sh)
        else \<exists>v' sh' desc' avail'. put_vring mh v buf sh = Some (0, v', sh') \<and> driver v' sh' desc' avail' xs \<and>
               av_idx avail' = av_idx avail + 1 \<and>
               unat (av_ring avail' ! (unat (av_idx avail) mod unat (vr_num v))) = x"
  by (rule put_vring_free_list [OF assms])

text \<open>The check of the size leaves out the 10 bytes of the virtio header: a packet that fits the
  descriptor without them is written beyond the end of its buffer.\<close>

theorem vring_put_overruns:
  assumes "driver v sh desc avail (x # free)"
    and "length buf \<le> unat (d_len (desc ! x))" "unat (d_len (desc ! x)) < 10 + length buf"
    and "sm_mem sh (map_addr mh (d_addr (desc ! x)) + unat (d_len (desc ! x))) = None"
  shows "put_vring mh v buf sh = None"
proof -
  let ?a = "map_addr mh (d_addr (desc ! x))" and ?n = "unat (d_len (desc ! x))"
  have x: "unat (vr_last_avail_idx v) = x" "x < length desc" "sm_desc sh (vr_desc v) = Some desc"
    using assms(1) by (auto simp: driver_def)
  have "Option.bind (mem_wr ?a (replicate VIRTIO_NET_HDR_LEN 0) (sm_mem sh))
      (\<lambda>m. mem_wr (?a + VIRTIO_NET_HDR_LEN) buf m) = None"
  proof (cases "mem_wr ?a (replicate VIRTIO_NET_HDR_LEN 0) (sm_mem sh)")
    case (Some m)
    show ?thesis
    proof (rule ccontr)
      assume "\<not> ?thesis"
      then obtain m' where m': "mem_wr (?a + VIRTIO_NET_HDR_LEN) buf m = Some m'" using Some by auto
      have n: "sm_mem sh (?a + ?n) \<noteq> None"
      proof (cases "?n < 10")
        case True
        then show ?thesis using mem_wr_apply(2) [OF Some, of "?a + ?n"] by (simp add: VIRTIO_NET_HDR_LEN_def)
      next
        case False
        then have "m (?a + ?n) \<noteq> None"
          using mem_wr_apply(2) [OF m', of "?a + ?n"] assms(3) by (simp add: VIRTIO_NET_HDR_LEN_def)
        then show ?thesis using mem_wr_length [OF Some, of "?a + ?n"] by simp
      qed
      with assms(4) show False by simp
    qed
  qed simp
  then have "Option.bind (mem_wr ?a (replicate VIRTIO_NET_HDR_LEN 0) (sm_mem sh))
      (\<lambda>m. Option.bind (mem_wr (?a + VIRTIO_NET_HDR_LEN) buf m) k) = None" for k :: "mem \<Rightarrow> (int \<times> Vring \<times> shm) option"
    by (metis bind_assoc bind_eq_None_conv)
  with x assms(2) show ?thesis by (simp add: put_vring_def nth_opt_def Let_def)
qed

lemma free_vring_free_list:
  assumes "driver v sh desc avail free" "unat i < length desc" "unat i \<notin> set free" "unat i < VHOST_VRING_SIZE"
  shows "\<exists>v' sh' desc'. free_vring v i sh = Some (v', sh') \<and> driver v' sh' desc' avail (unat i # free) \<and>
    v' = v\<lparr>vr_last_avail_idx := ucast i\<rparr> \<and> length desc' = length desc"
proof -
  have l: "unat i < 65536" using assms(4) by (simp add: VHOST_VRING_SIZE_def)
  then have c: "unat (ucast i :: u16) = unat i"
    by (simp add: unsigned_ucast_eq take_bit_nat_eq_self)
  have "free_list (desc[unat i := (desc ! unat i)\<lparr>d_len := of_nat BUFFER_SIZE,
      d_flags := d_flags (desc ! unat i) OR VIRTIO_DESC_F_WRITE, d_next := vr_last_avail_idx v\<rparr>]) (ucast i) (unat i # free)"
    using assms c by (simp add: driver_def free_list_frame VHOST_VRING_SIZE_def)
  with assms show ?thesis by (simp add: free_vring_def driver_def nth_opt_def)
qed

section \<open>The walk over the used ring\<close>

text \<open>The walk is over positions below \<open>num\<close>, so it never meets an index of the device that is not.\<close>

lemma used_loop_diverges:
  assumes "used_loop used u v sh = Some r"
  shows "unat u < unat (vr_num v) \<longrightarrow> unat (vr_num v) \<le> 65536 \<longrightarrow> unat (us_idx used) < unat (vr_num v)"
proof (rule used_loop.raw_induct [where P = "\<lambda>used u v sh r. unat u < unat (vr_num v) \<longrightarrow>
      unat (vr_num v) \<le> 65536 \<longrightarrow> unat (us_idx used) < unat (vr_num v)", OF _ assms], intro impI)
  fix loop :: "vring_used \<Rightarrow> u16 \<Rightarrow> Vring \<Rightarrow> shm \<Rightarrow> (u16 \<times> Vring \<times> shm) option"
    and used :: vring_used and u :: u16 and v :: Vring and sh r
  assume IH: "\<And>used u v sh r. loop used u v sh = Some r \<Longrightarrow> unat u < unat (vr_num v) \<longrightarrow>
      unat (vr_num v) \<le> 65536 \<longrightarrow> unat (us_idx used) < unat (vr_num v)"
    and body: "(if u = us_idx used then Some (u, v, sh)
      else do { e \<leftarrow> nth_opt (us_ring used) (unat u); vs \<leftarrow> free_vring v (ue_id e) sh;
             if vr_num v = 0 then None
             else loop used (of_nat ((unat u + 1) mod unat (vr_num v))) (fst vs) (snd vs) }) = Some r"
    and u: "unat u < unat (vr_num v)" "unat (vr_num v) \<le> 65536"
  show "unat (us_idx used) < unat (vr_num v)"
  proof (cases "u = us_idx used")
    case False
    with body obtain e :: vring_used_elem and v' sh' where e: "free_vring v (ue_id e) sh = Some (v', sh')"
      "loop used (of_nat ((unat u + 1) mod unat (vr_num v))) v' sh' = Some r"
      by (auto split: bind_splits if_splits)
    have n: "vr_num v' = vr_num v" using e(1) by (auto simp: free_vring_def split: bind_splits if_splits)
    have "(unat u + 1) mod unat (vr_num v) < unat (vr_num v)" using u by simp
    then have "unat (of_nat ((unat u + 1) mod unat (vr_num v)) :: u16) < unat (vr_num v')"
      unfolding n unsigned_of_nat of_nat_id by (rule le_less_trans [OF take_bit_nat_less_eq_self])
    with IH [OF e(2)] u n show ?thesis by simp
  qed (use u in simp)
qed

lemma free_vring_total:
  assumes "sm_desc sh (vr_desc v) = Some desc" "unat i < length desc" "unat i < VHOST_VRING_SIZE"
  shows "\<exists>v' sh' desc'. free_vring v i sh = Some (v', sh') \<and> vr_num v' = vr_num v \<and> vr_desc v' = vr_desc v \<and>
    sm_desc sh' (vr_desc v) = Some desc' \<and> length desc' = length desc"
  using assms by (simp add: free_vring_def nth_opt_def)

lemma used_loop_returns:
  assumes "unat (us_idx used) < unat (vr_num v)" "unat (vr_num v) \<le> 65536" "unat u < unat (vr_num v)"
    and "unat (vr_num v) \<le> length (us_ring used)"
    and "\<forall>e \<in> set (us_ring used). unat (ue_id e) < N \<and> unat (ue_id e) < VHOST_VRING_SIZE"
    and "sm_desc sh (vr_desc v) = Some desc" "length desc = N"
  shows "\<exists>r. used_loop used u v sh = Some r"
  using assms
proof (induction "(unat (us_idx used) + unat (vr_num v) - unat u) mod unat (vr_num v)" arbitrary: u v sh desc rule: less_induct)
  case less
  let ?n = "unat (vr_num v)" and ?t = "unat (us_idx used)"
  show ?case
  proof (cases "u = us_idx used")
    case True
    then show ?thesis by (subst used_loop.simps) simp
  next
    case False
    have u: "unat u < length (us_ring used)" using less.prems(3,4) by simp
    then have id: "unat (ue_id (us_ring used ! unat u)) < length desc"
      "unat (ue_id (us_ring used ! unat u)) < VHOST_VRING_SIZE"
      using less.prems(5,7) by simp_all
    obtain v' sh' desc' where f: "free_vring v (ue_id (us_ring used ! unat u)) sh = Some (v', sh')"
      "vr_num v' = vr_num v" "vr_desc v' = vr_desc v" "sm_desc sh' (vr_desc v) = Some desc'" "length desc' = length desc"
      using free_vring_total [OF less.prems(6) id] by blast
    let ?u = "of_nat ((unat u + 1) mod ?n) :: u16"
    have lt: "(unat u + 1) mod ?n < ?n" using less.prems(3) by simp
    then have uu: "unat ?u = (unat u + 1) mod ?n"
      using less.prems(2) by (simp add: unsigned_of_nat take_bit_nat_eq_self del: of_nat_add)
    have ne: "unat u \<noteq> ?t" using False by (metis unsigned_word_eqI)
    have "(?t + ?n - (unat u + 1) mod ?n) mod ?n < (?t + ?n - unat u) mod ?n"
    proof (cases "unat u < ?t")
      case True
      then have "(unat u + 1) mod ?n = unat u + 1" using less.prems(1) by simp
      moreover have "(?t + ?n - k) mod ?n = ?t - k" if "k \<le> ?t" for k
        using that less.prems(1) by (simp add: mod_if)
      ultimately show ?thesis using True by simp
    next
      case False
      with ne have gt: "?t < unat u" by simp
      have b: "(?t + ?n - unat u) mod ?n = ?t + ?n - unat u" using gt less.prems(3) by simp
      show ?thesis
      proof (cases "unat u + 1 = ?n")
        case True
        then show ?thesis using b less.prems(1) by simp
      next
        case False
        then have "unat u + 1 < ?n" using less.prems(3) by simp
        then show ?thesis using b gt by simp
      qed
    qed
    then have "\<exists>r. used_loop used ?u v' sh' = Some r"
      using less.prems(1,2,4,5,7) f lt uu
      by (intro less.hyps [where u = ?u and v = v' and sh = sh' and desc = desc']) simp_all
    then show ?thesis
      using False f(1) u less.prems(3) by (subst used_loop.simps) (auto simp: nth_opt_def)
  qed
qed

text \<open>C23: The driver's walk over the used ring returns exactly when the index of the device is below
  the size of the ring. The device never reduces its index, so after as many packets as the ring
  has positions the walk no longer ends.\<close>

theorem process_used_vring_terminates:
  assumes "sm_used sh (vr_used v) = Some used" "sm_desc sh (vr_desc v) = Some desc"
    and "unat (vr_last_used_idx v) < unat (vr_num v)" "unat (vr_num v) \<le> 65536"
    and "unat (vr_num v) \<le> length (us_ring used)"
    and "\<forall>e \<in> set (us_ring used). unat (ue_id e) < length desc \<and> unat (ue_id e) < VHOST_VRING_SIZE"
  shows "(\<exists>v' sh'. process_used_vring v sh = Some (v', sh')) \<longleftrightarrow> unat (us_idx used) < unat (vr_num v)"
proof
  assume "unat (us_idx used) < unat (vr_num v)"
  from used_loop_returns [OF this assms(4,3,5,6,2) refl] show "\<exists>v' sh'. process_used_vring v sh = Some (v', sh')"
    using assms(1) by (auto simp: process_used_vring_def)
next
  assume "\<exists>v' sh'. process_used_vring v sh = Some (v', sh')"
  then obtain r where "used_loop used (vr_last_used_idx v) v sh = Some r"
    using assms(1) by (auto simp: process_used_vring_def split: bind_splits)
  from used_loop_diverges [OF this] assms(3,4) show "unat (us_idx used) < unat (vr_num v)" by simp
qed

section \<open>Witnesses\<close>

definition ex_desc :: "vring_desc list" where
  "ex_desc = [\<lparr>d_addr = 100, d_len = 60, d_flags = 2, d_next = 1\<rparr>,
              \<lparr>d_addr = 200, d_len = 60, d_flags = 2, d_next = VRING_IDX_NONE\<rparr>]"

definition ex_avail :: "u16 \<Rightarrow> vring_avail" where
  "ex_avail i = \<lparr>av_idx = i, av_ring = [0, 1]\<rparr>"

definition ex_used :: "u16 \<Rightarrow> vring_used" where
  "ex_used i = \<lparr>us_idx = i, us_ring = [\<lparr>ue_id = 0, ue_len = 0\<rparr>, \<lparr>ue_id = 1, ue_len = 0\<rparr>]\<rparr>"

definition ex_shm :: "u16 \<Rightarrow> u16 \<Rightarrow> shm" where
  "ex_shm i j = \<lparr>sm_desc = [1 \<mapsto> ex_desc], sm_avail = [2 \<mapsto> ex_avail i], sm_used = [3 \<mapsto> ex_used j],
     sm_mem = (\<lambda>x. if 100 \<le> x \<and> x < 160 \<or> 200 \<le> x \<and> x < 260 then Some 0 else None)\<rparr>"

definition ex_vring :: Vring where
  "ex_vring = \<lparr>vr_kickfd = 3, vr_callfd = 4, vr_desc = 1, vr_avail = 2, vr_used = 3, vr_num = 2,
     vr_last_avail_idx = 0, vr_last_used_idx = 0\<rparr>"

lemma ex_driver: "driver ex_vring (ex_shm 0 0) ex_desc (ex_avail 0) [0, 1]"
  by (simp add: driver_def ex_vring_def ex_shm_def ex_desc_def ex_avail_def)

lemma ex_device: "device ex_vring (ex_shm i 0) ex_desc (ex_avail i) (ex_used 0)"
  by (simp add: device_def ex_vring_def ex_shm_def ex_avail_def ex_used_def)

lemma ex_owns: "n \<le> 60 \<Longrightarrow> owns None (ex_shm 0 0) (ex_desc ! 0) n"
  by (simp add: owns_def ex_shm_def ex_desc_def map_addr_def)

definition collect :: "bytes option \<Rightarrow> bytes list \<Rightarrow> bytes list option" where
  "collect p ps = map_option (\<lambda>p. ps @ [p]) p"

theorem vring_packet_delivered_witness:
  "\<exists>v' sh' w' sh''. put_vring None ex_vring [1, 2, 3] (ex_shm 0 0) = Some (0, v', sh') \<and>
     process_avail_vring None (Some collect) ex_vring (sh', []) = Some (1, w', sh'', [[1, 2, 3]])"
  using vring_packet_delivered [OF ex_driver, of "[1, 2, 3]" None ex_vring None "ex_used 0" collect "[]" "[[1, 2, 3]]"]
    ex_owns [of 13]
  by (auto simp: ex_vring_def ex_avail_def ex_desc_def ex_shm_def ex_used_def collect_def)

theorem vring_consumes_all_witness:
  "\<exists>v' sh'. process_avail_vring None (Some collect) ex_vring (ex_shm 2 0, []) =
     Some (2, v', sh', [replicate 50 0, replicate 50 0])"
proof -
  have r: "ready None ex_desc (sm_mem (ex_shm 2 0)) (av_ring (ex_avail 2) ! ((unat (vr_last_avail_idx ex_vring) + k) mod
      unat (vr_num ex_vring))) ([replicate 60 0, replicate 60 0] ! k)" if "k < 2" for k
    using that by (cases k) (auto simp: ready_def ex_desc_def ex_shm_def ex_vring_def ex_avail_def map_addr_def
        mem_rd_def VIRTIO_DESC_F_NEXT_def intro!: nth_equalityI)
  have "length [replicate 60 0, replicate 60 (0::u8)] = unat (av_idx (ex_avail 2) - vr_last_avail_idx ex_vring)"
    by (simp add: ex_avail_def ex_vring_def)
  from vring_consumes_all [OF ex_device this, of None collect "[]"] r show ?thesis
    by (auto simp: collect_def numeral_2_eq_2)
qed

theorem put_vring_refines_free_list_witness:
  "\<exists>v' sh' desc' avail'. put_vring None ex_vring [1, 2, 3] (ex_shm 0 0) = Some (0, v', sh') \<and>
     driver v' sh' desc' avail' [1]"
  using put_vring_refines_free_list [OF ex_driver, of None "[1, 2, 3]"] ex_owns [of 13]
  by (auto simp: ex_desc_def)

theorem vring_put_overruns_witness:
  "put_vring None ex_vring (replicate 55 0) (ex_shm 0 0) = None"
  by (rule vring_put_overruns [OF ex_driver]) (simp_all add: ex_desc_def ex_shm_def map_addr_def)

theorem process_used_vring_terminates_witness:
  "(\<exists>v' sh'. process_used_vring ex_vring (ex_shm 0 1) = Some (v', sh')) \<and> process_used_vring ex_vring (ex_shm 0 2) = None"
proof -
  have "(\<exists>v' sh'. process_used_vring ex_vring (ex_shm 0 j) = Some (v', sh')) \<longleftrightarrow> unat (us_idx (ex_used j)) < unat (vr_num ex_vring)" for j
    by (rule process_used_vring_terminates [where desc = ex_desc and used = "ex_used j"])
       (simp_all add: ex_vring_def ex_shm_def ex_used_def ex_desc_def VHOST_VRING_SIZE_def)
  from this [of 1] this [of 2] show ?thesis
    by (cases "process_used_vring ex_vring (ex_shm 0 2)") (auto simp: ex_used_def ex_vring_def)
qed

end
