(* ===== verification/Vhost_Correct.thy ===== *)
theory Vhost_Correct
  imports Vhost_Client Vring_Correct
begin

text \<open>
  The vhost-user handshake between the client and the server of \<^verbatim>\<open>vring_test\<close>: after the start of
  the client the server has the client's rings, at the addresses where it has mapped them, and
  translates every guest address of the shared memory.
\<close>

section \<open>The handshake\<close>

text \<open>The memory of the client: one region for each of the two rings, with the same guest and user
  address, and the file descriptors and event descriptors that go with it.\<close>

definition ring_region :: "nat \<Rightarrow> u64 \<Rightarrow> memory_region" where
  "ring_region B n = \<lparr>mr_guest_phys_addr = of_nat B, mr_memory_size = n, mr_userspace_addr = of_nat B, mr_mmap_offset = 0\<rparr>"

definition server_ring :: "nat \<times> int \<times> int \<Rightarrow> u64 \<Rightarrow> u16 \<Rightarrow> Vring" where
  "server_ring r M u =
     \<lparr>vr_kickfd = fst (snd r), vr_callfd = snd (snd r), vr_desc = unat (M + of_nat desc_offset),
      vr_avail = unat (M + of_nat avail_offset), vr_used = unat (M + of_nat used_offset),
      vr_num = of_nat VHOST_VRING_SIZE, vr_last_avail_idx = 0, vr_last_used_idx = u\<rparr>"

definition mapped_region :: "nat \<Rightarrow> u64 \<Rightarrow> u64 \<Rightarrow> server_region" where
  "mapped_region B n M = \<lparr>sr_guest_phys_addr = of_nat B, sr_memory_size = n, sr_userspace_addr = of_nat B, sr_mmap_addr = M\<rparr>"

lemma chan_simple:
  "in_msg_server mmap (msg\<lparr>sg_fds := sg_fds msg @ pad\<rparr>) s = Some (0, msg', s') \<Longrightarrow>
     server_channel mmap pad sock msg s = Some (1, None, s')"
  by (simp add: server_channel_def receive_sock_server_def)

lemma set_mem_table_two:
  assumes "fds = f0 # f1 # fs" "f0 > 0" "f1 > 0" "um_nregions m = 2" "um_regions m = ring_region B0 n # ring_region B1 n # rs"
    and "sv_regions (vs_memory s) = x0 # x1 # xs"
  shows "set_mem_table mmap \<lparr>sg_request = r, sg_flags = fl, sg_size = z, sg_payload = Memory m, sg_fd_num = 2, sg_fds = fds\<rparr> s =
    Some (0, \<lparr>sg_request = r, sg_flags = fl, sg_size = z, sg_payload = Memory m, sg_fd_num = 2, sg_fds = fds\<rparr>,
      s\<lparr>vs_memory := (vs_memory s)\<lparr>sv_nregions := 2,
          sv_regions := mapped_region B0 n (mmap f0 n) # mapped_region B1 n (mmap f1 n) # xs\<rparr>\<rparr>)"
proof -
  let ?m = "\<lparr>sg_request = r, sg_flags = fl, sg_size = z, sg_payload = Memory m, sg_fd_num = 2, sg_fds = fds\<rparr>"
  have "mem_table_loop mmap ?m m 0 2 ((vs_memory s)\<lparr>sv_nregions := 0\<rparr>) =
      Some ((vs_memory s)\<lparr>sv_nregions := 2,
        sv_regions := mapped_region B0 n (mmap f0 n) # mapped_region B1 n (mmap f1 n) # xs\<rparr>)"
    unfolding numeral_2_eq_2
    using assms by (simp add: nth_opt_def upd_opt_def ring_region_def mapped_region_def)
  with assms(4) show ?thesis by (simp add: set_mem_table_def)
qed

text \<open>The server after the table of regions was set.\<close>

definition two_regions :: "nat \<Rightarrow> nat \<Rightarrow> u64 \<Rightarrow> u64 \<Rightarrow> u64 \<Rightarrow> server_memory \<Rightarrow> bool" where
  "two_regions B0 B1 n M0 M1 m \<longleftrightarrow>
     sv_nregions m = 2 \<and> take 2 (sv_regions m) = [mapped_region B0 n M0, mapped_region B1 n M1]"

lemma two_regions_tables:
  assumes "two_regions B0 B1 n M0 M1 m"
  shows "guest_regions m = [(of_nat B0, n, M0), (of_nat B1, n, M1)]"
    and "user_regions m = [(of_nat B0, n, M0), (of_nat B1, n, M1)]"
  using assms by (simp_all add: two_regions_def guest_regions_def user_regions_def mapped_region_def)

lemma two_regions_map:
  assumes "two_regions B0 B1 n M0 M1 m" "proper (of_nat B0) n" "proper (of_nat B1) n"
    and "apart 0 (of_nat B0) n (of_nat B1) n" "k < unat n"
  shows "map_guest_addr m (of_nat B0 + of_nat k) = M0 + of_nat k" "map_guest_addr m (of_nat B1 + of_nat k) = M1 + of_nat k"
    "map_user_addr m (of_nat B0 + of_nat k) = M0 + of_nat k" "map_user_addr m (of_nat B1 + of_nat k) = M1 + of_nat k"
proof -
  have a: "apart 0 (of_nat B1) n (of_nat B0) n" using assms(4) by (auto simp: apart_def)
  note g = guest.translates_two [OF TrueI two_regions_tables(1) [OF assms(1)] assms(2-4) a, OF assms(5)]
    and u = user.translates_two [OF TrueI two_regions_tables(2) [OF assms(1)] assms(2-4) a, OF assms(5)]
  from g u show "map_guest_addr m (of_nat B0 + of_nat k) = M0 + of_nat k" "map_guest_addr m (of_nat B1 + of_nat k) = M1 + of_nat k"
    "map_user_addr m (of_nat B0 + of_nat k) = M0 + of_nat k" "map_user_addr m (of_nat B1 + of_nat k) = M1 + of_nat k"
    by simp_all
qed

text \<open>The five requests for one ring set every field.\<close>

lemma all_fields:
  "(v :: Vring)\<lparr>vr_num := n, vr_last_avail_idx := a, vr_kickfd := k, vr_callfd := c, vr_desc := d, vr_avail := e,
     vr_used := u, vr_last_used_idx := l\<rparr> =
   \<lparr>vr_kickfd = k, vr_callfd = c, vr_desc = d, vr_avail = e, vr_used = u, vr_num = n, vr_last_avail_idx = a,
    vr_last_used_idx = l\<rparr>"
  by (cases v) simp

lemma set_host_vring_server:
  assumes ring: "r = (B, kick, call)" "kick > 0" "call > 0" "i < 2" "length (vs_vring s) = 2"
    and map: "\<And>k. k \<le> used_offset \<Longrightarrow> map_user_addr (vs_memory s) (of_nat B + of_nat k) = M + of_nat k"
    and used: "sm_used (vs_shm s) (unat (M + of_nat used_offset)) = Some u"
  shows "\<exists>s'. set_host_vring (server_channel mmap pad sock) fds B (kick, call) (of_nat i) (F, s) = Some (0, F \<union> {kick, call}, s') \<and>
    vs_vring s' = (vs_vring s)[i := server_ring r M (us_idx u)] \<and> vs_memory s' = vs_memory s \<and> vs_shm s' = vs_shm s"
proof -
  have i: "unat (of_nat i :: u32) = i" "unat (ucast (of_nat i :: u32) AND VHOST_USER_VRING_IDX_MASK) = i"
    "ucast (of_nat i :: u32) AND VHOST_USER_VRING_NOFD_MASK = (0 :: u64)"
    using ring(4) by (auto simp: less_2_cases_iff VHOST_USER_VRING_IDX_MASK_def VHOST_USER_VRING_NOFD_MASK_def)
  have off: "desc_offset \<le> used_offset" "avail_offset \<le> used_offset"
    by (simp_all add: desc_offset_def avail_offset_def used_offset_def)
  have a: "map_user_addr (vs_memory s) (of_nat (B + k)) = M + of_nat k" if "k \<le> used_offset" for k
    using map [OF that] by simp
  note defs = server_channel_def receive_sock_server_def in_msg_server_def set_vring_num_def set_vring_base_def
    set_vring_kick_def set_vring_call_def set_vring_addr_def vhost_ioctl_def ioctl_msg_def vring_upd_def nth_opt_def
    VHOST_CLIENT_VRING_NUM_def
  from ring(4) consider "i = 0" | "i = 1" by linarith
  then show ?thesis
    using ring i a [OF off(1)] a [OF off(2)] a [of used_offset] used
    by cases (simp_all add: set_host_vring_def defs Let_def server_ring_def all_fields
        VHOST_CLIENT_VRING_IDX_TX_def)
qed

lemma init_client_server:
  assumes mem: "um_nregions (vc_memory c) = 2" "um_regions (vc_memory c) = ring_region B0 n # ring_region B1 n # rs"
    and fds: "fds = [f0, f1]" "f0 > 0" "f1 > 0" and efds: "k0 > 0" "c0 > 0" "k1 > 0" "c1 > 0"
    and server: "length (vs_vring s) = 2" "sv_regions (vs_memory s) = x0 # x1 # xs"
    and used: "sm_used (vs_shm s) (unat (mmap f0 n + of_nat used_offset)) = Some u0"
      "sm_used (vs_shm s) (unat (mmap f1 n + of_nat used_offset)) = Some u1"
    and space: "proper (of_nat B0) n" "proper (of_nat B1) n" "apart 0 (of_nat B0) n (of_nat B1) n" "used_offset < unat n"
  shows "\<exists>c' s'. init_vhost_client (server_channel mmap pad sock) fds [(B0, k0, c0), (B1, k1, c1)] c (F, s) =
      Some (c', F \<union> {k0, c0, k1, c1}, s') \<and>
    vc_features c' = 0 \<and> vc_vring c' = [client_vring (B0, k0, c0), client_vring (B1, k1, c1)] \<and> vc_shm c' = vc_shm c \<and>
    vs_vring s' = [server_ring (B0, k0, c0) (mmap f0 n) (us_idx u0), server_ring (B1, k1, c1) (mmap f1 n) (us_idx u1)] \<and>
    two_regions B0 B1 n (mmap f0 n) (mmap f1 n) (vs_memory s') \<and> vs_shm s' = vs_shm s"
proof -
  let ?chan = "server_channel mmap pad sock" and ?M0 = "mmap f0 n" and ?M1 = "mmap f1 n"
  let ?s1 = "s\<lparr>vs_memory := (vs_memory s)\<lparr>sv_nregions := 2,
      sv_regions := mapped_region B0 n ?M0 # mapped_region B1 n ?M1 # xs\<rparr>\<rparr>"
  have owner: "vhost_ioctl ?chan fds VHOST_USER_SET_OWNER Arg_none s = Some (0, None, s)"
    by (simp add: vhost_ioctl_def ioctl_msg_def server_channel_def receive_sock_server_def in_msg_server_def no_effect_def)
  have features: "vhost_ioctl ?chan fds VHOST_USER_GET_FEATURES Arg_none s = Some (0, Some (U64 0), s)"
    by (simp add: vhost_ioctl_def ioctl_msg_def server_channel_def receive_sock_server_def in_msg_server_def get_features_def
        VHOST_USER_VERSION_MASK_def VHOST_USER_VERSION_def VHOST_USER_REPLY_MASK_def)
  have table: "vhost_ioctl ?chan fds VHOST_USER_SET_MEM_TABLE (Arg_memory (vc_memory c)) s = Some (0, None, ?s1)"
    using set_mem_table_two [of "[f0, f1] @ pad" f0 f1 pad "vc_memory c" B0 n B1 rs s x0 x1 xs] mem fds server(2)
    by (simp add: vhost_ioctl_def ioctl_msg_def server_channel_def receive_sock_server_def in_msg_server_def
        VHOST_MEMORY_MAX_NREGIONS_def flip: numeral_2_eq_2)
  have tr: "two_regions B0 B1 n ?M0 ?M1 (vs_memory ?s1)" by (simp add: two_regions_def)
  have m0: "map_user_addr (vs_memory ?s1) (of_nat B0 + of_nat k) = ?M0 + of_nat k" if "k \<le> used_offset" for k
    using two_regions_map(3) [OF tr space(1-3), of k] that space(4) by simp
  have m1: "map_user_addr (vs_memory ?s1) (of_nat B1 + of_nat k) = ?M1 + of_nat k" if "k \<le> used_offset" for k
    using two_regions_map(4) [OF tr space(1-3), of k] that space(4) by simp
  obtain s2 where s2: "set_host_vring ?chan fds B0 (k0, c0) (of_nat 0) (F, ?s1) = Some (0, F \<union> {k0, c0}, s2)"
    "vs_vring s2 = (vs_vring ?s1)[0 := server_ring (B0, k0, c0) ?M0 (us_idx u0)]" "vs_memory s2 = vs_memory ?s1" "vs_shm s2 = vs_shm ?s1"
    using set_host_vring_server [OF refl efds(1,2), of 0 ?s1 B0 ?M0 u0 mmap pad sock fds F] server(1) used(1) m0 by auto
  obtain s3 where s3: "set_host_vring ?chan fds B1 (k1, c1) (of_nat 1) (F \<union> {k0, c0}, s2) = Some (0, F \<union> {k0, c0} \<union> {k1, c1}, s3)"
    "vs_vring s3 = (vs_vring s2)[1 := server_ring (B1, k1, c1) ?M1 (us_idx u1)]" "vs_memory s3 = vs_memory s2" "vs_shm s3 = vs_shm s2"
    using set_host_vring_server [OF refl efds(3,4), of 1 s2 B1 ?M1 u1 mmap pad sock fds "F \<union> {k0, c0}"] server(1) used(2) m1 s2 by auto
  obtain a b where ab: "vs_vring s = [a, b]"
    using server(1) by (auto simp: numeral_2_eq_2 length_Suc_conv)
  show ?thesis
    using owner features table s2 s3 tr ab
    by (simp add: init_vhost_client_def nth_opt_def VHOST_CLIENT_VRING_IDX_RX_def insert_commute)
qed

text \<open>C20: After the start of the client the server's two rings are the client's: the tables at the
  addresses where the server has mapped the shared memory, all descriptors, the client's event
  descriptors, nothing available yet; and every guest address of the shared memory is translated
  to the address of the same byte in the server's mapping. The client has opened the four event descriptors.\<close>

theorem vhost_handshake:
  assumes "um_nregions (vc_memory c) = 2" "um_regions (vc_memory c) = ring_region B0 n # ring_region B1 n # rs"
    and "f0 > 0" "f1 > 0" "k0 > 0" "c0 > 0" "k1 > 0" "c1 > 0"
    and "length (vs_vring s) = 2" "sv_regions (vs_memory s) = x0 # x1 # xs"
    and "sm_used (vs_shm s) (unat (mmap f0 n + of_nat used_offset)) = Some u0"
      "sm_used (vs_shm s) (unat (mmap f1 n + of_nat used_offset)) = Some u1"
    and "proper (of_nat B0) n" "proper (of_nat B1) n" "apart 0 (of_nat B0) n (of_nat B1) n" "used_offset < unat n"
  shows "\<exists>c' s'. init_vhost_client (server_channel mmap pad sock) [f0, f1] [(B0, k0, c0), (B1, k1, c1)] c (F, s) =
      Some (c', F \<union> {k0, c0, k1, c1}, s') \<and>
    vc_vring c' = [client_vring (B0, k0, c0), client_vring (B1, k1, c1)] \<and>
    vs_vring s' = [server_ring (B0, k0, c0) (mmap f0 n) (us_idx u0), server_ring (B1, k1, c1) (mmap f1 n) (us_idx u1)] \<and>
    (\<forall>k < unat n. map_guest_addr (vs_memory s') (of_nat B0 + of_nat k) = mmap f0 n + of_nat k \<and>
                 map_guest_addr (vs_memory s') (of_nat B1 + of_nat k) = mmap f1 n + of_nat k)"
proof -
  from init_client_server [where mmap = mmap and pad = pad and sock = sock, OF assms(1,2) refl assms(3-16)]
  obtain c' s' where
    r: "init_vhost_client (server_channel mmap pad sock) [f0, f1] [(B0, k0, c0), (B1, k1, c1)] c (F, s) =
      Some (c', F \<union> {k0, c0, k1, c1}, s')"
      "vc_vring c' = [client_vring (B0, k0, c0), client_vring (B1, k1, c1)]"
      "vs_vring s' = [server_ring (B0, k0, c0) (mmap f0 n) (us_idx u0), server_ring (B1, k1, c1) (mmap f1 n) (us_idx u1)]"
      "two_regions B0 B1 n (mmap f0 n) (mmap f1 n) (vs_memory s')" by blast
  then show ?thesis using two_regions_map(1,2) [OF r(4) assms(13-15)] by blast
qed

definition hs_client :: vhost_client where
  "hs_client = \<lparr>vc_memory = \<lparr>um_nregions = 2, um_regions = [ring_region 0x100000 0x100000, ring_region 0x300000 0x100000]\<rparr>,
     vc_vring = [], vc_features = 1, vc_fd_list = init_fd_list 0,
     vc_shm = \<lparr>sm_desc = (\<lambda>_. None), sm_avail = (\<lambda>_. None), sm_used = (\<lambda>_. None), sm_mem = (\<lambda>_. None)\<rparr>\<rparr>"

definition hs_server :: vhost_server where
  "hs_server = new_vhost_server (init_fd_list 200)
     (replicate 8 \<lparr>sr_guest_phys_addr = 0, sr_memory_size = 0, sr_userspace_addr = 0, sr_mmap_addr = 0\<rparr>)
     \<lparr>sm_desc = (\<lambda>_. None), sm_avail = (\<lambda>_. None), sm_used = (\<lambda>_. Some \<lparr>us_idx = 4, us_ring = []\<rparr>), sm_mem = (\<lambda>_. None)\<rparr>"

definition hs_mmap :: "int \<Rightarrow> u64 \<Rightarrow> u64" where
  "hs_mmap fd n = (if fd = 5 then 0x1000000 else 0x2000000)"

lemma hs_setup:
  "proper (of_nat 0x100000) 0x100000" "proper (of_nat 0x300000) 0x100000"
  "apart 0 (of_nat 0x100000) 0x100000 (of_nat 0x300000) 0x100000" "used_offset < unat (0x100000 :: u64)"
  "um_nregions (vc_memory hs_client) = 2"
  "um_regions (vc_memory hs_client) = [ring_region 0x100000 0x100000, ring_region 0x300000 0x100000]"
  "length (vs_vring hs_server) = 2"
  "sv_regions (vs_memory hs_server) =
      \<lparr>sr_guest_phys_addr = 0, sr_memory_size = 0, sr_userspace_addr = 0, sr_mmap_addr = 0\<rparr> #
      \<lparr>sr_guest_phys_addr = 0, sr_memory_size = 0, sr_userspace_addr = 0, sr_mmap_addr = 0\<rparr> #
      replicate 6 \<lparr>sr_guest_phys_addr = 0, sr_memory_size = 0, sr_userspace_addr = 0, sr_mmap_addr = 0\<rparr>"
  "sm_used (vs_shm hs_server) a = Some \<lparr>us_idx = 4, us_ring = []\<rparr>"
proof -
  show "proper (of_nat 0x100000) 0x100000" "proper (of_nat 0x300000) 0x100000"
    "apart 0 (of_nat 0x100000) 0x100000 (of_nat 0x300000) 0x100000" "used_offset < unat (0x100000 :: u64)"
    by (simp_all add: proper_def apart_def used_offset_def)
  show "um_nregions (vc_memory hs_client) = 2"
    "um_regions (vc_memory hs_client) = [ring_region 0x100000 0x100000, ring_region 0x300000 0x100000]"
    by (simp_all add: hs_client_def)
  show "sv_regions (vs_memory hs_server) =
      \<lparr>sr_guest_phys_addr = 0, sr_memory_size = 0, sr_userspace_addr = 0, sr_mmap_addr = 0\<rparr> #
      \<lparr>sr_guest_phys_addr = 0, sr_memory_size = 0, sr_userspace_addr = 0, sr_mmap_addr = 0\<rparr> #
      replicate 6 \<lparr>sr_guest_phys_addr = 0, sr_memory_size = 0, sr_userspace_addr = 0, sr_mmap_addr = 0\<rparr>"
    by (simp add: hs_server_def new_vhost_server_def eval_nat_numeral)
  show "length (vs_vring hs_server) = 2" "sm_used (vs_shm hs_server) a = Some \<lparr>us_idx = 4, us_ring = []\<rparr>"
    by (simp_all add: hs_server_def new_vhost_server_def VHOST_CLIENT_VRING_NUM_def)
qed

theorem vhost_handshake_witness:
  "\<exists>c' s'. init_vhost_client (server_channel hs_mmap [] 3) [5, 6] [(0x100000, 7, 8), (0x300000, 9, 10)] hs_client ({0, 1, 2, 5, 6}, hs_server) =
      Some (c', {0, 1, 2, 5, 6, 7, 8, 9, 10}, s') \<and>
    vs_vring s' = [server_ring (0x100000, 7, 8) 0x1000000 4, server_ring (0x300000, 9, 10) 0x2000000 4]"
  using vhost_handshake [OF hs_setup(5,6) _ _ _ _ _ _ hs_setup(7,8,9,9,1-4), of 5 6 7 8 9 10 hs_mmap "[]" 3 "{0, 1, 2, 5, 6}"]
  by (auto simp: hs_mmap_def insert_commute)

section \<open>A packet through the connection\<close>

text \<open>The region of \<open>n\<close> bytes at \<open>B\<close> of the client is the one at \<open>M\<close> of the server.\<close>

definition shares :: "nat \<Rightarrow> nat \<Rightarrow> nat \<Rightarrow> shm \<Rightarrow> shm \<Rightarrow> bool" where
  "shares B M n csh ssh \<longleftrightarrow>
     (\<forall>k<n. sm_desc ssh (M + k) = sm_desc csh (B + k) \<and> sm_avail ssh (M + k) = sm_avail csh (B + k) \<and>
            sm_used ssh (M + k) = sm_used csh (B + k) \<and> sm_mem ssh (M + k) = sm_mem csh (B + k))"

lemma shares_mem_rd:
  assumes "shares B M n csh ssh" "k + l \<le> n"
  shows "mem_rd (M + k) l (sm_mem ssh) = mem_rd (B + k) l (sm_mem csh)"
proof -
  have "sm_mem ssh (M + k + i) = sm_mem csh (B + k + i)" if "i < l" for i
  proof -
    have "k + i < n" using that assms(2) by simp
    then show ?thesis using assms(1) unfolding shares_def by (metis add.assoc)
  qed
  then show ?thesis by (simp add: mem_rd_def cong: map_cong)
qed

text \<open>The two sides of the ring for packets to the server, at the same offsets of the region.\<close>

definition tx_rings :: "nat \<Rightarrow> nat \<Rightarrow> Vring \<Rightarrow> Vring \<Rightarrow> bool" where
  "tx_rings B M v w \<longleftrightarrow>
     vr_desc v = B + desc_offset \<and> vr_avail v = B + avail_offset \<and> vr_used v = B + used_offset \<and>
     vr_desc w = M + desc_offset \<and> vr_avail w = M + avail_offset \<and> vr_used w = M + used_offset \<and> vr_num w = vr_num v"

lemma packet_through:
  assumes rings: "nth_opt (vc_vring c) VHOST_CLIENT_VRING_IDX_TX = Some v" "vring_at VHOST_CLIENT_VRING_IDX_TX s = Some w"
      "tx_rings B M v w" "0 < M"
    and driver: "driver v (vc_shm c) desc avail (x # free)" "length p \<le> unat (d_len (desc ! x))" "10 + length p < 1518"
      "owns None (vc_shm c) (desc ! x) (10 + length p)"
    and used: "sm_used (vc_shm c) (vr_used v) = Some used" "unat (vr_num v) \<le> length (us_ring used)"
    and caught: "vr_last_avail_idx w = av_idx avail"
    and addr: "unat (d_addr (desc ! x)) = B + k" "unat (map_guest_addr (vs_memory s) (d_addr (desc ! x))) = M + k"
      "k + (10 + length p) \<le> n" "used_offset < n"
  shows "\<exists>c'. send_packet p c = Some (0, True, c') \<and>
    (shares B M n (vc_shm c') (vs_shm s) \<longrightarrow> (\<exists>s'. kick_server 8 fd s = Some s' \<and> vs_buffer s' = p))"
proof -
  let ?desc = "desc[x := put_desc (desc ! x) (length p)]"
  let ?i = "unat (av_idx avail) mod unat (vr_num v)"
  let ?avail = "avail\<lparr>av_ring := (av_ring avail)[?i := of_nat x], av_idx := av_idx avail + 1\<rparr>"
  obtain mem where put: "put_vring None v p (vc_shm c) = Some (0, v\<lparr>vr_last_avail_idx := d_next (desc ! x)\<rparr>,
        (vc_shm c)\<lparr>sm_desc := (sm_desc (vc_shm c))(vr_desc v \<mapsto> ?desc),
                  sm_avail := (sm_avail (vc_shm c))(vr_avail v \<mapsto> ?avail), sm_mem := mem\<rparr>)"
    and mem: "mem_rd (map_addr None (d_addr (desc ! x))) (10 + length p) mem = Some (replicate 10 0 @ p)"
    using put_vring_spec [OF driver(1,2,4)] by blast
  let ?sh = "(vc_shm c)\<lparr>sm_desc := (sm_desc (vc_shm c))(vr_desc v \<mapsto> ?desc),
                  sm_avail := (sm_avail (vc_shm c))(vr_avail v \<mapsto> ?avail), sm_mem := mem\<rparr>"
  let ?c = "c\<lparr>vc_vring := (vc_vring c)[VHOST_CLIENT_VRING_IDX_TX := v\<lparr>vr_last_avail_idx := d_next (desc ! x)\<rparr>], vc_shm := ?sh\<rparr>"
  have send: "send_packet p c = Some (0, True, ?c)" using rings(1) put by (simp add: send_packet_def)
  have x: "x < length desc" "x < 65536" "0 < unat (vr_num v)" "unat (vr_num v) \<le> length (av_ring avail)"
    using driver(1) by (auto simp: driver_def)
  have i: "?i < length (av_ring avail)" using x(3,4) mod_less_divisor [OF x(3)] by (metis less_le_trans)
  have off: "desc_offset < n" "avail_offset < n" using addr(4) by (simp_all add: desc_offset_def avail_offset_def used_offset_def)
  have "\<exists>s'. kick_server 8 fd s = Some s' \<and> vs_buffer s' = p" if sh: "shares B M n ?sh (vs_shm s)"
  proof -
    have d: "sm_desc (vs_shm s) (vr_desc w) = Some ?desc" "sm_avail (vs_shm s) (vr_avail w) = Some ?avail"
        "sm_used (vs_shm s) (vr_used w) = Some used"
      using sh off addr(4) used(1) rings(3) unfolding shares_def tx_rings_def by simp_all
    have dev: "device w (vs_shm s) ?desc ?avail used"
      using d x(3,4) used(2) rings(3) by (simp add: device_def tx_rings_def)
    have idx: "av_idx ?avail = vr_last_avail_idx w + 1" using caught by simp
    have pos: "av_ring ?avail ! (unat (vr_last_avail_idx w) mod unat (vr_num w)) = of_nat x"
      using i caught rings(3) by (simp add: tx_rings_def)
    have a: "map_addr (Some (map_guest_addr (vs_memory s))) (d_addr (desc ! x)) = M + k"
      using addr(2) by (simp add: map_addr_def)
    have "mem_rd (M + k) (10 + length p) (sm_mem (vs_shm s)) = Some (replicate 10 0 @ p)"
      using shares_mem_rd [OF sh addr(3)] mem addr(1) by (simp add: map_addr_def)
    then have rdy: "ready (Some (map_guest_addr (vs_memory s))) ?desc (sm_mem (vs_shm s)) (of_nat x) (replicate 10 0 @ p)"
      by (intro put_desc_ready [OF x(1,2) driver(3) a])
    have h: "avail_handler_server (Some (drop 10 (replicate 10 0 @ p))) (vs_buffer s, vs_high s) = Some (p, max (vs_high s) (length p))"
      by (simp add: avail_handler_server_def)
    have "vr_desc w \<noteq> 0" using rings(3,4) by (simp add: tx_rings_def)
    then show ?thesis
      using avail_vring_single [where h = avail_handler_server and ctx = "(vs_buffer s, vs_high s)" and p = "replicate 10 0 @ p",
          OF dev idx pos rdy h] rings(2)
      by (simp add: kick_server_def poll_avail_vring_def)
  qed
  with send show ?thesis by simp
qed

text \<open>C19: A packet that the client sends arrives in the server's buffer: it is written into the shared
  memory at the client's addresses, and when the server, whose mapping shows the same memory, is
  kicked, it finds the packet through its own addresses.\<close>

theorem client_packet_reaches_server:
  assumes "nth_opt (vc_vring c) VHOST_CLIENT_VRING_IDX_TX = Some v" "vring_at VHOST_CLIENT_VRING_IDX_TX s = Some w"
      "tx_rings B M v w" "0 < M"
    and "driver v (vc_shm c) desc avail (x # free)" "length p \<le> unat (d_len (desc ! x))" "10 + length p < 1518"
      "owns None (vc_shm c) (desc ! x) (10 + length p)"
    and "sm_used (vc_shm c) (vr_used v) = Some used" "unat (vr_num v) \<le> length (us_ring used)"
    and "vr_last_avail_idx w = av_idx avail"
    and "unat (d_addr (desc ! x)) = B + k" "unat (map_guest_addr (vs_memory s) (d_addr (desc ! x))) = M + k"
      "k + (10 + length p) \<le> n" "used_offset < n"
  shows "\<exists>c'. send_packet p c = Some (0, True, c') \<and>
    (shares B M n (vc_shm c') (vs_shm s) \<longrightarrow> (\<exists>s'. kick_server 8 fd s = Some s' \<and> vs_buffer s' = p))"
  by (rule packet_through [OF assms])

definition ps_ring :: "nat \<Rightarrow> Vring" where
  "ps_ring B = \<lparr>vr_kickfd = 7, vr_callfd = 8, vr_desc = B + desc_offset, vr_avail = B + avail_offset,
     vr_used = B + used_offset, vr_num = 2, vr_last_avail_idx = 0, vr_last_used_idx = 0\<rparr>"

definition ps_desc :: vring_desc where
  "ps_desc = \<lparr>d_addr = 0x1f0000, d_len = 60, d_flags = 2, d_next = VRING_IDX_NONE\<rparr>"

definition ps_used :: vring_used where
  "ps_used = \<lparr>us_idx = 0, us_ring = replicate 2 \<lparr>ue_id = 0, ue_len = 0\<rparr>\<rparr>"

definition ps_client :: vhost_client where
  "ps_client = hs_client\<lparr>vc_vring := [ps_ring 0x100000, ps_ring 0x100000],
     vc_shm := \<lparr>sm_desc = [0x100000 + desc_offset \<mapsto> [ps_desc]],
       sm_avail = [0x100000 + avail_offset \<mapsto> \<lparr>av_idx = 0, av_ring = [0, 0]\<rparr>],
       sm_used = [0x100000 + used_offset \<mapsto> ps_used],
       sm_mem = (\<lambda>a. if 0x1f0000 \<le> a \<and> a < 0x1f003c then Some 0 else None)\<rparr>\<rparr>"

definition ps_view :: "shm \<Rightarrow> shm" where
  "ps_view sh = \<lparr>sm_desc = (\<lambda>a. if 0x200000 \<le> a then sm_desc sh (a - 0x200000 + 0x100000) else None),
         sm_avail = (\<lambda>a. if 0x200000 \<le> a then sm_avail sh (a - 0x200000 + 0x100000) else None),
         sm_used = (\<lambda>a. if 0x200000 \<le> a then sm_used sh (a - 0x200000 + 0x100000) else None),
         sm_mem = (\<lambda>a. if 0x200000 \<le> a then sm_mem sh (a - 0x200000 + 0x100000) else None)\<rparr>"

definition ps_server :: "shm \<Rightarrow> vhost_server" where
  "ps_server sh = hs_server\<lparr>vs_vring := [ps_ring 0x200000, ps_ring 0x200000], vs_shm := ps_view sh,
     vs_memory := \<lparr>sv_nregions = 1, sv_regions =
       [\<lparr>sr_guest_phys_addr = 0x100000, sr_memory_size = 0x100000, sr_userspace_addr = 0x100000, sr_mmap_addr = 0x200000\<rparr>]\<rparr>\<rparr>"

lemma ps_shares: "shares 0x100000 0x200000 n sh (vs_shm (ps_server sh))"
  by (simp add: shares_def ps_server_def ps_view_def add.commute)

lemma ps_driver: "driver (ps_ring 0x100000) (vc_shm ps_client) [ps_desc] \<lparr>av_idx = 0, av_ring = [0, 0]\<rparr> [0]"
  by (simp add: driver_def ps_ring_def ps_client_def ps_desc_def)

lemma ps_rings:
  "nth_opt (vc_vring ps_client) VHOST_CLIENT_VRING_IDX_TX = Some (ps_ring 0x100000)"
  "vring_at VHOST_CLIENT_VRING_IDX_TX (ps_server sh) = Some (ps_ring 0x200000)"
  "tx_rings 0x100000 0x200000 (ps_ring 0x100000) (ps_ring 0x200000)"
  by (simp_all add: ps_client_def ps_server_def nth_opt_def vring_at_def VHOST_CLIENT_VRING_IDX_TX_def tx_rings_def ps_ring_def)

theorem client_packet_reaches_server_witness:
  "\<exists>c' s'. send_packet [1, 2, 3] ps_client = Some (0, True, c') \<and>
     kick_server 8 7 (ps_server (vc_shm c')) = Some s' \<and> vs_buffer s' = [1, 2, 3]"
proof -
  have o: "owns None (vc_shm ps_client) ([ps_desc] ! 0) (10 + length [1, 2, 3 :: u8])"
    by (simp add: owns_def ps_client_def ps_desc_def map_addr_def)
  have u: "sm_used (vc_shm ps_client) (vr_used (ps_ring 0x100000)) = Some ps_used"
    by (simp add: ps_client_def ps_ring_def)
  have m: "unat (d_addr ([ps_desc] ! 0)) = 0x100000 + 0xf0000"
    "unat (map_guest_addr (vs_memory (ps_server sh)) (d_addr ([ps_desc] ! 0))) = 0x200000 + 0xf0000" for sh
    by (simp_all add: ps_desc_def ps_server_def map_guest_addr_def)
  have go: "\<exists>c'. send_packet [1, 2, 3] ps_client = Some (0, True, c') \<and>
      (shares 0x100000 0x200000 0x100000 (vc_shm c') (vs_shm (ps_server sh)) \<longrightarrow>
        (\<exists>s'. kick_server 8 7 (ps_server sh) = Some s' \<and> vs_buffer s' = [1, 2, 3]))" for sh
    by (rule client_packet_reaches_server [OF ps_rings(1,2,3) _ ps_driver _ _ o u _ _ m])
       (simp_all add: ps_desc_def ps_used_def ps_ring_def used_offset_def)
  then obtain c' where "send_packet [1, 2, 3] ps_client = Some (0, True, c')" by blast
  with go [of "vc_shm c'"] ps_shares show ?thesis by auto
qed

end
