(* ===== verification/Virtio_Backend.thy ===== *)
theory Virtio_Backend
  imports Vring Address_Map
begin

text \<open>
  The vhost-user backend \<^verbatim>\<open>virtio-vhost/vhost.c\<close>: the messages of the virtual machine monitor, the
  translation of guest addresses, and the transfer of packets between the rings of the guest and
  a TAP device. The union of a message is a sequence of bytes, read in the host's order. The
  tables of a ring are those of \<open>Vring\<close>; the NULL address cannot be accessed. Outside are
  \<open>mmap\<close>, the success and the contents of allocations, and the results of system calls.
\<close>

section \<open>State\<close>

definition VIRTIO_MAX_REGION :: nat where "VIRTIO_MAX_REGION = 8"
definition MAX_MULTI_QUEUE :: nat where "MAX_MULTI_QUEUE = 256"
definition MAX_PKT_BURST :: nat where "MAX_PKT_BURST = 256"
definition MBUF_DATA_LENGTH :: nat where "MBUF_DATA_LENGTH = 1024"
definition virtio_net_hdr_size :: nat where "virtio_net_hdr_size = 12"

record virtqueue =
  q_desc :: nat
  q_avail :: nat
  q_used :: nat
  q_log :: nat
  q_kickfd :: int
  q_callfd :: int
  q_num :: u32
  q_last_used_idx :: u32

record vhost_user_region =
  rg_guest_address :: u64
  rg_size :: u64
  rg_user_address :: u64
  rg_mmap_offset :: u64

record vhost_user_mem =
  mt_nregions :: u32
  mt_regions :: "vhost_user_region list"

record virtio_dev =
  dv_vq :: "virtqueue list"
  dv_mem :: "vhost_user_mem option"

definition zero_queue :: virtqueue where
  "zero_queue = \<lparr>q_desc = 0, q_avail = 0, q_used = 0, q_log = 0, q_kickfd = 0, q_callfd = 0, q_num = 0,
     q_last_used_idx = 0\<rparr>"

definition zero_mem :: vhost_user_mem where
  "zero_mem = \<lparr>mt_nregions = 0, mt_regions = replicate VIRTIO_MAX_REGION
     \<lparr>rg_guest_address = 0, rg_size = 0, rg_user_address = 0, rg_mmap_offset = 0\<rparr>\<rparr>"

text \<open>The globals, and the memory as the backend sees it.\<close>

record backend =
  be_features :: u64
  be_dev :: "virtio_dev option"
  be_shm :: shm

definition VHOST_SUPPORTED_FEATURES :: u64 where
  "VHOST_SUPPORTED_FEATURES = push_bit 32 1 OR push_bit 1 1 OR push_bit 7 1 OR push_bit 8 1"

definition init_backend :: "shm \<Rightarrow> backend" where
  "init_backend sh = \<lparr>be_features = VHOST_SUPPORTED_FEATURES, be_dev = None, be_shm = sh\<rparr>"

section \<open>Messages\<close>

definition le64 :: "u64 \<Rightarrow> bytes" where
  "le64 w = le32 (ucast w) @ le32 (ucast (drop_bit 32 w))"

definition of_le64 :: "bytes \<Rightarrow> u64" where
  "of_le64 bs = ucast (of_le32 (take 4 bs)) OR push_bit 32 (ucast (of_le32 (drop 4 bs)))"

definition rd64 :: "nat \<Rightarrow> bytes \<Rightarrow> u64 option" where
  "rd64 off buf = map_option of_le64 (rd off 8 buf)"

text \<open>\<open>ms_union\<close> has 264 bytes, \<open>ms_fds\<close> has \<open>VIRTIO_MAX_REGION\<close> elements.\<close>

record vhost_user_msg =
  ms_request :: u32
  ms_flags :: u32
  ms_size :: u32
  ms_union :: bytes
  ms_fds :: "int list"

definition union_size :: nat where "union_size = 264"

definition msg_num :: "vhost_user_msg \<Rightarrow> u64 option" where "msg_num m = rd64 0 (ms_union m)"
definition state_index :: "vhost_user_msg \<Rightarrow> u32 option" where "state_index m = rd32 0 (ms_union m)"
definition state_num :: "vhost_user_msg \<Rightarrow> u32 option" where "state_num m = rd32 4 (ms_union m)"
definition addr_desc :: "vhost_user_msg \<Rightarrow> u64 option" where "addr_desc m = rd64 8 (ms_union m)"
definition addr_used :: "vhost_user_msg \<Rightarrow> u64 option" where "addr_used m = rd64 16 (ms_union m)"
definition addr_avail :: "vhost_user_msg \<Rightarrow> u64 option" where "addr_avail m = rd64 24 (ms_union m)"
definition mem_nregions :: "vhost_user_msg \<Rightarrow> u32 option" where "mem_nregions m = rd32 0 (ms_union m)"

definition mem_region :: "nat \<Rightarrow> vhost_user_msg \<Rightarrow> vhost_user_region option" where
  "mem_region i m =
     do { g \<leftarrow> rd64 (8 + 32 * i) (ms_union m);
          s \<leftarrow> rd64 (16 + 32 * i) (ms_union m);
          u \<leftarrow> rd64 (24 + 32 * i) (ms_union m);
          o' \<leftarrow> rd64 (32 + 32 * i) (ms_union m);
          Some \<lparr>rg_guest_address = g, rg_size = s, rg_user_address = u, rg_mmap_offset = o'\<rparr> }"

text \<open>The request codes that have an effect.\<close>

definition GET_FEATURES :: u32 where "GET_FEATURES = 1"
definition SET_FEATURES :: u32 where "SET_FEATURES = 2"
definition SET_OWNER :: u32 where "SET_OWNER = 3"
definition SET_MEM_TABLE :: u32 where "SET_MEM_TABLE = 5"
definition SET_VRING_NUM :: u32 where "SET_VRING_NUM = 8"
definition SET_VRING_ADDR :: u32 where "SET_VRING_ADDR = 9"
definition SET_VRING_BASE :: u32 where "SET_VRING_BASE = 10"
definition SET_VRING_KICK :: u32 where "SET_VRING_KICK = 12"
definition SET_VRING_CALL :: u32 where "SET_VRING_CALL = 13"

section \<open>Address translation\<close>

text \<open>The loop over the first \<open>n\<close> regions; the array ends with the list.\<close>

fun hva_loop ::
  "(vhost_user_region \<Rightarrow> u64) \<Rightarrow> (vhost_user_region \<Rightarrow> u64 \<Rightarrow> u64) \<Rightarrow> nat \<Rightarrow> vhost_user_region list \<Rightarrow> u64 \<Rightarrow> u64 option" where
  "hva_loop base hit 0 rs a = Some 0"
| "hva_loop base hit (Suc n) [] a = None"
| "hva_loop base hit (Suc n) (r # rs) a =
     (if a \<le> base r + rg_size r \<and> a \<ge> base r then Some (hit r a) else hva_loop base hit n rs a)"

definition gpa_loop :: "vhost_user_mem \<Rightarrow> u64 \<Rightarrow> u64 option" where
  "gpa_loop m a = hva_loop rg_guest_address (\<lambda>r a. a + rg_mmap_offset r) (unat (mt_nregions m)) (mt_regions m) a"

definition gva_loop :: "vhost_user_mem \<Rightarrow> u64 \<Rightarrow> u64 option" where
  "gva_loop m a = hva_loop rg_user_address
     (\<lambda>r a. a + rg_mmap_offset r + rg_guest_address r - rg_user_address r) (unat (mt_nregions m)) (mt_regions m) a"

definition gpa_to_hva :: "virtio_dev \<Rightarrow> u64 \<Rightarrow> u64 option" where
  "gpa_to_hva dev gpa_addr = Option.bind (dv_mem dev) (\<lambda>m. gpa_loop m gpa_addr)"

definition gva_to_hva :: "virtio_dev \<Rightarrow> u64 \<Rightarrow> u64 option" where
  "gva_to_hva dev gva_addr = Option.bind (dv_mem dev) (\<lambda>m. gva_loop m gva_addr)"

definition ROUNDUP :: "u64 \<Rightarrow> u64 \<Rightarrow> u64" where
  "ROUNDUP x y = (x + y - 1) AND NOT (y - 1)"

text \<open>\<open>mmap fd size\<close> is the address of the new mapping.\<close>

fun mem_regions_loop ::
  "(int \<Rightarrow> u64 \<Rightarrow> u64) \<Rightarrow> vhost_user_msg \<Rightarrow> nat \<Rightarrow> nat \<Rightarrow> vhost_user_region list \<Rightarrow> vhost_user_region list option" where
  "mem_regions_loop mmap msg i 0 rs = Some rs"
| "mem_regions_loop mmap msg i (Suc n) rs =
     do { r \<leftarrow> mem_region i msg;
          fd \<leftarrow> nth_opt (ms_fds msg) i;
          let mmap_addr = mmap fd (ROUNDUP (rg_size r + rg_mmap_offset r) (push_bit 20 2));
          rs \<leftarrow> upd_opt rs i (r\<lparr>rg_mmap_offset := mmap_addr + rg_mmap_offset r - rg_guest_address r\<rparr>);
          mem_regions_loop mmap msg (i + 1) n rs }"

definition vhost_user_set_mem_table ::
  "(int \<Rightarrow> u64 \<Rightarrow> u64) \<Rightarrow> bool \<Rightarrow> vhost_user_msg \<Rightarrow> virtio_dev \<Rightarrow> virtio_dev option" where
  "vhost_user_set_mem_table mmap malloc_ok msg dev =
     do { mem \<leftarrow> (case dv_mem dev of Some m \<Rightarrow> Some m | None \<Rightarrow> if malloc_ok then Some zero_mem else None);
          n \<leftarrow> mem_nregions msg;
          rs \<leftarrow> mem_regions_loop mmap msg 0 (unat n) (mt_regions mem);
          Some (dev\<lparr>dv_mem := Some \<lparr>mt_nregions = n, mt_regions = rs\<rparr>\<rparr>) }"

section \<open>The message handler\<close>

text \<open>The result is the reply, the descriptors that are closed, and the new state.\<close>

type_synonym handled = "(bytes option \<times> int list \<times> backend) option"

definition features_reply :: "vhost_user_msg \<Rightarrow> backend \<Rightarrow> handled" where
  "features_reply msg s =
     (let flags = ms_flags msg AND NOT 3;
          flags = flags OR 1;
          flags = flags OR push_bit 2 1
      in Some (Some (le32 (ms_request msg) @ le32 flags @ le32 8 @ le64 (be_features s)), [], s))"

definition set_features :: "vhost_user_msg \<Rightarrow> backend \<Rightarrow> handled" where
  "set_features msg s = do { f \<leftarrow> msg_num msg; Some (None, [], s\<lparr>be_features := f\<rparr>) }"

text \<open>A new device each time; the old one is lost.\<close>

definition set_owner :: "bool \<Rightarrow> backend \<Rightarrow> handled" where
  "set_owner malloc_ok s =
     (if malloc_ok
      then Some (None, [], s\<lparr>be_dev := Some \<lparr>dv_vq = replicate MAX_MULTI_QUEUE zero_queue, dv_mem = None\<rparr>\<rparr>)
      else None)"

definition set_memtable :: "(int \<Rightarrow> u64 \<Rightarrow> u64) \<Rightarrow> bool \<Rightarrow> vhost_user_msg \<Rightarrow> backend \<Rightarrow> handled" where
  "set_memtable mmap malloc_ok msg s =
     do { dev \<leftarrow> be_dev s;
          dev \<leftarrow> vhost_user_set_mem_table mmap malloc_ok msg dev;
          Some (None, [], s\<lparr>be_dev := Some dev\<rparr>) }"

definition queue_upd :: "nat \<Rightarrow> (virtqueue \<Rightarrow> virtqueue) \<Rightarrow> virtio_dev \<Rightarrow> virtio_dev option" where
  "queue_upd i f dev =
     do { q \<leftarrow> nth_opt (dv_vq dev) i; Some (dev\<lparr>dv_vq := (dv_vq dev)[i := f q]\<rparr>) }"

definition set_queue_num :: "vhost_user_msg \<Rightarrow> backend \<Rightarrow> handled" where
  "set_queue_num msg s =
     do { dev \<leftarrow> be_dev s;
          i \<leftarrow> state_index msg;
          n \<leftarrow> state_num msg;
          dev \<leftarrow> queue_upd (unat i) (\<lambda>q. q\<lparr>q_num := n\<rparr>) dev;
          Some (None, [], s\<lparr>be_dev := Some dev\<rparr>) }"

definition set_queue_base :: "vhost_user_msg \<Rightarrow> backend \<Rightarrow> handled" where
  "set_queue_base msg s =
     do { dev \<leftarrow> be_dev s;
          i \<leftarrow> state_index msg;
          n \<leftarrow> state_num msg;
          dev \<leftarrow> queue_upd (unat i) (\<lambda>q. q\<lparr>q_last_used_idx := n\<rparr>) dev;
          Some (None, [], s\<lparr>be_dev := Some dev\<rparr>) }"

text \<open>The tables of a queue; the NULL pointer has none.\<close>

definition desc_of :: "virtqueue \<Rightarrow> shm \<Rightarrow> vring_desc list option" where
  "desc_of q sh = (if q_desc q = NULL then None else sm_desc sh (q_desc q))"

definition avail_of :: "virtqueue \<Rightarrow> shm \<Rightarrow> vring_avail option" where
  "avail_of q sh = (if q_avail q = NULL then None else sm_avail sh (q_avail q))"

definition used_of :: "virtqueue \<Rightarrow> shm \<Rightarrow> vring_used option" where
  "used_of q sh = (if q_used q = NULL then None else sm_used sh (q_used q))"

text \<open>The last output statement reads the first descriptor.\<close>

definition set_queue_addr :: "vhost_user_msg \<Rightarrow> backend \<Rightarrow> handled" where
  "set_queue_addr msg s =
     do { dev \<leftarrow> be_dev s;
          i \<leftarrow> state_index msg;
          d \<leftarrow> addr_desc msg \<bind> gva_to_hva dev;
          a \<leftarrow> addr_avail msg \<bind> gva_to_hva dev;
          u \<leftarrow> addr_used msg \<bind> gva_to_hva dev;
          dev \<leftarrow> queue_upd (unat i) (\<lambda>q. q\<lparr>q_desc := unat d, q_avail := unat a, q_used := unat u\<rparr>) dev;
          q \<leftarrow> nth_opt (dv_vq dev) (unat i);
          desc \<leftarrow> desc_of q (be_shm s);
          nth_opt desc 0;
          Some (None, [], s\<lparr>be_dev := Some dev\<rparr>) }"

definition vring_fd :: "vhost_user_msg \<Rightarrow> (nat \<times> int) option" where
  "vring_fd msg =
     do { num \<leftarrow> msg_num msg;
          fd0 \<leftarrow> nth_opt (ms_fds msg) 0;
          Some (unat (num AND 0xff), if num AND 0x100 \<noteq> 0 then - 1 else fd0) }"

definition set_queue_kick :: "vhost_user_msg \<Rightarrow> backend \<Rightarrow> handled" where
  "set_queue_kick msg s =
     do { dev \<leftarrow> be_dev s;
          (i, fd) \<leftarrow> vring_fd msg;
          q \<leftarrow> nth_opt (dv_vq dev) i;
          dev \<leftarrow> queue_upd i (\<lambda>q. q\<lparr>q_kickfd := fd\<rparr>) dev;
          Some (None, if q_kickfd q > 0 then [q_kickfd q] else [], s\<lparr>be_dev := Some dev\<rparr>) }"

definition set_queue_call :: "vhost_user_msg \<Rightarrow> backend \<Rightarrow> handled" where
  "set_queue_call msg s =
     do { dev \<leftarrow> be_dev s;
          (i, fd) \<leftarrow> vring_fd msg;
          q \<leftarrow> nth_opt (dv_vq dev) i;
          dev \<leftarrow> queue_upd i (\<lambda>q. q\<lparr>q_callfd := fd\<rparr>) dev;
          Some (None, if q_callfd q > 0 then [q_callfd q] else [], s\<lparr>be_dev := Some dev\<rparr>) }"

definition vhost_user_msg_handler ::
  "(int \<Rightarrow> u64 \<Rightarrow> u64) \<Rightarrow> bool \<Rightarrow> vhost_user_msg \<Rightarrow> backend \<Rightarrow> handled" where
  "vhost_user_msg_handler mmap malloc_ok msg s =
     (let r = ms_request msg
      in if r = GET_FEATURES then features_reply msg s
         else if r = SET_FEATURES then set_features msg s
         else if r = SET_OWNER then set_owner malloc_ok s
         else if r = SET_MEM_TABLE then set_memtable mmap malloc_ok msg s
         else if r = SET_VRING_NUM then set_queue_num msg s
         else if r = SET_VRING_ADDR then set_queue_addr msg s
         else if r = SET_VRING_BASE then set_queue_base msg s
         else if r = SET_VRING_KICK then set_queue_kick msg s
         else if r = SET_VRING_CALL then set_queue_call msg s
         else Some (None, [], s))"

text \<open>The loop of \<open>main\<close> receives into a zeroed message: the header, the descriptors of the control
  message (which always fill the array), and then up to \<open>size\<close> bytes into the union, whatever arrived.
  Bytes behind the union are a fault.\<close>

definition read_message :: "u32 \<times> u32 \<times> u32 \<Rightarrow> int list option \<Rightarrow> bytes \<Rightarrow> vhost_user_msg option" where
  "read_message hdr fds body =
     (case hdr of (request, flags, len) \<Rightarrow>
        do { u \<leftarrow> wr 0 (take (unat len) body) (replicate union_size 0);
             Some \<lparr>ms_request = request, ms_flags = flags, ms_size = len, ms_union = u,
                   ms_fds = (case fds of Some xs \<Rightarrow> xs | None \<Rightarrow> replicate VIRTIO_MAX_REGION 0)\<rparr> })"

fun serve_messages ::
  "(int \<Rightarrow> u64 \<Rightarrow> u64) \<Rightarrow> bool \<Rightarrow> ((u32 \<times> u32 \<times> u32) \<times> int list option \<times> bytes) list \<Rightarrow> backend \<Rightarrow> backend option" where
  "serve_messages mmap malloc_ok [] s = Some s"
| "serve_messages mmap malloc_ok ((hdr, fds, body) # ms) s =
     do { msg \<leftarrow> read_message hdr fds body;
          (_, _, s) \<leftarrow> vhost_user_msg_handler mmap malloc_ok msg s;
          serve_messages mmap malloc_ok ms s }"

section \<open>Packets from the guest\<close>

text \<open>\<open>mb_data\<close> has \<open>MBUF_DATA_LENGTH\<close> bytes.\<close>

record vhost_mbuf =
  mb_data :: bytes
  mb_len :: u32
  mb_hdr :: bytes

text \<open>The argument is what the two allocations contain, if they succeed.\<close>

definition vhost_new_mbuf :: "(bytes \<times> bytes) option \<Rightarrow> vhost_mbuf option" where
  "vhost_new_mbuf a =
     map_option (\<lambda>(h, d). \<lparr>mb_data = d, mb_len = of_nat MBUF_DATA_LENGTH, mb_hdr = h\<rparr>) a"

text \<open>Access at a translated address.\<close>

definition hva_rd :: "u64 \<Rightarrow> nat \<Rightarrow> shm \<Rightarrow> bytes option" where
  "hva_rd a n sh = (if a = 0 then None else mem_rd (unat a) n (sm_mem sh))"

definition hva_wr :: "u64 \<Rightarrow> bytes \<Rightarrow> shm \<Rightarrow> shm option" where
  "hva_wr a bs sh =
     (if a = 0 then None else do { mem \<leftarrow> mem_wr (unat a) bs (sm_mem sh); Some (sh\<lparr>sm_mem := mem\<rparr>) })"

definition copy_desc_to_mbuf :: "virtio_dev \<Rightarrow> virtqueue \<Rightarrow> vhost_mbuf \<Rightarrow> u16 \<Rightarrow> shm \<Rightarrow> vhost_mbuf option" where
  "copy_desc_to_mbuf dev q m desc_idx sh =
     do { desc \<leftarrow> desc_of q sh;
          d \<leftarrow> nth_opt desc (unat desc_idx);
          desc_addr \<leftarrow> gpa_to_hva dev (d_addr d);
          let desc_pkt_len = d_len d - of_nat virtio_net_hdr_size;
          hdr \<leftarrow> hva_rd desc_addr virtio_net_hdr_size sh;
          let m = m\<lparr>mb_hdr := hdr\<rparr>;
          if desc_pkt_len > 0 then
            do { bs \<leftarrow> hva_rd (desc_addr + of_nat virtio_net_hdr_size) (unat desc_pkt_len) sh;
                 data \<leftarrow> wr 0 bs (mb_data m);
                 Some (m\<lparr>mb_len := desc_pkt_len, mb_data := data\<rparr>) }
          else Some m }"

text \<open>The loop that reads \<open>n\<close> positions of the available ring, from \<open>last_used_idx + k\<close> on.\<close>

fun avail_indices :: "(u32 \<Rightarrow> u32 option) \<Rightarrow> vring_avail \<Rightarrow> u32 \<Rightarrow> nat \<Rightarrow> u16 list option" where
  "avail_indices slot avail k 0 = Some []"
| "avail_indices slot avail k (Suc n) =
     do { p \<leftarrow> slot k;
          x \<leftarrow> nth_opt (av_ring avail) (unat p);
          xs \<leftarrow> avail_indices slot avail (k + 1) n;
          Some (x # xs) }"

definition tx_slot :: "virtqueue \<Rightarrow> u32 \<Rightarrow> u32 option" where
  "tx_slot q k = (if q_num q = 0 then None else Some (k mod q_num q))"

definition put_used :: "virtqueue \<Rightarrow> u32 \<Rightarrow> vring_used_elem \<Rightarrow> shm \<Rightarrow> shm option" where
  "put_used q i e sh =
     do { used \<leftarrow> used_of q sh;
          ring \<leftarrow> upd_opt (us_ring used) (unat i) e;
          Some (sh\<lparr>sm_used := (sm_used sh)(q_used q \<mapsto> used\<lparr>us_ring := ring\<rparr>)\<rparr>) }"

definition add_used_idx :: "virtqueue \<Rightarrow> nat \<Rightarrow> shm \<Rightarrow> shm option" where
  "add_used_idx q n sh =
     do { used \<leftarrow> used_of q sh;
          Some (sh\<lparr>sm_used := (sm_used sh)(q_used q \<mapsto> used\<lparr>us_idx := us_idx used + of_nat n\<rparr>)\<rparr>) }"

text \<open>\<open>alloc i\<close> is the allocation for the packet \<open>i\<close>.\<close>

fun tx_loop ::
  "virtio_dev \<Rightarrow> (nat \<Rightarrow> (bytes \<times> bytes) option) \<Rightarrow> nat \<Rightarrow> u16 list \<Rightarrow> virtqueue \<Rightarrow> shm \<Rightarrow> (vhost_mbuf list \<times> virtqueue \<times> shm) option" where
  "tx_loop dev alloc i [] q sh = Some ([], q, sh)"
| "tx_loop dev alloc i (x # xs) q sh =
     (case vhost_new_mbuf (alloc i) of
        None \<Rightarrow> Some ([], q, sh)
      | Some m \<Rightarrow>
          do { m \<leftarrow> copy_desc_to_mbuf dev q m x sh;
               used_idx \<leftarrow> tx_slot q (q_last_used_idx q);
               let q = q\<lparr>q_last_used_idx := q_last_used_idx q + 1\<rparr>;
               sh \<leftarrow> put_used q used_idx \<lparr>ue_id = ucast x, ue_len = 0\<rparr> sh;
               (ms, q, sh) \<leftarrow> tx_loop dev alloc (i + 1) xs q sh;
               Some (m # ms, q, sh) })"

definition vhost_tx ::
  "(nat \<Rightarrow> (bytes \<times> bytes) option) \<Rightarrow> virtio_dev \<Rightarrow> nat \<Rightarrow> shm \<Rightarrow> (vhost_mbuf list \<times> virtio_dev \<times> shm) option" where
  "vhost_tx alloc dev npkts sh =
     (if dv_mem dev = None then Some ([], dev, sh)
      else
        do { q \<leftarrow> nth_opt (dv_vq dev) 1;
             if q_desc q = NULL \<or> q_avail q = NULL \<or> q_used q = NULL then Some ([], dev, sh)
             else if npkts > MAX_PKT_BURST then None
             else
               do { avail \<leftarrow> avail_of q sh;
                    xs \<leftarrow> avail_indices (tx_slot q) avail (q_last_used_idx q) npkts;
                    (ms, q, sh) \<leftarrow> tx_loop dev alloc 0 xs q sh;
                    sh \<leftarrow> add_used_idx q (length ms) sh;
                    Some (ms, dev\<lparr>dv_vq := (dv_vq dev)[1 := q]\<rparr>, sh) } })"

section \<open>Packets to the guest\<close>

definition copy_mbuf_to_desc :: "virtio_dev \<Rightarrow> virtqueue \<Rightarrow> vhost_mbuf \<Rightarrow> u32 \<Rightarrow> shm \<Rightarrow> shm option" where
  "copy_mbuf_to_desc dev q m desc_idx sh =
     do { desc \<leftarrow> desc_of q sh;
          d \<leftarrow> nth_opt desc (unat desc_idx);
          a \<leftarrow> gpa_to_hva dev (d_addr d);
          sh \<leftarrow> hva_wr a (replicate virtio_net_hdr_size 0) sh;
          if unat (d_len d) = virtio_net_hdr_size then
            do { d \<leftarrow> nth_opt desc (unat (d_next d));
                 a \<leftarrow> gpa_to_hva dev (d_addr d);
                 bs \<leftarrow> rd 0 (unat (mb_len m)) (mb_data m);
                 hva_wr a bs sh }
          else Some sh }"

definition rx_slot :: "virtqueue \<Rightarrow> u32 \<Rightarrow> u32 option" where
  "rx_slot q k = Some (k AND (q_num q - 1))"

text \<open>The position in the used ring is kept in 16 bits.\<close>

fun rx_loop :: "virtio_dev \<Rightarrow> vhost_mbuf list \<Rightarrow> u16 list \<Rightarrow> virtqueue \<Rightarrow> shm \<Rightarrow> (virtqueue \<times> shm) option" where
  "rx_loop dev ms [] q sh = Some (q, sh)"
| "rx_loop dev [] (x # xs) q sh = None"
| "rx_loop dev (m # ms) (x # xs) q sh =
     do { sh \<leftarrow> copy_mbuf_to_desc dev q m (ucast x) sh;
          used_idx \<leftarrow> rx_slot q (q_last_used_idx q);
          let q = q\<lparr>q_last_used_idx := q_last_used_idx q + 1\<rparr>;
          sh \<leftarrow> put_used q (ucast (ucast used_idx :: u16))
            \<lparr>ue_id = ucast x, ue_len = mb_len m + of_nat virtio_net_hdr_size\<rparr> sh;
          rx_loop dev ms xs q sh }"

text \<open>The result is the number of packets and whether the guest was signalled. The difference of the
  indices is computed with 32 bits and read as a signed number.\<close>

definition vhost_rx ::
  "nat \<Rightarrow> vhost_mbuf list \<Rightarrow> int \<Rightarrow> virtio_dev \<Rightarrow> shm \<Rightarrow> (int \<times> bool \<times> virtio_dev \<times> shm) option" where
  "vhost_rx qidx pkts npkts dev sh =
     do { q \<leftarrow> nth_opt (dv_vq dev) qidx;
          avail \<leftarrow> avail_of q sh;
          let navail = sint (ucast (av_idx avail) - q_last_used_idx q);
          let npkts = min npkts navail;
          let npkts = min npkts (int MAX_PKT_BURST);
          if npkts = 0 then Some (0, False, dev, sh)
          else
            do { xs \<leftarrow> avail_indices (rx_slot q) avail (q_last_used_idx q) (nat npkts);
                 (q, sh) \<leftarrow> rx_loop dev pkts xs q sh;
                 sh \<leftarrow> add_used_idx q (length xs) sh;
                 Some (int (length xs), True, dev\<lparr>dv_vq := (dv_vq dev)[qidx := q]\<rparr>, sh) } }"

section \<open>The packet loop\<close>

text \<open>The packet of \<open>read\<close> in a new buffer; a failed allocation ends the process.\<close>

definition recvfrom_peer :: "(bytes \<times> bytes) option \<Rightarrow> bytes option \<Rightarrow> vhost_mbuf option option" where
  "recvfrom_peer a got =
     do { m \<leftarrow> vhost_new_mbuf a;
          (case got of
             None \<Rightarrow> Some None
           | Some bs \<Rightarrow>
               do { data \<leftarrow> wr 0 bs (mb_data m);
                    Some (Some (m\<lparr>mb_data := data, mb_len := of_nat (length bs)\<rparr>)) }) }"

text \<open>What a round of the loop finds: the events, the allocations, whether the TAP device takes the
  packet, and what it delivers.\<close>

record vnet_events =
  ev_pollout :: bool
  ev_pollin :: bool
  ev_tx_alloc :: "(bytes \<times> bytes) option"
  ev_rx_alloc :: "(bytes \<times> bytes) option"
  ev_write_ok :: bool
  ev_read :: "bytes option"

definition vnet_rx :: "vnet_events \<Rightarrow> virtio_dev \<Rightarrow> shm \<Rightarrow> (virtio_dev \<times> shm) option" where
  "vnet_rx e dev sh =
     (if ev_pollin e then
        do { r \<leftarrow> recvfrom_peer (ev_rx_alloc e) (ev_read e);
             (case r of
                None \<Rightarrow> Some (dev, sh)
              | Some m \<Rightarrow> do { (_, _, dev, sh) \<leftarrow> vhost_rx 0 [m] 1 dev sh; Some (dev, sh) }) }
      else Some (dev, sh))"

text \<open>The first result is the packet that was handed to the TAP device. Before that the code prints the data of the
  mbuf as a string, which reads beyond its 1024 bytes when none of them is 0; the printing is left out.\<close>

definition vnet_round :: "vnet_events \<Rightarrow> backend \<Rightarrow> (bytes option \<times> backend) option" where
  "vnet_round e s =
     do { dev \<leftarrow> be_dev s;
          (if ev_pollout e then
             do { (ms, dev, sh) \<leftarrow> vhost_tx (\<lambda>_. ev_tx_alloc e) dev 1 (be_shm s);
                  (case ms of
                     [] \<Rightarrow> Some (None, s\<lparr>be_dev := Some dev, be_shm := sh\<rparr>)
                   | m # _ \<Rightarrow>
                       do { out \<leftarrow> rd 0 (unat (mb_len m)) (mb_data m);
                            if ev_write_ok e then
                              do { (dev, sh) \<leftarrow> vnet_rx e dev sh;
                                   Some (Some out, s\<lparr>be_dev := Some dev, be_shm := sh\<rparr>) }
                            else Some (None, s\<lparr>be_dev := Some dev, be_shm := sh\<rparr>) }) }
           else
             do { (dev, sh) \<leftarrow> vnet_rx e dev (be_shm s);
                  Some (None, s\<lparr>be_dev := Some dev, be_shm := sh\<rparr>) }) }"

end
