(* ===== verification/Virtio_Correct.thy ===== *)
theory Virtio_Correct
  imports Virtio_Backend Vring_Correct
begin

text \<open>
  Correctness of the backend \<^verbatim>\<open>virtio-vhost/vhost.c\<close>: the messages keep its tables in bounds, the memory
  table that arrives over the socket makes every guest address translate to its place in the
  mapping, packets pass between the rings and the TAP device, and where they do not.
\<close>

section \<open>Address translation\<close>

definition gpa_regions :: "vhost_user_mem \<Rightarrow> region list" where
  "gpa_regions m =
     map (\<lambda>r. (rg_guest_address r, rg_size r, rg_guest_address r + rg_mmap_offset r)) (take (unat (mt_nregions m)) (mt_regions m))"

definition gva_regions :: "vhost_user_mem \<Rightarrow> region list" where
  "gva_regions m =
     map (\<lambda>r. (rg_user_address r, rg_size r, rg_guest_address r + rg_mmap_offset r)) (take (unat (mt_nregions m)) (mt_regions m))"

definition mem_ok :: "vhost_user_mem \<Rightarrow> bool" where
  "mem_ok m \<longleftrightarrow> unat (mt_nregions m) \<le> VIRTIO_MAX_REGION \<and> length (mt_regions m) = VIRTIO_MAX_REGION"

lemma hva_loop_first_match:
  assumes "n \<le> length rs" "\<And>r a. hit r a = h r + (a - base r)"
  shows "hva_loop base hit n rs a =
     Some (case find (\<lambda>(b, n, h). inside_closed b n a) (map (\<lambda>r. (base r, rg_size r, h r)) (take n rs)) of
        Some (b, n, h) \<Rightarrow> h + (a - b) | None \<Rightarrow> 0)"
  using assms(1)
proof (induction rs arbitrary: n)
  case (Cons r rs)
  then show ?case by (cases n) (auto simp: inside_closed_def assms(2))
qed simp

interpretation gpa: address_map mem_ok gpa_loop gpa_regions inside_closed 1
proof
  show "gpa_loop m a =
      Some (case find (\<lambda>(b, n, h). inside_closed b n a) (gpa_regions m) of Some (b, n, h) \<Rightarrow> h + (a - b) | None \<Rightarrow> 0)"
    if "mem_ok m" for m a
    unfolding gpa_loop_def gpa_regions_def by (rule hva_loop_first_match) (use that in \<open>simp_all add: mem_ok_def\<close>)
qed (rule inside_closed_own inside_closed_other; assumption)+

interpretation gva: address_map mem_ok gva_loop gva_regions inside_closed 1
proof
  show "gva_loop m a =
      Some (case find (\<lambda>(b, n, h). inside_closed b n a) (gva_regions m) of Some (b, n, h) \<Rightarrow> h + (a - b) | None \<Rightarrow> 0)"
    if "mem_ok m" for m a
    unfolding gva_loop_def gva_regions_def by (rule hva_loop_first_match) (use that in \<open>simp_all add: mem_ok_def\<close>)
qed (rule inside_closed_own inside_closed_other; assumption)+

section \<open>Messages\<close>

lemma length_le64 [simp]: "length (le64 w) = 8"
  by (simp add: le64_def le32_def)

lemma of_le64_le64 [simp]: "of_le64 (le64 w) = w"
proof -
  have l: "length (le32 v) = 4" for v by (simp add: le32_def)
  have "of_le64 (le64 w) = ucast (ucast w :: u32) OR push_bit 32 (ucast (ucast (drop_bit 32 w) :: u32))"
    by (simp add: of_le64_def le64_def l)
  also have "\<dots> = w" by (rule bit_word_eqI) (auto simp: bit_simps)
  finally show ?thesis .
qed

text \<open>The memory table on the wire.\<close>

definition region_bytes :: "vhost_user_region \<Rightarrow> bytes" where
  "region_bytes r = le64 (rg_guest_address r) @ le64 (rg_size r) @ le64 (rg_user_address r) @ le64 (rg_mmap_offset r)"

definition mem_table_bytes :: "vhost_user_region list \<Rightarrow> bytes" where
  "mem_table_bytes rs = le32 (of_nat (length rs)) @ le32 0 @ concat (map region_bytes rs)"

lemma length_region_bytes [simp]: "length (region_bytes r) = 32"
  by (simp add: region_bytes_def)

lemma length_region_list [simp]: "length (concat (map region_bytes rs)) = 32 * length rs"
  by (induction rs) auto

lemma length_mem_table [simp]: "length (mem_table_bytes rs) = 8 + 32 * length rs"
  by (simp add: mem_table_bytes_def le32_def)

lemma rd_append_left: "off + n \<le> length xs \<Longrightarrow> rd off n (xs @ ys) = rd off n xs"
  by (simp add: rd_def)

lemma rd_append_right: "length xs \<le> off \<Longrightarrow> rd off n (xs @ ys) = rd (off - length xs) n ys"
  by (auto simp: rd_def)

lemma rd_region:
  assumes "i < length rs" "o' + n \<le> 32"
  shows "rd (32 * i + o') n (concat (map region_bytes rs) @ ys) = rd o' n (region_bytes (rs ! i))"
  using assms(1)
proof (induction rs arbitrary: i)
  case (Cons r rs)
  show ?case
  proof (cases i)
    case 0
    then show ?thesis using assms(2) by (simp add: rd_append_left)
  next
    case (Suc j)
    have "rd (32 * i + o') n (concat (map region_bytes (r # rs)) @ ys) = rd (32 * j + o') n (concat (map region_bytes rs) @ ys)"
      using Suc by (simp add: rd_append_right)
    then show ?thesis using Cons Suc by simp
  qed
qed simp

lemma mem_region_bytes:
  assumes "i < length rs" "ms_union msg = mem_table_bytes rs @ ys"
  shows "mem_region i msg = Some (rs ! i)"
proof -
  have l: "length (le32 v) = 4" for v by (simp add: le32_def)
  have r: "rd64 (8 + k + 32 * i) (ms_union msg) = map_option of_le64 (rd k 8 (region_bytes (rs ! i)))" if "k + 8 \<le> 32" for k
    using rd_region [OF assms(1) that, of ys] assms(2)
    by (simp add: mem_table_bytes_def l rd64_def rd_append_right add.commute)
  have f: "rd 0 8 (region_bytes r) = Some (le64 (rg_guest_address r))" "rd 8 8 (region_bytes r) = Some (le64 (rg_size r))"
    "rd 16 8 (region_bytes r) = Some (le64 (rg_user_address r))" "rd 24 8 (region_bytes r) = Some (le64 (rg_mmap_offset r))" for r
    by (simp_all add: region_bytes_def rd_def)
  show ?thesis using r [of 0] r [of 8] r [of 16] r [of 24] by (simp add: f mem_region_def)
qed

lemma mem_nregions_bytes:
  assumes "ms_union msg = mem_table_bytes rs @ ys"
  shows "mem_nregions msg = Some (of_nat (length rs))"
  using assms by (simp add: mem_nregions_def mem_table_bytes_def rd32_def rd_def le32_def flip: le32_def)

section \<open>The memory table\<close>

definition mapped :: "(int \<Rightarrow> u64 \<Rightarrow> u64) \<Rightarrow> vhost_user_region \<Rightarrow> int \<Rightarrow> u64" where
  "mapped mmap r fd = mmap fd (ROUNDUP (rg_size r + rg_mmap_offset r) (push_bit 20 2)) + rg_mmap_offset r"

definition install :: "(int \<Rightarrow> u64 \<Rightarrow> u64) \<Rightarrow> vhost_user_region \<Rightarrow> int \<Rightarrow> vhost_user_region" where
  "install mmap r fd = r\<lparr>rg_mmap_offset := mapped mmap r fd - rg_guest_address r\<rparr>"

lemma mem_regions_loop_spec:
  assumes "\<And>j. j < i + n \<Longrightarrow> mem_region j msg = Some (rs ! j)" "i + n \<le> length (ms_fds msg)" "i + n \<le> length old"
  shows "mem_regions_loop mmap msg i n old =
     Some (take i old @ map (\<lambda>j. install mmap (rs ! j) (ms_fds msg ! j)) [i..<i + n] @ drop (i + n) old)"
  using assms
proof (induction n arbitrary: i old)
  case (Suc n)
  let ?x = "install mmap (rs ! i) (ms_fds msg ! i)"
  have u: "[i..<i + Suc n] = i # [i + 1..<i + 1 + n]" by (subst upt_conv_Cons) simp_all
  have i: "mem_region i msg = Some (rs ! i)" "nth_opt (ms_fds msg) i = Some (ms_fds msg ! i)" "upd_opt old i ?x = Some (old[i := ?x])"
    using Suc.prems by (simp_all add: nth_opt_def upd_opt_def)
  have "mem_regions_loop mmap msg i (Suc n) old = mem_regions_loop mmap msg (i + 1) n (old[i := ?x])"
    using i by (simp add: install_def mapped_def)
  also have "\<dots> = Some (take (i + 1) (old[i := ?x]) @ map (\<lambda>j. install mmap (rs ! j) (ms_fds msg ! j)) [i + 1..<i + 1 + n] @
      drop (i + 1 + n) (old[i := ?x]))"
    using Suc.prems by (intro Suc.IH) simp_all
  also have "\<dots> = Some (take i old @ map (\<lambda>j. install mmap (rs ! j) (ms_fds msg ! j)) [i..<i + Suc n] @ drop (i + Suc n) old)"
    using Suc.prems unfolding u by (simp add: take_Suc_conv_app_nth)
  finally show ?case .
qed simp

text \<open>The regions of a table neither wrap around nor overlap; they may touch.\<close>

definition disjoint_regions :: "(vhost_user_region \<Rightarrow> u64) \<Rightarrow> vhost_user_region list \<Rightarrow> bool" where
  "disjoint_regions base rs \<longleftrightarrow>
     (\<forall>i<length rs. proper (base (rs ! i)) (rg_size (rs ! i)) \<and>
        (\<forall>j<length rs. i \<noteq> j \<longrightarrow> apart 0 (base (rs ! i)) (rg_size (rs ! i)) (base (rs ! j)) (rg_size (rs ! j))))"

text \<open>A region of an earlier entry of the table that ends where region \<open>i\<close> begins.\<close>

definition ends_at :: "(vhost_user_region \<Rightarrow> u64) \<Rightarrow> vhost_user_region list \<Rightarrow> nat \<Rightarrow> nat option" where
  "ends_at base rs i = find (\<lambda>j. base (rs ! j) + rg_size (rs ! j) = base (rs ! i)) [0..<i]"

text \<open>Where the table puts byte \<open>k\<close> of region \<open>i\<close>, when region \<open>j\<close> is mapped at \<open>h j\<close>.\<close>

definition byte_at :: "(vhost_user_region \<Rightarrow> u64) \<Rightarrow> vhost_user_region list \<Rightarrow> (nat \<Rightarrow> u64) \<Rightarrow> nat \<Rightarrow> nat \<Rightarrow> u64" where
  "byte_at base rs h i k =
     (case if k = 0 then ends_at base rs i else None of
        Some j \<Rightarrow> h j + rg_size (rs ! j)
      | None \<Rightarrow> h i + of_nat k)"

lemma find_first_or:
  assumes "\<And>j. j < n \<Longrightarrow> P j \<longleftrightarrow> j = i \<or> Q j" "i < n"
  shows "find P [0..<n] = Some (case find Q [0..<i] of Some j \<Rightarrow> j | None \<Rightarrow> i)"
proof -
  have split: "[0..<n] = [0..<i] @ i # [Suc i..<n]"
    using upt_add_eq_append [of 0 i "n - i"] assms(2) by (simp add: upt_conv_Cons)
  have "find P (xs @ i # ys) = Some (case find Q xs of Some j \<Rightarrow> j | None \<Rightarrow> i)"
    if "set xs \<subseteq> {..<i}" for xs ys
    using that
  proof (induction xs)
    case (Cons x xs)
    then have "P x = Q x" using assms by auto
    then show ?case using Cons by auto
  qed (use assms in simp)
  then show ?thesis unfolding split by (simp add: subset_iff)
qed

lemma find_map: "find P (map f xs) = map_option f (find (P \<circ> f) xs)"
  by (induction xs) auto

lemma inside_touching:
  assumes dis: "disjoint_regions base rs" and i: "i < length rs" "k < unat (rg_size (rs ! i))" and j: "j < length rs"
  shows "inside_closed (base (rs ! j)) (rg_size (rs ! j)) (base (rs ! i) + of_nat k) \<longleftrightarrow>
    j = i \<or> k = 0 \<and> base (rs ! j) + rg_size (rs ! j) = base (rs ! i)"
proof (cases "j = i")
  case True
  then show ?thesis using inside_closed_own i dis by (simp add: disjoint_regions_def)
next
  case False
  let ?b = "base (rs ! i)" and ?n = "rg_size (rs ! i)" and ?b' = "base (rs ! j)" and ?n' = "rg_size (rs ! j)"
  have p: "proper ?b ?n" "proper ?b' ?n'" "apart 0 ?b ?n ?b' ?n'"
    using dis i(1) j False by (auto simp: disjoint_regions_def)
  have eq: "?b' + ?n' = ?b \<longleftrightarrow> unat ?b' + unat ?n' = unat ?b"
    using unat_add_proper [OF p(2)] by (metis word_unat_eq_iff)
  show ?thesis
    using p(3) False i(2) unfolding eq
    by (auto simp: inside_closed_def word_le_nat_alt unat_add_proper [OF p(2)] unat_add_of_nat [OF p(1)] apart_def)
qed

lemma byte_at_find:
  assumes "disjoint_regions base rs" "i < length rs" "k < unat (rg_size (rs ! i))"
    and "find (\<lambda>(b, n, h). inside_closed b n (base (rs ! i) + of_nat k)) (map (\<lambda>i. (base (rs ! i), rg_size (rs ! i), h i)) [0..<length rs]) = r"
  shows "(case r of Some (b, n, h) \<Rightarrow> h + (base (rs ! i) + of_nat k - b) | None \<Rightarrow> 0) = byte_at base rs h i k"
proof -
  let ?Q = "\<lambda>j. k = 0 \<and> base (rs ! j) + rg_size (rs ! j) = base (rs ! i)"
  have "find (\<lambda>j. inside_closed (base (rs ! j)) (rg_size (rs ! j)) (base (rs ! i) + of_nat k)) [0..<length rs] =
      Some (case find ?Q [0..<i] of Some j \<Rightarrow> j | None \<Rightarrow> i)"
    using inside_touching [OF assms(1-3)] assms(2) by (intro find_first_or) auto
  then have r: "r = (case find ?Q [0..<i] of Some j \<Rightarrow> Some (base (rs ! j), rg_size (rs ! j), h j)
      | None \<Rightarrow> Some (base (rs ! i), rg_size (rs ! i), h i))"
    using assms(4) by (simp add: find_map o_def split: option.splits)
  have no: "find (\<lambda>j. False) xs = None" for xs :: "nat list" by (induction xs) auto
  have hit: "base (rs ! j) + rg_size (rs ! j) = base (rs ! i)" if "ends_at base rs i = Some j" for j
    using that by (auto simp: ends_at_def find_Some_iff)
  show ?thesis
  proof (cases "k = 0")
    case True
    then have "r = (case ends_at base rs i of Some j \<Rightarrow> Some (base (rs ! j), rg_size (rs ! j), h j)
        | None \<Rightarrow> Some (base (rs ! i), rg_size (rs ! i), h i))" by (simp add: r ends_at_def)
    then show ?thesis
      using hit True by (cases "ends_at base rs i") (auto simp: byte_at_def algebra_simps)
  qed (simp add: r no byte_at_def)
qed

lemma set_mem_table_regions:
  assumes "case dv_mem dev of Some m \<Rightarrow> mem_ok m | None \<Rightarrow> True"
    and "ms_union msg = mem_table_bytes rs @ ys" "length rs \<le> 8" "length (ms_fds msg) = 8"
  shows "\<exists>m. vhost_user_set_mem_table mmap True msg dev = Some (dev\<lparr>dv_mem := Some m\<rparr>) \<and> mem_ok m \<and>
    gpa_regions m = map (\<lambda>i. (rg_guest_address (rs ! i), rg_size (rs ! i), mapped mmap (rs ! i) (ms_fds msg ! i))) [0..<length rs] \<and>
    gva_regions m = map (\<lambda>i. (rg_user_address (rs ! i), rg_size (rs ! i), mapped mmap (rs ! i) (ms_fds msg ! i))) [0..<length rs]"
proof -
  define old where "old = (case dv_mem dev of Some m \<Rightarrow> m | None \<Rightarrow> zero_mem)"
  have old: "length (mt_regions old) = 8"
    using assms(1) by (auto simp: old_def mem_ok_def zero_mem_def VIRTIO_MAX_REGION_def split: option.splits)
  have n: "unat (of_nat (length rs) :: u32) = length rs" using assms(3) by (simp add: unsigned_of_nat take_bit_nat_eq_self)
  let ?new = "map (\<lambda>j. install mmap (rs ! j) (ms_fds msg ! j)) [0..<length rs] @ drop (length rs) (mt_regions old)"
  let ?m = "\<lparr>mt_nregions = of_nat (length rs), mt_regions = ?new\<rparr>"
  have "mem_regions_loop mmap msg 0 (length rs) (mt_regions old) = Some ?new"
    using mem_regions_loop_spec [of 0 "length rs" msg rs "mt_regions old" mmap] mem_region_bytes [OF _ assms(2)] assms(3,4) old
    by simp
  then have "vhost_user_set_mem_table mmap True msg dev = Some (dev\<lparr>dv_mem := Some ?m\<rparr>)"
    using mem_nregions_bytes [OF assms(2)] n
    by (simp add: vhost_user_set_mem_table_def old_def split: option.splits)
  moreover have "mem_ok ?m" using assms(3) old n by (simp add: mem_ok_def VIRTIO_MAX_REGION_def)
  moreover have "gpa_regions ?m = map (\<lambda>i. (rg_guest_address (rs ! i), rg_size (rs ! i), mapped mmap (rs ! i) (ms_fds msg ! i))) [0..<length rs]"
    "gva_regions ?m = map (\<lambda>i. (rg_user_address (rs ! i), rg_size (rs ! i), mapped mmap (rs ! i) (ms_fds msg ! i))) [0..<length rs]"
    using n by (simp_all add: gpa_regions_def gva_regions_def install_def)
  ultimately show ?thesis by blast
qed

lemma set_mem_table_translation:
  assumes "be_dev s = Some dev" "case dv_mem dev of Some m \<Rightarrow> mem_ok m | None \<Rightarrow> True"
    and "ms_request msg = SET_MEM_TABLE" "ms_union msg = mem_table_bytes rs @ ys" "length rs \<le> 8" "length (ms_fds msg) = 8"
    and "disjoint_regions rg_guest_address rs" "disjoint_regions rg_user_address rs"
    and h: "h = (\<lambda>i. mapped mmap (rs ! i) (ms_fds msg ! i))"
  shows "\<exists>m. vhost_user_msg_handler mmap True msg s = Some (None, [], s\<lparr>be_dev := Some (dev\<lparr>dv_mem := Some m\<rparr>)\<rparr>) \<and> mem_ok m \<and>
    (\<forall>i<length rs. \<forall>k<unat (rg_size (rs ! i)).
       gpa_loop m (rg_guest_address (rs ! i) + of_nat k) = Some (byte_at rg_guest_address rs h i k) \<and>
       gva_loop m (rg_user_address (rs ! i) + of_nat k) = Some (byte_at rg_user_address rs h i k)) \<and>
    (\<forall>a. (\<forall>r\<in>set rs. \<not> (rg_guest_address r \<le> a \<and> a \<le> rg_guest_address r + rg_size r)) \<longrightarrow> gpa_loop m a = Some 0)"
proof -
  obtain m where m: "vhost_user_set_mem_table mmap True msg dev = Some (dev\<lparr>dv_mem := Some m\<rparr>)" "mem_ok m"
    "gpa_regions m = map (\<lambda>i. (rg_guest_address (rs ! i), rg_size (rs ! i), h i)) [0..<length rs]"
    "gva_regions m = map (\<lambda>i. (rg_user_address (rs ! i), rg_size (rs ! i), h i)) [0..<length rs]"
    using set_mem_table_regions [OF assms(2,4-6), of mmap] unfolding h by blast
  have "vhost_user_msg_handler mmap True msg s = Some (None, [], s\<lparr>be_dev := Some (dev\<lparr>dv_mem := Some m\<rparr>)\<rparr>)"
    using assms(1,3) m(1)
    by (simp add: vhost_user_msg_handler_def set_memtable_def GET_FEATURES_def SET_FEATURES_def SET_OWNER_def SET_MEM_TABLE_def)
  moreover have "gpa_loop m (rg_guest_address (rs ! i) + of_nat k) = Some (byte_at rg_guest_address rs h i k)"
    "gva_loop m (rg_user_address (rs ! i) + of_nat k) = Some (byte_at rg_user_address rs h i k)"
    if "i < length rs" "k < unat (rg_size (rs ! i))" for i k
    using byte_at_find [OF assms(7) that refl, of h] byte_at_find [OF assms(8) that refl, of h]
    by (simp_all add: gpa.first_match [OF m(2)] gva.first_match [OF m(2)] m(3,4))
  moreover have "gpa_loop m a = Some 0" if "\<forall>r\<in>set rs. \<not> (rg_guest_address r \<le> a \<and> a \<le> rg_guest_address r + rg_size r)" for a
    using that by (intro gpa.unmapped [OF m(2)]) (auto simp: m(3) inside_closed_def)
  ultimately show ?thesis using m(2) by blast
qed

section \<open>Reachable states\<close>

definition dev_ok :: "virtio_dev \<Rightarrow> bool" where
  "dev_ok dev \<longleftrightarrow> length (dv_vq dev) = MAX_MULTI_QUEUE \<and> (\<forall>m. dv_mem dev = Some m \<longrightarrow> mem_ok m)"

definition backend_ok :: "backend \<Rightarrow> bool" where
  "backend_ok s \<longleftrightarrow> (\<forall>dev. be_dev s = Some dev \<longrightarrow> dev_ok dev)"

text \<open>Messages and packet rounds in any order, while the guest changes the memory. The trace has the messages, the
  last one first, each with the results of \<open>mmap\<close> at that time.\<close>

inductive backend_run :: "((int \<Rightarrow> u64 \<Rightarrow> u64) \<times> vhost_user_msg) list \<Rightarrow> backend \<Rightarrow> bool" where
  init: "backend_run [] (init_backend sh)"
| message: "backend_run tr s \<Longrightarrow> vhost_user_msg_handler mmap ok msg s = Some (r, fds, s') \<Longrightarrow> backend_run ((mmap, msg) # tr) s'"
| round: "backend_run tr s \<Longrightarrow> vnet_round e s = Some (out, s') \<Longrightarrow> backend_run tr s'"
| guest: "backend_run tr s \<Longrightarrow> backend_run tr (s\<lparr>be_shm := sh\<rparr>)"

lemma mem_regions_loop_length:
  "mem_regions_loop mmap msg i n rs = Some rs' \<Longrightarrow> length rs' = length rs \<and> (n = 0 \<or> i + n \<le> length rs)"
proof (induction n arbitrary: i rs)
  case (Suc n)
  then obtain x where x: "i < length rs" "mem_regions_loop mmap msg (i + 1) n (rs[i := x]) = Some rs'"
    by (auto simp: upd_opt_def Let_def split: bind_splits if_splits)
  show ?case using Suc.IH [OF x(2)] x(1) by auto
qed simp

lemma dev_ok_queue_upd: "queue_upd i f dev = Some dev' \<Longrightarrow> dev_ok dev \<Longrightarrow> dev_ok dev'"
  by (auto simp: queue_upd_def dev_ok_def split: bind_splits)

lemma dev_ok_set_mem_table:
  assumes "vhost_user_set_mem_table mmap ok msg dev = Some dev'" "dev_ok dev"
  shows "dev_ok dev'"
proof -
  obtain mem n rs where r: "mem_regions_loop mmap msg 0 (unat n) (mt_regions mem) = Some rs"
    "dev' = dev\<lparr>dv_mem := Some \<lparr>mt_nregions = n, mt_regions = rs\<rparr>\<rparr>"
    and mem: "dv_mem dev = Some mem \<or> mem = zero_mem"
    using assms(1) by (auto simp: vhost_user_set_mem_table_def split: bind_splits option.splits if_splits)
  have "length (mt_regions mem) = VIRTIO_MAX_REGION"
    using mem assms(2) by (auto simp: dev_ok_def mem_ok_def zero_mem_def)
  then show ?thesis
    using mem_regions_loop_length [OF r(1)] assms(2) r(2) by (auto simp: dev_ok_def mem_ok_def)
qed

lemma dev_ok_new: "dev_ok \<lparr>dv_vq = replicate MAX_MULTI_QUEUE zero_queue, dv_mem = None\<rparr>"
  by (simp add: dev_ok_def)

lemmas handler_defs = features_reply_def set_features_def set_owner_def set_memtable_def set_queue_num_def
  set_queue_addr_def set_queue_base_def set_queue_kick_def set_queue_call_def

lemma message_keeps_ok:
  assumes "vhost_user_msg_handler mmap ok msg s = Some (r, fds, s')" "backend_ok s"
  shows "backend_ok s'"
  using assms dev_ok_queue_upd dev_ok_set_mem_table dev_ok_new
  unfolding vhost_user_msg_handler_def Let_def
  by (auto simp: handler_defs backend_ok_def Let_def split: bind_splits if_splits)

lemma vhost_tx_shape:
  "vhost_tx alloc dev n sh = Some (ms, dev', sh') \<Longrightarrow> \<exists>vq. dev' = dev\<lparr>dv_vq := vq\<rparr> \<and> length vq = length (dv_vq dev)"
  unfolding vhost_tx_def by (auto split: if_splits bind_splits intro: exI [of _ "dv_vq dev"])

lemma vhost_rx_shape:
  "vhost_rx i ms n dev sh = Some (r, b, dev', sh') \<Longrightarrow> \<exists>vq. dev' = dev\<lparr>dv_vq := vq\<rparr> \<and> length vq = length (dv_vq dev)"
  unfolding vhost_rx_def Let_def by (auto split: if_splits bind_splits intro: exI [of _ "dv_vq dev"])

lemma vnet_rx_shape:
  "vnet_rx e dev sh = Some (dev', sh') \<Longrightarrow> \<exists>vq. dev' = dev\<lparr>dv_vq := vq\<rparr> \<and> length vq = length (dv_vq dev)"
  unfolding vnet_rx_def
  by (auto split: if_splits bind_splits option.splits dest: vhost_rx_shape intro: exI [of _ "dv_vq dev"])

lemma vnet_round_shape:
  assumes "vnet_round e s = Some (out, s')"
  shows "\<exists>dev vq. be_dev s = Some dev \<and> be_dev s' = Some (dev\<lparr>dv_vq := vq\<rparr>) \<and> length vq = length (dv_vq dev)"
proof -
  have r: "\<exists>vq. dev2\<lparr>dv_vq := vq2\<rparr> = dev\<lparr>dv_vq := vq\<rparr> \<and> length vq = length (dv_vq dev)"
    if "dev2 = dev\<lparr>dv_vq := vq1\<rparr>" "length vq2 = length (dv_vq dev)" for dev dev2 :: virtio_dev and vq1 vq2
    using that by auto
  show ?thesis
    using assms unfolding vnet_round_def
    by (force split: if_splits bind_splits list.splits dest: vhost_tx_shape vnet_rx_shape)
qed

lemma round_keeps_ok:
  assumes "vnet_round e s = Some (out, s')" "backend_ok s"
  shows "backend_ok s'"
  using vnet_round_shape [OF assms(1)] assms(2) by (auto simp: backend_ok_def dev_ok_def)

lemma run_ok: "backend_run tr s \<Longrightarrow> backend_ok s"
proof (induction rule: backend_run.induct)
  case (init sh)
  then show ?case by (simp add: backend_ok_def init_backend_def)
next
  case (guest tr s sh)
  then show ?case by (simp add: backend_ok_def)
qed (blast intro: message_keeps_ok round_keeps_ok)+

text \<open>The table in use is the one of a message.\<close>

definition table_from :: "(int \<Rightarrow> u64 \<Rightarrow> u64) \<Rightarrow> vhost_user_msg \<Rightarrow> vhost_user_mem \<Rightarrow> bool" where
  "table_from mmap msg m \<longleftrightarrow> ms_request msg = SET_MEM_TABLE \<and> mem_nregions msg = Some (mt_nregions m) \<and>
     (\<forall>i<unat (mt_nregions m). \<exists>r. mem_region i msg = Some r \<and> i < length (ms_fds msg) \<and>
        mt_regions m ! i = install mmap r (ms_fds msg ! i))"

lemma mem_regions_loop_result:
  "mem_regions_loop mmap msg i n rs = Some rs' \<Longrightarrow>
     (\<forall>j<i. rs' ! j = rs ! j) \<and>
     (\<forall>j. i \<le> j \<and> j < i + n \<longrightarrow> (\<exists>r. mem_region j msg = Some r \<and> j < length (ms_fds msg) \<and> rs' ! j = install mmap r (ms_fds msg ! j)))"
proof (induction n arbitrary: i rs)
  case (Suc n)
  obtain r where r: "mem_region i msg = Some r" "i < length (ms_fds msg)" "i < length rs"
    "mem_regions_loop mmap msg (i + 1) n (rs[i := install mmap r (ms_fds msg ! i)]) = Some rs'"
    using Suc.prems by (auto simp: upd_opt_def nth_opt_def install_def mapped_def Let_def split: bind_splits if_splits)
  show ?case
  proof (intro conjI allI impI)
    fix j assume "j < i"
    then show "rs' ! j = rs ! j" using Suc.IH [OF r(4)] by simp
  next
    fix j assume j: "i \<le> j \<and> j < i + Suc n"
    then show "\<exists>r. mem_region j msg = Some r \<and> j < length (ms_fds msg) \<and> rs' ! j = install mmap r (ms_fds msg ! j)"
      using Suc.IH [OF r(4)] r(1-3) by (cases "j = i") auto
  qed
qed auto

lemma set_mem_table_from:
  assumes "vhost_user_set_mem_table mmap ok msg dev = Some dev'" "ms_request msg = SET_MEM_TABLE" "dv_mem dev' = Some m"
  shows "table_from mmap msg m"
proof -
  obtain mem :: vhost_user_mem and n rs where r: "mem_nregions msg = Some n" "mem_regions_loop mmap msg 0 (unat n) (mt_regions mem) = Some rs"
    "dev' = dev\<lparr>dv_mem := Some \<lparr>mt_nregions = n, mt_regions = rs\<rparr>\<rparr>"
    using assms(1) by (auto simp: vhost_user_set_mem_table_def bind_eq_Some_conv)
  then show ?thesis using mem_regions_loop_result [OF r(2)] assms(2,3) by (auto simp: table_from_def)
qed

lemma queue_upd_mem: "queue_upd i f dev = Some dev' \<Longrightarrow> dv_mem dev' = dv_mem dev"
  by (auto simp: queue_upd_def split: bind_splits)

lemma message_table:
  assumes run: "vhost_user_msg_handler mmap ok msg s = Some (r, fds, s')" and "be_dev s' = Some dev'" "dv_mem dev' = Some m"
  shows "table_from mmap msg m \<or> (\<exists>dev. be_dev s = Some dev \<and> dv_mem dev = Some m)"
proof (cases "ms_request msg = SET_MEM_TABLE")
  case True
  then have "set_memtable mmap ok msg s = Some (r, fds, s')"
    using run by (simp add: vhost_user_msg_handler_def GET_FEATURES_def SET_FEATURES_def SET_OWNER_def SET_MEM_TABLE_def)
  then show ?thesis
    using assms(2,3) set_mem_table_from [OF _ True] by (auto simp: set_memtable_def split: bind_splits)
next
  case False
  then show ?thesis
    using assms queue_upd_mem unfolding vhost_user_msg_handler_def Let_def
    by (auto simp: handler_defs Let_def split: bind_splits if_splits)
qed

lemma run_table:
  "backend_run tr s \<Longrightarrow> be_dev s = Some dev \<Longrightarrow> dv_mem dev = Some m \<Longrightarrow> \<exists>(mmap, msg) \<in> set tr. table_from mmap msg m"
proof (induction arbitrary: dev rule: backend_run.induct)
  case (message tr s mmap ok msg r fds s')
  then show ?case using message_table [OF message.hyps(2) message.prems] by fastforce
next
  case (round tr s e out s')
  then show ?case using vnet_round_shape [OF round.hyps(2)] by auto
qed (auto simp: init_backend_def)

text \<open>The length of the mapping of a region, and the condition under which it is computed without a wrap.\<close>

definition map_len :: "vhost_user_region \<Rightarrow> u64" where
  "map_len r = ROUNDUP (rg_size r + rg_mmap_offset r) (push_bit 20 2)"

definition map_fits :: "vhost_user_region \<Rightarrow> bool" where
  "map_fits r \<longleftrightarrow> unat (rg_size r) + unat (rg_mmap_offset r) + 2 ^ 21 \<le> 2 ^ 64"

definition covers :: "vhost_user_region \<Rightarrow> u64 \<Rightarrow> bool" where
  "covers r a \<longleftrightarrow> rg_guest_address r \<le> a \<and> a \<le> rg_guest_address r + rg_size r"

lemma roundup_ge:
  assumes "unat x + 2 ^ 21 \<le> 2 ^ 64"
  shows "unat x \<le> unat (ROUNDUP x (push_bit 20 2))"
proof -
  have m: "push_bit 20 2 - 1 = (mask 21 :: u64)" by (simp add: mask_eq_exp_minus_1)
  have y: "x + push_bit 20 2 - 1 = x + mask 21" unfolding m [symmetric] by simp
  have u: "unat (x + mask 21) = unat x + (2 ^ 21 - 1)"
    using assms by (simp add: unat_word_ariths mask_eq_exp_minus_1)
  have "ROUNDUP x (push_bit 20 2) = push_bit 21 (drop_bit 21 (x + mask 21))"
    unfolding ROUNDUP_def y m by (rule bit_word_eqI) (auto simp: bit_simps)
  then have "unat (ROUNDUP x (push_bit 20 2)) = (unat x + (2 ^ 21 - 1)) div 2 ^ 21 * 2 ^ 21 mod 2 ^ 64"
    using u by (simp add: push_bit_eq_mult drop_bit_eq_div unat_word_ariths(2) unat_div_distrib)
  also have "\<dots> = (unat x + (2 ^ 21 - 1)) div 2 ^ 21 * 2 ^ 21"
    using assms div_times_less_eq_dividend [of "unat x + (2 ^ 21 - 1)" "2 ^ 21"] by simp
  also have "\<dots> \<ge> unat x"
  proof -
    have "unat x \<le> (unat x + (d - 1)) div d * d" if "0 < d" for d
      using div_mult_mod_eq [of "unat x + (d - 1)" d] mod_less_divisor [OF that, of "unat x + (d - 1)"] that by linarith
    then show ?thesis by simp
  qed
  finally show ?thesis .
qed

lemma covers_in_mapping:
  assumes "covers r a" "map_fits r"
  shows "unat (rg_mmap_offset r + (a - rg_guest_address r)) \<le> unat (map_len r)"
proof -
  let ?g = "rg_guest_address r" and ?n = "rg_size r" and ?o = "rg_mmap_offset r"
  have a: "unat ?g \<le> unat a" "unat a \<le> unat (?g + ?n)" using assms(1) by (simp_all add: covers_def word_le_nat_alt)
  have d: "unat (a - ?g) = unat a - unat ?g" using a(1) by (simp add: unat_sub word_le_nat_alt)
  have "unat (?g + ?n) \<le> unat ?g + unat ?n" by (simp add: unat_word_ariths)
  then have le: "unat (a - ?g) \<le> unat ?n" using a d by linarith
  have s: "unat (?n + ?o) = unat ?n + unat ?o" using assms(2) by (simp add: map_fits_def unat_word_ariths)
  have "unat (?o + (a - ?g)) = unat ?o + unat (a - ?g)"
    using le assms(2) by (simp add: map_fits_def unat_word_ariths)
  moreover have "unat (?n + ?o) \<le> unat (map_len r)"
    unfolding map_len_def using assms(2) s by (intro roundup_ge) (simp add: map_fits_def)
  ultimately show ?thesis using le s by simp
qed

lemma run_translation:
  assumes "backend_run tr s" "be_dev s = Some dev" "dv_mem dev = Some m"
  shows "\<exists>mmap msg rs. (mmap, msg) \<in> set tr \<and> ms_request msg = SET_MEM_TABLE \<and> length rs \<le> VIRTIO_MAX_REGION \<and>
    mem_nregions msg = Some (of_nat (length rs)) \<and>
    (\<forall>i<length rs. mem_region i msg = Some (rs ! i) \<and> i < length (ms_fds msg)) \<and>
    (\<forall>a. gpa_to_hva dev a =
       Some (case find (\<lambda>i. covers (rs ! i) a) [0..<length rs] of
         None \<Rightarrow> 0
       | Some i \<Rightarrow> mmap (ms_fds msg ! i) (map_len (rs ! i)) + (rg_mmap_offset (rs ! i) + (a - rg_guest_address (rs ! i)))))"
proof -
  have ok: "mem_ok m" using run_ok [OF assms(1)] assms(2,3) by (simp add: backend_ok_def dev_ok_def)
  obtain mmap msg where t: "(mmap, msg) \<in> set tr" "table_from mmap msg m" using run_table [OF assms] by blast
  let ?n = "unat (mt_nregions m)"
  define rs where "rs = map (\<lambda>i. the (mem_region i msg)) [0..<?n]"
  have rs: "length rs = ?n" "mem_region i msg = Some (rs ! i) \<and> i < length (ms_fds msg) \<and> mt_regions m ! i = install mmap (rs ! i) (ms_fds msg ! i)"
    if "i < ?n" for i
    using t(2) that by (auto simp: rs_def table_from_def)
  have len: "length rs = ?n" by (simp add: rs_def)
  have regs: "gpa_regions m = map (\<lambda>i. (rg_guest_address (rs ! i), rg_size (rs ! i), mapped mmap (rs ! i) (ms_fds msg ! i))) [0..<?n]"
    using ok rs(2) by (intro nth_equalityI) (auto simp: gpa_regions_def mem_ok_def install_def)
  have "gpa_to_hva dev a =
       Some (case find (\<lambda>i. covers (rs ! i) a) [0..<length rs] of
         None \<Rightarrow> 0
       | Some i \<Rightarrow> mmap (ms_fds msg ! i) (map_len (rs ! i)) + (rg_mmap_offset (rs ! i) + (a - rg_guest_address (rs ! i))))" for a
  proof -
    have "(\<lambda>(b, n, h). inside_closed b n a) \<circ> (\<lambda>i. (rg_guest_address (rs ! i), rg_size (rs ! i), mapped mmap (rs ! i) (ms_fds msg ! i))) =
        (\<lambda>i. covers (rs ! i) a)" by (auto simp: inside_closed_def covers_def)
    then show ?thesis
      using assms(3) by (simp add: gpa_to_hva_def gpa.first_match [OF ok] regs find_map len mapped_def map_len_def add.assoc split: option.splits)
  qed
  moreover have "mem_nregions msg = Some (of_nat (length rs))" using t(2) by (simp add: table_from_def len)
  moreover have "length rs \<le> VIRTIO_MAX_REGION" using ok by (simp add: len mem_ok_def)
  ultimately show ?thesis using t rs(2) by (intro exI [of _ mmap] exI [of _ msg] exI [of _ rs]) (simp add: len table_from_def)
qed

section \<open>Properties\<close>


definition tb_regions :: "vhost_user_region list" where
  "tb_regions =
     [\<lparr>rg_guest_address = 0x1000, rg_size = 0x8000, rg_user_address = 0x7f001000, rg_mmap_offset = 0x1000\<rparr>,
      \<lparr>rg_guest_address = 0x9000, rg_size = 0x8000, rg_user_address = 0x7f100000, rg_mmap_offset = 0\<rparr>]"

definition tb_msg :: vhost_user_msg where
  "tb_msg = \<lparr>ms_request = SET_MEM_TABLE, ms_flags = 1, ms_size = 72, ms_union = mem_table_bytes tb_regions @ replicate 192 0,
     ms_fds = [5, 6, 0, 0, 0, 0, 0, 0]\<rparr>"

definition tb_dev :: virtio_dev where
  "tb_dev = \<lparr>dv_vq = replicate MAX_MULTI_QUEUE zero_queue, dv_mem = None\<rparr>"

definition tb_shm :: shm where
  "tb_shm = \<lparr>sm_desc = (\<lambda>_. None), sm_avail = (\<lambda>_. None), sm_used = (\<lambda>_. None), sm_mem = (\<lambda>_. None)\<rparr>"

definition tb_owned :: backend where
  "tb_owned = (init_backend tb_shm)\<lparr>be_dev := Some tb_dev\<rparr>"

lemma tb_disjoint: "disjoint_regions rg_guest_address tb_regions" "disjoint_regions rg_user_address tb_regions"
  by (simp_all add: disjoint_regions_def tb_regions_def proper_def apart_def less_2_cases_iff nth_Cons')

definition tb_mmap :: "int \<Rightarrow> u64 \<Rightarrow> u64" where
  "tb_mmap fd n = (if fd = 5 then 0x40000000 else 0x50000000)"


text \<open>C25: In every state that messages, packet rounds and the guest can produce, the table in use is the one of a memory
  table message that has come in, with at most 8 regions, and the translation of a guest address stays within them: it
  finds the first of them that contains the address or ends right before it and gives the
  same offset in the mapping that was made for this region, or it gives 0 if there is none. Unless a region is so
  large that the length of its mapping wraps around, the offset is at most that length.\<close>

theorem backend_translation_safe:
  assumes "backend_run tr s" "be_dev s = Some dev" "dv_mem dev = Some m"
  shows "\<exists>mmap msg rs. (mmap, msg) \<in> set tr \<and> ms_request msg = SET_MEM_TABLE \<and> length rs \<le> VIRTIO_MAX_REGION \<and>
    mem_nregions msg = Some (of_nat (length rs)) \<and>
    (\<forall>i<length rs. mem_region i msg = Some (rs ! i) \<and> i < length (ms_fds msg)) \<and>
    (\<forall>a. gpa_to_hva dev a =
       Some (case find (\<lambda>i. covers (rs ! i) a) [0..<length rs] of
         None \<Rightarrow> 0
       | Some i \<Rightarrow> mmap (ms_fds msg ! i) (map_len (rs ! i)) + (rg_mmap_offset (rs ! i) + (a - rg_guest_address (rs ! i))))) \<and>
    (\<forall>r\<in>set rs. \<forall>a. covers r a \<and> map_fits r \<longrightarrow> unat (rg_mmap_offset r + (a - rg_guest_address r)) \<le> unat (map_len r))"
  using run_translation [OF assms] covers_in_mapping by blast

definition owner_msg :: vhost_user_msg where
  "owner_msg = \<lparr>ms_request = SET_OWNER, ms_flags = 1, ms_size = 0, ms_union = replicate 264 0, ms_fds = replicate 8 0\<rparr>"

theorem backend_translation_safe_witness:
  "\<exists>s dev m. backend_run [(tb_mmap, tb_msg), (tb_mmap, owner_msg)] s \<and> be_dev s = Some dev \<and> dv_mem dev = Some m \<and>
     gpa_to_hva dev 0x1010 = Some 0x40001010 \<and> gpa_to_hva dev 0x20000 = Some 0"
proof -
  have "vhost_user_msg_handler tb_mmap True owner_msg (init_backend tb_shm) = Some (None, [], tb_owned)"
    by (simp add: vhost_user_msg_handler_def owner_msg_def set_owner_def tb_owned_def tb_dev_def
        GET_FEATURES_def SET_FEATURES_def SET_OWNER_def)
  then have o: "backend_run [(tb_mmap, owner_msg)] tb_owned" by (rule backend_run.message [OF backend_run.init])
  obtain m where m: "vhost_user_msg_handler tb_mmap True tb_msg tb_owned =
      Some (None, [], tb_owned\<lparr>be_dev := Some (tb_dev\<lparr>dv_mem := Some m\<rparr>)\<rparr>)"
    using set_mem_table_translation [of tb_owned tb_dev tb_msg tb_regions "replicate 192 0" _ tb_mmap, OF _ _ _ _ _ _ _ _ refl] tb_disjoint
    by (auto simp: tb_owned_def tb_dev_def tb_msg_def tb_regions_def)
  let ?s = "tb_owned\<lparr>be_dev := Some (tb_dev\<lparr>dv_mem := Some m\<rparr>)\<rparr>"
  have r: "backend_run [(tb_mmap, tb_msg), (tb_mmap, owner_msg)] ?s" by (rule backend_run.message [OF o m])
  have d: "be_dev ?s = Some (tb_dev\<lparr>dv_mem := Some m\<rparr>)" "dv_mem (tb_dev\<lparr>dv_mem := Some m\<rparr>) = Some m" by simp_all
  obtain mmap msg rs where t: "(mmap, msg) \<in> set [(tb_mmap, tb_msg), (tb_mmap, owner_msg)]" "ms_request msg = SET_MEM_TABLE"
    "length rs \<le> VIRTIO_MAX_REGION" "mem_nregions msg = Some (of_nat (length rs))" "\<forall>i<length rs. mem_region i msg = Some (rs ! i)"
    "\<And>a. gpa_to_hva (tb_dev\<lparr>dv_mem := Some m\<rparr>) a =
       Some (case find (\<lambda>i. covers (rs ! i) a) [0..<length rs] of
         None \<Rightarrow> 0
       | Some i \<Rightarrow> mmap (ms_fds msg ! i) (map_len (rs ! i)) + (rg_mmap_offset (rs ! i) + (a - rg_guest_address (rs ! i))))"
    using backend_translation_safe [OF r d] by blast
  have msg: "msg = tb_msg" "mmap = tb_mmap" using t(1,2) by (auto simp: owner_msg_def SET_OWNER_def SET_MEM_TABLE_def)
  have u: "ms_union tb_msg = mem_table_bytes tb_regions @ replicate 192 0" by (simp add: tb_msg_def)
  have "(of_nat (length rs) :: u32) = of_nat 2" using t(4) mem_nregions_bytes [OF u] msg by (simp add: tb_regions_def)
  then have "unat (of_nat (length rs) :: u32) = 2" by simp
  then have len: "length rs = 2" using t(3) by (simp add: VIRTIO_MAX_REGION_def unsigned_of_nat take_bit_nat_eq_self)
  have "rs = tb_regions"
    using t(5) len mem_region_bytes [OF _ u] msg by (intro nth_equalityI) (auto simp: tb_regions_def)
  then have "gpa_to_hva (tb_dev\<lparr>dv_mem := Some m\<rparr>) 0x1010 = Some 0x40001010" "gpa_to_hva (tb_dev\<lparr>dv_mem := Some m\<rparr>) 0x20000 = Some 0"
    using t(6) msg by (simp_all add: tb_regions_def covers_def tb_msg_def tb_mmap_def upt_rec)
  with r d show ?thesis by blast
qed

end
