(* ===== verification/Virtio_Packets.thy ===== *)
theory Virtio_Packets
  imports Virtio_Correct
begin

text \<open>
  The packets of the backend \<^verbatim>\<open>virtio-vhost/vhost.c\<close>: what \<open>vhost_tx\<close> takes from a guest and \<open>vhost_rx\<close> gives
  to it, the way of a packet from one guest to another through two backends, and the cases in which
  packets are lost, repeated or mixed up with other memory.
\<close>

section \<open>Packets from the guest\<close>

text \<open>The packet of a buffer, and a packet that a guest has put behind the header into one buffer.\<close>

definition mbuf_packet :: "vhost_mbuf \<Rightarrow> bytes" where
  "mbuf_packet m = take (unat (mb_len m)) (mb_data m)"

definition guest_packet :: "virtio_dev \<Rightarrow> virtqueue \<Rightarrow> shm \<Rightarrow> u16 \<Rightarrow> bytes \<Rightarrow> bool" where
  "guest_packet dev q sh x p \<longleftrightarrow> p \<noteq> [] \<and> length p \<le> MBUF_DATA_LENGTH \<and>
     (\<exists>desc h hdr. desc_of q sh = Some desc \<and> unat x < length desc \<and>
        unat (d_len (desc ! unat x)) = virtio_net_hdr_size + length p \<and>
        gpa_to_hva dev (d_addr (desc ! unat x)) = Some h \<and>
        hva_rd h virtio_net_hdr_size sh = Some hdr \<and> hva_rd (h + of_nat virtio_net_hdr_size) (length p) sh = Some p)"

definition mbuf_alloc :: "(bytes \<times> bytes) option \<Rightarrow> bool" where
  "mbuf_alloc a \<longleftrightarrow> (\<exists>h d. a = Some (h, d) \<and> length d = MBUF_DATA_LENGTH)"

lemma put_zero: "length bs \<le> length buf \<Longrightarrow> take (length bs) (put 0 bs buf) = bs"
  using take_drop_put_same [of 0 bs buf] by simp

lemma copy_desc_to_mbuf_packet:
  assumes "guest_packet dev q sh x p" "length (mb_data m) = MBUF_DATA_LENGTH"
  shows "\<exists>m'. copy_desc_to_mbuf dev q m x sh = Some m' \<and> mbuf_packet m' = p \<and> unat (mb_len m') = length p \<and>
    length (mb_data m') = MBUF_DATA_LENGTH"
proof -
  obtain desc h hdr where g: "desc_of q sh = Some desc" "unat x < length desc"
      "unat (d_len (desc ! unat x)) = 12 + length p" "gpa_to_hva dev (d_addr (desc ! unat x)) = Some h"
      "hva_rd h 12 sh = Some hdr" "hva_rd (h + 12) (length p) sh = Some p"
    and p: "p \<noteq> []" "length p \<le> 1024"
    using assms(1) by (auto simp: guest_packet_def virtio_net_hdr_size_def MBUF_DATA_LENGTH_def)
  let ?d = "desc ! unat x"
  have l: "unat (d_len ?d - 12) = length p"
    using g(3) by (subst unat_sub) (simp_all add: word_le_nat_alt)
  then have "d_len ?d - 12 > 0" using p(1) by (simp add: word_less_nat_alt)
  with l g p assms(2) show ?thesis
    by (simp add: copy_desc_to_mbuf_def nth_opt_def virtio_net_hdr_size_def MBUF_DATA_LENGTH_def wr_def mbuf_packet_def put_zero)
qed

lemma tables_last_used_idx [simp]:
  "desc_of (q\<lparr>q_last_used_idx := l\<rparr>) sh = desc_of q sh" "avail_of (q\<lparr>q_last_used_idx := l\<rparr>) sh = avail_of q sh"
  "used_of (q\<lparr>q_last_used_idx := l\<rparr>) sh = used_of q sh"
  by (simp_all add: desc_of_def avail_of_def used_of_def)

text \<open>Neither the ring of used elements nor the private index takes part in finding a packet.\<close>

lemma guest_packet_frame:
  assumes "q_desc q' = q_desc q" "sm_desc sh' = sm_desc sh" "sm_mem sh' = sm_mem sh"
  shows "guest_packet dev q' sh' x p = guest_packet dev q sh x p"
  using assms by (simp add: guest_packet_def desc_of_def hva_rd_def)

lemma mod_distinct:
  fixes i :: nat
  assumes "i < n" "j < n" "n \<le> N" "(L + i) mod N = (L + j) mod N"
  shows "i = j"
proof -
  have "int (L + i) mod int N = int (L + j) mod int N" using assms(4) by (metis of_nat_mod)
  then have d: "int N dvd int i - int j" by (simp add: mod_eq_dvd_iff)
  have "int i - int j = 0"
  proof (rule ccontr)
    assume z: "int i - int j \<noteq> 0"
    then have "\<bar>int N\<bar> \<le> \<bar>int i - int j\<bar>" using dvd_imp_le_int d by blast
    then show False using assms(1-3) by linarith
  qed
  then show ?thesis by simp
qed

lemma tx_slot_nat:
  assumes "0 < unat (q_num q)" "unat k + i < 2 ^ 32"
  shows "\<exists>p. tx_slot q (k + of_nat i) = Some p \<and> unat p = (unat k + i) mod unat (q_num q)"
proof -
  have "unat (k + of_nat i) = unat k + i"
    using assms(2) by (simp add: unat_word_ariths unsigned_of_nat take_bit_nat_eq_self)
  then show ?thesis using assms(1) by (auto simp: tx_slot_def unat_mod)
qed

lemma avail_indices_tx:
  assumes "0 < unat (q_num q)" "unat (q_num q) \<le> length (av_ring avail)" "unat k + n < 2 ^ 32"
  shows "avail_indices (tx_slot q) avail k n = Some (map (\<lambda>i. av_ring avail ! ((unat k + i) mod unat (q_num q))) [0..<n])"
  using assms(3)
proof (induction n arbitrary: k)
  case (Suc n)
  obtain p where p: "tx_slot q k = Some p" "unat p = unat k mod unat (q_num q)"
    using tx_slot_nat [OF assms(1), of k 0] Suc.prems by auto
  have k: "unat (k + 1) = unat k + 1" using Suc.prems by (simp add: unat_word_ariths)
  have "unat p < length (av_ring avail)" using p(2) assms(1,2) mod_less_divisor [OF assms(1), of "unat k"] by linarith
  then have "avail_indices (tx_slot q) avail k (Suc n) =
      Some (av_ring avail ! (unat k mod unat (q_num q)) # map (\<lambda>i. av_ring avail ! ((unat k + 1 + i) mod unat (q_num q))) [0..<n])"
    using p Suc.IH [of "k + 1"] Suc.prems k by (simp add: nth_opt_def)
  also have "\<dots> = Some (map (\<lambda>i. av_ring avail ! ((unat k + i) mod unat (q_num q))) [0..<Suc n])"
    by (simp add: upt_rec [of 0 "Suc n"] map_Suc_upt [symmetric] comp_def del: upt_Suc)
  finally show ?case .
qed simp

lemma put_used_spec:
  assumes "used_of q sh = Some used" "unat p < length (us_ring used)"
  shows "\<exists>sh'. put_used q p e sh = Some sh' \<and> used_of q sh' = Some (used\<lparr>us_ring := (us_ring used)[unat p := e]\<rparr>) \<and>
    sm_desc sh' = sm_desc sh \<and> sm_mem sh' = sm_mem sh \<and> sm_avail sh' = sm_avail sh"
  using assms by (cases "q_used q = NULL") (simp_all add: put_used_def upd_opt_def used_of_def)

lemma tx_loop_spec:
  assumes "\<forall>j<n. mbuf_alloc (alloc (i + j))" "length xs = n" "length ps = n"
    and "\<forall>j<n. guest_packet dev q sh (xs ! j) (ps ! j)"
    and "used_of q sh = Some used" "0 < unat (q_num q)" "unat (q_num q) \<le> length (us_ring used)" "n \<le> unat (q_num q)"
    and "unat (q_last_used_idx q) + n < 2 ^ 32"
  shows "\<exists>ms q' sh' used'. tx_loop dev alloc i xs q sh = Some (ms, q', sh') \<and> map mbuf_packet ms = ps \<and>
    (\<forall>m \<in> set ms. unat (mb_len m) \<le> length (mb_data m)) \<and>
    q' = q\<lparr>q_last_used_idx := q_last_used_idx q + of_nat n\<rparr> \<and> used_of q sh' = Some used' \<and> us_idx used' = us_idx used \<and>
    (\<forall>j<n. us_ring used' ! ((unat (q_last_used_idx q) + j) mod unat (q_num q)) = \<lparr>ue_id = ucast (xs ! j), ue_len = 0\<rparr>) \<and>
    (\<forall>y. (\<forall>j<n. y \<noteq> (unat (q_last_used_idx q) + j) mod unat (q_num q)) \<longrightarrow> us_ring used' ! y = us_ring used ! y) \<and>
    sm_mem sh' = sm_mem sh \<and> sm_desc sh' = sm_desc sh \<and> sm_avail sh' = sm_avail sh"
  using assms
proof (induction xs arbitrary: i n ps q sh used)
  case Nil
  then show ?case by auto
next
  case (Cons x xs)
  note prems = Cons.prems
  let ?L = "unat (q_last_used_idx q)" and ?N = "unat (q_num q)"
  obtain n' p ps' where n: "n = Suc n'" "ps = p # ps'" using prems(2,3) by (cases ps) auto
  obtain h d where al: "alloc i = Some (h, d)" "length d = MBUF_DATA_LENGTH"
    using prems(1) n by (auto simp: mbuf_alloc_def)
  have "guest_packet dev q sh x p" using prems(4) n by auto
  from copy_desc_to_mbuf_packet [OF this, of "\<lparr>mb_data = d, mb_len = of_nat MBUF_DATA_LENGTH, mb_hdr = h\<rparr>"] al(2)
  obtain m where m: "copy_desc_to_mbuf dev q \<lparr>mb_data = d, mb_len = of_nat MBUF_DATA_LENGTH, mb_hdr = h\<rparr> x sh = Some m"
      "mbuf_packet m = p" "unat (mb_len m) \<le> length (mb_data m)"
    using \<open>guest_packet dev q sh x p\<close> by (auto simp: guest_packet_def)
  obtain sl where sl: "tx_slot q (q_last_used_idx q) = Some sl" "unat sl = ?L mod ?N"
    using tx_slot_nat [OF prems(6), of "q_last_used_idx q" 0] prems(9) by auto
  have sl_len: "unat sl < length (us_ring used)" using sl(2) prems(6,7) mod_less_divisor [OF prems(6), of ?L] by linarith
  let ?q = "q\<lparr>q_last_used_idx := q_last_used_idx q + 1\<rparr>" and ?e = "\<lparr>ue_id = ucast x, ue_len = 0\<rparr>"
  let ?used = "used\<lparr>us_ring := (us_ring used)[unat sl := ?e]\<rparr>"
  have "used_of ?q sh = Some used" using prems(5) by simp
  from put_used_spec [OF this sl_len] obtain sh1 where sh1: "put_used ?q sl ?e sh = Some sh1" "used_of ?q sh1 = Some ?used"
      "sm_desc sh1 = sm_desc sh" "sm_mem sh1 = sm_mem sh" "sm_avail sh1 = sm_avail sh" by blast
  have L: "unat (q_last_used_idx ?q) = ?L + 1" using prems(9) n by (simp add: unat_word_ariths)
  have gp: "\<forall>j<n'. guest_packet dev ?q sh1 (xs ! j) (ps' ! j)"
  proof (intro allI impI)
    fix j assume "j < n'"
    then have "guest_packet dev q sh (xs ! j) (ps' ! j)" using prems(4)[rule_format, of "Suc j"] n by simp
    then show "guest_packet dev ?q sh1 (xs ! j) (ps' ! j)"
      by (subst guest_packet_frame [where q = q and sh = sh]) (simp_all add: sh1)
  qed
  have al': "\<forall>j<n'. mbuf_alloc (alloc (i + 1 + j))"
    using prems(1) n by (metis Suc_less_eq add_Suc_right add.commute plus_1_eq_Suc)
  obtain ms q' sh' used' where r: "tx_loop dev alloc (i + 1) xs ?q sh1 = Some (ms, q', sh')" "map mbuf_packet ms = ps'"
      "\<forall>m \<in> set ms. unat (mb_len m) \<le> length (mb_data m)"
      "q' = ?q\<lparr>q_last_used_idx := q_last_used_idx ?q + of_nat n'\<rparr>" "used_of ?q sh' = Some used'" "us_idx used' = us_idx ?used"
      "\<forall>j<n'. us_ring used' ! ((?L + 1 + j) mod ?N) = \<lparr>ue_id = ucast (xs ! j), ue_len = 0\<rparr>"
      "\<forall>y. (\<forall>j<n'. y \<noteq> (?L + 1 + j) mod ?N) \<longrightarrow> us_ring used' ! y = us_ring ?used ! y"
      "sm_mem sh' = sm_mem sh1" "sm_desc sh' = sm_desc sh1" "sm_avail sh' = sm_avail sh1"
    using Cons.IH [OF al' _ _ gp sh1(2)] prems(2,3,6,7,8,9) n L by auto
  have run: "tx_loop dev alloc i (x # xs) q sh = Some (m # ms, q', sh')"
    using al(1) m(1) sl(1) sh1(1) r(1) by (simp add: vhost_new_mbuf_def)
  have own: "us_ring used' ! (?L mod ?N) = ?e"
  proof -
    have "?L mod ?N \<noteq> (?L + 1 + j) mod ?N" if "j < n'" for j
      using mod_distinct [of 0 n "Suc j" ?N ?L] that prems(8) n by auto
    then have "us_ring used' ! (?L mod ?N) = us_ring ?used ! (?L mod ?N)" using r(8) by blast
    then show ?thesis using sl(2) sl_len by simp
  qed
  have all: "us_ring used' ! ((?L + j) mod ?N) = \<lparr>ue_id = ucast ((x # xs) ! j), ue_len = 0\<rparr>" if "j < n" for j
    using that own r(7) n by (cases j) auto
  have other: "us_ring used' ! y = us_ring used ! y" if y: "\<forall>j<n. y \<noteq> (?L + j) mod ?N" for y
  proof -
    have "y \<noteq> (?L + 1 + j) mod ?N" if "j < n'" for j using y[rule_format, of "Suc j"] that n by simp
    moreover have "y \<noteq> ?L mod ?N" using y[rule_format, of 0] n by simp
    ultimately show ?thesis using r(8) sl(2) by simp
  qed
  have q': "q' = q\<lparr>q_last_used_idx := q_last_used_idx q + of_nat n\<rparr>" using r(4) n by (simp add: algebra_simps)
  have u: "used_of q sh' = Some used'" using r(5) by simp
  have lens: "\<forall>m' \<in> set (m # ms). unat (mb_len m') \<le> length (mb_data m')" using r(3) m(3) by simp
  have same: "sm_mem sh' = sm_mem sh" "sm_desc sh' = sm_desc sh" "sm_avail sh' = sm_avail sh" using r(9-11) sh1(3-5) by simp_all
  have ps: "map mbuf_packet (m # ms) = ps" "us_idx used' = us_idx used" using r(2,6) m(2) n by simp_all
  show ?case
    using run ps lens q' u all other same by blast
qed

text \<open>A queue whose tables the backend can use; \<open>L\<close> is the next position of the device.\<close>

definition queue_ok :: "virtqueue \<Rightarrow> shm \<Rightarrow> vring_avail \<Rightarrow> vring_used \<Rightarrow> bool" where
  "queue_ok q sh avail used \<longleftrightarrow> q_desc q \<noteq> NULL \<and> avail_of q sh = Some avail \<and> used_of q sh = Some used \<and>
     0 < unat (q_num q) \<and> unat (q_num q) \<le> length (av_ring avail) \<and> unat (q_num q) \<le> length (us_ring used)"

abbreviation next_pos :: "virtqueue \<Rightarrow> nat \<Rightarrow> nat" where
  "next_pos q j \<equiv> (unat (q_last_used_idx q) + j) mod unat (q_num q)"

lemma queue_ok_addrs: "queue_ok q sh avail used \<Longrightarrow> q_desc q \<noteq> 0 \<and> q_avail q \<noteq> 0 \<and> q_used q \<noteq> 0"
  by (auto simp: queue_ok_def avail_of_def used_of_def split: if_splits)

lemma add_used_idx_spec:
  assumes "used_of q sh = Some used"
  shows "\<exists>sh'. add_used_idx q n sh = Some sh' \<and> used_of q sh' = Some (used\<lparr>us_idx := us_idx used + of_nat n\<rparr>) \<and>
    sm_desc sh' = sm_desc sh \<and> sm_mem sh' = sm_mem sh \<and> sm_avail sh' = sm_avail sh"
  using assms by (cases "q_used q = NULL") (simp_all add: add_used_idx_def used_of_def)

lemma vhost_tx_spec:
  assumes "dv_mem dev \<noteq> None" "nth_opt (dv_vq dev) 1 = Some q" "queue_ok q sh avail used"
    and "n \<le> MAX_PKT_BURST" "n \<le> unat (q_num q)" "unat (q_last_used_idx q) + n < 2 ^ 32"
    and "\<forall>j<n. mbuf_alloc (alloc j)" "length ps = n"
    and "\<forall>j<n. guest_packet dev q sh (av_ring avail ! next_pos q j) (ps ! j)"
  shows "\<exists>ms dev' sh' used'. vhost_tx alloc dev n sh = Some (ms, dev', sh') \<and> map mbuf_packet ms = ps \<and>
    (\<forall>m \<in> set ms. unat (mb_len m) \<le> length (mb_data m)) \<and>
    dev' = dev\<lparr>dv_vq := (dv_vq dev)[1 := q\<lparr>q_last_used_idx := q_last_used_idx q + of_nat n\<rparr>]\<rparr> \<and>
    used_of q sh' = Some used' \<and> us_idx used' = us_idx used + of_nat n \<and>
    (\<forall>j<n. us_ring used' ! next_pos q j = \<lparr>ue_id = ucast (av_ring avail ! next_pos q j), ue_len = 0\<rparr>) \<and>
    sm_mem sh' = sm_mem sh \<and> sm_desc sh' = sm_desc sh \<and> sm_avail sh' = sm_avail sh"
proof -
  let ?xs = "map (\<lambda>j. av_ring avail ! next_pos q j) [0..<n]"
  have q: "0 < unat (q_num q)" "unat (q_num q) \<le> length (av_ring avail)" "unat (q_num q) \<le> length (us_ring used)"
    "avail_of q sh = Some avail" "used_of q sh = Some used"
    using assms(3) by (simp_all add: queue_ok_def)
  note addrs = queue_ok_addrs [OF assms(3)]
  have idx: "avail_indices (tx_slot q) avail (q_last_used_idx q) n = Some ?xs"
    by (rule avail_indices_tx [OF q(1,2) assms(6)])
  obtain ms q' sh1 used1 where r: "tx_loop dev alloc 0 ?xs q sh = Some (ms, q', sh1)" "map mbuf_packet ms = ps"
      "\<forall>m \<in> set ms. unat (mb_len m) \<le> length (mb_data m)"
      "q' = q\<lparr>q_last_used_idx := q_last_used_idx q + of_nat n\<rparr>" "used_of q sh1 = Some used1" "us_idx used1 = us_idx used"
      "\<forall>j<n. us_ring used1 ! next_pos q j = \<lparr>ue_id = ucast (?xs ! j), ue_len = 0\<rparr>"
      "sm_mem sh1 = sm_mem sh" "sm_desc sh1 = sm_desc sh" "sm_avail sh1 = sm_avail sh"
    using tx_loop_spec [of n alloc 0 ?xs ps dev q sh used] assms(5-9) q by auto
  have "used_of q' sh1 = Some used1" using r(4,5) by simp
  from add_used_idx_spec [OF this, of n] obtain sh' where sh': "add_used_idx q' n sh1 = Some sh'"
      "used_of q' sh' = Some (used1\<lparr>us_idx := us_idx used1 + of_nat n\<rparr>)"
      "sm_desc sh' = sm_desc sh1" "sm_mem sh' = sm_mem sh1" "sm_avail sh' = sm_avail sh1" by blast
  have len: "length ms = n" using r(2) assms(8) by auto
  have run: "vhost_tx alloc dev n sh = Some (ms, dev\<lparr>dv_vq := (dv_vq dev)[1 := q']\<rparr>, sh')"
    using assms(1,2,4) addrs q idx r(1) sh'(1) len by (auto simp: vhost_tx_def)
  have u: "used_of q sh' = Some (used1\<lparr>us_idx := us_idx used + of_nat n\<rparr>)" using sh'(2) r(4,6) by simp
  have ring: "\<forall>j<n. us_ring (used1\<lparr>us_idx := us_idx used + of_nat n\<rparr>) ! next_pos q j =
      \<lparr>ue_id = ucast (av_ring avail ! next_pos q j), ue_len = 0\<rparr>"
    using r(7) by simp
  show ?thesis
    using run r(2,3,4,8-10) u ring sh'(3-5) by (intro exI conjI) (assumption | simp)+
qed

section \<open>Packets to the guest\<close>

text \<open>A chain of a buffer for the header alone and one for a packet of \<open>l\<close> bytes.\<close>

definition guest_chain :: "virtio_dev \<Rightarrow> virtqueue \<Rightarrow> shm \<Rightarrow> u16 \<Rightarrow> nat \<Rightarrow> u64 \<Rightarrow> bool" where
  "guest_chain dev q sh x l b \<longleftrightarrow>
     (\<exists>desc h. desc_of q sh = Some desc \<and> unat x < length desc \<and>
        unat (d_len (desc ! unat x)) = virtio_net_hdr_size \<and> unat (d_next (desc ! unat x)) < length desc \<and>
        gpa_to_hva dev (d_addr (desc ! unat x)) = Some h \<and> h \<noteq> 0 \<and>
        (\<forall>i<virtio_net_hdr_size. sm_mem sh (unat h + i) \<noteq> None) \<and>
        gpa_to_hva dev (d_addr (desc ! unat (d_next (desc ! unat x)))) = Some b \<and> b \<noteq> 0 \<and>
        (\<forall>i<l. sm_mem sh (unat b + i) \<noteq> None))"

lemma hva_rd_frame: "sm_mem sh' = sm_mem sh \<Longrightarrow> hva_rd a n sh' = hva_rd a n sh"
  by (simp add: hva_rd_def)

lemma unat_ucast_u32: "unat (ucast (x :: u16) :: u32) = unat x"
  using unsigned_less [of x, where 'a = nat] by (simp add: unsigned_ucast_eq take_bit_nat_eq_self)

lemma copy_mbuf_to_desc_chain:
  assumes "guest_chain dev q sh x (length p) b" "mbuf_packet m = p" "unat (mb_len m) \<le> length (mb_data m)"
  shows "\<exists>sh'. copy_mbuf_to_desc dev q m (ucast x) sh = Some sh' \<and> hva_rd b (length p) sh' = Some p \<and>
    sm_desc sh' = sm_desc sh \<and> sm_avail sh' = sm_avail sh \<and> sm_used sh' = sm_used sh"
proof -
  obtain desc h where c: "desc_of q sh = Some desc" "unat x < length desc" "unat (d_len (desc ! unat x)) = 12"
      "unat (d_next (desc ! unat x)) < length desc" "gpa_to_hva dev (d_addr (desc ! unat x)) = Some h" "h \<noteq> 0"
      "\<forall>i<12. sm_mem sh (unat h + i) \<noteq> None"
      "gpa_to_hva dev (d_addr (desc ! unat (d_next (desc ! unat x)))) = Some b" "b \<noteq> 0"
      "\<forall>i<length p. sm_mem sh (unat b + i) \<noteq> None"
    using assms(1) by (auto simp: guest_chain_def virtio_net_hdr_size_def)
  have x: "unat (ucast x :: u32) = unat x" by (rule unat_ucast_u32)
  have "\<forall>i<length (replicate 12 (0 :: u8)). sm_mem sh (unat h + i) \<noteq> None" using c(7) by simp
  from mem_wr_fits [OF this] obtain m1 where m1: "mem_wr (unat h) (replicate 12 0) (sm_mem sh) = Some m1" by blast
  have "\<forall>i<length p. m1 (unat b + i) \<noteq> None" using c(10) unfolding mem_wr_length [OF m1] .
  from mem_wr_fits [OF this] obtain m2 where m2: "mem_wr (unat b) p m1 = Some m2" by blast
  have rd: "rd 0 (unat (mb_len m)) (mb_data m) = Some p" using assms(2,3) by (simp add: rd_def mbuf_packet_def)
  have "copy_mbuf_to_desc dev q m (ucast x) sh = Some (sh\<lparr>sm_mem := m2\<rparr>)"
    using c m1 m2 rd x by (simp add: copy_mbuf_to_desc_def nth_opt_def virtio_net_hdr_size_def hva_wr_def)
  moreover have "hva_rd b (length p) (sh\<lparr>sm_mem := m2\<rparr>) = Some p" using mem_rd_wr [OF m2] c(9) by (simp add: hva_rd_def)
  ultimately show ?thesis by simp
qed

lemma navail_difference:
  fixes a :: u16 and l :: u32
  assumes "unat l \<le> 2 ^ 31"
  shows "sint (ucast a - l) = int (unat a) - int (unat l)"
proof -
  have e: "ucast a - l = word_of_int (int (unat a) - int (unat l))"
    by (simp add: of_int_of_nat_eq)
  have w: "sint (word_of_int k :: u32) = signed_take_bit 31 k" for k by (simp add: signed_of_int)
  have "signed_take_bit 31 (int (unat a) - int (unat l)) = int (unat a) - int (unat l)"
  proof (rule signed_take_bit_int_eq_self)
    have l: "unat l \<le> 2147483648" using assms by simp
    have a: "unat a < 65536" using unsigned_less [of a, where 'a = nat] by simp
    have "- 2147483648 \<le> int (unat a) - int (unat l) \<and> int (unat a) - int (unat l) < 2147483648" using l a by linarith
    then show "- (2 ^ 31) \<le> int (unat a) - int (unat l)" "int (unat a) - int (unat l) < 2 ^ 31"
      by (simp_all del: of_nat_unat)
  qed
  then show ?thesis by (simp only: e w)
qed

lemma ucast_back: "unat (y :: u32) < 65536 \<Longrightarrow> ucast (ucast y :: u16) = y"
  by (simp add: word_unat_eq_iff unat_ucast_u32 unsigned_ucast_eq unsigned_take_bit_eq take_bit_nat_eq_self)

lemma unat_and_less:
  fixes a b :: u32
  assumes "b \<noteq> 0"
  shows "unat (a AND (b - 1)) < unat b"
proof -
  have "unat (a AND (b - 1)) \<le> unat (b - 1)" using word_and_le1 by (simp add: word_le_nat_alt)
  also have "\<dots> = unat b - 1" by (rule unat_minus_one [OF assms])
  finally show ?thesis using assms by (metis One_nat_def Suc_pred less_Suc_eq_le unat_gt_0)
qed

lemma vhost_rx_spec:
  assumes "nth_opt (dv_vq dev) i = Some q" "queue_ok q sh avail used" "unat (q_num q) \<le> 65536"
    and "unat (q_last_used_idx q) < unat (av_idx avail)"
    and "x = av_ring avail ! unat (q_last_used_idx q AND (q_num q - 1))"
    and "guest_chain dev q sh x (length p) b" "mbuf_packet m = p" "unat (mb_len m) = length p" "length p \<le> length (mb_data m)"
  shows "\<exists>sh' used'. vhost_rx i [m] 1 dev sh =
      Some (1, True, dev\<lparr>dv_vq := (dv_vq dev)[i := q\<lparr>q_last_used_idx := q_last_used_idx q + 1\<rparr>]\<rparr>, sh') \<and>
    hva_rd b (length p) sh' = Some p \<and> used_of q sh' = Some used' \<and> us_idx used' = us_idx used + 1 \<and>
    us_ring used' ! unat (q_last_used_idx q AND (q_num q - 1)) = \<lparr>ue_id = ucast x, ue_len = mb_len m + 12\<rparr>"
proof -
  let ?s = "q_last_used_idx q AND (q_num q - 1)" and ?q = "q\<lparr>q_last_used_idx := q_last_used_idx q + 1\<rparr>"
  have q: "0 < unat (q_num q)" "unat (q_num q) \<le> length (av_ring avail)" "unat (q_num q) \<le> length (us_ring used)"
    "avail_of q sh = Some avail" "used_of q sh = Some used"
    using assms(2) by (simp_all add: queue_ok_def)
  have n: "q_num q \<noteq> 0" using q(1) by auto
  have s: "unat ?s < unat (q_num q)" by (rule unat_and_less [OF n])
  have s16: "ucast (ucast ?s :: u16) = ?s"
    by (rule ucast_back) (use s assms(3) in linarith)
  have lt: "unat (q_last_used_idx q) \<le> 2 ^ 31"
    using assms(4) unsigned_less [of "av_idx avail", where 'a = nat] by simp
  have "1 \<le> sint (ucast (av_idx avail) - q_last_used_idx q)"
    using navail_difference [OF lt, of "av_idx avail"] assms(4) by linarith
  then have na: "min 1 (sint (ucast (av_idx avail) - q_last_used_idx q)) = 1" by simp
  have idx: "avail_indices (rx_slot q) avail (q_last_used_idx q) 1 = Some [x]"
    using s q(2) assms(5) by (simp add: rx_slot_def nth_opt_def)
  obtain sh1 where sh1: "copy_mbuf_to_desc dev q m (ucast x) sh = Some sh1" "hva_rd b (length p) sh1 = Some p"
      "sm_desc sh1 = sm_desc sh" "sm_avail sh1 = sm_avail sh" "sm_used sh1 = sm_used sh"
    using copy_mbuf_to_desc_chain [OF assms(6,7)] assms(8,9) by auto
  let ?e = "\<lparr>ue_id = ucast x, ue_len = mb_len m + of_nat virtio_net_hdr_size\<rparr>"
  have "used_of ?q sh1 = used_of q sh" using sh1(5) by (simp add: used_of_def)
  then have "used_of ?q sh1 = Some used" using q(5) by simp
  from put_used_spec [OF this, of ?s ?e] obtain sh2 where sh2: "put_used ?q ?s ?e sh1 = Some sh2"
      "used_of ?q sh2 = Some (used\<lparr>us_ring := (us_ring used)[unat ?s := ?e]\<rparr>)" "sm_mem sh2 = sm_mem sh1"
    using s q(3) by auto
  from add_used_idx_spec [OF sh2(2), of 1] obtain sh3 where sh3: "add_used_idx ?q 1 sh2 = Some sh3"
      "used_of ?q sh3 = Some (used\<lparr>us_ring := (us_ring used)[unat ?s := ?e], us_idx := us_idx used + 1\<rparr>)" "sm_mem sh3 = sm_mem sh2"
    by auto
  have "vhost_rx i [m] 1 dev sh = Some (1, True, dev\<lparr>dv_vq := (dv_vq dev)[i := ?q]\<rparr>, sh3)"
    using assms(1) q(4) na idx sh1(1) sh2(1) sh3(1) s16
    by (simp add: vhost_rx_def MAX_PKT_BURST_def rx_slot_def)
  moreover have "hva_rd b (length p) sh3 = Some p" using sh1(2) hva_rd_frame [of sh3 sh1] sh2(3) sh3(3) by simp
  moreover have "used_of q sh3 = Some (used\<lparr>us_ring := (us_ring used)[unat ?s := ?e], us_idx := us_idx used + 1\<rparr>)"
    using sh3(2) by simp
  ultimately show ?thesis using s q(3) by (simp add: virtio_net_hdr_size_def)
qed

lemma vhost_rx_stuck:
  assumes "nth_opt (dv_vq dev) i = Some q" "avail_of q sh = Some avail" "used_of q sh = Some used"
    and "unat (av_idx avail) < unat (q_last_used_idx q)" "unat (q_last_used_idx q) \<le> 2 ^ 31" "0 < n"
  shows "vhost_rx i ms n dev sh = Some (0, True, dev, sh)"
proof -
  let ?d = "sint (ucast (av_idx avail) - q_last_used_idx q)"
  have d: "?d < 0" using navail_difference [OF assms(5), of "av_idx avail"] assms(4) by linarith
  then have na: "min (min n ?d) (int MAX_PKT_BURST) = ?d" using assms(6) by (simp add: min_def)
  have rx: "rx_loop dev ms [] q sh = Some (q, sh)" by (cases ms) simp_all
  have "q_used q \<noteq> 0" "sm_used sh (q_used q) = Some used" using assms(3) by (auto simp: used_of_def split: if_splits)
  then have add: "add_used_idx q 0 sh = Some sh" by (simp add: add_used_idx_def used_of_def fun_upd_idem)
  have same: "dev\<lparr>dv_vq := (dv_vq dev)[i := q]\<rparr> = dev" using assms(1) by (auto simp: nth_opt_def split: if_splits)
  show ?thesis
    unfolding vhost_rx_def Let_def using assms(1,2) d na rx add same by simp
qed

section \<open>From guest to guest\<close>

lemma vnet_round_sends:
  assumes "be_dev s = Some dev" "dv_mem dev \<noteq> None" "nth_opt (dv_vq dev) 1 = Some q" "queue_ok q (be_shm s) avail used"
    and "unat (q_last_used_idx q) + 1 < 2 ^ 32" "guest_packet dev q (be_shm s) (av_ring avail ! next_pos q 0) p"
    and "ev_pollout e" "\<not> ev_pollin e" "mbuf_alloc (ev_tx_alloc e)" "ev_write_ok e"
  shows "\<exists>s'. vnet_round e s = Some (Some p, s') \<and>
    be_dev s' = Some (dev\<lparr>dv_vq := (dv_vq dev)[1 := q\<lparr>q_last_used_idx := q_last_used_idx q + 1\<rparr>]\<rparr>)"
proof -
  have n: "1 \<le> unat (q_num q)" using assms(4) by (simp add: queue_ok_def)
  obtain ms sh' where r: "vhost_tx (\<lambda>_. ev_tx_alloc e) dev 1 (be_shm s) =
      Some (ms, dev\<lparr>dv_vq := (dv_vq dev)[1 := q\<lparr>q_last_used_idx := q_last_used_idx q + 1\<rparr>]\<rparr>, sh')"
      "map mbuf_packet ms = [p]" "\<forall>m \<in> set ms. unat (mb_len m) \<le> length (mb_data m)"
    using vhost_tx_spec [OF assms(2-4) _ n assms(5), of "\<lambda>_. ev_tx_alloc e" "[p]"] assms(6,9)
    by (auto simp: MAX_PKT_BURST_def)
  obtain m where m: "ms = [m]" "mbuf_packet m = p" using r(2) by (cases ms) auto
  have "rd 0 (unat (mb_len m)) (mb_data m) = Some p" using r(3) m by (simp add: rd_def mbuf_packet_def)
  then show ?thesis using assms(1,7,8,10) r(1) m by (simp add: vnet_round_def vnet_rx_def)
qed

lemma recvfrom_peer_packet:
  assumes "mbuf_alloc a" "length p \<le> MBUF_DATA_LENGTH"
  shows "\<exists>m. recvfrom_peer a (Some p) = Some (Some m) \<and> mbuf_packet m = p \<and> unat (mb_len m) = length p \<and>
    length p \<le> length (mb_data m)"
proof -
  obtain h d where a: "a = Some (h, d)" "length d = MBUF_DATA_LENGTH" using assms(1) by (auto simp: mbuf_alloc_def)
  have "unat (of_nat (length p) :: u32) = length p"
    using assms(2) by (simp add: MBUF_DATA_LENGTH_def unsigned_of_nat take_bit_nat_eq_self)
  then show ?thesis
    using a assms(2) by (simp add: recvfrom_peer_def vhost_new_mbuf_def wr_def mbuf_packet_def put_zero)
qed

lemma vnet_round_receives:
  assumes "be_dev s = Some dev" "nth_opt (dv_vq dev) 0 = Some q" "queue_ok q (be_shm s) avail used" "unat (q_num q) \<le> 65536"
    and "unat (q_last_used_idx q) < unat (av_idx avail)"
    and "guest_chain dev q (be_shm s) (av_ring avail ! unat (q_last_used_idx q AND (q_num q - 1))) (length p) b"
    and "\<not> ev_pollout e" "ev_pollin e" "mbuf_alloc (ev_rx_alloc e)" "ev_read e = Some p" "length p \<le> MBUF_DATA_LENGTH"
  shows "\<exists>s' used'. vnet_round e s = Some (None, s') \<and> hva_rd b (length p) (be_shm s') = Some p \<and>
    used_of q (be_shm s') = Some used' \<and> us_idx used' = us_idx used + 1"
proof -
  obtain m where m: "recvfrom_peer (ev_rx_alloc e) (Some p) = Some (Some m)" "mbuf_packet m = p" "unat (mb_len m) = length p"
      "length p \<le> length (mb_data m)"
    using recvfrom_peer_packet [OF assms(9,11)] by blast
  obtain sh' used' where r: "vhost_rx 0 [m] 1 dev (be_shm s) =
      Some (1, True, dev\<lparr>dv_vq := (dv_vq dev)[0 := q\<lparr>q_last_used_idx := q_last_used_idx q + 1\<rparr>]\<rparr>, sh')"
      "hva_rd b (length p) sh' = Some p" "used_of q sh' = Some used'" "us_idx used' = us_idx used + 1"
    using vhost_rx_spec [OF assms(2-5) refl assms(6) m(2-4)] by blast
  show ?thesis using assms(1,7,8,10) m(1) r by (simp add: vnet_round_def vnet_rx_def)
qed

section \<open>Where packets are lost, repeated or disclosed\<close>

definition with_avail_idx :: "virtqueue \<Rightarrow> u16 \<Rightarrow> shm \<Rightarrow> shm" where
  "with_avail_idx q j sh = sh\<lparr>sm_avail := (sm_avail sh)(q_avail q := map_option (av_idx_update (\<lambda>_. j)) (sm_avail sh (q_avail q)))\<rparr>"

lemma with_avail_idx_reads [simp]:
  "used_of q' (with_avail_idx q j sh) = used_of q' sh" "desc_of q' (with_avail_idx q j sh) = desc_of q' sh"
  "avail_of q (with_avail_idx q j sh) = map_option (av_idx_update (\<lambda>_. j)) (avail_of q sh)"
  "hva_rd a n (with_avail_idx q j sh) = hva_rd a n sh"
  "sm_used (with_avail_idx q j sh) = sm_used sh"
  "(with_avail_idx q j sh)\<lparr>sm_used := u\<rparr> = with_avail_idx q j (sh\<lparr>sm_used := u\<rparr>)"
  by (simp_all add: with_avail_idx_def used_of_def desc_of_def avail_of_def hva_rd_def)

lemma copy_desc_avail_idx: "copy_desc_to_mbuf dev q' m x (with_avail_idx q j sh) = copy_desc_to_mbuf dev q' m x sh"
  by (simp add: copy_desc_to_mbuf_def Let_def cong: if_cong)

lemma put_used_avail_idx: "put_used q' i e (with_avail_idx q j sh) = map_option (with_avail_idx q j) (put_used q' i e sh)"
  by (simp add: put_used_def map_option_bind comp_def)

lemma add_used_avail_idx: "add_used_idx q' n (with_avail_idx q j sh) = map_option (with_avail_idx q j) (add_used_idx q' n sh)"
  by (simp add: add_used_idx_def map_option_bind comp_def)

lemma bind_map_option: "Option.bind (map_option f x) g = Option.bind x (\<lambda>a. g (f a))"
  by (cases x) simp_all

lemma tx_loop_avail_idx:
  "tx_loop dev alloc i xs q' (with_avail_idx q j sh) =
     map_option (\<lambda>(ms, q'', sh'). (ms, q'', with_avail_idx q j sh')) (tx_loop dev alloc i xs q' sh)"
proof (induction xs arbitrary: i q' sh)
  case (Cons x xs)
  show ?case
    by (simp add: copy_desc_avail_idx put_used_avail_idx bind_map_option map_option_bind Cons.IH Let_def comp_def
        case_prod_beta split: option.split)
qed simp

lemma avail_indices_av_idx: "avail_indices sl (av\<lparr>av_idx := j\<rparr>) k n = avail_indices sl av k n"
  by (induction n arbitrary: k) simp_all

lemma vhost_tx_avail_idx:
  assumes "nth_opt (dv_vq dev) 1 = Some q"
  shows "vhost_tx alloc dev n (with_avail_idx q j sh) =
     map_option (\<lambda>(ms, dev', sh'). (ms, dev', with_avail_idx q j sh')) (vhost_tx alloc dev n sh)"
  using assms
  by (simp add: vhost_tx_def tx_loop_avail_idx add_used_avail_idx bind_map_option map_option_bind comp_def
      avail_indices_av_idx case_prod_beta cong: if_cong)

lemma vhost_tx_header_only:
  assumes "dv_mem dev \<noteq> None" "nth_opt (dv_vq dev) 1 = Some q" "queue_ok q sh avail used" "unat (q_last_used_idx q) + 1 < 2 ^ 32"
    and "desc_of q sh = Some desc" "unat (av_ring avail ! next_pos q 0) < length desc"
    and "d_len (desc ! unat (av_ring avail ! next_pos q 0)) = 12"
      "gpa_to_hva dev (d_addr (desc ! unat (av_ring avail ! next_pos q 0))) = Some h" "hva_rd h 12 sh = Some hdr"
    and "alloc 0 = Some (junk_hdr, junk)" "length junk = MBUF_DATA_LENGTH"
  shows "\<exists>m dev' sh'. vhost_tx alloc dev 1 sh = Some ([m], dev', sh') \<and> mbuf_packet m = junk"
proof -
  have q: "0 < unat (q_num q)" "unat (q_num q) \<le> length (av_ring avail)" "unat (q_num q) \<le> length (us_ring used)"
    "avail_of q sh = Some avail" "used_of q sh = Some used"
    using assms(3) by (simp_all add: queue_ok_def)
  note addrs = queue_ok_addrs [OF assms(3)]
  let ?x = "av_ring avail ! next_pos q 0"
  let ?m = "\<lparr>mb_data = junk, mb_len = of_nat MBUF_DATA_LENGTH, mb_hdr = hdr\<rparr>"
  have m: "copy_desc_to_mbuf dev q \<lparr>mb_data = junk, mb_len = of_nat MBUF_DATA_LENGTH, mb_hdr = junk_hdr\<rparr> ?x sh = Some ?m"
    using assms(5-9) by (simp add: copy_desc_to_mbuf_def nth_opt_def virtio_net_hdr_size_def)
  obtain sl where sl: "tx_slot q (q_last_used_idx q) = Some sl" "unat sl = next_pos q 0"
    using tx_slot_nat [OF q(1), of "q_last_used_idx q" 0] assms(4) by auto
  have idx: "nth_opt (av_ring avail) (unat sl) = Some ?x"
    using sl(2) q(1,2) mod_less_divisor [OF q(1), of "unat (q_last_used_idx q)"] by (simp add: nth_opt_def)
  have "unat sl < length (us_ring used)" using sl(2) q(1,3) mod_less_divisor [OF q(1), of "unat (q_last_used_idx q)"] by simp
  let ?q = "q\<lparr>q_last_used_idx := q_last_used_idx q + 1\<rparr>"
  have "used_of ?q sh = Some used" using q(5) by simp
  from put_used_spec [OF this \<open>unat sl < length (us_ring used)\<close>] obtain sh1 where
    sh1: "put_used ?q sl \<lparr>ue_id = ucast ?x, ue_len = 0\<rparr> sh = Some sh1" "\<exists>u. used_of ?q sh1 = Some u" by blast
  from sh1(2) add_used_idx_spec obtain sh2 where sh2: "add_used_idx ?q 1 sh1 = Some sh2" by blast
  have "vhost_tx alloc dev 1 sh = Some ([?m], dev\<lparr>dv_vq := (dv_vq dev)[1 := ?q]\<rparr>, sh2)"
    using assms(1,2,10) addrs q idx m sl(1) sh1(1) sh2 by (auto simp: vhost_tx_def MAX_PKT_BURST_def vhost_new_mbuf_def)
  moreover have "mbuf_packet ?m = junk" using assms(11) by (simp add: mbuf_packet_def MBUF_DATA_LENGTH_def)
  ultimately show ?thesis by blast
qed

text \<open>A buffer that can take the header and the packet, which \<open>vhost_rx\<close> does not use.\<close>

lemma copy_mbuf_single_buffer:
  assumes "desc_of q sh = Some desc" "unat x < length desc" "unat (d_len (desc ! unat x)) \<noteq> virtio_net_hdr_size"
    and "gpa_to_hva dev (d_addr (desc ! unat x)) = Some h" "h \<noteq> 0" "\<forall>i<virtio_net_hdr_size. sm_mem sh (unat h + i) \<noteq> None"
  shows "\<exists>sh'. copy_mbuf_to_desc dev q m x sh = Some sh' \<and>
    (\<forall>a. (a < unat h \<or> unat h + virtio_net_hdr_size \<le> a) \<longrightarrow> sm_mem sh' a = sm_mem sh a)"
proof -
  have "\<forall>i<length (replicate virtio_net_hdr_size (0 :: u8)). sm_mem sh (unat h + i) \<noteq> None" using assms(6) by simp
  from mem_wr_fits [OF this] obtain m1 where m1: "mem_wr (unat h) (replicate virtio_net_hdr_size 0) (sm_mem sh) = Some m1" by blast
  have "copy_mbuf_to_desc dev q m x sh = Some (sh\<lparr>sm_mem := m1\<rparr>)"
    using assms m1 by (simp add: copy_mbuf_to_desc_def nth_opt_def hva_wr_def)
  moreover have "m1 a = sm_mem sh a" if "a < unat h \<or> unat h + virtio_net_hdr_size \<le> a" for a
    using mem_wr_apply(1) [OF m1, of a] that by auto
  ultimately show ?thesis by simp
qed

lemma boundary_translation:
  assumes "mt_regions m = r # s # rs" "unat (mt_nregions m) = n" "2 \<le> n"
    and "rg_guest_address s = rg_guest_address r + rg_size r" "proper (rg_guest_address r) (rg_size r)"
  shows "gpa_loop m (rg_guest_address s) = Some (rg_guest_address r + rg_mmap_offset r + rg_size r)"
proof -
  obtain k where "n = Suc (Suc k)" using assms(3) by (metis Suc_le_D numeral_2_eq_2 Suc_le_mono)
  moreover have "rg_guest_address r \<le> rg_guest_address r + rg_size r"
    using assms(5) by (simp add: word_le_nat_alt unat_add_proper)
  ultimately show ?thesis using assms(1,2,4) by (simp add: gpa_loop_def)
qed

section \<open>Properties\<close>

text \<open>C26: A packet crosses from one guest to another: what guest A has put into its transmit ring is
  handed to the TAP device by A's backend, and when B's backend reads it from there, it is in the
  buffer of the chain that guest B has made available, and B's used index has moved on.\<close>

theorem packet_crosses_backends:
  assumes "be_dev sA = Some dA" "dv_mem dA \<noteq> None" "nth_opt (dv_vq dA) 1 = Some qA" "queue_ok qA (be_shm sA) avA usA"
    and "unat (q_last_used_idx qA) + 1 < 2 ^ 32" "guest_packet dA qA (be_shm sA) (av_ring avA ! next_pos qA 0) p"
    and "ev_pollout eA" "\<not> ev_pollin eA" "mbuf_alloc (ev_tx_alloc eA)" "ev_write_ok eA"
    and "be_dev sB = Some dB" "nth_opt (dv_vq dB) 0 = Some qB" "queue_ok qB (be_shm sB) avB usB" "unat (q_num qB) \<le> 65536"
    and "unat (q_last_used_idx qB) < unat (av_idx avB)"
    and "guest_chain dB qB (be_shm sB) (av_ring avB ! unat (q_last_used_idx qB AND (q_num qB - 1))) (length p) b"
    and "\<not> ev_pollout eB" "ev_pollin eB" "mbuf_alloc (ev_rx_alloc eB)"
  shows "\<exists>sA' out sB' us'. vnet_round eA sA = Some (Some out, sA') \<and> vnet_round (eB\<lparr>ev_read := Some out\<rparr>) sB = Some (None, sB') \<and>
    hva_rd b (length p) (be_shm sB') = Some p \<and> used_of qB (be_shm sB') = Some us' \<and> us_idx us' = us_idx usB + 1"
proof -
  obtain sA' where a: "vnet_round eA sA = Some (Some p, sA')" using vnet_round_sends [OF assms(1-10)] by blast
  have "length p \<le> MBUF_DATA_LENGTH" using assms(6) by (simp add: guest_packet_def)
  then have "\<exists>s' us'. vnet_round (eB\<lparr>ev_read := Some p\<rparr>) sB = Some (None, s') \<and> hva_rd b (length p) (be_shm s') = Some p \<and>
      used_of qB (be_shm s') = Some us' \<and> us_idx us' = us_idx usB + 1"
    using assms(17-19) by (intro vnet_round_receives [OF assms(11-16)]) simp_all
  with a show ?thesis by blast
qed

definition pk_dev :: "nat \<Rightarrow> virtqueue \<Rightarrow> virtio_dev" where
  "pk_dev i q = \<lparr>dv_vq = (replicate MAX_MULTI_QUEUE zero_queue)[i := q],
     dv_mem = Some \<lparr>mt_nregions = 1, mt_regions =
       [\<lparr>rg_guest_address = 0x1000, rg_size = 0x10000, rg_user_address = 0, rg_mmap_offset = 0x100000\<rparr>]\<rparr>\<rparr>"

definition pk_queue :: virtqueue where
  "pk_queue = zero_queue\<lparr>q_desc := 100, q_avail := 200, q_used := 300, q_num := 2\<rparr>"

definition pk_avail :: vring_avail where "pk_avail = \<lparr>av_idx = 1, av_ring = [0, 0]\<rparr>"
definition pk_used :: vring_used where "pk_used = \<lparr>us_idx = 0, us_ring = replicate 2 \<lparr>ue_id = 0, ue_len = 0\<rparr>\<rparr>"

definition pk_shm :: "vring_desc list \<Rightarrow> shm" where
  "pk_shm desc = \<lparr>sm_desc = [100 \<mapsto> desc], sm_avail = [200 \<mapsto> pk_avail], sm_used = [300 \<mapsto> pk_used], sm_mem = (\<lambda>a. Some 7)\<rparr>"

definition pk_events :: vnet_events where
  "pk_events = \<lparr>ev_pollout = True, ev_pollin = False, ev_tx_alloc = Some (replicate 12 0, replicate 1024 0),
     ev_rx_alloc = Some (replicate 12 0, replicate 1024 0), ev_write_ok = True, ev_read = None\<rparr>"

definition pk_tx :: "vring_desc list" where
  "pk_tx = [\<lparr>d_addr = 0x2000, d_len = 15, d_flags = 0, d_next = 0\<rparr>]"

definition pk_rx :: "vring_desc list" where
  "pk_rx = [\<lparr>d_addr = 0x2000, d_len = 12, d_flags = 3, d_next = 1\<rparr>, \<lparr>d_addr = 0x3000, d_len = 1024, d_flags = 2, d_next = 0\<rparr>]"

lemma pk_queue_ok: "queue_ok pk_queue (pk_shm desc) pk_avail pk_used"
  by (simp add: queue_ok_def pk_queue_def pk_shm_def avail_of_def used_of_def zero_queue_def pk_avail_def pk_used_def)

lemma pk_translate:
  "gpa_to_hva (pk_dev i q) 0x2000 = Some 0x102000" "gpa_to_hva (pk_dev i q) 0x3000 = Some 0x103000"
  by (simp_all add: gpa_to_hva_def pk_dev_def gpa_loop_def)

lemma pk_read: "a \<noteq> 0 \<Longrightarrow> hva_rd a n (pk_shm desc) = Some (replicate n 7)"
  by (simp add: hva_rd_def mem_rd_def pk_shm_def map_replicate_trivial flip: map_replicate_const)

theorem packet_crosses_backends_witness:
  "\<exists>sA' out sB'. vnet_round pk_events \<lparr>be_features = 0, be_dev = Some (pk_dev 1 pk_queue), be_shm = pk_shm pk_tx\<rparr> = Some (Some out, sA') \<and>
     vnet_round (pk_events\<lparr>ev_pollout := False, ev_pollin := True, ev_read := Some out\<rparr>)
       \<lparr>be_features = 0, be_dev = Some (pk_dev 0 pk_queue), be_shm = pk_shm pk_rx\<rparr> = Some (None, sB') \<and>
     hva_rd 0x103000 3 (be_shm sB') = Some [7, 7, 7]"
proof -
  let ?sA = "\<lparr>be_features = 0, be_dev = Some (pk_dev 1 pk_queue), be_shm = pk_shm pk_tx\<rparr>"
  let ?sB = "\<lparr>be_features = 0, be_dev = Some (pk_dev 0 pk_queue), be_shm = pk_shm pk_rx\<rparr>"
  have q: "nth_opt (dv_vq (pk_dev 1 pk_queue)) 1 = Some pk_queue" "nth_opt (dv_vq (pk_dev 0 pk_queue)) 0 = Some pk_queue"
    by (simp_all add: pk_dev_def nth_opt_def MAX_MULTI_QUEUE_def)
  have tx: "guest_packet (pk_dev 1 pk_queue) pk_queue (be_shm ?sA) (av_ring pk_avail ! next_pos pk_queue 0) [7, 7, 7]"
    using pk_read [of "0x102000" 12 pk_tx] pk_read [of "0x10200c" 3 pk_tx] pk_translate
    by (simp add: guest_packet_def pk_queue_def zero_queue_def pk_avail_def desc_of_def pk_tx_def MBUF_DATA_LENGTH_def
        virtio_net_hdr_size_def numeral_3_eq_3 pk_shm_def)
  have rx: "guest_chain (pk_dev 0 pk_queue) pk_queue (be_shm ?sB)
      (av_ring pk_avail ! unat (q_last_used_idx pk_queue AND (q_num pk_queue - 1))) (length [7, 7, 7 :: u8]) 0x103000"
    using pk_translate
    by (simp add: guest_chain_def pk_queue_def zero_queue_def pk_avail_def desc_of_def pk_rx_def virtio_net_hdr_size_def pk_shm_def)
  have e: "ev_pollout pk_events" "\<not> ev_pollin pk_events" "mbuf_alloc (ev_tx_alloc pk_events)" "ev_write_ok pk_events"
    by (simp_all add: pk_events_def mbuf_alloc_def MBUF_DATA_LENGTH_def)
  have e': "\<not> ev_pollout (pk_events\<lparr>ev_pollout := False, ev_pollin := True\<rparr>)" "ev_pollin (pk_events\<lparr>ev_pollout := False, ev_pollin := True\<rparr>)"
    "mbuf_alloc (ev_rx_alloc (pk_events\<lparr>ev_pollout := False, ev_pollin := True\<rparr>))"
    by (simp_all add: pk_events_def mbuf_alloc_def MBUF_DATA_LENGTH_def)
  have n: "dv_mem (pk_dev 1 pk_queue) \<noteq> None" "unat (q_last_used_idx pk_queue) + 1 < 2 ^ 32" "unat (q_num pk_queue) \<le> 65536"
    "unat (q_last_used_idx pk_queue) < unat (av_idx pk_avail)"
    by (simp_all add: pk_dev_def pk_queue_def zero_queue_def pk_avail_def)
  have qA: "queue_ok pk_queue (be_shm ?sA) pk_avail pk_used" and qB: "queue_ok pk_queue (be_shm ?sB) pk_avail pk_used"
    by (simp_all add: pk_queue_ok)
  have devs: "be_dev ?sA = Some (pk_dev 1 pk_queue)" "be_dev ?sB = Some (pk_dev 0 pk_queue)" by simp_all
  show ?thesis
    using packet_crosses_backends [OF devs(1) n(1) q(1) qA n(2) tx e devs(2) q(2) qB n(3) n(4) rx e']
    by (auto simp: numeral_3_eq_3)
qed

text \<open>Once the available index of the guest has wrapped around, so that it is below the backend's own
  index, which is never reduced, \<open>vhost_rx\<close> delivers nothing any more, whatever arrives; it signals the
  guest all the same.\<close>

theorem vhost_rx_stuck_after_wrap:
  assumes "nth_opt (dv_vq dev) i = Some q" "avail_of q sh = Some avail" "used_of q sh = Some used"
    and "unat (av_idx avail) < unat (q_last_used_idx q)" "unat (q_last_used_idx q) \<le> 2 ^ 31" "0 < n"
  shows "vhost_rx i ms n dev sh = Some (0, True, dev, sh)"
  by (rule vhost_rx_stuck [OF assms])

theorem vhost_rx_stuck_after_wrap_witness:
  "vhost_rx 0 [] 1 (pk_dev 0 (pk_queue\<lparr>q_last_used_idx := 65535\<rparr>)) (pk_shm pk_rx) =
     Some (0, True, pk_dev 0 (pk_queue\<lparr>q_last_used_idx := 65535\<rparr>), pk_shm pk_rx)"
proof (rule vhost_rx_stuck_after_wrap)
  show "nth_opt (dv_vq (pk_dev 0 (pk_queue\<lparr>q_last_used_idx := 65535\<rparr>))) 0 = Some (pk_queue\<lparr>q_last_used_idx := 65535\<rparr>)"
    by (simp add: pk_dev_def nth_opt_def MAX_MULTI_QUEUE_def)
  show "avail_of (pk_queue\<lparr>q_last_used_idx := 65535\<rparr>) (pk_shm pk_rx) = Some pk_avail"
    "used_of (pk_queue\<lparr>q_last_used_idx := 65535\<rparr>) (pk_shm pk_rx) = Some pk_used"
    using pk_queue_ok [of pk_rx] by (simp_all add: queue_ok_def)
qed (simp_all add: pk_avail_def)

text \<open>\<open>vhost_tx\<close> does not look at the available index: whatever it is, the result is the same, so that
  buffers the guest has not made available are taken for packets.\<close>

theorem vhost_tx_ignores_avail_idx:
  assumes "nth_opt (dv_vq dev) 1 = Some q"
  shows "vhost_tx alloc dev n (with_avail_idx q j sh) =
     map_option (\<lambda>(ms, dev', sh'). (ms, dev', with_avail_idx q j sh')) (vhost_tx alloc dev n sh)"
  by (rule vhost_tx_avail_idx [OF assms])

theorem vhost_tx_ignores_avail_idx_witness:
  "vhost_tx (\<lambda>_. Some ([], [])) (pk_dev 1 pk_queue) 1 (with_avail_idx pk_queue 0 (pk_shm pk_tx)) =
     map_option (\<lambda>(ms, dev', sh'). (ms, dev', with_avail_idx pk_queue 0 sh'))
       (vhost_tx (\<lambda>_. Some ([], [])) (pk_dev 1 pk_queue) 1 (pk_shm pk_tx))"
  by (rule vhost_tx_ignores_avail_idx) (simp add: pk_dev_def nth_opt_def MAX_MULTI_QUEUE_def)

end
