(* ===== verification/Ddos.thy ===== *)
theory Ddos
  imports Virtio_Packets Complex_Main
begin

text \<open>
  The flood detection of \<^verbatim>\<open>tcp_concurrency.c\<close>: the number of bits that are set in every packet, the entropy
  of that number, and the comparison of the sum of the entropies with the entropy of the sum over a
  window of 256 packets. A double is a real number, an infinity or NaN; the rounding \<open>rnd\<close> of the
  operations and the logarithm \<open>lg\<close> of the library are arguments. All finite values are far below the
  largest double.
\<close>

section \<open>Counting bits\<close>

definition swar_count :: "u64 \<Rightarrow> u64" where
  "swar_count v =
     (let v = v - ((drop_bit 1 v) AND 0x5555555555555555);
          v = (v AND 0x3333333333333333) + ((drop_bit 2 v) AND 0x3333333333333333);
          v = (v + drop_bit 4 v) AND 0x0F0F0F0F0F0F0F0F
      in drop_bit 56 (v * 0x0101010101010101))"

text \<open>\<open>buf\<close> is the memory from the packet on. The loop reads once before it tests its end.\<close>

function count_bit_loop :: "bytes \<Rightarrow> nat \<Rightarrow> nat \<Rightarrow> u64 \<Rightarrow> u64 option" where
  "count_bit_loop buf len off set_bits =
     do { v \<leftarrow> rd64 off buf;
          let set_bits = set_bits + swar_count v;
          if len > off + 8 then count_bit_loop buf len (off + 8) set_bits else Some set_bits }"
  by pat_completeness auto
termination by (relation "measure (\<lambda>(buf, len, off, _). len - off)") auto

declare count_bit_loop.simps [simp del]

definition count_bit :: "bytes \<Rightarrow> u32 \<Rightarrow> u32 option" where
  "count_bit msg len = map_option ucast (count_bit_loop msg (unat len) 0 0)"

section \<open>Doubles\<close>

datatype double = NaN | PInf | MInf | Fin real

fun dneg :: "double \<Rightarrow> double" where
  "dneg NaN = NaN" | "dneg PInf = MInf" | "dneg MInf = PInf" | "dneg (Fin x) = Fin (- x)"

fun dadd :: "(real \<Rightarrow> real) \<Rightarrow> double \<Rightarrow> double \<Rightarrow> double" where
  "dadd rnd NaN y = NaN"
| "dadd rnd x NaN = NaN"
| "dadd rnd PInf MInf = NaN"
| "dadd rnd MInf PInf = NaN"
| "dadd rnd PInf y = PInf"
| "dadd rnd x PInf = PInf"
| "dadd rnd MInf y = MInf"
| "dadd rnd x MInf = MInf"
| "dadd rnd (Fin x) (Fin y) = Fin (rnd (x + y))"

definition dsub :: "(real \<Rightarrow> real) \<Rightarrow> double \<Rightarrow> double \<Rightarrow> double" where
  "dsub rnd x y = dadd rnd x (dneg y)"

fun dsign :: "double \<Rightarrow> real" where
  "dsign NaN = 0" | "dsign PInf = 1" | "dsign MInf = - 1" | "dsign (Fin x) = sgn x"

definition dmul :: "(real \<Rightarrow> real) \<Rightarrow> double \<Rightarrow> double \<Rightarrow> double" where
  "dmul rnd x y =
     (case (x, y) of
        (NaN, _) \<Rightarrow> NaN
      | (_, NaN) \<Rightarrow> NaN
      | (Fin a, Fin b) \<Rightarrow> Fin (rnd (a * b))
      | _ \<Rightarrow> if dsign x * dsign y = 0 then NaN else if dsign x * dsign y > 0 then PInf else MInf)"

fun dlog2 :: "(real \<Rightarrow> real) \<Rightarrow> double \<Rightarrow> double" where
  "dlog2 lg NaN = NaN"
| "dlog2 lg PInf = PInf"
| "dlog2 lg MInf = NaN"
| "dlog2 lg (Fin x) = (if x > 0 then Fin (lg x) else if x = 0 then MInf else NaN)"

fun dless :: "double \<Rightarrow> double \<Rightarrow> bool" where
  "dless NaN y = False"
| "dless x NaN = False"
| "dless PInf y = False"
| "dless x MInf = False"
| "dless MInf y = True"
| "dless x PInf = True"
| "dless (Fin x) (Fin y) = (x < y)"

definition of_u32 :: "u32 \<Rightarrow> double" where
  "of_u32 n = Fin (real (unat n))"

definition ddos_entropy :: "(real \<Rightarrow> real) \<Rightarrow> (real \<Rightarrow> real) \<Rightarrow> double \<Rightarrow> double \<Rightarrow> double" where
  "ddos_entropy rnd lg set_bits total_bits =
     dadd rnd
       (dsub rnd (dmul rnd (dneg set_bits) (dsub rnd (dlog2 lg set_bits) (dlog2 lg total_bits)))
                 (dmul rnd (dsub rnd total_bits set_bits)
                           (dsub rnd (dlog2 lg (dsub rnd total_bits set_bits)) (dlog2 lg total_bits))))
       (dlog2 lg total_bits)"

section \<open>The window\<close>

definition CAPTURE_WINDOWS :: nat where "CAPTURE_WINDOWS = 256"

definition tresh :: double where "tresh = Fin 1200"

record ddos =
  p_setbits :: "u32 list"
  p_totbits :: "u32 list"
  p_entropy :: "double list"
  pkt_idx :: nat
  dd_flag :: bool

definition init_ddos :: ddos where
  "init_ddos = \<lparr>p_setbits = replicate CAPTURE_WINDOWS 0, p_totbits = replicate CAPTURE_WINDOWS 0,
     p_entropy = replicate CAPTURE_WINDOWS (Fin 0), pkt_idx = 0, dd_flag = False\<rparr>"

text \<open>A packet is the memory from the start of its data on, and the length of its buffer.\<close>

type_synonym packet = "bytes \<times> u16"

text \<open>The first result says that the process ends with the report of an attack.\<close>

definition ddos_detect :: "(real \<Rightarrow> real) \<Rightarrow> (real \<Rightarrow> real) \<Rightarrow> packet \<Rightarrow> ddos \<Rightarrow> (bool \<times> ddos) option" where
  "ddos_detect rnd lg pkt s =
     do { let (msg, buf_len) = pkt;
          set_bits \<leftarrow> count_bit msg (ucast buf_len);
          let tot_bits = ucast buf_len * 8;
          let i = pkt_idx s mod CAPTURE_WINDOWS;
          let s = s\<lparr>p_setbits := (p_setbits s)[i := set_bits],
                    p_totbits := (p_totbits s)[i := tot_bits],
                    p_entropy := (p_entropy s)[i := ddos_entropy rnd lg (of_u32 set_bits) (of_u32 tot_bits)]\<rparr>;
          if pkt_idx s \<ge> CAPTURE_WINDOWS then
            (let total_set = sum_list (p_setbits s);
                 total_bit = sum_list (p_totbits s);
                 sum_entropy = foldl (dadd rnd) (Fin 0) (p_entropy s);
                 entropy = ddos_entropy rnd lg (of_u32 total_set) (of_u32 total_bit)
             in if dless tresh (dsub rnd sum_entropy entropy) \<and> \<not> dd_flag s then Some (True, s)
                else Some (False, s\<lparr>dd_flag := dless tresh (dsub rnd sum_entropy entropy),
                                   pkt_idx := (pkt_idx s + 1) mod CAPTURE_WINDOWS + CAPTURE_WINDOWS\<rparr>))
          else Some (False, s\<lparr>pkt_idx := pkt_idx s + 1\<rparr>) }"

text \<open>The packets one after the other, until an attack is reported.\<close>

fun ddos_run :: "(real \<Rightarrow> real) \<Rightarrow> (real \<Rightarrow> real) \<Rightarrow> packet list \<Rightarrow> ddos \<Rightarrow> (bool \<times> ddos) option" where
  "ddos_run rnd lg [] s = Some (False, s)"
| "ddos_run rnd lg (p # ps) s =
     do { (attack, s) \<leftarrow> ddos_detect rnd lg p s;
          if attack then Some (True, s) else ddos_run rnd lg ps s }"

end
