(* ===== verification/Popcount.thy ===== *)
theory Popcount
  imports Ddos
begin

text \<open>
  The bit counting of \<open>count_bit\<close> is the number of bits that are set: its steps work on each byte of the
  64-bit word separately, up to the last one, the multiplication that adds up the bytes.
\<close>

section \<open>The bits of a word, byte by byte\<close>

definition of_bytes :: "bytes \<Rightarrow> u64" where
  "of_bytes bs = word_of_int (horner_sum uint 256 bs)"

definition all_bytes :: "u8 \<Rightarrow> u64" where
  "all_bytes m = of_bytes (replicate 8 m)"

lemma bit_of_bytes:
  assumes "length bs = 8"
  shows "bit (of_bytes bs) n \<longleftrightarrow> n < 64 \<and> bit (bs ! (n div 8)) (n mod 8)"
proof -
  have "bit (horner_sum uint 256 bs) n \<longleftrightarrow> n div 8 < length bs \<and> bit (bs ! (n div 8)) (n mod 8)"
    using bit_horner_sum_uint_exp_iff [of bs n] by simp
  then show ?thesis using assms by (auto simp: of_bytes_def bit_word_of_int_iff)
qed

lemma byte_shift:
  fixes n :: nat
  assumes "s + n mod 8 < 8"
  shows "(s + n) div 8 = n div 8" "(s + n) mod 8 = s + n mod 8" "n < 64 \<Longrightarrow> s + n < 64"
proof -
  have e: "s + n = (s + n mod 8) + 8 * (n div 8)" by simp
  have "(s + n) div 8 = ((s + n mod 8) + 8 * (n div 8)) div 8" using e by (rule arg_cong)
  also have "\<dots> = n div 8 + (s + n mod 8) div 8" by (rule div_mult_self2) simp
  finally show "(s + n) div 8 = n div 8" using assms by simp
  have "(s + n) mod 8 = ((s + n mod 8) + 8 * (n div 8)) mod 8" using e by (rule arg_cong)
  also have "\<dots> = (s + n mod 8) mod 8" by (rule mod_mult_self2)
  finally show "(s + n) mod 8 = s + n mod 8" using assms by simp
  show "s + n < 64" if "n < 64"
  proof -
    have "n div 8 < 8" using that by simp
    then show ?thesis using e assms by linarith
  qed
qed

lemma shift_and_bytes:
  assumes "length bs = 8" "s < 8" "\<forall>j<8. bit m j \<longrightarrow> j + s < 8"
  shows "drop_bit s (of_bytes bs) AND all_bytes m = of_bytes (map (\<lambda>b. drop_bit s b AND m) bs)"
proof (rule bit_word_eqI)
  fix n assume "n < LENGTH(64)"
  then have n: "n < 64" by simp
  let ?j = "n mod 8"
  have j: "?j < 8" "n div 8 < 8" using n by auto
  show "bit (drop_bit s (of_bytes bs) AND all_bytes m) n = bit (of_bytes (map (\<lambda>b. drop_bit s b AND m) bs)) n"
  proof (cases "bit m ?j")
    case True
    then have "s + ?j < 8" using assms(3) [rule_format, OF j(1)] by (simp add: add.commute)
    note sh = byte_shift [OF this]
    show ?thesis using assms(1) n j True sh
      by (simp add: bit_and_iff bit_drop_bit_eq all_bytes_def bit_of_bytes)
  next
    case False
    then show ?thesis using assms(1) n j by (simp add: bit_and_iff all_bytes_def bit_of_bytes)
  qed
qed

lemma masks:
  "all_bytes 0x55 = 0x5555555555555555" "all_bytes 0x33 = 0x3333333333333333" "all_bytes 0x0F = 0x0F0F0F0F0F0F0F0F"
  by code_simp+

lemma of_bytes_add:
  assumes "length as = length bs" "\<forall>i<length as. uint (as ! i) + uint (bs ! i) < 256"
  shows "of_bytes as + of_bytes bs = of_bytes (map2 (+) as bs)"
proof -
  have "horner_sum uint 256 as + horner_sum uint 256 bs = horner_sum uint 256 (map2 (+) as bs)"
    using assms
  proof (induction as bs rule: list_induct2)
    case (Cons a as b bs)
    have "uint a + uint b < 256" using Cons.prems [rule_format, of 0] by simp
    then have u: "uint (a + b) = uint a + uint b" by (simp add: uint_word_ariths mod_pos_pos_trivial)
    have "uint (as ! i) + uint (bs ! i) < 256" if "i < length as" for i
      using Cons.prems [rule_format, of "Suc i"] that by simp
    then have "horner_sum uint 256 as + horner_sum uint 256 bs = horner_sum uint 256 (map2 (+) as bs)" using Cons.IH by blast
    then show ?case using u by (simp add: algebra_simps)
  qed simp
  then show ?thesis by (simp only: of_bytes_def wi_hom_add)
qed

section \<open>The steps\<close>

definition step1 :: "u8 \<Rightarrow> u8" where "step1 b = (b AND 0x55) + (drop_bit 1 b AND 0x55)"
definition step2 :: "u8 \<Rightarrow> u8" where "step2 b = (b AND 0x33) + (drop_bit 2 b AND 0x33)"
definition step3 :: "u8 \<Rightarrow> u8" where "step3 b = (b AND 0x0F) + (drop_bit 4 b AND 0x0F)"

definition bit_count :: "u8 \<Rightarrow> nat" where
  "bit_count b = length (filter (bit b) [0..<8])"

text \<open>What the steps do to every byte, by running them on the 256 bytes.\<close>

lemma all_bytes_nibbles:
  assumes "list_all (\<lambda>h. list_all (\<lambda>l. P (16 * h + l)) [0, 1, 2, 3, 4, 5, 6, 7, 8, 9, 10, 11, 12, 13, 14, 15]) ([0, 1, 2, 3, 4, 5, 6, 7, 8, 9, 10, 11, 12, 13, 14, 15] :: u8 list)"
  shows "P (b :: u8)"
proof -
  define ns where "ns = ([0, 1, 2, 3, 4, 5, 6, 7, 8, 9, 10, 11, 12, 13, 14, 15] :: u8 list)"
  have n: "x \<in> set ns" if x: "unat x < 16" for x :: u8
  proof -
    have "[0..<16] = [0, 1, 2, 3, 4, 5, 6, 7, 8, 9, 10, 11, 12, 13, 14, 15]" by (simp add: upt_rec)
    moreover have "unat x \<in> set [0..<16]" using x by simp
    ultimately have "unat x \<in> set [0, 1, 2, 3, 4, 5, 6, 7, 8, 9, 10, 11, 12, 13, 14, 15]" by (simp only:)
    then show ?thesis by (auto simp: ns_def word_unat_eq_iff)
  qed
  have "b = 16 * (b div 16) + b mod 16" by (rule mult_div_mod_eq [symmetric])
  moreover have "unat (b div 16) < 16" "unat (b mod 16) < 16"
    using unsigned_less [of b, where 'a = nat] by (simp_all add: unat_div unat_mod)
  ultimately show ?thesis using assms n unfolding ns_def list_all_iff by metis
qed

definition byte_ok :: "u8 \<Rightarrow> u8 \<Rightarrow> u8 \<Rightarrow> u8 \<Rightarrow> bool" where
  "byte_ok b o1 x y \<longleftrightarrow> x + o1 = b \<and> uint x + uint o1 < 256 \<and> uint y \<le> 68 \<and> uint (push_bit 4 y) < 128 \<and>
     take_bit 4 (y + drop_bit 4 y) = step3 y \<and> unat (step3 y) = bit_count b"

definition byte_check :: "u8 \<Rightarrow> u8 \<Rightarrow> bool" where
  "byte_check b x = byte_ok b (drop_bit 1 b AND 0x55) x (step2 x)"

definition row_ok :: "u8 \<Rightarrow> bool" where
  "row_ok h \<longleftrightarrow> list_all (\<lambda>l. byte_check (16 * h + l) (step1 (16 * h + l))) [0, 1, 2, 3, 4, 5, 6, 7, 8, 9, 10, 11, 12, 13, 14, 15]"

lemma rows_0_3: "list_all row_ok [0, 1, 2, 3]" by code_simp

lemma rows_4_7: "list_all row_ok [4, 5, 6, 7]" by code_simp

lemma rows_8_11: "list_all row_ok [8, 9, 10, 11]" by code_simp

lemma rows_12_15: "list_all row_ok [12, 13, 14, 15]" by code_simp

lemma steps_byte:
  "step1 b + (drop_bit 1 b AND 0x55) = b \<and> uint (step1 b) + uint (drop_bit 1 b AND 0x55) < 256 \<and>
   uint (step2 (step1 b)) \<le> 68 \<and> uint (push_bit 4 (step2 (step1 b))) < 128 \<and>
   take_bit 4 (step2 (step1 b) + drop_bit 4 (step2 (step1 b))) = step3 (step2 (step1 b)) \<and>
   unat (step3 (step2 (step1 b))) = bit_count b"
proof -
  have "list_all row_ok [0, 1, 2, 3, 4, 5, 6, 7, 8, 9, 10, 11, 12, 13, 14, 15]"
    using rows_0_3 rows_4_7 rows_8_11 rows_12_15 by simp
  then have "list_all (\<lambda>h. list_all (\<lambda>l. byte_check (16 * h + l) (step1 (16 * h + l))) [0, 1, 2, 3, 4, 5, 6, 7, 8, 9, 10, 11, 12, 13, 14, 15]) ([0, 1, 2, 3, 4, 5, 6, 7, 8, 9, 10, 11, 12, 13, 14, 15] :: u8 list)"
    by (simp only: row_ok_def [abs_def])
  then have "byte_check b (step1 b)" by (rule all_bytes_nibbles)
  then show ?thesis by (simp only: byte_check_def byte_ok_def)
qed

lemma bit_count_le: "bit_count b \<le> 8"
  unfolding bit_count_def by (rule order_trans [OF length_filter_le]) simp

lemma masked_le: "uint (b AND m) \<le> uint (m :: u8)"
  using word_and_le1 [of b m] by (simp add: word_le_def)

lemma and_bytes:
  assumes "length bs = 8"
  shows "of_bytes bs AND all_bytes m = of_bytes (map (\<lambda>b. b AND m) bs)"
  using shift_and_bytes [of bs 0 m] assms by simp

lemma masked_step:
  assumes "length bs = 8" "s < 8" "\<forall>j<8. bit m j \<longrightarrow> j + s < 8" "uint m < 128"
  shows "(of_bytes bs AND all_bytes m) + (drop_bit s (of_bytes bs) AND all_bytes m) =
    of_bytes (map (\<lambda>b. (b AND m) + (drop_bit s b AND m)) bs)"
proof -
  have "uint (b AND m) + uint (c AND m) < 256" for b c
    using masked_le [of b m] masked_le [of c m] assms(4) by linarith
  then have "of_bytes (map (\<lambda>b. b AND m) bs) + of_bytes (map (\<lambda>b. drop_bit s b AND m) bs) =
      of_bytes (map2 (+) (map (\<lambda>b. b AND m) bs) (map (\<lambda>b. drop_bit s b AND m) bs))"
    using assms(1) by (intro of_bytes_add) simp_all
  then show ?thesis
    using and_bytes [OF assms(1)] shift_and_bytes [OF assms(1-3)] by (simp add: zip_map_map zip_same_conv_map comp_def)
qed

lemma drop4_bytes:
  assumes "length bs = 8"
  shows "drop_bit 4 (of_bytes bs) =
    of_bytes (map (\<lambda>k. drop_bit 4 (bs ! k) OR push_bit 4 (if k < 7 then bs ! (k + 1) else 0)) [0..<8])"
proof (rule bit_word_eqI)
  fix n assume "n < LENGTH(64)"
  then have n: "n < 64" by simp
  have j: "n div 8 < 8" using n by auto
  show "bit (drop_bit 4 (of_bytes bs)) n =
      bit (of_bytes (map (\<lambda>k. drop_bit 4 (bs ! k) OR push_bit 4 (if k < 7 then bs ! (k + 1) else 0)) [0..<8])) n"
  proof (cases "n mod 8 < 4")
    case True
    then have "4 + n mod 8 < 8" by simp
    from byte_shift [OF this] n have "(4 + n) div 8 = n div 8" "(4 + n) mod 8 = 4 + n mod 8" "4 + n < 64" by simp_all
    then show ?thesis using assms n j True
      by (simp add: bit_drop_bit_eq bit_or_iff bit_push_bit_iff bit_of_bytes)
  next
    case False
    have dm: "8 * (n div 8) + n mod 8 = n" "n mod 8 < 8" by simp_all
    have "8 * q + r = n \<Longrightarrow> \<not> r < 4 \<Longrightarrow> 4 + n = (r - 4) + (q + 1) * 8" for q r by arith
    from this [OF dm(1) False] have split: "4 + n = (n mod 8 - 4) + (n div 8 + 1) * 8" .
    have e: "(4 + n) div 8 = n div 8 + 1" "(4 + n) mod 8 = n mod 8 - 4"
      unfolding split div_mult_self1 [OF numeral_neq_zero] mod_mult_self1 using dm(2) by simp_all
    have e3: "4 + n < 64 \<longleftrightarrow> n div 8 < 7" using False dm by linarith
    have "\<not> bit (bs ! (n div 8)) (4 + n mod 8)" using False bit_imp_le_length by fastforce
    then show ?thesis using assms n j False e e3
      by (auto simp: bit_drop_bit_eq bit_or_iff bit_push_bit_iff bit_of_bytes)
  qed
qed

section \<open>The whole word\<close>

lemma word_step1:
  assumes "length bs = 8"
  shows "of_bytes bs - (drop_bit 1 (of_bytes bs) AND 0x5555555555555555) = of_bytes (map step1 bs)"
proof -
  let ?o = "map (\<lambda>b. drop_bit 1 b AND 0x55) bs"
  have m: "\<forall>j<8. bit (0x55 :: u8) j \<longrightarrow> j + 1 < 8" by (simp add: All_less_Suc eval_nat_numeral)
  have o: "drop_bit 1 (of_bytes bs) AND 0x5555555555555555 = of_bytes ?o"
    using shift_and_bytes [OF assms _ m] by (simp add: masks)
  have "of_bytes (map step1 bs) + of_bytes ?o = of_bytes (map2 (+) (map step1 bs) ?o)"
    using steps_byte by (intro of_bytes_add) auto
  also have "map2 (+) (map step1 bs) ?o = bs"
    using steps_byte by (intro nth_equalityI) auto
  finally show ?thesis unfolding o by (simp add: algebra_simps)
qed

lemma word_step2:
  assumes "length bs = 8"
  shows "(of_bytes bs AND 0x3333333333333333) + (drop_bit 2 (of_bytes bs) AND 0x3333333333333333) = of_bytes (map step2 bs)"
proof -
  have m: "\<forall>j<8. bit (0x33 :: u8) j \<longrightarrow> j + 2 < 8" by (simp add: All_less_Suc eval_nat_numeral)
  show ?thesis using masked_step [OF assms _ m] by (simp add: masks step2_def [abs_def])
qed

lemma or_below_128: "uint (x :: u8) < 128 \<Longrightarrow> uint y < 128 \<Longrightarrow> uint (x OR y) < 128"
  using OR_upper [of "uint x" 7 "uint y"] by (simp add: unsigned_or_eq)

lemma unat_low_nibble:
  fixes a b :: u8
  shows "unat (take_bit 4 (a + b)) = (unat (take_bit 4 a) + unat (take_bit 4 b)) mod 16"
proof -
  have e: "unat (take_bit 4 x) = unat x mod 16" for x :: u8
    by (simp only: unsigned_take_bit_eq) (simp add: take_bit_eq_mod)
  have "unat (a + b) mod 16 = (unat a + unat b) mod 256 mod 16" by (simp add: unat_word_ariths)
  then show ?thesis unfolding e by (simp add: mod_mod_cancel mod_add_eq)
qed

lemma low_nibble:
  fixes b :: u8
  shows "(b + (drop_bit 4 b OR push_bit 4 c)) AND 0x0F = take_bit 4 (b + drop_bit 4 b)"
proof -
  have m: "0x0F = (mask 4 :: u8)" by (simp add: mask_eq_exp_minus_1)
  have "take_bit 4 (drop_bit 4 b OR push_bit 4 c) = take_bit 4 (drop_bit 4 b)"
    by (simp add: take_bit_push_bit)
  then have "take_bit 4 (b + (drop_bit 4 b OR push_bit 4 c)) = take_bit 4 (b + drop_bit 4 b)"
    unfolding word_unat_eq_iff unat_low_nibble by simp
  then show ?thesis unfolding m take_bit_eq_mask .
qed

lemma word_step3:
  assumes "length bs = 8"
  defines "ys \<equiv> map (\<lambda>b. step2 (step1 b)) bs"
  shows "(of_bytes ys + drop_bit 4 (of_bytes ys)) AND 0x0F0F0F0F0F0F0F0F = of_bytes (map step3 ys)"
proof -
  have l: "length ys = 8" using assms(1) by (simp add: ys_def)
  let ?ds = "map (\<lambda>k. drop_bit 4 (ys ! k) OR push_bit 4 (if k < 7 then ys ! (k + 1) else 0)) [0..<8]"
  have y: "uint (ys ! k) \<le> 68" "uint (push_bit 4 (ys ! k)) < 128" "take_bit 4 (ys ! k + drop_bit 4 (ys ! k)) = step3 (ys ! k)"
    if "k < 8" for k
    using steps_byte [of "bs ! k"] that assms(1) by (simp_all add: ys_def)
  have "uint (ys ! k) + uint (?ds ! k) < 256" if k: "k < 8" for k
  proof -
    have "unat (drop_bit 4 (ys ! k)) \<le> unat (ys ! k)" by (simp add: drop_bit_eq_div unat_div)
    then have "uint (drop_bit 4 (ys ! k)) \<le> uint (ys ! k)" unfolding word_le_nat_alt [symmetric] word_le_def .
    then have "uint (drop_bit 4 (ys ! k)) < 128" using y(1) [OF k] by linarith
    moreover have "uint (push_bit 4 (if k < 7 then ys ! (k + 1) else 0)) < 128" using y(2) [of "k + 1"] by simp
    ultimately have "uint (drop_bit 4 (ys ! k) OR push_bit 4 (if k < 7 then ys ! (k + 1) else 0)) < 128" by (rule or_below_128)
    then have "uint (?ds ! k) < 128" using k by (cases "k < 7") simp_all
    then show ?thesis using y(1) [OF k] by linarith
  qed
  then have "of_bytes ys + of_bytes ?ds = of_bytes (map2 (+) ys ?ds)"
    using l by (intro of_bytes_add) simp_all
  then have "(of_bytes ys + drop_bit 4 (of_bytes ys)) AND all_bytes 0x0F = of_bytes (map (\<lambda>b. b AND 0x0F) (map2 (+) ys ?ds))"
    using drop4_bytes [OF l] and_bytes [of "map2 (+) ys ?ds"] l by simp
  also have "map (\<lambda>b. b AND 0x0F) (map2 (+) ys ?ds) = map step3 ys"
  proof (rule nth_equalityI)
    fix k assume "k < length (map (\<lambda>b. b AND 0x0F) (map2 (+) ys ?ds))"
    then have k: "k < 8" using l by simp
    show "map (\<lambda>b. b AND 0x0F) (map2 (+) ys ?ds) ! k = map step3 ys ! k"
      using l k low_nibble [of "ys ! k"] y(3) [OF k] by simp
  qed (simp add: l)
  finally show ?thesis by (simp add: masks)
qed

lemma unat_of_nat_u64: "n < 2 ^ 64 \<Longrightarrow> unat (of_nat n :: u64) = n"
  by (simp add: unsigned_of_nat take_bit_nat_eq_self)

lemma unat_top_byte: "unat (drop_bit 56 (x :: u64)) = unat x div 2 ^ 56"
  by (simp add: drop_bit_eq_div unat_div)

text \<open>The top byte of the product is the sum of the bytes.\<close>

lemma sum_of_bytes:
  assumes "length zs = 8" "\<forall>z \<in> set zs. unat z \<le> 8"
  shows "drop_bit 56 (of_bytes zs * 0x0101010101010101) = of_nat (sum_list (map unat zs))"
proof -
  obtain z0 z1 z2 z3 z4 z5 z6 z7 where z: "zs = [z0, z1, z2, z3, z4, z5, z6, z7]"
    using assms(1) by (auto simp: length_Suc_conv eval_nat_numeral)
  define a0 a1 a2 a3 a4 a5 a6 a7 where "a0 = unat z0" "a1 = unat z1" "a2 = unat z2" "a3 = unat z3" "a4 = unat z4" "a5 = unat z5"
    "a6 = unat z6" "a7 = unat z7"
  note defs = this
  have le: "a0 \<le> 8" "a1 \<le> 8" "a2 \<le> 8" "a3 \<le> 8" "a4 \<le> 8" "a5 \<le> 8" "a6 \<le> 8" "a7 \<le> 8"
    using assms(2) by (simp_all add: z defs)
  let ?low = "a0 + 256 * (a0 + a1) + 256 ^ 2 * (a0 + a1 + a2) + 256 ^ 3 * (a0 + a1 + a2 + a3) +
      256 ^ 4 * (a0 + a1 + a2 + a3 + a4) + 256 ^ 5 * (a0 + a1 + a2 + a3 + a4 + a5) + 256 ^ 6 * (a0 + a1 + a2 + a3 + a4 + a5 + a6)"
  let ?s = "a0 + a1 + a2 + a3 + a4 + a5 + a6 + a7"
  have val: "of_bytes zs = of_nat (a0 + 256 * a1 + 256 ^ 2 * a2 + 256 ^ 3 * a3 + 256 ^ 4 * a4 + 256 ^ 5 * a5 + 256 ^ 6 * a6 + 256 ^ 7 * a7)"
    by (simp add: of_bytes_def z defs algebra_simps)
  let ?n = "a0 + 256 * a1 + 256 ^ 2 * a2 + 256 ^ 3 * a3 + 256 ^ 4 * a4 + 256 ^ 5 * a5 + 256 ^ 6 * a6 + 256 ^ 7 * a7"
  let ?r = "a1 + a2 * (1 + 256) + a3 * (1 + 256 + 256 ^ 2) + a4 * (1 + 256 + 256 ^ 2 + 256 ^ 3) +
      a5 * (1 + 256 + 256 ^ 2 + 256 ^ 3 + 256 ^ 4) + a6 * (1 + 256 + 256 ^ 2 + 256 ^ 3 + 256 ^ 4 + 256 ^ 5) +
      a7 * (1 + 256 + 256 ^ 2 + 256 ^ 3 + 256 ^ 4 + 256 ^ 5 + 256 ^ 6)"
  have "?n * 0x0101010101010101 = (?low + 256 ^ 7 * ?s) + 2 ^ 64 * ?r" by (simp add: algebra_simps)
  then have "(of_nat (?n * 0x0101010101010101) :: u64) = of_nat ((?low + 256 ^ 7 * ?s) + 2 ^ 64 * ?r)" by (rule arg_cong)
  also have "\<dots> = of_nat (?low + 256 ^ 7 * ?s) + of_nat (2 ^ 64) * of_nat ?r" by (simp only: of_nat_add of_nat_mult)
  also have "(of_nat (2 ^ 64) :: u64) = 0" by (rule word_of_nat_eq_0_iff [THEN iffD2]) simp
  finally have "of_bytes zs * 0x0101010101010101 = of_nat (?low + 256 ^ 7 * ?s)"
    unfolding val by (simp only: of_nat_mult of_nat_numeral mult_zero_left add_0_right)
  moreover have "?low + 256 ^ 7 * ?s < 2 ^ 64" using le by simp
  ultimately have u: "unat (of_bytes zs * 0x0101010101010101) = ?low + 256 ^ 7 * ?s"
    by (simp only: unat_of_nat_u64)
  have low: "?low < 2 ^ 56" using le by simp
  have p: "(256 :: nat) ^ 7 = 2 ^ 56" by simp
  have "unat (drop_bit 56 (of_bytes zs * 0x0101010101010101)) = (?low + 256 ^ 7 * ?s) div 2 ^ 56"
    by (simp only: unat_top_byte u)
  also have "\<dots> = ?s + ?low div 2 ^ 56" unfolding p by (rule div_mult_self2) simp
  also have "\<dots> = ?s" using div_less [OF low] by (simp only: add_0_right)
  finally have "unat (drop_bit 56 (of_bytes zs * 0x0101010101010101)) = ?s" .
  moreover have "?s = sum_list (map unat zs)" by (simp add: z defs)
  ultimately have e: "unat (drop_bit 56 (of_bytes zs * 0x0101010101010101)) = sum_list (map unat zs)" by (simp only:)
  show ?thesis by (subst e [symmetric]) simp
qed

lemma swar_count_correct:
  assumes "length bs = 8"
  shows "swar_count (of_bytes bs) = of_nat (sum_list (map bit_count bs))"
proof -
  let ?ys = "map (\<lambda>b. step2 (step1 b)) bs"
  have "swar_count (of_bytes bs) = drop_bit 56 (of_bytes (map step3 ?ys) * 0x0101010101010101)"
    using word_step1 [OF assms] word_step2 [of "map step1 bs"] word_step3 [OF assms] assms
    by (simp add: swar_count_def comp_def)
  also have "\<dots> = of_nat (sum_list (map unat (map step3 ?ys)))"
    using steps_byte bit_count_le assms by (intro sum_of_bytes) auto
  also have "map unat (map step3 ?ys) = map bit_count bs" using steps_byte by simp
  finally show ?thesis .
qed

end
