(* ===== verification/Ddos_Correct.thy ===== *)
theory Ddos_Correct
  imports Popcount
begin

text \<open>
  The flood detection: \<open>count_bit\<close> counts the bits of the packet, the arrays are a window over the last
  256 packets, and a packet without a bit set (or with all of them) blinds the detection as long as it
  is in the window.
\<close>

section \<open>The bits of a packet\<close>

definition bits_set :: "bytes \<Rightarrow> nat" where
  "bits_set bs = sum_list (map bit_count bs)"

lemma u8_high: "8 \<le> m \<Longrightarrow> \<not> bit (x :: u8) m"
  using bit_imp_le_length [of x m] by auto

lemma bit_of_le32:
  "bit (of_le32 [a, b, c, d]) n \<longleftrightarrow>
     (if n < 8 then bit a n else if n < 16 then bit b (n - 8) else if n < 24 then bit c (n - 16) else bit d (n - 24))"
proof -
  consider "n < 8" | "8 \<le> n" "n < 16" | "16 \<le> n" "n < 24" | "24 \<le> n" "n < 32" | "32 \<le> n" by linarith
  then show ?thesis
    by cases (auto simp: of_le32_def bit_or_iff bit_push_bit_iff bit_ucast_iff u8_high)
qed

lemma bit_of_le64:
  assumes "length bs = 8"
  shows "bit (of_le64 bs) n \<longleftrightarrow> (if n < 32 then bit (of_le32 (take 4 bs)) n else n < 64 \<and> bit (of_le32 (drop 4 bs)) (n - 32))"
proof -
  consider "n < 32" | "32 \<le> n" "n < 64" | "64 \<le> n" by linarith
  then show ?thesis
    by cases (auto simp: of_le64_def bit_or_iff bit_push_bit_iff bit_ucast_iff dest: bit_imp_le_length)
qed

lemma of_le64_of_bytes:
  assumes "length bs = 8"
  shows "of_le64 bs = of_bytes bs"
proof -
  obtain z0 z1 z2 z3 z4 z5 z6 z7 where z: "bs = [z0, z1, z2, z3, z4, z5, z6, z7]"
    using assms by (auto simp: length_Suc_conv eval_nat_numeral)
  have d: "drop 4 bs = [z4, z5, z6, z7]" "take 4 bs = [z0, z1, z2, z3]" by (simp_all add: z)
  show ?thesis
  proof (rule bit_word_eqI)
    fix n assume "n < LENGTH(64)"
    then have n: "n < 64" by simp
    define q r where "q = n div 8" and "r = n mod 8"
    have nq: "n = 8 * q + r" "r < 8" "q < 8" using n by (auto simp: q_def r_def)
    have b: "bit (of_le64 bs) (8 * 0 + r) \<longleftrightarrow> bit z0 r"
      "bit (of_le64 bs) (8 * 1 + r) \<longleftrightarrow> bit z1 r"
      "bit (of_le64 bs) (8 * 2 + r) \<longleftrightarrow> bit z2 r"
      "bit (of_le64 bs) (8 * 3 + r) \<longleftrightarrow> bit z3 r"
      "bit (of_le64 bs) (8 * 4 + r) \<longleftrightarrow> bit z4 r"
      "bit (of_le64 bs) (8 * 5 + r) \<longleftrightarrow> bit z5 r"
      "bit (of_le64 bs) (8 * 6 + r) \<longleftrightarrow> bit z6 r"
      "bit (of_le64 bs) (8 * 7 + r) \<longleftrightarrow> bit z7 r"
      unfolding bit_of_le64 [OF assms] d bit_of_le32 using nq(2) by simp_all
    have p: "bit (of_le64 bs) (8 * 0 + r) \<longleftrightarrow> bit (bs ! 0) r"
      "bit (of_le64 bs) (8 * 1 + r) \<longleftrightarrow> bit (bs ! 1) r"
      "bit (of_le64 bs) (8 * 2 + r) \<longleftrightarrow> bit (bs ! 2) r"
      "bit (of_le64 bs) (8 * 3 + r) \<longleftrightarrow> bit (bs ! 3) r"
      "bit (of_le64 bs) (8 * 4 + r) \<longleftrightarrow> bit (bs ! 4) r"
      "bit (of_le64 bs) (8 * 5 + r) \<longleftrightarrow> bit (bs ! 5) r"
      "bit (of_le64 bs) (8 * 6 + r) \<longleftrightarrow> bit (bs ! 6) r"
      "bit (of_le64 bs) (8 * 7 + r) \<longleftrightarrow> bit (bs ! 7) r"
      unfolding b by (simp_all add: z)
    consider "q = 0" | "q = 1" | "q = 2" | "q = 3" | "q = 4" | "q = 5" | "q = 6" | "q = 7" using nq(3) by linarith
    then have "bit (of_le64 bs) (8 * q + r) \<longleftrightarrow> bit (bs ! q) r"
      by cases (erule ssubst, rule p)+
    then have "bit (of_le64 bs) n \<longleftrightarrow> bit (bs ! (n div 8)) (n mod 8)" unfolding nq(1) [symmetric] unfolding q_def r_def .
    then show "bit (of_le64 bs) n = bit (of_bytes bs) n" using n bit_of_bytes [OF assms] by simp
  qed
qed

lemma bits_set_le: "bits_set bs \<le> 8 * length bs"
  using bit_count_le by (induction bs) (auto simp: bits_set_def add_mono intro: add_mono)

lemma rd64_at: "off + 8 \<le> length buf \<Longrightarrow> rd64 off buf = Some (of_le64 (take 8 (drop off buf)))"
  by (simp add: rd64_def rd_def)

lemma count_bit_loop_correct:
  assumes "8 dvd n - off" "off < n" "n \<le> length buf"
  shows "count_bit_loop buf n off acc = Some (acc + of_nat (bits_set (drop off (take n buf))))"
  using assms
proof (induction buf n off acc rule: count_bit_loop.induct)
  case (1 buf n off acc)
  have o8: "off + 8 \<le> n" using dvd_imp_le [OF 1(2)] 1(3) by simp
  let ?c = "take 8 (drop off buf)"
  have c: "length ?c = 8" using o8 1(4) by simp
  have sw: "swar_count (of_le64 ?c) = of_nat (bits_set ?c)"
    unfolding of_le64_of_bytes [OF c] bits_set_def by (rule swar_count_correct [OF c])
  have split: "drop off (take n buf) = ?c @ drop (off + 8) (take n buf)"
  proof -
    have "take 8 (drop off (take n buf)) = ?c" using o8 1(4) by (simp add: take_drop min_def)
    then show ?thesis by (metis append_take_drop_id drop_drop add.commute)
  qed
  have step: "count_bit_loop buf n off acc =
      (if n > off + 8 then count_bit_loop buf n (off + 8) (acc + of_nat (bits_set ?c)) else Some (acc + of_nat (bits_set ?c)))"
    using rd64_at [of off buf] o8 1(4) sw by (subst count_bit_loop.simps) simp
  show ?case
  proof (cases "n > off + 8")
    case True
    have "8 dvd n - (off + 8)" using 1(2) o8 by (metis Nat.diff_diff_right add.commute diff_diff_left dvd_diff_nat dvd_refl)
    from 1(1) [OF _ refl True this True 1(4), of "of_le64 ?c"] show ?thesis
      using step split True rd64_at [of off buf] o8 1(4) sw by (simp add: bits_set_def)
  next
    case False
    then have "n = off + 8" using o8 by simp
    then show ?thesis using step split False by (simp add: bits_set_def)
  qed
qed

lemma count_bit_correct:
  assumes "8 dvd unat len" "0 < unat len" "unat len \<le> length msg" "unat len < 2 ^ 29"
  shows "count_bit msg len = Some (of_nat (bits_set (take (unat len) msg)))"
proof -
  have "count_bit_loop msg (unat len) 0 0 = Some (of_nat (bits_set (take (unat len) msg)))"
    using count_bit_loop_correct [of "unat len" 0 msg 0] assms(1-3) by simp
  moreover have "bits_set (take (unat len) msg) < 2 ^ 32"
    using bits_set_le [of "take (unat len) msg"] assms(3,4) by simp
  ultimately show ?thesis
    by (simp add: count_bit_def word_unat_eq_iff unsigned_ucast_eq unsigned_of_nat unsigned_take_bit_eq take_bit_nat_eq_self)
qed

text \<open>The loop reads once before it tests, and whole words: an empty packet, or one whose length is not a
  multiple of 8, is read beyond its end.\<close>

lemma count_bit_empty: "length msg < 8 \<Longrightarrow> count_bit msg 0 = None"
  by (simp add: count_bit_def count_bit_loop.simps rd64_def rd_def)

section \<open>The window\<close>

text \<open>A ring that is written at index \<open>n mod size\<close> is, turned by \<open>n\<close>, the list of what was written last.\<close>

definition recent :: "nat \<Rightarrow> 'a \<Rightarrow> 'a list \<Rightarrow> 'a list" where
  "recent k z xs = drop (length xs) (replicate k z @ xs)"

lemma length_recent [simp]: "length (recent k z xs) = k"
  by (simp add: recent_def)

lemma recent_Nil [simp]: "recent k z [] = replicate k z"
  by (simp add: recent_def)

lemma recent_snoc: "0 < k \<Longrightarrow> recent k z (xs @ [x]) = tl (recent k z xs) @ [x]"
proof -
  assume k: "0 < k"
  let ?ys = "replicate k z @ xs"
  have "drop (Suc (length xs)) (?ys @ [x]) = drop (Suc (length xs)) ?ys @ [x]"
    using k by (subst drop_append) simp
  then show ?thesis by (simp only: recent_def length_append_singleton append_assoc drop_Suc tl_drop)
qed

lemma recent_full: "k \<le> length xs \<Longrightarrow> recent k z xs = drop (length xs - k) xs"
  by (simp add: recent_def)

lemma rotate_write:
  assumes "xs \<noteq> []"
  shows "rotate (Suc n) (xs[n mod length xs := x]) = tl (rotate n xs) @ [x]"
proof -
  have "rotate n (xs[n mod length xs := x]) = (rotate n xs)[0 := x]"
  proof (rule nth_equalityI)
    fix i assume "i < length (rotate n (xs[n mod length xs := x]))"
    then have i: "i < length xs" by simp
    have "(n + i) mod length xs = n mod length xs \<longleftrightarrow> i = 0"
      using i mod_eq_dvd_iff_nat [of n "n + i" "length xs"] by (fastforce dest: dvd_imp_le)
    then show "rotate n (xs[n mod length xs := x]) ! i = (rotate n xs)[0 := x] ! i"
      using i assms by (cases "i = 0") (simp_all add: nth_rotate nth_list_update)
  qed simp
  then show ?thesis using assms by (cases "rotate n xs") simp_all
qed

lemma sum_list_rotate: "sum_list (rotate n xs :: 'a :: comm_monoid_add list) = sum_list xs"
proof (induction n)
  case (Suc n)
  have "sum_list (rotate1 ys) = sum_list ys" for ys :: "'a list" by (cases ys) (simp_all add: add.commute)
  then show ?case using Suc by simp
qed simp

text \<open>What a packet must be for its bits to be countable, and what is recorded of it.\<close>

definition readable :: "packet \<Rightarrow> bool" where
  "readable p \<longleftrightarrow> 8 dvd unat (snd p) \<and> 0 < unat (snd p) \<and> unat (snd p) \<le> length (fst p)"

definition pkt_set :: "packet \<Rightarrow> nat" where
  "pkt_set p = bits_set (take (unat (snd p)) (fst p))"

definition pkt_total :: "packet \<Rightarrow> nat" where
  "pkt_total p = 8 * unat (snd p)"

abbreviation nat_entropy :: "(real \<Rightarrow> real) \<Rightarrow> (real \<Rightarrow> real) \<Rightarrow> nat \<Rightarrow> nat \<Rightarrow> double" where
  "nat_entropy rnd lg s t \<equiv> ddos_entropy rnd lg (Fin (real s)) (Fin (real t))"

definition pkt_entropy :: "(real \<Rightarrow> real) \<Rightarrow> (real \<Rightarrow> real) \<Rightarrow> packet \<Rightarrow> double" where
  "pkt_entropy rnd lg p = nat_entropy rnd lg (pkt_set p) (pkt_total p)"

lemma unat_u16: "unat (x :: u16) < 65536"
  using unsigned_less [of x, where 'a = nat] by simp

lemma pkt_set_le: "readable p \<Longrightarrow> pkt_set p \<le> pkt_total p"
  using bits_set_le [of "take (unat (snd p)) (fst p)"] by (simp add: readable_def pkt_set_def pkt_total_def)

lemma pkt_total_less: "pkt_total p < 524288"
  using unat_u16 [of "snd p"] by (simp add: pkt_total_def)

text \<open>The state after the packets \<open>hist\<close>: the arrays, turned, are the records of the last 256.\<close>

definition window :: "(real \<Rightarrow> real) \<Rightarrow> (real \<Rightarrow> real) \<Rightarrow> packet list \<Rightarrow> ddos \<Rightarrow> bool" where
  "window rnd lg hist s \<longleftrightarrow>
     (let n = length hist in
      rotate n (p_setbits s) = recent 256 0 (map (\<lambda>p. of_nat (pkt_set p)) hist) \<and>
      rotate n (p_totbits s) = recent 256 0 (map (\<lambda>p. of_nat (pkt_total p)) hist) \<and>
      rotate n (p_entropy s) = recent 256 (Fin 0) (map (pkt_entropy rnd lg) hist) \<and>
      \<not> dd_flag s \<and> pkt_idx s = (if n < 256 then n else n mod 256 + 256))"

text \<open>The verdict that the arrays stand for, on the list of all packets so far.\<close>

definition slots :: "'a list \<Rightarrow> 'a list" where
  "slots hist = rotate (256 - length hist mod 256) (drop (length hist - 256) hist)"

definition attack :: "(real \<Rightarrow> real) \<Rightarrow> (real \<Rightarrow> real) \<Rightarrow> packet list \<Rightarrow> bool" where
  "attack rnd lg hist \<longleftrightarrow>
     (let w = slots hist in
      256 < length hist \<and>
      dless tresh (dsub rnd (foldl (dadd rnd) (Fin 0) (map (pkt_entropy rnd lg) w))
                            (nat_entropy rnd lg (sum_list (map pkt_set w)) (sum_list (map pkt_total w)))))"

lemma window_init: "window rnd lg [] init_ddos"
  by (simp add: window_def init_ddos_def CAPTURE_WINDOWS_def)

lemma window_lengths:
  assumes "window rnd lg hist s"
  shows "length (p_setbits s) = 256" "length (p_totbits s) = 256" "length (p_entropy s) = 256"
  using assms by (metis length_recent length_rotate window_def)+

lemma rotate_back:
  assumes "rotate n xs = ys" "length xs = 256"
  shows "xs = rotate (256 - n mod 256) ys"
proof -
  have "rotate (256 - n mod 256) ys = rotate (256 - n mod 256 + n) xs"
    unfolding assms(1) [symmetric] rotate_rotate ..
  also have "\<dots> = rotate ((256 - n mod 256 + n) mod length xs) xs" by (rule rotate_conv_mod)
  also have "(256 - n mod 256 + n) mod length xs = 0"
  proof -
    have "256 * q + r = n \<Longrightarrow> r < 256 \<Longrightarrow> 256 - r + n = 256 * (q + 1)" for q r by arith
    from this [OF mult_div_mod_eq] have "256 - n mod 256 + n = 256 * (n div 256 + 1)" by simp
    then show ?thesis unfolding assms(2) by (simp only: mod_mult_self1_is_0)
  qed
  finally show ?thesis by simp
qed

lemma sum_list_bound: "(\<And>x. x \<in> set xs \<Longrightarrow> f x \<le> k) \<Longrightarrow> sum_list (map f xs) \<le> length xs * (k :: nat)"
  by (induction xs) (auto intro!: add_mono)

lemma sum_list_of_nat: "sum_list (map (\<lambda>x. of_nat (f x)) xs) = (of_nat (sum_list (map f xs)) :: 'b :: semiring_1)"
  by (induction xs) simp_all

lemma of_u32_of_nat: "n < 2 ^ 32 \<Longrightarrow> of_u32 (of_nat n) = Fin (real n)"
  by (simp add: of_u32_def unsigned_of_nat take_bit_nat_eq_self)

lemma slots_of_ring:
  assumes "rotate (length hist) xs = recent 256 z (map f hist)" "length xs = 256" "256 \<le> length hist"
  shows "xs = map f (slots hist)"
  using rotate_back [OF assms(1,2)] assms(3) by (simp add: recent_full slots_def rotate_map drop_map)

lemma total_bits:
  assumes "readable p"
  shows "ucast (snd p) * 8 = (of_nat (pkt_total p) :: u32)"
proof -
  have "ucast (snd p) = (of_nat (unat (snd p)) :: u32)" by (simp add: word_unat_eq_iff unsigned_ucast_eq unsigned_of_nat)
  then show ?thesis by (simp add: pkt_total_def)
qed

lemma count_packet:
  assumes "readable p"
  shows "count_bit (fst p) (ucast (snd p)) = Some (of_nat (pkt_set p))"
proof -
  have u: "unat (ucast (snd p) :: u32) = unat (snd p)"
    using unat_u16 [of "snd p"] by (simp add: unsigned_ucast_eq take_bit_nat_eq_self)
  show ?thesis
    using count_bit_correct [of "ucast (snd p)" "fst p"] assms unat_u16 [of "snd p"] u
    by (simp add: readable_def pkt_set_def)
qed

text \<open>The sums of the window do not wrap.\<close>

lemma window_sums:
  assumes "\<forall>p \<in> set w. readable p" "length w \<le> 256"
  shows "sum_list (map pkt_set w) < 2 ^ 32" "sum_list (map pkt_total w) < 2 ^ 32"
proof -
  have t: "pkt_total p \<le> 524288" for p using pkt_total_less [of p] by simp
  have s: "pkt_set p \<le> 524288" if "p \<in> set w" for p using pkt_set_le [of p] assms(1) that t [of p] by fastforce
  show "sum_list (map pkt_set w) < 2 ^ 32"
    using sum_list_bound [of w pkt_set 524288] s assms(2) by (fastforce simp: less_le_trans)
  show "sum_list (map pkt_total w) < 2 ^ 32"
    using sum_list_bound [of w pkt_total 524288] t assms(2) by (fastforce simp: less_le_trans)
qed

lemma length_slots: "length (slots hist) \<le> 256"
  by (simp add: slots_def)

lemma set_slots: "set (slots hist) = set (drop (length hist - 256) hist)"
  by (simp add: slots_def)

definition recorded :: "(real \<Rightarrow> real) \<Rightarrow> (real \<Rightarrow> real) \<Rightarrow> packet \<Rightarrow> ddos \<Rightarrow> ddos" where
  "recorded rnd lg p s =
     (let i = pkt_idx s mod 256
      in s\<lparr>p_setbits := (p_setbits s)[i := of_nat (pkt_set p)], p_totbits := (p_totbits s)[i := of_nat (pkt_total p)],
           p_entropy := (p_entropy s)[i := pkt_entropy rnd lg p]\<rparr>)"

lemma recent_write:
  assumes "rotate (length hist) xs = recent 256 z (map f hist)" "length xs = 256"
  shows "rotate (Suc (length hist)) (xs[length hist mod 256 := f p]) = recent 256 z (map f (hist @ [p]))"
proof -
  have "xs \<noteq> []" using assms(2) by auto
  from rotate_write [OF this, of "length hist" "f p"] show ?thesis
    unfolding assms by (simp only: map_append list.map recent_snoc zero_less_numeral)
qed

lemma recorded_window:
  fixes p
  assumes w: "window rnd lg hist s"
  defines "n \<equiv> Suc (length hist)" and "s' \<equiv> recorded rnd lg p s"
  shows "rotate n (p_setbits s') = recent 256 0 (map (\<lambda>p. of_nat (pkt_set p)) (hist @ [p]))"
    and "rotate n (p_totbits s') = recent 256 0 (map (\<lambda>p. of_nat (pkt_total p)) (hist @ [p]))"
    and "rotate n (p_entropy s') = recent 256 (Fin 0) (map (pkt_entropy rnd lg) (hist @ [p]))"
proof -
  note len = window_lengths [OF w]
  have i: "pkt_idx s mod 256 = length hist mod 256" using w by (simp add: window_def Let_def)
  have fields: "p_setbits s' = (p_setbits s)[length hist mod 256 := of_nat (pkt_set p)]"
    "p_totbits s' = (p_totbits s)[length hist mod 256 := of_nat (pkt_total p)]"
    "p_entropy s' = (p_entropy s)[length hist mod 256 := pkt_entropy rnd lg p]"
    by (simp_all only: s'_def recorded_def i Let_def) simp_all
  show "rotate n (p_setbits s') = recent 256 0 (map (\<lambda>p. of_nat (pkt_set p)) (hist @ [p]))"
    unfolding fields n_def by (rule recent_write) (use w len in \<open>simp_all only: window_def Let_def\<close>)
  show "rotate n (p_totbits s') = recent 256 0 (map (\<lambda>p. of_nat (pkt_total p)) (hist @ [p]))"
    unfolding fields n_def by (rule recent_write) (use w len in \<open>simp_all only: window_def Let_def\<close>)
  show "rotate n (p_entropy s') = recent 256 (Fin 0) (map (pkt_entropy rnd lg) (hist @ [p]))"
    unfolding fields n_def by (rule recent_write) (use w len in \<open>simp_all only: window_def Let_def\<close>)
qed

text \<open>One call, once the bits are counted.\<close>

lemma detect_readable:
  fixes p s rnd lg
  assumes p: "readable p"
  defines "s' \<equiv> recorded rnd lg p s"
  shows "ddos_detect rnd lg p s =
    (let d = dsub rnd (foldl (dadd rnd) (Fin 0) (p_entropy s'))
               (ddos_entropy rnd lg (of_u32 (sum_list (p_setbits s'))) (of_u32 (sum_list (p_totbits s'))))
     in if pkt_idx s < 256 then Some (False, s'\<lparr>pkt_idx := pkt_idx s + 1\<rparr>)
        else if dless tresh d \<and> \<not> dd_flag s then Some (True, s')
        else Some (False, s'\<lparr>dd_flag := dless tresh d, pkt_idx := (pkt_idx s + 1) mod 256 + 256\<rparr>))"
proof -
  have e: "ddos_entropy rnd lg (of_u32 (of_nat (pkt_set p))) (of_u32 (of_nat (pkt_total p))) = pkt_entropy rnd lg p"
    using pkt_set_le [OF p] pkt_total_less [of p] by (simp add: pkt_entropy_def of_u32_of_nat)
  obtain msg buf_len where pkt: "p = (msg, buf_len)" by (cases p)
  have c: "count_bit msg (ucast buf_len) = Some (of_nat (pkt_set p))" "ucast buf_len * 8 = (of_nat (pkt_total p) :: u32)"
    using count_packet [OF p] total_bits [OF p] by (simp_all add: pkt)
  have "ddos_detect rnd lg p s = ddos_detect rnd lg (msg, buf_len) s" by (simp add: pkt)
  also have "\<dots> = (let d = dsub rnd (foldl (dadd rnd) (Fin 0) (p_entropy s'))
               (ddos_entropy rnd lg (of_u32 (sum_list (p_setbits s'))) (of_u32 (sum_list (p_totbits s'))))
     in if pkt_idx s < 256 then Some (False, s'\<lparr>pkt_idx := pkt_idx s + 1\<rparr>)
        else if dless tresh d \<and> \<not> dd_flag s then Some (True, s')
        else Some (False, s'\<lparr>dd_flag := dless tresh d, pkt_idx := (pkt_idx s + 1) mod 256 + 256\<rparr>))"
    unfolding ddos_detect_def by (simp add: c e s'_def recorded_def CAPTURE_WINDOWS_def Let_def)
  finally show ?thesis .
qed

lemma detect_recorded:
  fixes p
  assumes "window rnd lg hist s" "\<forall>q \<in> set (hist @ [p]). readable q"
  defines "s' \<equiv> recorded rnd lg p s"
  shows "ddos_detect rnd lg p s =
    Some (if attack rnd lg (hist @ [p]) then (True, s')
          else (False, s'\<lparr>pkt_idx := if Suc (length hist) < 256 then Suc (length hist) else Suc (length hist) mod 256 + 256\<rparr>))"
proof -
  have p: "readable p" using assms(2) by simp
  have flag: "\<not> dd_flag s" and idx: "pkt_idx s = (if length hist < 256 then length hist else length hist mod 256 + 256)"
    using assms(1) by (simp_all add: window_def Let_def)
  have kept: "dd_flag s' = False" using flag by (simp add: s'_def recorded_def Let_def)
  then have same: "s'\<lparr>dd_flag := False, pkt_idx := k\<rparr> = s'\<lparr>pkt_idx := k\<rparr>" for k by (cases s') simp
  show ?thesis
  proof (cases "length hist < 256")
    case True
    then have "\<not> attack rnd lg (hist @ [p])" by (simp add: attack_def Let_def)
    moreover have "Suc (length hist) = (if Suc (length hist) < 256 then Suc (length hist) else Suc (length hist) mod 256 + 256)"
      using True by (cases "length hist = 255") auto
    ultimately show ?thesis using True idx by (simp add: detect_readable [OF p] Let_def flip: s'_def)
  next
    case False
    define w where "w = slots (hist @ [p])"
    have len: "length (p_setbits s') = 256" "length (p_totbits s') = 256" "length (p_entropy s') = 256"
      using window_lengths [OF assms(1)] by (simp_all add: s'_def recorded_def Let_def)
    note r = recorded_window [OF assms(1), of p, folded s'_def]
    have arrays: "p_setbits s' = map (\<lambda>p. of_nat (pkt_set p)) w" "p_totbits s' = map (\<lambda>p. of_nat (pkt_total p)) w"
      "p_entropy s' = map (pkt_entropy rnd lg) w"
      using False len r slots_of_ring [of "hist @ [p]"] by (simp_all add: w_def)
    have "\<forall>q \<in> set w. readable q" using assms(2) by (auto simp: w_def set_slots dest: in_set_dropD)
    note sums = window_sums [OF this, unfolded w_def, OF length_slots, folded w_def]
    have tot: "of_u32 (sum_list (p_setbits s')) = Fin (real (sum_list (map pkt_set w)))"
      "of_u32 (sum_list (p_totbits s')) = Fin (real (sum_list (map pkt_total w)))"
      unfolding arrays sum_list_of_nat by (simp_all only: of_u32_of_nat [OF sums(1)] of_u32_of_nat [OF sums(2)])
    have att: "attack rnd lg (hist @ [p]) =
        dless tresh (dsub rnd (foldl (dadd rnd) (Fin 0) (p_entropy s'))
          (ddos_entropy rnd lg (of_u32 (sum_list (p_setbits s'))) (of_u32 (sum_list (p_totbits s')))))"
      unfolding tot using False by (simp only: attack_def Let_def arrays(3) flip: w_def) simp
    have "\<not> pkt_idx s < 256" "(pkt_idx s + 1) mod 256 = Suc (length hist) mod 256"
    proof -
      show "\<not> pkt_idx s < 256" using False idx by simp
      have "pkt_idx s + 1 = Suc (length hist mod 256) + 256" using False idx by simp
      then show "(pkt_idx s + 1) mod 256 = Suc (length hist) mod 256" by (simp only: mod_add_self2 mod_Suc_eq)
    qed
    note idx' = this
    have "ddos_detect rnd lg p s =
      (if attack rnd lg (hist @ [p]) then Some (True, s')
       else Some (False, s'\<lparr>dd_flag := False, pkt_idx := Suc (length hist) mod 256 + 256\<rparr>))"
      using detect_readable [OF p, of rnd lg s, folded s'_def] idx' flag unfolding Let_def att [symmetric]
      by (simp only: if_False simp_thms split: if_splits)
    then show ?thesis using False same by simp
  qed
qed

lemma detect_window:
  assumes "window rnd lg hist s" "\<forall>q \<in> set (hist @ [p]). readable q" "ddos_detect rnd lg p s = Some (False, s'')"
  shows "window rnd lg (hist @ [p]) s''"
proof -
  have "s'' = (recorded rnd lg p s)\<lparr>pkt_idx := if Suc (length hist) < 256 then Suc (length hist) else Suc (length hist) mod 256 + 256\<rparr>"
    using assms(3) detect_recorded [OF assms(1,2)] by (simp split: if_splits)
  moreover have "\<not> dd_flag (recorded rnd lg p s)" using assms(1) by (simp add: window_def recorded_def Let_def)
  ultimately show ?thesis
    using recorded_window [OF assms(1), of p] by (simp add: window_def Let_def)
qed

lemma run_from_window:
  assumes "window rnd lg hist s" "\<forall>q \<in> set (hist @ ps). readable q"
  shows "\<exists>s'. ddos_run rnd lg ps s = Some (\<exists>k. 0 < k \<and> k \<le> length ps \<and> attack rnd lg (hist @ take k ps), s') \<and>
    ((\<forall>k. 0 < k \<and> k \<le> length ps \<longrightarrow> \<not> attack rnd lg (hist @ take k ps)) \<longrightarrow> window rnd lg (hist @ ps) s')"
  using assms
proof (induction ps arbitrary: hist s)
  case (Cons p ps)
  have readable: "\<forall>q \<in> set (hist @ [p]). readable q" using Cons.prems(2) by simp
  have split: "(\<exists>k. 0 < k \<and> k \<le> length (p # ps) \<and> attack rnd lg (hist @ take k (p # ps))) \<longleftrightarrow>
    attack rnd lg (hist @ [p]) \<or> (\<exists>k. 0 < k \<and> k \<le> length ps \<and> attack rnd lg ((hist @ [p]) @ take k ps))"
    (is "?l \<longleftrightarrow> ?a \<or> ?r")
  proof
    assume ?l
    then obtain k where k: "0 < k" "k \<le> length (p # ps)" "attack rnd lg (hist @ take k (p # ps))" by blast
    then obtain j where "k = Suc j" by (cases k) auto
    with k show "?a \<or> ?r" by (cases "j = 0") auto
  next
    assume "?a \<or> ?r"
    then show ?l
    proof
      assume ?a
      then show ?l by (intro exI [of _ 1]) simp
    next
      assume ?r
      then obtain k where "0 < k" "k \<le> length ps" "attack rnd lg ((hist @ [p]) @ take k ps)" by blast
      then show ?l by (intro exI [of _ "Suc k"]) simp
    qed
  qed
  show ?case
  proof (cases "attack rnd lg (hist @ [p])")
    case True
    then show ?thesis unfolding split using detect_recorded [OF Cons.prems(1) readable] split by auto
  next
    case False
    then obtain s1 where d: "ddos_detect rnd lg p s = Some (False, s1)"
      using detect_recorded [OF Cons.prems(1) readable] by auto
    have w: "window rnd lg (hist @ [p]) s1" by (rule detect_window [OF Cons.prems(1) readable d])
    have "\<forall>q \<in> set ((hist @ [p]) @ ps). readable q" using Cons.prems(2) by simp
    from Cons.IH [OF w this] show ?thesis unfolding split using d False split by auto
  qed
qed simp

lemma run_readable:
  assumes "\<forall>p \<in> set ps. readable p"
  shows "\<exists>s. ddos_run rnd lg ps init_ddos = Some (\<exists>k \<le> length ps. attack rnd lg (take k ps), s) \<and>
    ((\<forall>k \<le> length ps. \<not> attack rnd lg (take k ps)) \<longrightarrow> window rnd lg ps s)"
proof -
  have none: "\<not> attack rnd lg (take 0 ps)" by (simp add: attack_def Let_def)
  have "(\<exists>k. 0 < k \<and> k \<le> length ps \<and> attack rnd lg ([] @ take k ps)) \<longleftrightarrow> (\<exists>k \<le> length ps. attack rnd lg (take k ps))"
    using none by (metis append_Nil gr0I)
  moreover have "(\<forall>k. 0 < k \<and> k \<le> length ps \<longrightarrow> \<not> attack rnd lg ([] @ take k ps)) \<longleftrightarrow> (\<forall>k \<le> length ps. \<not> attack rnd lg (take k ps))"
    using none by (metis append_Nil gr0I)
  ultimately show ?thesis
    using run_from_window [OF window_init, of ps rnd lg] assms by simp
qed

lemma run_fst:
  assumes "\<forall>p \<in> set ps. readable p"
  shows "map_option fst (ddos_run rnd lg ps init_ddos) = Some (\<exists>k \<le> length ps. attack rnd lg (take k ps))"
  using run_readable [OF assms, of rnd lg] by (elim exE conjE) simp

section \<open>Entropy\<close>

definition blank :: "packet \<Rightarrow> bool" where
  "blank p \<longleftrightarrow> pkt_set p = 0 \<or> pkt_set p = pkt_total p"

lemma dadd_NaN [simp]: "dadd rnd x NaN = NaN" "dadd rnd NaN x = NaN"
  by (cases x; simp)+

lemma dneg_NaN_iff [simp]: "dneg x = NaN \<longleftrightarrow> x = NaN"
  by (cases x) simp_all

lemma dsub_NaN [simp]: "dsub rnd x NaN = NaN" "dsub rnd NaN x = NaN"
  by (simp_all add: dsub_def)

lemma dless_NaN [simp]: "\<not> dless x NaN" "\<not> dless NaN x"
  by (cases x; simp)+

lemma entropy_blank:
  assumes "readable p" "blank p" "rnd 0 = 0"
  shows "pkt_entropy rnd lg p = NaN"
proof -
  have "0 < pkt_total p" using assms(1) by (simp add: readable_def pkt_total_def)
  then show ?thesis using assms(2,3)
    by (auto simp: blank_def pkt_entropy_def ddos_entropy_def dsub_def dmul_def)
qed

lemma foldl_NaN: "foldl (dadd rnd) NaN xs = NaN"
  by (induction xs) simp_all

lemma sum_has_NaN: "NaN \<in> set xs \<Longrightarrow> foldl (dadd rnd) a xs = NaN"
  by (induction xs arbitrary: a) (auto simp: foldl_NaN)

lemma attack_blank:
  assumes "readable p" "blank p" "rnd 0 = 0" "p \<in> set (drop (length hist - 256) hist)"
  shows "\<not> attack rnd lg hist"
proof -
  have "NaN \<in> set (map (pkt_entropy rnd lg) (slots hist))"
    using entropy_blank [of p rnd lg, OF assms(1-3)] assms(4) by (force simp: set_slots)
  from sum_has_NaN [OF this] show ?thesis by (simp add: attack_def Let_def)
qed

text \<open>The entropy of a packet with both kinds of bits, with exact operations.\<close>

definition share :: "real \<Rightarrow> real \<Rightarrow> real" where
  "share s t = - s * (log 2 s - log 2 t) - (t - s) * (log 2 (t - s) - log 2 t)"

lemma entropy_exact:
  assumes "0 < s" "s < t"
  shows "ddos_entropy id (log 2) (Fin s) (Fin t) = Fin (share s t + log 2 t)"
  using assms by (simp add: ddos_entropy_def dsub_def dmul_def share_def)

lemma share_scale:
  assumes "0 < s" "s < t" "0 < k"
  shows "share (k * s) (k * t) = k * share s t"
proof -
  have "k * t - k * s = k * (t - s)" by (simp add: algebra_simps)
  then have "share (k * s) (k * t) = - (k * s) * (log 2 s - log 2 t) - k * (t - s) * (log 2 (t - s) - log 2 t)"
    using assms by (simp add: share_def log_mult)
  then show ?thesis by (simp add: share_def algebra_simps)
qed

lemma foldl_Fin: "foldl (dadd id) (Fin a) (replicate n (Fin x)) = Fin (a + n * x)"
  by (induction n arbitrary: a) (simp_all add: algebra_simps)

lemma funpow_replicate: "(rotate1 ^^ m) (replicate n x) = replicate n x"
proof (induction m)
  case (Suc m)
  have "rotate1 (replicate n x) = replicate n x"
    by (cases n) (simp_all add: replicate_append_same)
  then show ?case using Suc by simp
qed simp

lemma slots_replicate: "256 \<le> n \<Longrightarrow> slots (replicate n x) = replicate 256 x"
  by (simp add: slots_def rotate_def funpow_replicate)

lemma attack_identical:
  assumes "readable p" "\<not> blank p"
  shows "attack id (log 2) (replicate 257 p)"
proof -
  define s t where "s = real (pkt_set p)" and "t = real (pkt_total p)"
  have st: "0 < s" "s < t" using pkt_set_le [OF assms(1)] assms(2) by (auto simp: s_def t_def blank_def)
  have "64 \<le> pkt_total p" using assms(1) dvd_imp_le [of 8 "unat (snd p)"] by (simp add: readable_def pkt_total_def)
  then have "log 2 64 \<le> log 2 t" by (simp add: t_def)
  moreover have "log 2 (64 :: real) = 6" using log_pow_cancel [of 2 6] by simp
  ultimately have lt: "6 \<le> log 2 t" by simp
  have l256: "log 2 (256 :: real) = 8" using log_pow_cancel [of 2 8] by simp
  have e: "pkt_entropy id (log 2) p = Fin (share s t + log 2 t)"
    using entropy_exact [OF st] by (simp add: pkt_entropy_def s_def t_def)
  have sums: "real (sum_list (map pkt_set (slots (replicate 257 p)))) = 256 * s"
    "real (sum_list (map pkt_total (slots (replicate 257 p)))) = 256 * t"
    by (simp_all add: slots_replicate s_def t_def sum_list_replicate)
  have total: "ddos_entropy id (log 2) (Fin (256 * s)) (Fin (256 * t)) = Fin (256 * share s t + log 2 t + 8)"
    using entropy_exact [of "256 * s" "256 * t"] share_scale [OF st, of 256] st l256 by (simp add: log_mult)
  have summed: "foldl (dadd id) (Fin 0) (map (pkt_entropy id (log 2)) (slots (replicate 257 p))) = Fin (256 * (share s t + log 2 t))"
    using foldl_Fin [of 0 256 "share s t + log 2 t"] by (simp add: slots_replicate e)
  have "dless tresh (dsub id (Fin (256 * (share s t + log 2 t))) (Fin (256 * share s t + log 2 t + 8)))"
    using lt by (simp add: tresh_def dsub_def)
  then show ?thesis unfolding attack_def Let_def sums total summed by simp
qed

lemma count_bit_loop_past_end:
  assumes "8 dvd n - off" "off < n" "length buf < n"
  shows "count_bit_loop buf n off acc = None"
  using assms
proof (induction buf n off acc rule: count_bit_loop.induct)
  case (1 buf n off acc)
  show ?case
  proof (cases "off + 8 \<le> length buf")
    case True
    have less: "n > off + 8" using True 1(4) by simp
    have "8 dvd n - (off + 8)" using 1(2) by (metis diff_diff_left dvd_diff_nat dvd_refl)
    from 1(1) [OF rd64_at [OF True] refl less this less 1(4)] show ?thesis
      using less by (subst count_bit_loop.simps) (simp add: rd64_at [OF True])
  next
    case False
    then show ?thesis by (subst count_bit_loop.simps) (simp add: rd64_def rd_def)
  qed
qed

lemma bits_set_examples: "bits_set (replicate 8 15 @ replicate 8 1) = 40" "bits_set (replicate 8 15) = 32" "bits_set (replicate 8 0) = 0"
  by code_simp+

lemma readable_examples: "readable (replicate 8 b, 8)"
  by (simp add: readable_def)

lemma blank_examples: "\<not> blank (replicate 8 15, 8)" "blank (replicate 8 0, 8)"
  by (simp_all add: blank_def pkt_set_def pkt_total_def bits_set_examples)

section \<open>Properties\<close>

text \<open>C28: \<open>count_bit\<close> returns the number of bits that are set in the packet: the parallel additions of the
  64-bit word count the bits of its eight bytes, and the loop adds up the words, for every buffer whose
  length is a positive multiple of 8.\<close>

theorem count_bit_counts_bits:
  assumes "8 dvd unat len" "0 < unat len" "unat len \<le> length msg" "unat len < 2 ^ 29"
  shows "count_bit msg len = Some (of_nat (bits_set (take (unat len) msg)))"
  by (rule count_bit_correct [OF assms])

lemma count_bit_counts_bits_witness: "count_bit (replicate 8 15 @ replicate 8 1 @ [3]) 16 = Some 40"
  using count_bit_counts_bits [of 16 "replicate 8 15 @ replicate 8 1 @ [3]"]
  by (simp add: bits_set_examples)

text \<open>C27: The detection refines a window over the history: on packets whose bits can be counted it never
  fails, and it ends the process at the first packet for which the sum of the entropies of the last 256
  packets exceeds the entropy of their sum by the threshold. Before the 257th packet nothing is reported;
  the 32-bit sums of the window do not wrap.\<close>

theorem ddos_run_refines_window:
  assumes "\<forall>p \<in> set ps. readable p"
  shows "map_option fst (ddos_run rnd lg ps init_ddos) = Some (\<exists>k \<le> length ps. attack rnd lg (take k ps))"
  by (rule run_fst [OF assms])

lemma ddos_run_refines_window_witness:
  "map_option fst (ddos_run id (log 2) (replicate 256 (replicate 8 15, 8)) init_ddos) = Some False"
  using ddos_run_refines_window [of "replicate 256 (replicate 8 15, 8)" id "log 2"]
  by (simp add: readable_examples attack_def Let_def)

text \<open>A flood of identical packets is reported at its 257th packet, whatever the packet, when it has
  both kinds of bits and the operations are exact.\<close>

theorem ddos_flood_reported:
  assumes "readable p" "\<not> blank p"
  shows "map_option fst (ddos_run id (log 2) (replicate 257 p) init_ddos) = Some True"
proof -
  have "\<forall>q \<in> set (replicate 257 p). readable q" using assms(1) by simp
  from run_fst [OF this, of id "log 2"] attack_identical [OF assms] show ?thesis
    by (simp only: length_replicate option.inject simp_thms eq_True) (intro exI [of _ 257], simp)
qed

lemma ddos_flood_reported_witness:
  "map_option fst (ddos_run id (log 2) (replicate 257 (replicate 8 15, 8)) init_ddos) = Some True"
  by (rule ddos_flood_reported [OF readable_examples blank_examples(1)])

text \<open>C29: One packet without any bit set, or with all of them, has the entropy NaN, and as long as it is
  among the last 256 packets no attack is reported, whatever the other packets are.\<close>

theorem ddos_blank_packet_blinds:
  assumes "ddos_run rnd lg hist init_ddos = Some (False, s)" "\<forall>q \<in> set (hist @ [p]). readable q" "rnd 0 = 0"
    "blank q" "q \<in> set (drop (length (hist @ [p]) - 256) (hist @ [p]))"
  shows "\<exists>s'. ddos_detect rnd lg p s = Some (False, s')"
proof -
  have "window rnd lg hist s"
    using run_readable [of hist rnd lg] assms(1,2) by auto
  moreover have "readable q" using assms(2,5) by (meson in_set_dropD)
  then have "\<not> attack rnd lg (hist @ [p])" by (rule attack_blank [of q rnd, OF _ assms(4,3,5)])
  ultimately show ?thesis using detect_recorded [of rnd lg hist s p] assms(2) by simp
qed

lemma ddos_blank_packet_blinds_witness:
  "\<exists>s s'. ddos_run id (log 2) (replicate 256 (replicate 8 15, 8)) init_ddos = Some (False, s) \<and>
     ddos_detect id (log 2) (replicate 8 0, 8) s = Some (False, s')"
proof -
  have "\<not> attack id (log 2) (take k (replicate 256 p))" for k p by (simp add: attack_def Let_def)
  then obtain s where s: "ddos_run id (log 2) (replicate 256 (replicate 8 15, 8)) init_ddos = Some (False, s)"
    using run_readable [of "replicate 256 (replicate 8 15, 8)" id "log 2"] readable_examples [of 15] by auto
  have "\<exists>s'. ddos_detect id (log 2) (replicate 8 0, 8) s = Some (False, s')"
    by (rule ddos_blank_packet_blinds [OF s _ _ blank_examples(2)]) (simp_all add: readable_examples)
  then show ?thesis using s by blast
qed

text \<open>C30: Behind its data a buffer must have \<open>buf_len\<close> bytes: counting reads past the end otherwise. The data
  of a packet starts behind the headroom of the buffer, which \<open>buf_len\<close> includes.\<close>

theorem count_bit_past_end:
  assumes "8 dvd unat len" "0 < unat len" "length msg < unat len"
  shows "count_bit msg len = None"
  using count_bit_loop_past_end [of "unat len" 0 msg 0] assms by (simp add: count_bit_def)

lemma count_bit_past_end_witness: "count_bit (replicate 2048 0) 2176 = None"
  by (rule count_bit_past_end) simp_all

end
