(* ===== verification/Io_Round.thy ===== *)
theory Io_Round
  imports Ddos_Correct "HOL-Library.Multiset"
begin

text \<open>
  The I/O thread, the loop at the end of \<open>main\<close> in \<^verbatim>\<open>tcp_concurrency.c\<close>: it takes a burst from the port,
  shows every packet to the flood detection, puts the burst into the input ring, sends a burst from
  the output ring and frees it, and runs the timers from time to time.

  A packet buffer is an address; the pool, the buffers that the driver holds for sending, and the two
  rings are multisets and lists of them. \<open>rte_eth_tx_burst\<close> takes the first buffers of the burst over and
  returns how many; the driver gives them back to the pool when they are sent. The bursts of the rings
  are arguments, with \<open>burst_fifo\<close> as their documented behaviour.
\<close>

section \<open>A round\<close>

definition BURST_SIZE :: nat where "BURST_SIZE = 32"

definition TIMER_RESOLUTION_CYCLES :: u64 where "TIMER_RESOLUTION_CYCLES = 120000000000"

record 'q burst_ring =
  enqueue_burst :: "addr list \<Rightarrow> 'q \<Rightarrow> nat \<times> 'q"
  dequeue_burst :: "nat \<Rightarrow> 'q \<Rightarrow> addr list \<times> 'q"

text \<open>A ring with \<open>cap\<close> places takes as many objects of a burst as fit, and gives as many as it has.\<close>

definition burst_fifo :: "'q burst_ring \<Rightarrow> nat \<Rightarrow> ('q \<Rightarrow> addr list) \<Rightarrow> bool" where
  "burst_fifo Q cap view \<longleftrightarrow>
     (\<forall>xs q k q'. enqueue_burst Q xs q = (k, q') \<longrightarrow>
        k = min (length xs) (cap - length (view q)) \<and> view q' = view q @ take k xs) \<and>
     (\<forall>n q xs q'. dequeue_burst Q n q = (xs, q') \<longrightarrow> xs = take n (view q) \<and> view q' = drop n (view q))"

record 'q io =
  io_in :: 'q
  io_out :: 'q
  io_pool :: "addr multiset"
  io_driver :: "addr multiset"
  io_ddos :: ddos
  prev_tsc :: u64

text \<open>\<open>Exit\<close> is a call of \<open>rte_exit\<close>.\<close>

datatype 'a process = Exit | Running 'a

fun detect_all :: "(real \<Rightarrow> real) \<Rightarrow> (real \<Rightarrow> real) \<Rightarrow> packet list \<Rightarrow> ddos \<Rightarrow> ddos process option" where
  "detect_all rnd lg [] d = Some (Running d)"
| "detect_all rnd lg (p # ps) d =
     do { (attack, d) \<leftarrow> ddos_detect rnd lg p d;
          if attack then Some Exit else detect_all rnd lg ps d }"

definition io_receive :: "(real \<Rightarrow> real) \<Rightarrow> (real \<Rightarrow> real) \<Rightarrow> 'q burst_ring \<Rightarrow> (addr \<Rightarrow> packet) \<Rightarrow> addr list \<Rightarrow>
    'q io \<Rightarrow> 'q io process option" where
  "io_receive rnd lg Q packet_at rx s =
     (if length rx > BURST_SIZE then Some Exit
      else if rx = [] then Some (Running s)
      else do { r \<leftarrow> detect_all rnd lg (map packet_at rx) (io_ddos s);
                case r of
                  Exit \<Rightarrow> Some Exit
                | Running d \<Rightarrow>
                    let (_, q) = enqueue_burst Q rx (io_in s)
                    in Some (Running (s\<lparr>io_ddos := d, io_in := q\<rparr>)) })"

definition io_send :: "'q burst_ring \<Rightarrow> (addr list \<Rightarrow> nat) \<Rightarrow> 'q io \<Rightarrow> 'q io" where
  "io_send Q tx_burst s =
     (let (tx, q) = dequeue_burst Q BURST_SIZE (io_out s);
          s = s\<lparr>io_out := q\<rparr>
      in if tx = [] then s
         else s\<lparr>io_driver := io_driver s + mset (take (tx_burst tx) tx), io_pool := io_pool s + mset tx\<rparr>)"

text \<open>The first result says that \<open>rte_timer_manage\<close> is called.\<close>

definition io_timer :: "u64 \<Rightarrow> 'q io \<Rightarrow> bool \<times> 'q io" where
  "io_timer cur_tsc s =
     (if cur_tsc - prev_tsc s > TIMER_RESOLUTION_CYCLES then (True, s\<lparr>prev_tsc := cur_tsc\<rparr>) else (False, s))"

text \<open>\<open>rx\<close> is what the port delivers, taken from the pool by the driver.\<close>

definition io_round :: "(real \<Rightarrow> real) \<Rightarrow> (real \<Rightarrow> real) \<Rightarrow> 'q burst_ring \<Rightarrow> (addr \<Rightarrow> packet) \<Rightarrow> (addr list \<Rightarrow> nat) \<Rightarrow>
    addr list \<Rightarrow> u64 \<Rightarrow> 'q io \<Rightarrow> (bool \<times> 'q io) process option" where
  "io_round rnd lg Q packet_at tx_burst rx cur_tsc s =
     do { r \<leftarrow> io_receive rnd lg Q packet_at rx s;
          Some (case r of Exit \<Rightarrow> Exit | Running s \<Rightarrow> Running (io_timer cur_tsc (io_send Q tx_burst s))) }"

section \<open>Where the buffers are\<close>

definition io_buffers :: "('q \<Rightarrow> addr list) \<Rightarrow> 'q io \<Rightarrow> addr multiset" where
  "io_buffers view s = io_pool s + io_driver s + mset (view (io_in s)) + mset (view (io_out s))"

lemma burst_enqueue:
  assumes "burst_fifo Q cap view" "enqueue_burst Q xs q = (k, q')"
  shows "view q' = view q @ take (cap - length (view q)) xs"
proof -
  have "k = min (length xs) (cap - length (view q))" "view q' = view q @ take k xs"
    using assms unfolding burst_fifo_def by blast+
  then show ?thesis by (simp add: min_def)
qed

lemma burst_dequeue:
  assumes "burst_fifo Q cap view" "dequeue_burst Q n q = (xs, q')"
  shows "xs = take n (view q)" "view q' = drop n (view q)"
  using assms unfolding burst_fifo_def by blast+

lemma receive_result:
  assumes "burst_fifo Q cap view" "length rx \<le> BURST_SIZE" "detect_all rnd lg (map packet_at rx) (io_ddos s) = Some (Running d)"
  shows "\<exists>q. io_receive rnd lg Q packet_at rx s = Some (Running (s\<lparr>io_ddos := d, io_in := q\<rparr>)) \<and>
    view q = view (io_in s) @ take (cap - length (view (io_in s))) rx"
proof (cases "rx = []")
  case True
  then show ?thesis using assms(3) by (intro exI [of _ "io_in s"]) (simp add: io_receive_def)
next
  case False
  obtain k q where q: "enqueue_burst Q rx (io_in s) = (k, q)" by fastforce
  from burst_enqueue [OF assms(1) q] show ?thesis
    using False assms(2,3) q by (intro exI [of _ q]) (simp add: io_receive_def)
qed

lemma send_result:
  assumes "burst_fifo Q cap view" "tx = take BURST_SIZE (view (io_out s))"
  shows "\<exists>q. io_send Q tx_burst s = s\<lparr>io_out := q, io_driver := io_driver s + mset (take (tx_burst tx) tx), io_pool := io_pool s + mset tx\<rparr> \<and>
    view q = drop BURST_SIZE (view (io_out s))"
proof -
  obtain xs q where q: "dequeue_burst Q BURST_SIZE (io_out s) = (xs, q)" by fastforce
  from burst_dequeue [OF assms(1) q] show ?thesis
    using q assms(2) by (intro exI [of _ q]) (cases "tx = []"; simp add: io_send_def)
qed

section \<open>A bounded list as the ring\<close>

definition list_burst :: "nat \<Rightarrow> addr list burst_ring" where
  "list_burst cap = \<lparr>enqueue_burst = (\<lambda>xs q. (min (length xs) (cap - length q), q @ take (cap - length q) xs)),
     dequeue_burst = (\<lambda>n q. (take n q, drop n q))\<rparr>"

lemma list_burst_fifo: "burst_fifo (list_burst cap) cap (\<lambda>q. q)"
  by (auto simp: burst_fifo_def list_burst_def min_def)

section \<open>Properties\<close>

text \<open>C36: A round in which no flood is detected appends to the input ring, in order, as many of the received packets
  as fit, and takes the first 32 packets off the output ring; the timers run if their time has come. But it gets the
  buffers wrong: those that do not fit the input ring are neither in a ring nor in the pool any more, and those
  that the driver has taken over for sending are put into the pool at once, from where they can be allocated again before they are sent.\<close>

theorem io_round_buffers:
  assumes "burst_fifo Q cap view" "length rx \<le> BURST_SIZE"
    and "detect_all rnd lg (map packet_at rx) (io_ddos s) = Some (Running d)"
    and "tx = take BURST_SIZE (view (io_out s))" "stored = take (cap - length (view (io_in s))) rx"
  shows "\<exists>s'. io_round rnd lg Q packet_at tx_burst rx cur_tsc s = Some (Running (cur_tsc - prev_tsc s > TIMER_RESOLUTION_CYCLES, s')) \<and>
    view (io_in s') = view (io_in s) @ stored \<and> view (io_out s) = tx @ view (io_out s') \<and> io_ddos s' = d \<and>
    io_driver s' = io_driver s + mset (take (tx_burst tx) tx) \<and> io_pool s' = io_pool s + mset tx \<and>
    io_buffers view s' = io_buffers view s + mset stored + mset (take (tx_burst tx) tx)"
proof -
  obtain q where q: "io_receive rnd lg Q packet_at rx s = Some (Running (s\<lparr>io_ddos := d, io_in := q\<rparr>))" "view q = view (io_in s) @ stored"
    using receive_result [OF assms(1-3)] assms(5) by blast
  let ?s1 = "s\<lparr>io_ddos := d, io_in := q\<rparr>"
  have tx: "tx = take BURST_SIZE (view (io_out ?s1))" using assms(4) by simp
  obtain q' where q': "io_send Q tx_burst ?s1 = ?s1\<lparr>io_out := q', io_driver := io_driver s + mset (take (tx_burst tx) tx), io_pool := io_pool s + mset tx\<rparr>"
    "view q' = drop BURST_SIZE (view (io_out s))"
    using send_result [OF assms(1) tx, of tx_burst] by auto
  have out: "view (io_out s) = tx @ view q'" unfolding assms(4) q'(2) by simp
  let ?s2 = "s\<lparr>io_ddos := d, io_in := q, io_out := q', io_driver := io_driver s + mset (take (tx_burst tx) tx), io_pool := io_pool s + mset tx\<rparr>"
  obtain s' where s': "io_timer cur_tsc ?s2 = (cur_tsc - prev_tsc s > TIMER_RESOLUTION_CYCLES, s')"
      "s' = ?s2 \<or> s' = ?s2\<lparr>prev_tsc := cur_tsc\<rparr>"
    by (cases "cur_tsc - prev_tsc s > TIMER_RESOLUTION_CYCLES") (auto simp: io_timer_def)
  have run: "io_round rnd lg Q packet_at tx_burst rx cur_tsc s = Some (Running (cur_tsc - prev_tsc s > TIMER_RESOLUTION_CYCLES, s'))"
    using q(1) q'(1) s'(1) by (simp add: io_round_def)
  have "io_buffers view s' = io_buffers view s + mset stored + mset (take (tx_burst tx) tx)"
    using s'(2) q(2) out by (auto simp: io_buffers_def union_ac)
  then show ?thesis using run s'(2) q(2) out by (intro exI [of _ s']) auto
qed

text \<open>Two packets arrive for a ring with room for one, and one is sent.\<close>

definition ex_io :: "addr list io" where
  "ex_io = \<lparr>io_in = [1], io_out = [2], io_pool = {#3#}, io_driver = {#}, io_ddos = init_ddos, prev_tsc = 0\<rparr>"

definition ex_packet :: packet where "ex_packet = (replicate 8 15, 8)"

lemma ex_detect: "\<exists>d. detect_all id (log 2) [ex_packet, ex_packet] init_ddos = Some (Running d)"
proof -
  have w0: "window id (log 2) [] init_ddos" by (rule window_init)
  have r: "\<forall>q \<in> set ([] @ [ex_packet]). readable q" "\<forall>q \<in> set ([ex_packet] @ [ex_packet]). readable q"
    by (simp_all add: readable_examples ex_packet_def)
  have n: "\<not> attack id (log 2) ([] @ [ex_packet])" "\<not> attack id (log 2) ([ex_packet] @ [ex_packet])"
    by (simp_all add: attack_def Let_def)
  obtain d1 where d1: "ddos_detect id (log 2) ex_packet init_ddos = Some (False, d1)"
    using detect_recorded [OF w0 r(1)] n(1) by auto
  have "window id (log 2) ([] @ [ex_packet]) d1" by (rule detect_window [OF w0 r(1) d1])
  then have w1: "window id (log 2) [ex_packet] d1" by simp
  obtain d2 where "ddos_detect id (log 2) ex_packet d1 = Some (False, d2)" using detect_recorded [OF w1 r(2)] n(2) by auto
  then show ?thesis using d1 by simp
qed

lemma io_round_buffers_witness:
  "\<exists>s'. io_round id (log 2) (list_burst 2) (\<lambda>_. ex_packet) length [4, 5] 7 ex_io = Some (Running (False, s')) \<and>
    io_in s' = [1, 4] \<and> io_out s' = [] \<and> io_driver s' = {#2#} \<and> io_buffers (\<lambda>q. q) s' = {#1, 2, 2, 3, 4#}"
proof -
  obtain d where "detect_all id (log 2) [ex_packet, ex_packet] init_ddos = Some (Running d)" using ex_detect by blast
  then have d: "detect_all id (log 2) (map (\<lambda>_. ex_packet) [4, 5 :: addr]) (io_ddos ex_io) = Some (Running d)" by (simp add: ex_io_def)
  have l: "length [4, 5 :: addr] \<le> BURST_SIZE" by (simp add: BURST_SIZE_def)
  have tx: "take BURST_SIZE (io_out ex_io) = [2]" "take (2 - length (io_in ex_io)) [4, 5] = [4]" by (simp_all add: ex_io_def BURST_SIZE_def)
  obtain s' where s': "io_round id (log 2) (list_burst 2) (\<lambda>_. ex_packet) length [4, 5] 7 ex_io = Some (Running (7 - prev_tsc ex_io > TIMER_RESOLUTION_CYCLES, s'))"
    "io_in s' = io_in ex_io @ [4]" "io_out ex_io = [2] @ io_out s'" "io_driver s' = io_driver ex_io + {#2#}"
    "io_buffers (\<lambda>q. q) s' = io_buffers (\<lambda>q. q) ex_io + {#4#} + {#2#}"
    using io_round_buffers [OF list_burst_fifo [of 2] l d refl refl, where tx_burst = length and cur_tsc = 7] unfolding tx by auto
  have "\<not> 7 - prev_tsc ex_io > TIMER_RESOLUTION_CYCLES" by (simp add: ex_io_def TIMER_RESOLUTION_CYCLES_def)
  then show ?thesis using s' by (simp add: ex_io_def io_buffers_def)
qed

text \<open>The timers run exactly when more cycles than the resolution have passed since they ran, also when
  the counter of cycles has wrapped around in between.\<close>

theorem io_timer_period:
  fixes passed :: nat
  assumes "passed < 2 ^ 64" "cur_tsc = prev_tsc s + of_nat passed"
  shows "io_timer cur_tsc s =
    (if 120000000000 < passed then (True, s\<lparr>prev_tsc := cur_tsc\<rparr>) else (False, s))"
proof -
  have "unat (cur_tsc - prev_tsc s) = passed"
    using assms by (simp add: unsigned_of_nat take_bit_nat_eq_self)
  then have "cur_tsc - prev_tsc s > TIMER_RESOLUTION_CYCLES \<longleftrightarrow> 120000000000 < passed"
    by (simp add: word_less_nat_alt TIMER_RESOLUTION_CYCLES_def)
  then show ?thesis by (simp add: io_timer_def)
qed

lemma io_timer_period_witness: "fst (io_timer 5 (ex_io\<lparr>prev_tsc := - 200000000000\<rparr>))"
  using io_timer_period [of 200000000005 5 "ex_io\<lparr>prev_tsc := - 200000000000\<rparr>"] by simp

end
