(* ===== verification/Rcu.thy ===== *)
theory Rcu
  imports Prelude
begin

text \<open>
  \<^verbatim>\<open>rcu.c\<close> as it is compiled: one thread replaces the point behind \<open>gp\<close> again and again and frees the
  old one after \<open>synchronize_rcu\<close>, the readers follow \<open>gp\<close> within a read-side critical section.
  A step is one access to shared memory or one call of liburcu, and the threads are interleaved in
  any order. When \<open>synchronize_rcu\<close> returns is up to liburcu: \<open>over\<close> says of a state that it may
  return. \<open>waiting\<close> are the readers that were in a critical section when it was called and have not
  left it since. What \<open>malloc\<close> returns is an argument of the step. \<open>None\<close> is an access to memory that is
  not allocated or not initialised, a second \<open>free\<close>, or the overflow of an \<^verbatim>\<open>int\<close>.
\<close>

section \<open>The state\<close>

definition INT_MAX :: int where "INT_MAX = 2147483647"

record point =
  pt_x :: "int option"
  pt_y :: "int option"

text \<open>Where the updater is, with its variables \<open>i\<close>, \<open>p\<close> and \<open>old\<close>.\<close>

datatype updater_pc =
    UMalloc int
  | USet_x int addr
  | USet_y int addr
  | UOld int addr
  | UAssign int addr addr
  | USync int addr
  | UWait int addr
  | UFree int addr
  | UDone

text \<open>Where a reader is, with its variables \<open>p\<close>, \<open>x\<close> and \<open>y\<close>.\<close>

datatype reader_pc =
    RLoop
  | RLock
  | RDeref
  | RGet_x addr
  | RGet_y addr int
  | RUnlock int int
  | RCheck int int
  | RExit

record rcu =
  rheap :: "addr \<rightharpoonup> point"
  gp :: addr
  rdone :: bool
  reads :: u64
  upd :: updater_pc
  rdrs :: "reader_pc list"
  waiting :: "nat list"
  ended :: bool

text \<open>\<open>main\<close> starts one reader; the model has \<open>n\<close>. The first \<open>malloc\<close> returns \<open>m\<close>.\<close>

definition init_rcu :: "nat \<Rightarrow> addr \<Rightarrow> rcu" where
  "init_rcu n m = \<lparr>rheap = [m \<mapsto> \<lparr>pt_x = Some 1, pt_y = Some 2\<rparr>], gp = m, rdone = False, reads = 0, upd = UMalloc 0,
     rdrs = replicate n RLoop, waiting = [], ended = False\<rparr>"

section \<open>The threads\<close>

fun in_section :: "reader_pc \<Rightarrow> bool" where
  "in_section RDeref = True"
| "in_section (RGet_x p) = True"
| "in_section (RGet_y p x) = True"
| "in_section (RUnlock x y) = True"
| "in_section _ = False"

definition updater :: "(rcu \<Rightarrow> bool) \<Rightarrow> addr \<Rightarrow> rcu \<Rightarrow> rcu option" where
  "updater over m s =
     (case upd s of
        UMalloc i \<Rightarrow>
          if i < INT_MAX then
            Some (s\<lparr>rheap := if m = NULL then rheap s else (rheap s)(m \<mapsto> \<lparr>pt_x = None, pt_y = None\<rparr>), upd := USet_x i m\<rparr>)
          else Some (s\<lparr>upd := UDone\<rparr>)
      | USet_x i p \<Rightarrow>
          do { c \<leftarrow> rheap s p;
               Some (s\<lparr>rheap := (rheap s)(p \<mapsto> c\<lparr>pt_x := Some i\<rparr>), upd := USet_y i p\<rparr>) }
      | USet_y i p \<Rightarrow>
          do { c \<leftarrow> rheap s p;
               if i + 1 \<le> INT_MAX then Some (s\<lparr>rheap := (rheap s)(p \<mapsto> c\<lparr>pt_y := Some (i + 1)\<rparr>), upd := UOld i p\<rparr>)
               else None }
      | UOld i p \<Rightarrow> Some (s\<lparr>upd := UAssign i p (gp s)\<rparr>)
      | UAssign i p old \<Rightarrow> Some (s\<lparr>gp := p, upd := USync i old\<rparr>)
      | USync i old \<Rightarrow>
          Some (s\<lparr>waiting := filter (\<lambda>r. in_section (rdrs s ! r)) [0..<length (rdrs s)], upd := UWait i old\<rparr>)
      | UWait i old \<Rightarrow> Some (if over s then s\<lparr>upd := UFree i old\<rparr> else s)
      | UFree i old \<Rightarrow>
          if old = NULL \<or> rheap s old \<noteq> None then Some (s\<lparr>rheap := (rheap s)(old := None), upd := UMalloc (i + 1)\<rparr>)
          else None
      | UDone \<Rightarrow> Some s)"

definition reader :: "nat \<Rightarrow> rcu \<Rightarrow> rcu option" where
  "reader r s =
     (case rdrs s ! r of
        RLoop \<Rightarrow> Some (s\<lparr>rdrs := (rdrs s)[r := if rdone s then RExit else RLock]\<rparr>)
      | RLock \<Rightarrow> Some (s\<lparr>rdrs := (rdrs s)[r := RDeref]\<rparr>)
      | RDeref \<Rightarrow> Some (s\<lparr>rdrs := (rdrs s)[r := RGet_x (gp s)]\<rparr>)
      | RGet_x p \<Rightarrow>
          do { c \<leftarrow> rheap s p;
               x \<leftarrow> pt_x c;
               Some (s\<lparr>rdrs := (rdrs s)[r := RGet_y p x]\<rparr>) }
      | RGet_y p x \<Rightarrow>
          do { c \<leftarrow> rheap s p;
               y \<leftarrow> pt_y c;
               Some (s\<lparr>rdrs := (rdrs s)[r := RUnlock x y]\<rparr>) }
      | RUnlock x y \<Rightarrow> Some (s\<lparr>rdrs := (rdrs s)[r := RCheck x y], waiting := removeAll r (waiting s)\<rparr>)
      | RCheck x y \<Rightarrow>
          let s = s\<lparr>reads := reads s + 1\<rparr> in
          if x + 1 > INT_MAX then None
          else if y \<noteq> x + 1 then Some (s\<lparr>rdone := True, rdrs := (rdrs s)[r := RExit]\<rparr>)
          else Some (s\<lparr>rdrs := (rdrs s)[r := RLoop]\<rparr>)
      | RExit \<Rightarrow> Some (s\<lparr>ended := True\<rparr>))"

text \<open>\<open>malloc\<close> returns memory that is not in use.\<close>

inductive rcu_reachable :: "(rcu \<Rightarrow> bool) \<Rightarrow> nat \<Rightarrow> addr \<Rightarrow> rcu \<Rightarrow> bool" for over n m0 where
  start: "rcu_reachable over n m0 (init_rcu n m0)"
| updates: "rcu_reachable over n m0 s \<Longrightarrow> m \<noteq> NULL \<Longrightarrow> rheap s m = None \<Longrightarrow> updater over m s = Some s' \<Longrightarrow> rcu_reachable over n m0 s'"
| reads: "rcu_reachable over n m0 s \<Longrightarrow> r < n \<Longrightarrow> reader r s = Some s' \<Longrightarrow> rcu_reachable over n m0 s'"

text \<open>The contract of \<open>synchronize_rcu\<close>: it does not return before the readers that it found in a critical
  section have left it.\<close>

definition grace_period :: "(rcu \<Rightarrow> bool) \<Rightarrow> bool" where
  "grace_period over \<longleftrightarrow> (\<forall>s. over s \<longrightarrow> waiting s = [])"

section \<open>The invariant\<close>

definition published :: "(addr \<rightharpoonup> point) \<Rightarrow> addr \<Rightarrow> bool" where
  "published h p \<longleftrightarrow> (\<exists>i. h p = Some \<lparr>pt_x = Some i, pt_y = Some (i + 1)\<rparr> \<and> 0 \<le> i \<and> i < INT_MAX)"

text \<open>What is allocated besides the point behind \<open>gp\<close>.\<close>

definition updater_ok :: "rcu \<Rightarrow> bool" where
  "updater_ok s \<longleftrightarrow>
     (case upd s of
        UMalloc i \<Rightarrow> 0 \<le> i \<and> dom (rheap s) = {gp s}
      | USet_x i p \<Rightarrow> 0 \<le> i \<and> i < INT_MAX \<and> p \<noteq> gp s \<and> dom (rheap s) = {gp s, p}
      | USet_y i p \<Rightarrow> 0 \<le> i \<and> i < INT_MAX \<and> p \<noteq> gp s \<and> dom (rheap s) = {gp s, p} \<and> map_option pt_x (rheap s p) = Some (Some i)
      | UOld i p \<Rightarrow> 0 \<le> i \<and> p \<noteq> gp s \<and> dom (rheap s) = {gp s, p} \<and> published (rheap s) p
      | UAssign i p old \<Rightarrow> 0 \<le> i \<and> p \<noteq> gp s \<and> old = gp s \<and> dom (rheap s) = {gp s, p} \<and> published (rheap s) p
      | USync i old \<Rightarrow> 0 \<le> i \<and> old \<noteq> gp s \<and> dom (rheap s) = {gp s, old} \<and> published (rheap s) old
      | UWait i old \<Rightarrow> 0 \<le> i \<and> old \<noteq> gp s \<and> dom (rheap s) = {gp s, old} \<and> published (rheap s) old
      | UFree i old \<Rightarrow> 0 \<le> i \<and> old \<noteq> gp s \<and> dom (rheap s) = {gp s, old}
      | UDone \<Rightarrow> dom (rheap s) = {gp s})"

text \<open>A reader holds the current point, or the old one while the updater must wait for the reader.\<close>

definition held :: "rcu \<Rightarrow> nat \<Rightarrow> addr \<Rightarrow> bool" where
  "held s r p \<longleftrightarrow> p = gp s \<or>
     (case upd s of USync i old \<Rightarrow> p = old | UWait i old \<Rightarrow> p = old \<and> r \<in> set (waiting s) | _ \<Rightarrow> False)"

definition reader_ok :: "rcu \<Rightarrow> nat \<Rightarrow> bool" where
  "reader_ok s r \<longleftrightarrow>
     (case rdrs s ! r of
        RGet_x p \<Rightarrow> held s r p
      | RGet_y p x \<Rightarrow> held s r p \<and> (\<exists>c. rheap s p = Some c \<and> pt_x c = Some x)
      | RUnlock x y \<Rightarrow> y = x + 1 \<and> x < INT_MAX
      | RCheck x y \<Rightarrow> y = x + 1 \<and> x < INT_MAX
      | RExit \<Rightarrow> False
      | _ \<Rightarrow> True)"

definition rcu_inv :: "nat \<Rightarrow> rcu \<Rightarrow> bool" where
  "rcu_inv n s \<longleftrightarrow> length (rdrs s) = n \<and> \<not> rdone s \<and> \<not> ended s \<and> published (rheap s) (gp s) \<and> updater_ok s \<and>
     (\<forall>r < n. reader_ok s r)"

lemma init_inv: "rcu_inv n (init_rcu n m)"
  by (simp add: rcu_inv_def init_rcu_def published_def updater_ok_def reader_ok_def INT_MAX_def)

lemma held_published:
  assumes "rcu_inv n s" "held s r p"
  shows "published (rheap s) p"
  using assms by (auto simp: rcu_inv_def held_def updater_ok_def split: updater_pc.splits)

lemma held_values:
  assumes "rcu_inv n s" "held s r p" "rheap s p = Some c" "pt_x c = Some x" "pt_y c = Some y"
  shows "y = x + 1" "x < INT_MAX"
  using held_published [OF assms(1,2)] assms(3-5) by (auto simp: published_def)

lemma reader_not_stuck:
  assumes "rcu_inv n s" "r < n"
  shows "reader r s \<noteq> None"
proof -
  have ok: "reader_ok s r" using assms by (simp add: rcu_inv_def)
  show ?thesis
    using ok by (cases "rdrs s ! r")
      (auto simp: reader_def reader_ok_def published_def Let_def dest!: held_published [OF assms(1)])
qed

lemma updater_not_stuck:
  assumes "rcu_inv n s"
  shows "updater over m s \<noteq> None"
  using assms
  by (cases "upd s") (auto simp: updater_def rcu_inv_def updater_ok_def dom_def)

lemma in_sectionI:
  "rdrs s ! r = RGet_x p \<Longrightarrow> in_section (rdrs s ! r)"
  "rdrs s ! r = RGet_y p x \<Longrightarrow> in_section (rdrs s ! r)"
  by simp_all

text \<open>A step of a reader keeps what it and the others hold.\<close>

lemma reader_step_kept:
  assumes "reader r s = Some s'" "rcu_inv n s" "r < n"
  shows "rheap s' = rheap s" "gp s' = gp s" "upd s' = upd s" "length (rdrs s') = n" "\<not> rdone s'" "\<not> ended s'"
    "\<And>k. k \<noteq> r \<Longrightarrow> rdrs s' ! k = rdrs s ! k" "\<And>k. k \<noteq> r \<Longrightarrow> k \<in> set (waiting s') \<longleftrightarrow> k \<in> set (waiting s)"
    "in_section (rdrs s' ! r) \<Longrightarrow> waiting s' = waiting s"
proof -
  have ok: "reader_ok s r" and inv: "length (rdrs s) = n" "\<not> rdone s" "\<not> ended s"
    using assms(2,3) by (simp_all add: rcu_inv_def)
  have "rheap s' = rheap s \<and> gp s' = gp s \<and> upd s' = upd s \<and> length (rdrs s') = n \<and> \<not> rdone s' \<and> \<not> ended s' \<and>
    (\<forall>k. k \<noteq> r \<longrightarrow> rdrs s' ! k = rdrs s ! k) \<and> (\<forall>k. k \<noteq> r \<longrightarrow> (k \<in> set (waiting s') \<longleftrightarrow> k \<in> set (waiting s))) \<and>
    (in_section (rdrs s' ! r) \<longrightarrow> waiting s' = waiting s)"
    using assms(1) ok inv assms(3)
    by (cases "rdrs s ! r") (auto simp: reader_def reader_ok_def Let_def bind_eq_Some_conv)
  then show "rheap s' = rheap s" "gp s' = gp s" "upd s' = upd s" "length (rdrs s') = n" "\<not> rdone s'" "\<not> ended s'"
    "\<And>k. k \<noteq> r \<Longrightarrow> rdrs s' ! k = rdrs s ! k" "\<And>k. k \<noteq> r \<Longrightarrow> k \<in> set (waiting s') \<longleftrightarrow> k \<in> set (waiting s)"
    "in_section (rdrs s' ! r) \<Longrightarrow> waiting s' = waiting s"
    by blast+
qed

lemma held_cong:
  assumes "gp s' = gp s" "upd s' = upd s" "k \<in> set (waiting s') \<longleftrightarrow> k \<in> set (waiting s)"
  shows "held s' k p \<longleftrightarrow> held s k p"
  using assms by (simp add: held_def split: updater_pc.splits)

lemma reader_inv:
  assumes "rcu_inv n s" "r < n" "reader r s = Some s'"
  shows "rcu_inv n s'"
proof -
  note kept = reader_step_kept [OF assms(3,1,2)]
  have ok: "reader_ok s r" and others: "\<forall>k < n. reader_ok s k" and len: "length (rdrs s) = n"
    using assms(1,2) by (simp_all add: rcu_inv_def)
  have "updater_ok s'" using assms(1) unfolding rcu_inv_def updater_ok_def kept(1-3) by (elim conjE)
  moreover have "reader_ok s' k" if "k < n" for k
  proof (cases "k = r")
    case False
    have h: "held s' k p \<longleftrightarrow> held s k p" for p by (rule held_cong) (simp_all add: kept False)
    show ?thesis using others that unfolding reader_ok_def h kept(1) kept(7) [OF False] by (elim allE impE)
  next
    case True
    have h: "in_section (rdrs s' ! r) \<Longrightarrow> held s' r p \<longleftrightarrow> held s r p" for p by (rule held_cong) (simp_all add: kept)
    have "\<not> rdone s" "held s r (gp s)" using assms(1) by (simp_all add: rcu_inv_def held_def)
    then show ?thesis unfolding True
      using assms(3) ok h len assms(2)
      by (cases "rdrs s ! r")
        (auto simp: reader_def reader_ok_def Let_def bind_eq_Some_conv split: if_splits
          intro: held_values [OF assms(1)])
  qed
  ultimately show ?thesis using assms(1) by (simp add: rcu_inv_def kept)
qed

text \<open>A step of the updater keeps what the readers hold; here the grace period is used.\<close>

lemma updater_step_kept:
  assumes "updater over m s = Some s'"
  shows "rdrs s' = rdrs s" "rdone s' = rdone s" "ended s' = ended s"
  using assms by (cases "upd s"; auto simp: updater_def bind_eq_Some_conv split: if_splits)+

lemma updater_held:
  assumes "grace_period over" "rcu_inv n s" "updater over m s = Some s'" "held s r p" "in_section (rdrs s ! r)" "r < n"
  shows "held s' r p"
  using assms
  by (cases "upd s") (auto simp: updater_def held_def rcu_inv_def updater_ok_def grace_period_def bind_eq_Some_conv split: if_splits)

text \<open>It leaves the points that a reader can hold as they are.\<close>

lemma updater_published:
  assumes "grace_period over" "rcu_inv n s" "updater over m s = Some s'" "rheap s m = None" "m \<noteq> NULL"
    "held s r p" "in_section (rdrs s ! r)" "r < n"
  shows "rheap s' p = rheap s p"
  using assms held_published [OF assms(2,6)]
  by (cases "upd s")
    (auto simp: updater_def held_def rcu_inv_def updater_ok_def published_def bind_eq_Some_conv split: if_splits)

lemma point_set_y: "c\<lparr>pt_y := v\<rparr> = \<lparr>pt_x = pt_x c, pt_y = v\<rparr>"
  by (cases c) simp

lemma updater_ok_step:
  assumes "rcu_inv n s" "updater over m s = Some s'" "rheap s m = None" "m \<noteq> NULL"
  shows "published (rheap s') (gp s') \<and> updater_ok s'"
proof -
  have ok: "updater_ok s" and pub: "published (rheap s) (gp s)" using assms(1) by (simp_all add: rcu_inv_def)
  have m: "m \<noteq> gp s" using pub assms(3) by (auto simp: published_def)
  show ?thesis
    using ok pub assms(2-4) m
    by (cases "upd s")
      (auto simp: updater_def updater_ok_def published_def bind_eq_Some_conv point_set_y domIff split: if_splits)
qed

lemma updater_inv:
  assumes "grace_period over" "rcu_inv n s" "updater over m s = Some s'" "rheap s m = None" "m \<noteq> NULL"
  shows "rcu_inv n s'"
proof -
  note kept = updater_step_kept [OF assms(3)]
  have "reader_ok s' r" if r: "r < n" for r
  proof -
    have ok: "reader_ok s r" using assms(2) r by (simp add: rcu_inv_def)
    have "held s r p \<Longrightarrow> in_section (rdrs s ! r) \<Longrightarrow> held s' r p \<and> rheap s' p = rheap s p" for p
      using updater_held [OF assms(1-3) _ _ r] updater_published [OF assms _ _ r] by blast
    then show ?thesis using ok by (cases "rdrs s ! r") (auto simp: reader_ok_def kept)
  qed
  then show ?thesis using assms(2) updater_ok_step [OF assms(2-5)] by (simp add: rcu_inv_def kept)
qed

lemma reachable_inv:
  assumes "rcu_reachable over n m0 s" "grace_period over"
  shows "rcu_inv n s"
  using assms by induction (auto intro: init_inv updater_inv reader_inv)

lemma allocated_at_most_two:
  assumes "rcu_inv n s"
  shows "finite (dom (rheap s)) \<and> card (dom (rheap s)) \<le> 2"
proof -
  have "\<exists>p. dom (rheap s) = {gp s, p}"
    using assms by (cases "upd s") (auto simp: rcu_inv_def updater_ok_def)
  then obtain p where "dom (rheap s) = {gp s, p}" ..
  then show ?thesis by (simp add: card_insert_if)
qed

section \<open>Properties\<close>

text \<open>C31: However the threads are interleaved and whatever addresses \<open>malloc\<close> reuses, no reader ever follows
  a pointer to freed or uninitialised memory, the updater frees every point once, no reader sees a pair
  with \<open>y \<noteq> x + 1\<close>, so that \<open>done\<close> stays 0 and the process does not end, and at most two points are
  allocated. It rests on the grace period alone.\<close>

theorem rcu_readers_safe:
  assumes "rcu_reachable over n m0 s" "grace_period over"
  shows "(\<forall>r < n. reader r s \<noteq> None) \<and> updater over m s \<noteq> None \<and> \<not> rdone s \<and> \<not> ended s \<and> card (dom (rheap s)) \<le> 2"
proof -
  note inv = reachable_inv [OF assms]
  then have "\<not> rdone s" "\<not> ended s" by (simp_all add: rcu_inv_def)
  then show ?thesis
    using reader_not_stuck [OF inv] updater_not_stuck [OF inv] allocated_at_most_two [OF inv] by blast
qed

text \<open>Runs with one reader, for the examples: the updater with what \<open>malloc\<close> returns, or the reader.\<close>

fun rcu_run :: "(rcu \<Rightarrow> bool) \<Rightarrow> addr option list \<Rightarrow> rcu \<Rightarrow> rcu option" where
  "rcu_run over [] s = Some s"
| "rcu_run over (Some m # ls) s =
     (if m = NULL \<or> rheap s m \<noteq> None then None else do { s \<leftarrow> updater over m s; rcu_run over ls s })"
| "rcu_run over (None # ls) s = do { s \<leftarrow> reader 0 s; rcu_run over ls s }"

lemma run_reachable:
  assumes "rcu_run over ls s = Some s'" "rcu_reachable over 1 m0 s"
  shows "rcu_reachable over 1 m0 s'"
  using assms
  by (induction over ls s rule: rcu_run.induct)
    (auto simp: bind_eq_Some_conv split: if_splits intro: rcu_reachable.updates rcu_reachable.reads)

text \<open>The reader takes the pointer, the updater publishes another point and waits.\<close>

abbreviation waiting_state :: rcu where
  "waiting_state \<equiv> \<lparr>rheap = [1 \<mapsto> \<lparr>pt_x = Some 1, pt_y = Some 2\<rparr>, 2 \<mapsto> \<lparr>pt_x = Some 0, pt_y = Some 1\<rparr>], gp = 2, rdone = False,
     reads = 0, upd = UWait 0 1, rdrs = [RGet_x 1], waiting = [0], ended = False\<rparr>"

lemma run_to_waiting: "rcu_run over ([None, None, None, Some 2] @ [Some 3, Some 3, Some 3, Some 3, Some 3]) (init_rcu 1 1) = Some waiting_state"
  by (simp add: init_rcu_def updater_def reader_def INT_MAX_def)

lemma waiting_reachable: "rcu_reachable over 1 1 waiting_state"
  by (rule run_reachable [OF run_to_waiting rcu_reachable.start])

lemma rcu_readers_safe_witness:
  "reader 0 waiting_state \<noteq> None \<and> updater (\<lambda>s. waiting s = []) 3 waiting_state \<noteq> None \<and> card (dom (rheap waiting_state)) \<le> 2"
  using rcu_readers_safe [OF waiting_reachable, of "\<lambda>s. waiting s = []" 3] by (simp add: grace_period_def)

text \<open>Had \<open>synchronize_rcu\<close> returned at once, the reader would read freed memory.\<close>

lemma no_grace_period_crashes:
  "\<exists>s. rcu_reachable (\<lambda>_. True) 1 1 s \<and> reader 0 s = None"
proof -
  have "rcu_run (\<lambda>_. True) [Some 3, Some 3] waiting_state =
    Some (waiting_state\<lparr>rheap := (rheap waiting_state)(1 := None), upd := UMalloc 1\<rparr>)" (is "_ = Some ?s")
    by (simp add: updater_def)
  from run_reachable [OF this waiting_reachable] have "rcu_reachable (\<lambda>_. True) 1 1 ?s" .
  moreover have "reader 0 ?s = None" by (simp add: reader_def)
  ultimately show ?thesis by blast
qed

section \<open>Progress\<close>

fun readers :: "nat list \<Rightarrow> rcu \<Rightarrow> rcu option" where
  "readers [] s = Some s"
| "readers (r # rs) s = do { s \<leftarrow> reader r s; readers rs s }"

lemma readers_append: "readers (rs @ rs') s = do { s \<leftarrow> readers rs s; readers rs' s }"
proof (induction rs arbitrary: s)
  case (Cons r rs)
  then show ?case by (cases "reader r s") simp_all
qed simp

text \<open>The steps until the reader has left the critical section, the next one if it is outside.\<close>

fun to_unlock :: "reader_pc \<Rightarrow> nat" where
  "to_unlock (RUnlock x y) = 1" | "to_unlock (RGet_y p x) = 2" | "to_unlock (RGet_x p) = 3" | "to_unlock RDeref = 4"
| "to_unlock RLock = 5" | "to_unlock RLoop = 6" | "to_unlock (RCheck x y) = 7" | "to_unlock RExit = 0"

lemma to_unlock_le: "to_unlock c \<le> 7"
  by (cases c) simp_all

lemma reader_closer:
  assumes "rcu_inv n s" "r < n" "reader r s = Some s'"
  shows "to_unlock (rdrs s ! r) = Suc 0 \<and> set (waiting s') = set (waiting s) - {r} \<or>
    to_unlock (rdrs s ! r) = Suc (to_unlock (rdrs s' ! r)) \<and> 0 < to_unlock (rdrs s' ! r) \<and> waiting s' = waiting s"
proof -
  have "reader_ok s r" "\<not> rdone s" "length (rdrs s) = n" using assms(1,2) by (simp_all add: rcu_inv_def)
  then show ?thesis using assms(2,3)
    by (cases "rdrs s ! r") (auto simp: reader_def reader_ok_def Let_def bind_eq_Some_conv)
qed

lemma reader_leaves:
  assumes "rcu_inv n s" "r < n"
  shows "\<exists>s'. readers (replicate (to_unlock (rdrs s ! r)) r) s = Some s' \<and> rcu_inv n s' \<and> upd s' = upd s \<and>
    set (waiting s') = set (waiting s) - {r}"
  using assms
proof (induction "to_unlock (rdrs s ! r)" arbitrary: s)
  case 0
  then have "rdrs s ! r = RExit" by (cases "rdrs s ! r") simp_all
  moreover have "reader_ok s r" using 0(2,3) by (simp add: rcu_inv_def)
  ultimately show ?case by (simp add: reader_ok_def)
next
  case (Suc k)
  obtain s1 where s1: "reader r s = Some s1" using reader_not_stuck [OF Suc.prems] by blast
  note inv = reader_inv [OF Suc.prems s1]
  have u: "upd s1 = upd s" by (rule reader_step_kept(3) [OF s1 Suc.prems])
  from reader_closer [OF Suc.prems s1] show ?case
  proof (elim disjE conjE)
    assume "to_unlock (rdrs s ! r) = Suc 0" "set (waiting s1) = set (waiting s) - {r}"
    then show ?thesis using s1 inv u by simp
  next
    assume c: "to_unlock (rdrs s ! r) = Suc (to_unlock (rdrs s1 ! r))" "waiting s1 = waiting s"
    then have "k = to_unlock (rdrs s1 ! r)" using Suc.hyps(2) by simp
    from Suc.hyps(1) [OF this inv Suc.prems(2)] show ?thesis using s1 c u by auto
  qed
qed

lemma readers_leave:
  assumes "rcu_inv n s" "set rs \<subseteq> {..<n}"
  shows "\<exists>ls s'. readers ls s = Some s' \<and> length ls \<le> 7 * length rs \<and> set ls \<subseteq> {..<n} \<and> rcu_inv n s' \<and> upd s' = upd s \<and>
    set (waiting s') = set (waiting s) - set rs"
  using assms
proof (induction rs arbitrary: s)
  case Nil
  then show ?case by (intro exI [of _ "[]"]) simp
next
  case (Cons r rs)
  let ?l = "replicate (to_unlock (rdrs s ! r)) r"
  have "r < n" using Cons.prems(2) by simp
  from reader_leaves [OF Cons.prems(1) this] obtain s1 where s1: "readers ?l s = Some s1" "rcu_inv n s1" "upd s1 = upd s"
    "set (waiting s1) = set (waiting s) - {r}" by blast
  have "set rs \<subseteq> {..<n}" using Cons.prems(2) by simp
  from Cons.IH [OF s1(2) this] obtain ls s2 where s2: "readers ls s1 = Some s2" "length ls \<le> 7 * length rs" "set ls \<subseteq> {..<n}"
    "rcu_inv n s2" "upd s2 = upd s1" "set (waiting s2) = set (waiting s1) - set rs" by blast
  have "readers (?l @ ls) s = Some s2" using s1(1) s2(1) by (simp add: readers_append)
  moreover have "length (?l @ ls) \<le> 7 * length (r # rs)" using s2(2) to_unlock_le [of "rdrs s ! r"] by simp
  moreover have "set (?l @ ls) \<subseteq> {..<n}" using s2(3) \<open>r < n\<close> by auto
  moreover have "set (waiting s2) = set (waiting s) - set (r # rs)" using s1(4) s2(6) by auto
  ultimately show ?case using s1(3) s2(4,5) by metis
qed

lemma reachable_waiting:
  assumes "rcu_reachable over n m0 s" "grace_period over"
  shows "set (waiting s) \<subseteq> {..<n}"
  using assms
proof induction
  case start
  then show ?case by (simp add: init_rcu_def)
next
  case (updates s m s')
  have "length (rdrs s) = n" using reachable_inv [OF updates.hyps(1) updates.prems] by (simp add: rcu_inv_def)
  then show ?case using updates by (cases "upd s") (auto simp: updater_def bind_eq_Some_conv split: if_splits)
next
  case (reads s r s')
  note inv = reachable_inv [OF reads.hyps(1) reads.prems]
  show ?case using reader_closer [OF inv reads.hyps(2,3)] reads by auto
qed

text \<open>C32: The updater is not blocked for ever: when \<open>synchronize_rcu\<close> returns as soon as no reader is waited
  for, then from every reachable state in which the updater waits, at most seven steps of every reader
  let it go on to free the old point.\<close>

theorem rcu_updater_progress:
  assumes "rcu_reachable over n m0 s" "grace_period over" "\<forall>s. waiting s = [] \<longrightarrow> over s" "upd s = UWait i old"
  shows "\<exists>ls s'. set ls \<subseteq> {..<n} \<and> length ls \<le> 7 * n \<and> readers ls s = Some s' \<and>
    updater over m s' = Some (s'\<lparr>upd := UFree i old\<rparr>)"
proof -
  have "set [0..<n] \<subseteq> {..<n}" by auto
  from readers_leave [OF reachable_inv [OF assms(1,2)] this] obtain ls s' where *:
    "readers ls s = Some s'" "length ls \<le> 7 * n" "set ls \<subseteq> {..<n}" "upd s' = upd s" "set (waiting s') = set (waiting s) - {..<n}"
    by (simp only: length_upt minus_nat.diff_0 set_upt lessThan_atLeast0 [symmetric]) blast
  have "set (waiting s') = {}" unfolding *(5) Diff_eq_empty_iff by (rule reachable_waiting [OF assms(1,2)])
  then have "waiting s' = []" by simp
  then have "over s'" using assms(3) by blast
  then have "updater over m s' = Some (s'\<lparr>upd := UFree i old\<rparr>)" using *(4) assms(4) by (simp add: updater_def)
  then show ?thesis using *(1-3) by blast
qed

lemma rcu_updater_progress_witness:
  "\<exists>ls s'. set ls \<subseteq> {..<1} \<and> length ls \<le> 7 * 1 \<and> readers ls waiting_state = Some s' \<and>
    updater (\<lambda>s. waiting s = []) 3 s' = Some (s'\<lparr>upd := UFree 0 1\<rparr>)"
  by (rule rcu_updater_progress [OF waiting_reachable]) (simp_all add: grace_period_def)

end
