(* ===== verification/Load_Balance.thy ===== *)
theory Load_Balance
  imports Vring "HOL-Library.Multiset"
begin

text \<open>
  The VPP plugin of \<^verbatim>\<open>flowtable_plugin\<close>: the node that distributes packets over the target interfaces
  (\<^verbatim>\<open>loadbalancer_node.c\<close>), the command that sets the targets (\<^verbatim>\<open>loadbalancer.c\<close>), and the flow table
  node with its command (\<^verbatim>\<open>flowtable_node.c\<close>, \<^verbatim>\<open>flowtable.c\<close>). The vector library and the frames are VPP's:
  a vector is a list, and a frame hands its buffers on in order. \<open>None\<close> is an access to memory that is not
  a flow, or to a vector beyond its length. The words of a command are recognised by VPP, and arrive as tokens.
\<close>

section \<open>Data\<close>

definition FT_NEXT_IP4 :: u32 where "FT_NEXT_IP4 = 0"

definition FT_NEXT_INTERFACE_OUTPUT :: u32 where "FT_NEXT_INTERFACE_OUTPUT = 4"

definition LB_NEXT_INTERFACE_OUTPUT :: u32 where "LB_NEXT_INTERFACE_OUTPUT = 1"

record flow_info =
  cached_next_node :: u32
  offloaded :: u16
  lb_dst :: u32
  lb_rev :: u32
  lb_current :: u32

record loadbalancer_runtime =
  sw_if_index_source :: u32
  sw_if_target :: "u32 list"
  last_target_index :: u32

definition init_runtime :: loadbalancer_runtime where
  "init_runtime = \<lparr>sw_if_index_source = 0, sw_if_target = [], last_target_index = 0\<rparr>"

text \<open>The first two words of \<open>opaque\<close>. They hold the pointer to the flow, and VPP keeps the receiving and the
  sending interface in them.\<close>

type_synonym opaque = "u32 \<times> u32"

definition flow_ptr :: "opaque \<Rightarrow> u64" where
  "flow_ptr w = push_bit 32 (ucast (snd w)) OR ucast (fst w)"

record vlib =
  buffers :: "u32 \<rightharpoonup> opaque"
  flows :: "u64 \<rightharpoonup> flow_info"

section \<open>The node\<close>

definition next_target :: "loadbalancer_runtime \<Rightarrow> u32" where
  "next_target rt =
     (let i = last_target_index rt + 1 in if unat i \<ge> length (sw_if_target rt) then 0 else i)"

definition load_balance_packet :: "u32 \<Rightarrow> vlib \<Rightarrow> loadbalancer_runtime \<Rightarrow> (vlib \<times> loadbalancer_runtime) option" where
  "load_balance_packet pi0 v rt =
     do { w \<leftarrow> buffers v pi0;
          fi \<leftarrow> flows v (flow_ptr w);
          let sw_if_index0 = lb_current fi;
          let fi = fi\<lparr>offloaded := 1, cached_next_node := FT_NEXT_INTERFACE_OUTPUT, lb_rev := sw_if_index_source rt\<rparr>;
          let rt = rt\<lparr>last_target_index := next_target rt\<rparr>;
          dst \<leftarrow> nth_opt (sw_if_target rt) (unat (last_target_index rt));
          let fi = fi\<lparr>lb_dst := dst\<rparr>;
          let tx = (if sw_if_index0 = sw_if_index_source rt then lb_rev fi else lb_dst fi);
          Some (v\<lparr>flows := (flows v)(flow_ptr w \<mapsto> fi), buffers := (buffers v)(pi0 \<mapsto> (sw_if_index0, tx))\<rparr>, rt) }"

text \<open>The buffers of the frame, and the buffers with their next nodes. The second result is the number
  of packets for the counter.\<close>

fun load_balance :: "u32 list \<Rightarrow> vlib \<Rightarrow> loadbalancer_runtime \<Rightarrow> ((u32 \<times> u32) list \<times> nat \<times> vlib \<times> loadbalancer_runtime) option" where
  "load_balance [] v rt = Some ([], 0, v, rt)"
| "load_balance (pi0 # from) v rt =
     do { (v, rt) \<leftarrow> load_balance_packet pi0 v rt;
          (to_next, n, v, rt) \<leftarrow> load_balance from v rt;
          Some ((pi0, LB_NEXT_INTERFACE_OUTPUT) # to_next, n + 1, v, rt) }"

definition flowtable_getinfo :: "u32 list \<Rightarrow> (u32 \<times> u32) list" where
  "flowtable_getinfo from = map (\<lambda>bi0. (bi0, FT_NEXT_IP4)) from"

definition hash4 :: "u32 \<Rightarrow> u32 \<Rightarrow> u8 \<Rightarrow> u16 \<Rightarrow> u16 \<Rightarrow> u64" where
  "hash4 src_addr dst_addr protocol port_src port_dst =
     ucast (src_addr XOR dst_addr XOR ucast protocol XOR ucast port_src XOR ucast port_dst)"

section \<open>The commands\<close>

definition no_interface :: u32 where "no_interface = - 1"

datatype cli_token = To | Disable | Interface u32 | Other string

datatype cli_result =
    Cli_ok
  | No_source
  | No_target
  | No_interface
  | Invalid_interface
  | Unsupported
  | Returned int

text \<open>\<open>redirect\<close> is \<^verbatim>\<open>vnet_hw_interface_rx_redirect_to_node\<close>, on a state of VPP's.\<close>

type_synonym 'v redirect = "u32 \<Rightarrow> u32 \<Rightarrow> 'v \<Rightarrow> int \<times> 'v"

definition flowtable_enable :: "'v redirect \<Rightarrow> u32 \<Rightarrow> u32 \<Rightarrow> bool \<Rightarrow> 'v \<Rightarrow> int \<times> 'v" where
  "flowtable_enable redirect node sw_if_index enable vnet =
     redirect sw_if_index (if enable then node else - 1) vnet"

definition enable_result :: "int \<Rightarrow> int \<Rightarrow> int \<Rightarrow> cli_result" where
  "enable_result invalid unimplemented rv =
     (if rv = 0 then Cli_ok else if rv = invalid then Invalid_interface
      else if rv = unimplemented then Unsupported else Returned rv)"

fun flowtable_tokens :: "cli_token list \<Rightarrow> u32 \<Rightarrow> bool \<Rightarrow> u32 \<times> bool" where
  "flowtable_tokens (Disable # ts) sw_if_index en = flowtable_tokens ts sw_if_index False"
| "flowtable_tokens (Interface i # ts) sw_if_index en = flowtable_tokens ts i en"
| "flowtable_tokens _ sw_if_index en = (sw_if_index, en)"

definition flowtable_command :: "'v redirect \<Rightarrow> int \<Rightarrow> int \<Rightarrow> u32 \<Rightarrow> cli_token list \<Rightarrow> 'v \<Rightarrow> cli_result \<times> 'v" where
  "flowtable_command redirect invalid unimplemented node ts vnet =
     (let (sw_if_index, en) = flowtable_tokens ts no_interface True
      in if sw_if_index = no_interface then (No_interface, vnet)
         else let (rv, vnet) = flowtable_enable redirect node sw_if_index en vnet
              in (enable_result invalid unimplemented rv, vnet))"

text \<open>The variables \<open>source\<close>, \<open>sw_if_index_source\<close>, \<open>sw_if_index\<close> and the targets, through the words of the
  command.\<close>

fun target_tokens :: "cli_token list \<Rightarrow> bool \<Rightarrow> u32 \<Rightarrow> u32 \<Rightarrow> u32 list \<Rightarrow> u32 \<times> u32 \<times> u32 list" where
  "target_tokens (To # ts) source src sw_if_index targets = target_tokens ts False src sw_if_index targets"
| "target_tokens (Interface i # ts) source src sw_if_index targets =
     (if source then target_tokens ts source i i targets
      else target_tokens ts source src i (targets @ [i]))"
| "target_tokens _ source src sw_if_index targets = (src, sw_if_index, targets)"

fun enable_targets :: "'v redirect \<Rightarrow> u32 \<Rightarrow> u32 list \<Rightarrow> int \<Rightarrow> 'v \<Rightarrow> int \<times> 'v" where
  "enable_targets redirect node [] rv vnet = (rv, vnet)"
| "enable_targets redirect node (i # is) rv vnet =
     (let (rv, vnet) = flowtable_enable redirect node i True vnet in enable_targets redirect node is rv vnet)"

definition loadbalancer_set_targets :: "u32 \<Rightarrow> u32 list \<Rightarrow> loadbalancer_runtime \<Rightarrow> loadbalancer_runtime" where
  "loadbalancer_set_targets source targets rt =
     rt\<lparr>sw_if_index_source := source, sw_if_target := sw_if_target rt @ targets\<rparr>"

definition set_lb_target_command ::
    "'v redirect \<Rightarrow> int \<Rightarrow> int \<Rightarrow> u32 \<Rightarrow> cli_token list \<Rightarrow> loadbalancer_runtime \<Rightarrow> 'v \<Rightarrow> cli_result \<times> loadbalancer_runtime \<times> 'v" where
  "set_lb_target_command redirect invalid unimplemented node ts rt vnet =
     (let (src, sw_if_index, targets) = target_tokens ts True no_interface no_interface []
      in if sw_if_index = no_interface then (No_source, rt, vnet)
         else if targets = [] then (No_target, rt, vnet)
         else let (rv, vnet) = flowtable_enable redirect node src True vnet;
                  (rv, vnet) = enable_targets redirect node targets rv vnet
              in if rv \<noteq> 0 then (enable_result invalid unimplemented rv, rt, vnet)
                 else (Cli_ok, loadbalancer_set_targets src targets rt, vnet))"

section \<open>Round robin\<close>

text \<open>The targets that the next packets get, from the last index on.\<close>

definition turn :: "loadbalancer_runtime \<Rightarrow> nat \<Rightarrow> u32" where
  "turn rt i = sw_if_target rt ! ((unat (last_target_index rt) + 1 + i) mod length (sw_if_target rt))"

definition runtime_ok :: "loadbalancer_runtime \<Rightarrow> bool" where
  "runtime_ok rt \<longleftrightarrow> unat (last_target_index rt) < length (sw_if_target rt) \<and> length (sw_if_target rt) < 2 ^ 32"

definition flow_of :: "vlib \<Rightarrow> u32 \<Rightarrow> flow_info option" where
  "flow_of v b = do { w \<leftarrow> buffers v b; flows v (flow_ptr w) }"

definition sent_to :: "loadbalancer_runtime \<Rightarrow> flow_info \<Rightarrow> nat \<Rightarrow> u32" where
  "sent_to rt fi i = (if lb_current fi = sw_if_index_source rt then sw_if_index_source rt else turn rt i)"

lemma next_target_mod:
  assumes "runtime_ok rt"
  shows "unat (next_target rt) = (unat (last_target_index rt) + 1) mod length (sw_if_target rt)"
proof -
  have less: "unat (last_target_index rt) + 1 < 2 ^ 32" using assms by (simp add: runtime_ok_def)
  then have u: "unat (last_target_index rt + 1) = unat (last_target_index rt) + 1"
    by (simp add: unat_word_ariths)
  show ?thesis
  proof (cases "unat (last_target_index rt) + 1 = length (sw_if_target rt)")
    case True
    then show ?thesis by (simp add: next_target_def Let_def u)
  next
    case False
    then have "unat (last_target_index rt) + 1 < length (sw_if_target rt)" using assms by (simp add: runtime_ok_def)
    then show ?thesis by (simp add: next_target_def Let_def u)
  qed
qed

lemma turn_next:
  assumes "runtime_ok rt"
  shows "turn (rt\<lparr>last_target_index := next_target rt\<rparr>) i = turn rt (Suc i)"
proof -
  have "((a + 1) mod l + 1 + i) mod l = (a + 1 + Suc i) mod l" for a l :: nat
    using mod_add_left_eq [of "a + 1" l "Suc i"] by simp
  moreover have "sw_if_target (rt\<lparr>last_target_index := k\<rparr>) = sw_if_target rt" "last_target_index (rt\<lparr>last_target_index := k\<rparr>) = k" for k
    by simp_all
  ultimately show ?thesis by (simp only: turn_def next_target_mod [OF assms])
qed

lemma packet_step:
  assumes "runtime_ok rt" "buffers v b = Some w" "flows v (flow_ptr w) = Some fi"
  defines "rt' \<equiv> rt\<lparr>last_target_index := next_target rt\<rparr>"
  shows "\<exists>fi'. load_balance_packet b v rt =
      Some (v\<lparr>flows := (flows v)(flow_ptr w \<mapsto> fi'), buffers := (buffers v)(b \<mapsto> (lb_current fi, sent_to rt fi 0))\<rparr>, rt') \<and>
      lb_current fi' = lb_current fi \<and> lb_dst fi' = turn rt 0"
    and "runtime_ok rt'" and "sent_to rt' f i = sent_to rt f (Suc i)"
proof -
  let ?n = "length (sw_if_target rt)"
  have n: "sw_if_target rt \<noteq> []" using assms(1) by (auto simp: runtime_ok_def)
  note nt = next_target_mod [OF assms(1)]
  have "nth_opt (sw_if_target rt) (unat (next_target rt)) = Some (turn rt 0)"
    using n by (simp add: nth_opt_def nt turn_def)
  then show "\<exists>fi'. load_balance_packet b v rt =
      Some (v\<lparr>flows := (flows v)(flow_ptr w \<mapsto> fi'), buffers := (buffers v)(b \<mapsto> (lb_current fi, sent_to rt fi 0))\<rparr>, rt') \<and>
      lb_current fi' = lb_current fi \<and> lb_dst fi' = turn rt 0"
    using assms(2,3)
    by (intro exI [of _ "fi\<lparr>offloaded := 1, cached_next_node := FT_NEXT_INTERFACE_OUTPUT, lb_rev := sw_if_index_source rt, lb_dst := turn rt 0\<rparr>"])
      (simp add: load_balance_packet_def rt'_def sent_to_def Let_def)
  show "runtime_ok rt'" using assms(1) n nt by (simp add: runtime_ok_def rt'_def)
  have "turn rt' i = turn rt (Suc i)" unfolding rt'_def by (rule turn_next [OF assms(1)])
  then show "sent_to rt' f i = sent_to rt f (Suc i)" by (simp add: sent_to_def rt'_def)
qed

text \<open>The flows are never removed, and their interface stays.\<close>

lemma packet_keeps:
  assumes "load_balance_packet b v rt = Some (v', rt')"
  shows "flows v' a = None \<longleftrightarrow> flows v a = None" "map_option lb_current (flows v' a) = map_option lb_current (flows v a)"
    "c \<noteq> b \<Longrightarrow> buffers v' c = buffers v c" "sw_if_index_source rt' = sw_if_index_source rt" "sw_if_target rt' = sw_if_target rt"
  using assms by (auto simp: load_balance_packet_def bind_eq_Some_conv Let_def split: if_splits)

lemma balance_frame:
  assumes "distinct from" "runtime_ok rt" "\<forall>i < length from. map_option lb_current (flow_of v (from ! i)) = Some (cur i)"
  shows "\<exists>v' rt'. load_balance from v rt = Some (map (\<lambda>b. (b, LB_NEXT_INTERFACE_OUTPUT)) from, length from, v', rt') \<and>
    runtime_ok rt' \<and> sw_if_target rt' = sw_if_target rt \<and> sw_if_index_source rt' = sw_if_index_source rt \<and>
    unat (last_target_index rt') = (unat (last_target_index rt) + length from) mod length (sw_if_target rt) \<and>
    (\<forall>b. b \<notin> set from \<longrightarrow> buffers v' b = buffers v b) \<and>
    (\<forall>i < length from. buffers v' (from ! i) =
       Some (cur i, if cur i = sw_if_index_source rt then sw_if_index_source rt else turn rt i))"
  using assms
proof (induction "from" arbitrary: v rt cur)
  case Nil
  then show ?case by (simp add: runtime_ok_def)
next
  case (Cons b bs)
  obtain w fi where w: "buffers v b = Some w" "flows v (flow_ptr w) = Some fi" and cur: "lb_current fi = cur 0"
    using Cons.prems(3) by (fastforce simp: flow_of_def bind_eq_Some_conv)
  let ?rt = "rt\<lparr>last_target_index := next_target rt\<rparr>"
  note step = packet_step [OF Cons.prems(2) w]
  obtain v1 where v1: "load_balance_packet b v rt = Some (v1, ?rt)" "buffers v1 b = Some (cur 0, sent_to rt fi 0)"
    using step(1) cur by auto
  note keeps = packet_keeps [OF v1(1)]
  have later: "map_option lb_current (flow_of v1 (bs ! i)) = Some (cur (Suc i))" if "i < length bs" for i
  proof -
    have "bs ! i \<noteq> b" using Cons.prems(1) that by auto
    moreover have "map_option lb_current (flow_of v (bs ! i)) = Some (cur (Suc i))" using Cons.prems(3) that by fastforce
    ultimately show ?thesis using keeps(2)
      by (cases "buffers v (bs ! i)") (simp_all add: flow_of_def keeps(3) [OF \<open>bs ! i \<noteq> b\<close>])
  qed
  have d: "distinct bs" using Cons.prems(1) by simp
  from Cons.IH [OF d step(2), of v1 "\<lambda>i. cur (Suc i)"] later obtain v' rt' where
    IH: "load_balance bs v1 ?rt = Some (map (\<lambda>b. (b, LB_NEXT_INTERFACE_OUTPUT)) bs, length bs, v', rt')"
    "runtime_ok rt'" "sw_if_target rt' = sw_if_target rt" "sw_if_index_source rt' = sw_if_index_source rt"
    "unat (last_target_index rt') = (unat (next_target rt) + length bs) mod length (sw_if_target rt)"
    "\<forall>b. b \<notin> set bs \<longrightarrow> buffers v' b = buffers v1 b"
    "\<forall>i < length bs. buffers v' (bs ! i) = Some (cur (Suc i), if cur (Suc i) = sw_if_index_source rt then sw_if_index_source rt else turn ?rt i)"
    by auto
  note turn = turn_next [OF Cons.prems(2)]
  have "buffers v' ((b # bs) ! i) = Some (cur i, if cur i = sw_if_index_source rt then sw_if_index_source rt else turn rt i)"
    if "i < length (b # bs)" for i
  proof (cases i)
    case 0
    have "buffers v' b = buffers v1 b" using IH(6) Cons.prems(1) by simp
    then show ?thesis using 0 v1(2) cur by (simp add: sent_to_def)
  next
    case (Suc k)
    then show ?thesis using IH(7) that turn by simp
  qed
  moreover have "unat (last_target_index rt') = (unat (last_target_index rt) + length (b # bs)) mod length (sw_if_target rt)"
    using IH(5) by (simp add: next_target_mod [OF Cons.prems(2)] mod_simps)
  moreover have "\<forall>c. c \<notin> set (b # bs) \<longrightarrow> buffers v' c = buffers v c" using IH(6) keeps(3) by simp
  ultimately show ?case using IH(1-4) v1(1) by simp
qed

text \<open>Whole rounds: every target gets the same share.\<close>

lemma mset_rotated: "mset (rotate k xs) = mset xs"
proof -
  have "mset (rotate k xs) = mset (take (k mod length xs) xs @ drop (k mod length xs) xs)"
    by (simp only: rotate_drop_take mset_append add.commute)
  then show ?thesis by simp
qed

lemma turn_rounds:
  assumes "sw_if_target rt \<noteq> []"
  shows "mset (map (turn rt) [0..<m * length (sw_if_target rt)]) = repeat_mset m (mset (sw_if_target rt))"
proof (induction m)
  case (Suc m)
  let ?ts = "sw_if_target rt"
  let ?n = "length ?ts"
  have turn: "turn rt (m * ?n + i) = turn rt i" for i
    by (simp add: turn_def add.assoc [symmetric] add.commute [of _ "m * ?n"]) (simp add: add.assoc)
  have "map (turn rt) [m * ?n..<Suc m * ?n] = map (\<lambda>i. turn rt (m * ?n + i)) [0..<?n]"
    by (rule nth_equalityI) simp_all
  also have "\<dots> = map (turn rt) [0..<?n]" by (simp add: turn)
  also have "\<dots> = rotate (unat (last_target_index rt) + 1) ?ts"
  proof (rule nth_equalityI)
    fix i assume "i < length (map (turn rt) [0..<?n])"
    then have "i < ?n" by simp
    then show "map (turn rt) [0..<?n] ! i = rotate (unat (last_target_index rt) + 1) ?ts ! i"
      by (simp only: nth_rotate turn_def nth_map_upt diff_zero add_0 length_upt)
  qed simp
  finally have "mset (map (turn rt) [m * ?n..<Suc m * ?n]) = mset ?ts"
    by (simp only: mset_rotated)
  moreover have "[0..<Suc m * ?n] = [0..<m * ?n] @ [m * ?n..<Suc m * ?n]"
    using upt_add_eq_append [of 0 "m * ?n" ?n] by (simp add: add.commute)
  ultimately show ?case using Suc by simp
qed simp

section \<open>The command\<close>

lemma target_tokens_interfaces:
  "target_tokens (map Interface is) False src i targets = (src, if is = [] then i else last is, targets @ is)"
  by (induction "is" arbitrary: i targets) simp_all

text \<open>The words \<open>source to targets\<close>.\<close>

lemma target_tokens_command:
  "is \<noteq> [] \<Longrightarrow> target_tokens (Interface s # To # map Interface is) True no_interface no_interface [] = (s, last is, is)"
  by (simp add: target_tokens_interfaces)

text \<open>Only the result of the last call counts.\<close>

lemma enable_targets_last:
  "enable_targets redirect node (is @ [i]) rv vnet =
     redirect i node (snd (enable_targets redirect node is rv vnet))"
  by (induction "is" arbitrary: rv vnet) (simp_all add: flowtable_enable_def split: prod.splits)

section \<open>Properties\<close>

text \<open>C33: The load balancer hands on every packet of a frame, in order, to the output of interfaces, and
  distributes them round robin: the packet at position \<open>i\<close> is sent to the target \<open>i + 1\<close> places after the
  last one, cyclically, unless it belongs to a flow of the source interface. Such a packet is sent back
  to the source interface. The distribution goes on from frame to frame.\<close>

theorem load_balance_round_robin:
  assumes "distinct from" "runtime_ok rt" "\<forall>i < length from. map_option lb_current (flow_of v (from ! i)) = Some (cur i)"
  shows "\<exists>v' rt'. load_balance from v rt = Some (map (\<lambda>b. (b, LB_NEXT_INTERFACE_OUTPUT)) from, length from, v', rt') \<and>
    runtime_ok rt' \<and> unat (last_target_index rt') = (unat (last_target_index rt) + length from) mod length (sw_if_target rt) \<and>
    (\<forall>i < length from. buffers v' (from ! i) =
       Some (cur i, if cur i = sw_if_index_source rt then sw_if_index_source rt
         else sw_if_target rt ! ((unat (last_target_index rt) + 1 + i) mod length (sw_if_target rt))))"
proof -
  obtain v' rt' where "load_balance from v rt = Some (map (\<lambda>b. (b, LB_NEXT_INTERFACE_OUTPUT)) from, length from, v', rt')"
    "runtime_ok rt'" "unat (last_target_index rt') = (unat (last_target_index rt) + length from) mod length (sw_if_target rt)"
    "\<forall>i < length from. buffers v' (from ! i) =
       Some (cur i, if cur i = sw_if_index_source rt then sw_if_index_source rt else turn rt i)"
    using balance_frame [OF assms] by blast
  then show ?thesis by (intro exI [of _ v'] exI [of _ rt']) (simp add: turn_def)
qed

text \<open>Four packets of two flows of interface 5, and one flow of the source 9.\<close>

definition sample_vlib :: vlib where
  "sample_vlib = \<lparr>buffers = [0 \<mapsto> (16, 0), 1 \<mapsto> (32, 0), 2 \<mapsto> (16, 0), 3 \<mapsto> (48, 0)],
     flows = [16 \<mapsto> \<lparr>cached_next_node = 0, offloaded = 0, lb_dst = 0, lb_rev = 0, lb_current = 5\<rparr>,
              32 \<mapsto> \<lparr>cached_next_node = 0, offloaded = 0, lb_dst = 0, lb_rev = 0, lb_current = 5\<rparr>,
              48 \<mapsto> \<lparr>cached_next_node = 0, offloaded = 0, lb_dst = 0, lb_rev = 0, lb_current = 9\<rparr>]\<rparr>"

definition sample_runtime :: loadbalancer_runtime where
  "sample_runtime = \<lparr>sw_if_index_source = 9, sw_if_target = [11, 12], last_target_index = 0\<rparr>"

lemma sample_flows:
  "flow_of sample_vlib 0 = Some \<lparr>cached_next_node = 0, offloaded = 0, lb_dst = 0, lb_rev = 0, lb_current = 5\<rparr>"
  "flow_of sample_vlib 1 = Some \<lparr>cached_next_node = 0, offloaded = 0, lb_dst = 0, lb_rev = 0, lb_current = 5\<rparr>"
  "flow_of sample_vlib 2 = Some \<lparr>cached_next_node = 0, offloaded = 0, lb_dst = 0, lb_rev = 0, lb_current = 5\<rparr>"
  "flow_of sample_vlib 3 = Some \<lparr>cached_next_node = 0, offloaded = 0, lb_dst = 0, lb_rev = 0, lb_current = 9\<rparr>"
  by code_simp+

lemma load_balance_round_robin_witness:
  "\<exists>v' rt'. load_balance [0, 1, 2, 3] sample_vlib sample_runtime =
      Some ([(0, LB_NEXT_INTERFACE_OUTPUT), (1, LB_NEXT_INTERFACE_OUTPUT), (2, LB_NEXT_INTERFACE_OUTPUT), (3, LB_NEXT_INTERFACE_OUTPUT)], 4, v', rt') \<and>
    buffers v' 0 = Some (5, 12) \<and> buffers v' 1 = Some (5, 11) \<and> buffers v' 2 = Some (5, 12) \<and> buffers v' 3 = Some (9, 9)"
proof -
  have "\<forall>i < length [0, 1, 2, 3 :: u32]. map_option lb_current (flow_of sample_vlib ([0, 1, 2, 3] ! i)) = Some ([5, 5, 5, 9] ! i)"
    by (simp add: All_less_Suc numeral_nat(2,3) sample_flows)
  moreover have "distinct [0, 1, 2, 3 :: u32]" "runtime_ok sample_runtime" by (simp_all add: runtime_ok_def sample_runtime_def)
  ultimately obtain v' rt' where run: "load_balance [0, 1, 2, 3] sample_vlib sample_runtime =
      Some (map (\<lambda>b. (b, LB_NEXT_INTERFACE_OUTPUT)) [0, 1, 2, 3], length [0, 1, 2, 3 :: u32], v', rt')"
    and b: "\<And>i. i < length [0, 1, 2, 3 :: u32] \<Longrightarrow> buffers v' ([0, 1, 2, 3] ! i) =
       Some ([5, 5, 5, 9] ! i, if [5, 5, 5, 9] ! i = sw_if_index_source sample_runtime then sw_if_index_source sample_runtime
         else sw_if_target sample_runtime ! ((unat (last_target_index sample_runtime) + 1 + i) mod length (sw_if_target sample_runtime)))"
    using load_balance_round_robin [of "[0, 1, 2, 3]" sample_runtime sample_vlib "\<lambda>i. [5, 5, 5, 9] ! i"] by blast
  show ?thesis using run b [of 0] b [of 1] b [of 2] b [of 3]
    by (intro exI [of _ v'] exI [of _ rt']) (simp add: sample_runtime_def mod_Suc del: load_balance.simps)
qed

text \<open>Over whole rounds, every target is sent the same number of the packets that do not come from the
  source: after \<open>m\<close> times as many packets as there are targets, each target in the list was used \<open>m\<close> times.\<close>

theorem load_balance_fair:
  assumes "distinct from" "runtime_ok rt" "length from = m * length (sw_if_target rt)"
    "\<forall>b \<in> set from. \<exists>c. map_option lb_current (flow_of v b) = Some c \<and> c \<noteq> sw_if_index_source rt"
  shows "\<exists>out k v' rt'. load_balance from v rt = Some (out, k, v', rt') \<and>
    mset (map (\<lambda>b. map_option snd (buffers v' b)) from) = image_mset Some (repeat_mset m (mset (sw_if_target rt)))"
proof -
  define cur where "cur = (\<lambda>i. the (map_option lb_current (flow_of v (from ! i))))"
  have c: "\<forall>i < length from. map_option lb_current (flow_of v (from ! i)) = Some (cur i) \<and> cur i \<noteq> sw_if_index_source rt"
    using assms(4) unfolding cur_def by (metis nth_mem option.sel)
  then obtain out k v' rt' where run: "load_balance from v rt = Some (out, k, v', rt')"
    and "\<forall>i < length from. buffers v' (from ! i) =
       Some (cur i, if cur i = sw_if_index_source rt then sw_if_index_source rt else turn rt i)"
    using balance_frame [OF assms(1,2), of v cur] by blast
  then have b: "\<forall>i < length from. buffers v' (from ! i) = Some (cur i, turn rt i)" using c by simp
  have "map (\<lambda>b. map_option snd (buffers v' b)) from = map Some (map (turn rt) [0..<length from])"
    using b by (intro nth_equalityI) simp_all
  then have "mset (map (\<lambda>b. map_option snd (buffers v' b)) from) = image_mset Some (mset (map (turn rt) [0..<length from]))"
    by (simp only: mset_map)
  also have "mset (map (turn rt) [0..<length from]) = repeat_mset m (mset (sw_if_target rt))"
    unfolding assms(3) using assms(2) by (intro turn_rounds) (auto simp: runtime_ok_def)
  finally show ?thesis using run by blast
qed

lemma load_balance_fair_witness:
  "\<exists>out k v' rt'. load_balance [0, 1] sample_vlib sample_runtime = Some (out, k, v', rt') \<and>
    mset (map (\<lambda>b. map_option snd (buffers v' b)) [0, 1]) = {#Some 12, Some 11#}"
proof -
  have "\<exists>out k v' rt'. load_balance [0, 1] sample_vlib sample_runtime = Some (out, k, v', rt') \<and>
      mset (map (\<lambda>b. map_option snd (buffers v' b)) [0, 1]) = image_mset Some (repeat_mset 1 (mset (sw_if_target sample_runtime)))"
    by (rule load_balance_fair) (simp_all add: runtime_ok_def sample_runtime_def sample_flows)
  then show ?thesis by (simp only: sample_runtime_def loadbalancer_runtime.simps) simp
qed

text \<open>The command \<open>source to targets\<close> reports success when the redirection of the last target succeeds,
  whatever became of the source and of the other targets, and then adds the targets behind those of
  earlier commands.\<close>

theorem lb_command_last_result:
  assumes "redirect t node (snd (enable_targets redirect node ts 0 (snd (redirect s node vnet)))) = (0, vnet')"
    "t \<noteq> no_interface"
  shows "set_lb_target_command redirect invalid unimplemented node (Interface s # To # map Interface (ts @ [t])) rt vnet =
    (Cli_ok, rt\<lparr>sw_if_index_source := s, sw_if_target := sw_if_target rt @ ts @ [t]\<rparr>, vnet')"
proof -
  obtain rv v where s: "redirect s node vnet = (rv, v)" by (cases "redirect s node vnet")
  have any: "snd (enable_targets redirect node ts rv v) = snd (enable_targets redirect node ts 0 v)" for rv v
    by (cases ts) simp_all
  show ?thesis
    using assms any [of rv v] target_tokens_command [of "ts @ [t]" s]
    by (simp add: set_lb_target_command_def flowtable_enable_def s enable_targets_last loadbalancer_set_targets_def)
qed

text \<open>The source and the first target fail, the second target works.\<close>

lemma lb_command_last_result_witness:
  "set_lb_target_command (\<lambda>i node n. (if i = 2 then 0 else - 1, n + 1)) (- 1) (- 2) 7 [Interface 9, To, Interface 1, Interface 2] init_runtime (0 :: nat) =
    (Cli_ok, \<lparr>sw_if_index_source = 9, sw_if_target = [1, 2], last_target_index = 0\<rparr>, 3)"
  using lb_command_last_result [of "\<lambda>i node n. (if i = 2 then 0 else - 1, n + 1 :: nat)" 2 7 "[1]" 9 0 3 "- 1" "- 2" init_runtime]
  by (simp add: no_interface_def init_runtime_def flowtable_enable_def)

text \<open>A command without a source is accepted, and interface \<open>~0\<close> becomes the source.\<close>

lemma lb_command_without_source:
  "set_lb_target_command (\<lambda>i node n. (0, n)) (- 1) (- 2) 7 [To, Interface 1] init_runtime (0 :: nat) =
    (Cli_ok, \<lparr>sw_if_index_source = no_interface, sw_if_target = [1], last_target_index = 0\<rparr>, 0)"
  by (simp add: set_lb_target_command_def no_interface_def init_runtime_def flowtable_enable_def loadbalancer_set_targets_def)

text \<open>Without a target a packet reads beyond the end of the vector.\<close>

lemma load_balance_no_targets:
  assumes "sw_if_target rt = []"
  shows "load_balance_packet b v rt = None"
  using assms by (simp add: load_balance_packet_def nth_opt_def bind_eq_None_conv)

text \<open>Both directions of a connection have the same hash.\<close>

lemma hash4_symmetric: "hash4 a b p s d = hash4 b a p d s"
  by (simp add: hash4_def ac_simps)

end
