(* ===== verification/Servers.thy ===== *)
theory Servers
  imports Udp_Correct
begin

text \<open>
  The two servers that \<open>main\<close> starts: \<open>udp_server_entry\<close> sends every datagram back, and
  \<open>tcp_server_entry\<close> (the one with \<open>nepoll_wait\<close>) accepts connections and sends back what it
  receives. Both are loops; one turn of each loop is modelled. A buffer that is printed or measured
  must contain a 0 byte, since reading on behind it is undefined (\<open>None\<close>).
\<close>

section \<open>The UDP server\<close>

definition UDP_APP_RECV_BUFFER_SIZE :: nat where "UDP_APP_RECV_BUFFER_SIZE = 128"

definition c_strlen :: "bytes \<Rightarrow> nat option" where
  "c_strlen bs = (if 0 \<in> set bs then Some (length (takeWhile (\<lambda>b. b \<noteq> 0) bs)) else None)"

text \<open>The address 192.168.0.119, and port 8889.\<close>

definition udp_local :: sockaddr_in where
  "udp_local = \<lparr>sin_port = htons 8889, sin_addr = 0x7700A8C0\<rparr>"

text \<open>The descriptor, or -1 when the function returns.\<close>

definition udp_server_init :: "('r, 'u) api_env \<Rightarrow> ('r, 'u) api_env \<Rightarrow> ('r, 'u) stack \<Rightarrow> (int \<times> ('r, 'u) stack) option" where
  "udp_server_init env env' st =
     (let (connfd, st) = nsocket env SOCK_DGRAM st
      in if connfd = - 1 then Some (- 1, st)
         else do { (_, st) \<leftarrow> nbind env' connfd udp_local st; Some (connfd, st) })"

text \<open>One turn: the buffer lives on from turn to turn, and so does the address of the client.\<close>

definition udp_server_turn :: "('u, offload) rte_ring \<Rightarrow> ('r, 'u) api_env \<Rightarrow> ('r, 'u) api_env \<Rightarrow> int \<Rightarrow> ('r, 'u) stack list \<Rightarrow>
    bytes \<Rightarrow> sockaddr_in \<Rightarrow> ('r, 'u) stack \<Rightarrow> (bytes \<times> sockaddr_in \<times> ('r, 'u) stack) blocking option" where
  "udp_server_turn U env env' connfd wakes buffer clientaddr st =
     do { r \<leftarrow> nrecvfrom U env connfd UDP_APP_RECV_BUFFER_SIZE wakes st;
          case r of
            Blocked \<Rightarrow> Some Blocked
          | Done (n, out, addr, st) \<Rightarrow>
              (let buffer = put 0 out buffer;
                   clientaddr = (case addr of Some a \<Rightarrow> a | None \<Rightarrow> clientaddr)
               in if n < 0 then Some (Done (buffer, clientaddr, st))
                  else do { len \<leftarrow> c_strlen buffer;
                            (_, st) \<leftarrow> nsendto U env' connfd buffer len clientaddr st;
                            Some (Done (buffer, clientaddr, st)) }) }"

section \<open>The TCP server\<close>

definition TCP_BUFFER_SIZE :: nat where "TCP_BUFFER_SIZE = 1024"

text \<open>The member \<open>fd\<close> of the union in an event is its lower half.\<close>

definition ev_fd :: "epoll_event \<Rightarrow> int" where
  "ev_fd ev = sint (ucast (ev_data ev) :: u32)"

definition in_event :: "u64 \<Rightarrow> int \<Rightarrow> epoll_event" where
  "in_event junk fd = \<lparr>ev_events = EPOLLIN, ev_data = (junk AND NOT (mask 32)) OR ucast (of_int fd :: u32)\<rparr>"

text \<open>What the calls of a turn get from outside: the states after a wait, the allocations, the new item
  of the epoll object, and the other half of an event that is not assigned.\<close>

record ('r, 'u) server_env =
  se_wakes :: "('r, 'u) stack list"
  se_api :: "('r, 'u) api_env"
  se_item :: "(addr \<times> epitem) option"
  se_junk :: u64

definition tcp_local :: sockaddr_in where
  "tcp_local = \<lparr>sin_port = htons 9999, sin_addr = 0\<rparr>"

text \<open>The descriptors of the listener and of the epoll object.\<close>

definition tcp_server_init :: "('r, 'u) server_env \<Rightarrow> eventpoll option \<Rightarrow> int list \<Rightarrow> ('r, 'u) stack \<Rightarrow>
    (int \<times> int \<times> ('r, 'u) stack) option" where
  "tcp_server_init env raw inits st =
     (let (listenfd, st) = nsocket (se_api env) SOCK_STREAM st
      in if listenfd = - 1 then Some (- 1, - 1, st)
         else do { (_, st) \<leftarrow> nbind (se_api env) listenfd tcp_local st;
                   (_, st) \<leftarrow> nlisten listenfd st;
                   (epfd, st) \<leftarrow> nepoll_create_fd 1 raw inits st;
                   (_, st) \<leftarrow> nepoll_ctl_fd epfd EPOLL_CTL_ADD listenfd (Some (in_event (se_junk env) listenfd)) (se_item env) st;
                   Some (listenfd, epfd, st) })"

definition tcp_server_event :: "('r, ng_tcp_fragment) rte_ring \<Rightarrow> ('r, 'u) server_env \<Rightarrow> int \<Rightarrow> int \<Rightarrow> epoll_event \<Rightarrow>
    bytes \<Rightarrow> ('r, 'u) stack \<Rightarrow> (bytes \<times> ('r, 'u) stack) blocking option" where
  "tcp_server_event R env epfd listenfd ev buff st =
     (if listenfd = ev_fd ev then
        do { r \<leftarrow> naccept listenfd (se_wakes env) st;
             case r of
               Blocked \<Rightarrow> Some Blocked
             | Done (connfd, _, st) \<Rightarrow>
                 do { (_, st) \<leftarrow> nepoll_ctl_fd epfd EPOLL_CTL_ADD connfd (Some (in_event (se_junk env) connfd)) (se_item env) st;
                      Some (Done (buff, st)) } }
      else
        do { let connfd = ev_fd ev;
             r \<leftarrow> nrecv R connfd TCP_BUFFER_SIZE (se_wakes env) st;
             case r of
               Blocked \<Rightarrow> Some Blocked
             | Done (n, out, st) \<Rightarrow>
                 let buff = put 0 out buff in
                 if n > 0 then
                   do { _ \<leftarrow> c_strlen buff;
                        (_, st) \<leftarrow> nsend R (se_api env) connfd buff (nat n) st;
                        Some (Done (buff, st)) }
                 else
                   do { (_, st) \<leftarrow> nepoll_ctl_fd epfd EPOLL_CTL_DEL connfd None (se_item env) st;
                        (_, st) \<leftarrow> nclose R (se_api env) connfd st;
                        Some (Done (buff, st)) } })"

fun tcp_server_events :: "('r, ng_tcp_fragment) rte_ring \<Rightarrow> int \<Rightarrow> int \<Rightarrow> (epoll_event \<times> ('r, 'u) server_env) list \<Rightarrow>
    bytes \<Rightarrow> ('r, 'u) stack \<Rightarrow> (bytes \<times> ('r, 'u) stack) blocking option" where
  "tcp_server_events R epfd listenfd [] buff st = Some (Done (buff, st))"
| "tcp_server_events R epfd listenfd ((ev, env) # evs) buff st =
     do { r \<leftarrow> tcp_server_event R env epfd listenfd ev buff st;
          case r of Blocked \<Rightarrow> Some Blocked | Done (buff, st) \<Rightarrow> tcp_server_events R epfd listenfd evs buff st }"

text \<open>One turn that finds something ready (a turn that sleeps is a later turn, from the state that it wakes up
  in). \<open>events\<close> are the 128 entries of the array.\<close>

definition tcp_server_turn :: "('r, ng_tcp_fragment) rte_ring \<Rightarrow> int \<Rightarrow> ('r, 'u) server_env list \<Rightarrow> int \<Rightarrow> int \<Rightarrow>
    epoll_event list \<Rightarrow> bytes \<Rightarrow> ('r, 'u) stack \<Rightarrow> (epoll_event list \<times> bytes \<times> ('r, 'u) stack) blocking option" where
  "tcp_server_turn R etimedout envs epfd listenfd events buff st =
     do { hi \<leftarrow> get_hostinfo_fromfd epfd st;
          case hi of
            None \<Rightarrow> Some (Done (events, buff, st))
          | Some (HostEp ep) \<Rightarrow>
              do { r \<leftarrow> nepoll_wait etimedout (Some ep) (Some events) 128 5 [];
                   case r of
                     Done (nready, Some events, Some ep) \<Rightarrow>
                       if nready < 0 then Some (Done (events, buff, on_tcp (\<lambda>t. t\<lparr>tcp_ep := EpAt ep\<rparr>) st))
                       else do { r \<leftarrow> tcp_server_events R epfd listenfd (zip (take (nat nready) events) envs) buff
                                      (on_tcp (\<lambda>t. t\<lparr>tcp_ep := EpAt ep\<rparr>) st);
                                 case r of Blocked \<Rightarrow> Some Blocked | Done (buff, st) \<Rightarrow> Some (Done (events, buff, st)) }
                   | _ \<Rightarrow> Some Blocked }
          | Some _ \<Rightarrow> None }"

section \<open>Echo\<close>

lemma ev_fd_in_event:
  assumes "- (2 ^ 31) \<le> fd" "fd < 2 ^ 31"
  shows "ev_fd (in_event junk fd) = fd"
proof -
  have "(ucast ((junk AND NOT (mask 32)) OR ucast (of_int fd :: u32)) :: u32) = of_int fd"
  proof (rule bit_word_eqI)
    fix n assume "n < LENGTH(32)"
    then show "bit (ucast ((junk AND NOT (mask 32)) OR ucast (of_int fd :: u32)) :: u32) n = bit (of_int fd :: u32) n"
      by (simp add: bit_ucast_iff bit_or_iff bit_and_iff bit_not_iff bit_mask_iff)
  qed
  then show ?thesis
    using assms by (simp add: ev_fd_def in_event_def signed_of_int signed_take_bit_int_eq_self)
qed

lemma put_0: "length out \<le> length buf \<Longrightarrow> put 0 out buf = out @ drop (length out) buf"
  by (rule nth_equalityI) (auto simp: put_def nth_append)

lemma tcp_server_echo:
  assumes sock: "tcp_sock st fd as s bs" and fifo: "ring_fifo R cap view"
    and rcv: "ts_rcvbuf s = Some rr" "view rr = f # fs" "length fs < cap"
    and f: "tf_data f = Some d" "unat (tf_length f) \<le> length d" "0 < tf_length f"
    and env: "ae_alloc (se_api env) 0" "ae_alloc (se_api env) 1" and snd: "ts_sndbuf s = Some r"
    and ev: "ev_fd ev = fd" "fd \<noteq> listenfd" and buff: "length buff = TCP_BUFFER_SIZE"
  defines "n \<equiv> (if unat (tf_length f) \<le> TCP_BUFFER_SIZE then unat (tf_length f) else unat (tf_length f) - TCP_BUFFER_SIZE)"
    and "buff' \<equiv> put 0 (take TCP_BUFFER_SIZE (frag_payload f)) buff"
  assumes zero: "0 \<in> set buff'" and n: "n \<le> TCP_BUFFER_SIZE"
  shows "\<exists>st' rr'. tcp_server_event R env epfd listenfd ev buff st = Some (Done (buff', st')) \<and>
    tcp_sock st' fd as (s\<lparr>ts_rcvbuf := Some rr', ts_sndbuf := Some (ring_push R (data_frag s (take n buff')) r)\<rparr>) bs \<and>
    (if unat (tf_length f) \<le> TCP_BUFFER_SIZE then view rr' = fs
     else \<exists>f'. frag_rest TCP_BUFFER_SIZE f f' \<and> view rr' = fs @ [f'])"
proof -
  obtain st1 rr' where r: "tcp_sock st1 fd as (s\<lparr>ts_rcvbuf := Some rr'\<rparr>) bs"
    "nrecv R fd TCP_BUFFER_SIZE (se_wakes env) st = Some (Done (int n, take TCP_BUFFER_SIZE (frag_payload f), st1))"
    "if unat (tf_length f) \<le> TCP_BUFFER_SIZE then view rr' = fs else \<exists>f'. frag_rest TCP_BUFFER_SIZE f f' \<and> view rr' = fs @ [f']"
    using nrecv_correct [OF sock fifo rcv f, of TCP_BUFFER_SIZE "se_wakes env"] f(1,2)
    by (fastforce simp: n_def frag_payload_def split: if_splits)
  have pos: "0 < n"
    using f(3) by (auto simp: n_def word_less_nat_alt)
  have l: "length buff' = TCP_BUFFER_SIZE" using buff by (simp add: buff'_def)
  let ?s = "s\<lparr>ts_rcvbuf := Some rr'\<rparr>"
  have g: "data_frag ?s x = data_frag s x" for x by (simp add: data_frag_def)
  have "ts_sndbuf ?s = Some r" using snd by simp
  moreover have "n < 2 ^ 32" using n by (simp add: TCP_BUFFER_SIZE_def)
  ultimately obtain t' where t': "nsend R (se_api env) fd buff' n st1 = Some (int n, st1\<lparr>st_tcp := t'\<rparr>)"
    "tcb_at t' as (?s\<lparr>ts_sndbuf := Some (ring_push R (data_frag s (take n buff')) r)\<rparr>) bs"
    using nsend_correct [OF r(1) env, of n buff' r R] n l g by auto
  have "tcp_sock (st1\<lparr>st_tcp := t'\<rparr>) fd as (?s\<lparr>ts_sndbuf := Some (ring_push R (data_frag s (take n buff')) r)\<rparr>) bs"
    by (rule tcp_sock_update [OF r(1) t'(2)]) (simp add: same_conn_def)
  moreover have "tcp_server_event R env epfd listenfd ev buff st = Some (Done (buff', st1\<lparr>st_tcp := t'\<rparr>))"
    using ev r(2) pos zero t'(1) by (simp add: tcp_server_event_def c_strlen_def Let_def flip: buff'_def)
  ultimately show ?thesis using r(3) by (intro exI [of _ "st1\<lparr>st_tcp := t'\<rparr>"] exI [of _ rr']) simp
qed

lemma nsend_overrun:
  assumes "tcp_sock st fd as s bs" "ae_alloc env 0" "ae_alloc env 1" "length buf < len"
  shows "nsend R env fd buf len st = None"
  using assms tcp_sock_lookup [OF assms(1)] by (simp add: nsend_def rd_def)

lemma tcp_server_overrun:
  assumes sock: "tcp_sock st fd as s bs" and fifo: "ring_fifo R cap view"
    and rcv: "ts_rcvbuf s = Some rr" "view rr = f # fs" "length fs < cap"
    and f: "tf_data f = Some d" "unat (tf_length f) \<le> length d"
    and env: "ae_alloc (se_api env) 0" "ae_alloc (se_api env) 1"
    and ev: "ev_fd ev = fd" "fd \<noteq> listenfd" and buff: "length buff = TCP_BUFFER_SIZE"
    and long: "2 * TCP_BUFFER_SIZE < unat (tf_length f)"
  shows "tcp_server_event R env epfd listenfd ev buff st = None"
proof -
  have pos: "0 < tf_length f" using long by (simp add: word_less_nat_alt TCP_BUFFER_SIZE_def)
  obtain st1 rr' where r: "tcp_sock st1 fd as (s\<lparr>ts_rcvbuf := Some rr'\<rparr>) bs"
    "nrecv R fd TCP_BUFFER_SIZE (se_wakes env) st =
       Some (Done (int (unat (tf_length f) - TCP_BUFFER_SIZE), take TCP_BUFFER_SIZE (frag_payload f), st1))"
    using nrecv_correct [OF sock fifo rcv f pos, of TCP_BUFFER_SIZE "se_wakes env"] long
    by (fastforce split: if_splits)
  define n where "n = unat (tf_length f) - TCP_BUFFER_SIZE"
  have n: "TCP_BUFFER_SIZE < n" using long by (simp add: n_def)
  have "nsend R (se_api env) fd (put 0 x buff) n st1 = None" for x
    using nsend_overrun [OF r(1) env, of "put 0 x buff" n R] buff n by simp
  then show ?thesis
    using ev r(2) [folded n_def] n by (simp add: tcp_server_event_def Let_def bind_eq_None_conv)
qed

lemma nrecvfrom_ready:
  assumes sock: "udp_sock st fd as h bs" and fifo: "ring_fifo U cap view"
    and q: "lh_rcvbuf h = Some r" "view r = g # q"
    and g: "unat (ol_length g) \<le> len" "unat (ol_length g) \<le> length (ol_data g)"
  shows "\<exists>r'. nrecvfrom U env fd len wakes st = Some (Done (int (unat (ol_length g)), take (unat (ol_length g)) (ol_data g),
      Some \<lparr>sin_port = ol_sport g, sin_addr = ol_sip g\<rparr>, lh_update (lh_ptr h) (\<lambda>h. h\<lparr>lh_rcvbuf := Some r'\<rparr>) st)) \<and> view r' = q"
proof -
  obtain r' where r': "rte_dequeue U r = Some (g, r')" "view r' = q"
    using ring_dequeue_cases [OF fifo, of r] q(2) by (metis list.discI list.inject)
  have "recvfrom_loop U (lh_ptr h) wakes st = Some (Done (g, lh_update (lh_ptr h) (\<lambda>h. h\<lparr>lh_rcvbuf := Some r'\<rparr>) st))"
    using q(1) r'(1) by (subst recvfrom_loop.simps) (simp add: udp_sock_lookup [OF sock])
  then show ?thesis
    using g r'(2) by (intro exI [of _ r']) (simp add: nrecvfrom_def udp_sock_lookup [OF sock] Let_def rd_def del: of_nat_unat)
qed

lemma takeWhile_append_zero:
  "takeWhile (\<lambda>b. b \<noteq> 0) (xs @ ys) = (if 0 \<in> set xs then takeWhile (\<lambda>b. b \<noteq> 0) xs else xs @ takeWhile (\<lambda>b. b \<noteq> 0) ys)"
  by (induction xs) auto

lemma c_strlen_take: "c_strlen bs = Some n \<Longrightarrow> take n bs = takeWhile (\<lambda>b. b \<noteq> 0) bs \<and> n \<le> length bs"
  using takeWhile_eq_take [of "\<lambda>b. b \<noteq> 0" bs] length_takeWhile_le [of "\<lambda>b. b \<noteq> 0" bs]
  by (simp add: c_strlen_def split: if_splits)

lemma udp_server_reply:
  assumes sock: "udp_sock st fd as h bs" and fifo: "ring_fifo U cap view"
    and q: "lh_rcvbuf h = Some r" "view r = g # q" and snd: "lh_sndbuf h = Some sr"
    and g: "unat (ol_length g) \<le> UDP_APP_RECV_BUFFER_SIZE" "unat (ol_length g) \<le> length (ol_data g)"
    and env: "ae_alloc env' 0" "ae_alloc env' 1" and buffer: "length buffer = UDP_APP_RECV_BUFFER_SIZE"
  defines "out \<equiv> take (unat (ol_length g)) (ol_data g)"
    and "client \<equiv> \<lparr>sin_port = ol_sport g, sin_addr = ol_sip g\<rparr>"
  defines "buffer' \<equiv> out @ drop (length out) buffer"
  shows "if 0 \<in> set buffer' then
     (\<exists>st' r'. udp_server_turn U env env' fd wakes buffer c st = Some (Done (buffer', client, st')) \<and>
       udp_sock st' fd as (h\<lparr>lh_rcvbuf := Some r',
         lh_sndbuf := Some (ring_push U (datagram h client (takeWhile (\<lambda>b. b \<noteq> 0) buffer') (ae_slack env')) sr)\<rparr>) bs \<and> view r' = q)
   else udp_server_turn U env env' fd wakes buffer c st = None"
proof -
  obtain r' where r': "nrecvfrom U env fd UDP_APP_RECV_BUFFER_SIZE wakes st = Some (Done (int (unat (ol_length g)), out,
      Some client, lh_update (lh_ptr h) (\<lambda>h. h\<lparr>lh_rcvbuf := Some r'\<rparr>) st))" "view r' = q"
    using nrecvfrom_ready [OF sock fifo q g] unfolding out_def client_def by blast
  let ?st = "lh_update (lh_ptr h) (\<lambda>h. h\<lparr>lh_rcvbuf := Some r'\<rparr>) st" and ?h = "h\<lparr>lh_rcvbuf := Some r'\<rparr>"
  have sock1: "udp_sock ?st fd as ?h bs" by (rule udp_sock_update [OF sock]) simp_all
  have b: "put 0 out buffer = buffer'" using g buffer by (simp add: put_0 out_def buffer'_def)
  show ?thesis
  proof (cases "0 \<in> set buffer'")
    case True
    then obtain n where n: "c_strlen buffer' = Some n" by (simp add: c_strlen_def)
    note t = c_strlen_take [OF n]
    have d: "datagram ?h client x y = datagram h client x y" for x y by (simp add: datagram_def)
    obtain st' where st': "nsendto U env' fd buffer' n client ?st = Some (int n, st')"
      "udp_sock st' fd as (?h\<lparr>lh_sndbuf := Some (ring_push U (datagram h client (take n buffer') (ae_slack env')) sr)\<rparr>) bs"
      using nsendto_correct [OF sock1 env, of n buffer' sr U client] t snd d by auto
    then show ?thesis using True r' n t by (auto simp: udp_server_turn_def b Let_def)
  next
    case False
    then show ?thesis using r' by (simp add: udp_server_turn_def b c_strlen_def Let_def)
  qed
qed

section \<open>Properties\<close>

text \<open>C34: For a fragment that fits the buffer of 1,024 bytes, the TCP server sends back on the same connection
  exactly the bytes that it received, and takes the fragment off the receive ring.\<close>

theorem tcp_server_echoes:
  assumes "tcp_sock st fd as s bs" "ring_fifo R cap view"
    and "ts_rcvbuf s = Some rr" "view rr = f # fs" "length fs < cap"
    and "tf_data f = Some d" "unat (tf_length f) \<le> length d" "0 < tf_length f" "unat (tf_length f) \<le> TCP_BUFFER_SIZE"
    and "ae_alloc (se_api env) 0" "ae_alloc (se_api env) 1" and "ts_sndbuf s = Some r"
    and "ev_fd ev = fd" "fd \<noteq> listenfd" and "length buff = TCP_BUFFER_SIZE" "0 \<in> set (put 0 (frag_payload f) buff)"
  shows "\<exists>st' rr'. tcp_server_event R env epfd listenfd ev buff st = Some (Done (put 0 (frag_payload f) buff, st')) \<and>
    tcp_sock st' fd as (s\<lparr>ts_rcvbuf := Some rr', ts_sndbuf := Some (ring_push R (data_frag s (frag_payload f)) r)\<rparr>) bs \<and>
    view rr' = fs"
proof -
  have pl: "length (frag_payload f) = unat (tf_length f)" using assms(6,7) by (simp add: frag_payload_def)
  then have t: "take TCP_BUFFER_SIZE (frag_payload f) = frag_payload f" using assms(9) by simp
  have n: "take (unat (tf_length f)) (put 0 (frag_payload f) buff) = frag_payload f"
    using pl assms(9,15) by (simp add: put_0)
  from tcp_server_echo [OF assms(1-8,10-15)] show ?thesis
    using assms(9,16) by (simp add: t n)
qed

definition ex_server_env :: "(ng_tcp_fragment list, offload list) server_env" where
  "ex_server_env = \<lparr>se_wakes = [], se_api = ex_api, se_item = None, se_junk = 0\<rparr>"

lemma ex_receiving_sock:
  "tcp_sock (ex_stack [ex_receiving\<lparr>ts_rcvbuf := q\<rparr>]) 5 [] (ex_receiving\<lparr>ts_rcvbuf := q\<rparr>) [ex_listener]"
  "ts_sndbuf (ex_receiving\<lparr>ts_rcvbuf := q\<rparr>) = Some []"
  by (simp_all add: tcp_sock_def ex_stack_def tcb_at_def ex_table_def ex_receiving_def ex_stream_def ex_listener_def IPPROTO_TCP_def)

definition long_frag :: "nat \<Rightarrow> ng_tcp_fragment" where
  "long_frag n = frag_example\<lparr>tf_data := Some (replicate n 7 @ [0]), tf_length := of_nat n\<rparr>"

lemma ex_ev: "ev_fd (in_event 0 5) = 5"
  by (rule ev_fd_in_event) simp_all

lemma ex_server_alloc: "ae_alloc (se_api ex_server_env) k"
  by (simp add: ex_server_env_def ex_api_def)

lemma tcp_server_echoes_witness:
  "\<exists>buff' st'. tcp_server_event (list_ring 8) ex_server_env 4 3 (in_event 0 5) (replicate 1024 0) (ex_stack [ex_receiving\<lparr>ts_rcvbuf := Some [long_frag 5]\<rparr>]) =
      Some (Done (buff', st')) \<and>
    (\<exists>s'. tcp_sock st' 5 [] s' [ex_listener] \<and> (\<exists>f. ts_sndbuf s' = Some [f] \<and> tf_data f = Some [7, 7, 7, 7, 7, 0]))"
proof -
  let ?s = "ex_receiving\<lparr>ts_rcvbuf := Some [long_frag 5]\<rparr>"
  have f: "tf_data (long_frag 5) = Some (replicate 5 7 @ [0])" "unat (tf_length (long_frag 5)) = 5" "0 < tf_length (long_frag 5)"
    by (simp_all add: long_frag_def)
  have pl: "frag_payload (long_frag 5) = replicate 5 7" by (simp add: frag_payload_def f)
  have z: "0 \<in> set (put 0 (frag_payload (long_frag 5)) (replicate 1024 0))" by (subst put_0) (simp_all add: pl)
  have rcv: "ts_rcvbuf ?s = Some [long_frag 5]" by simp
  have e: "length [] < (8 :: nat)" "unat (tf_length (long_frag 5)) \<le> length (replicate 5 (7 :: u8) @ [0])"
    "unat (tf_length (long_frag 5)) \<le> TCP_BUFFER_SIZE" "(5 :: int) \<noteq> 3" "length (replicate 1024 (0 :: u8)) = TCP_BUFFER_SIZE"
    by (simp_all add: f(2) TCP_BUFFER_SIZE_def)
  note echo = tcp_server_echoes [OF ex_receiving_sock(1) list_ring_fifo [of 8] rcv refl e(1) f(1) e(2) f(3) e(3)
    ex_server_alloc ex_server_alloc ex_receiving_sock(2) ex_ev e(4,5) z]
  from echo [of 4] obtain st' rr' where *: "tcp_server_event (list_ring 8) ex_server_env 4 3 (in_event 0 5) (replicate 1024 0) (ex_stack [?s]) =
      Some (Done (put 0 (frag_payload (long_frag 5)) (replicate 1024 0), st'))"
    "tcp_sock st' 5 [] (?s\<lparr>ts_rcvbuf := Some rr', ts_sndbuf := Some (ring_push (list_ring 8) (data_frag ?s (frag_payload (long_frag 5))) [])\<rparr>) [ex_listener]"
    by blast
  have "ring_push (list_ring 8) x [] = [x]" for x :: ng_tcp_fragment by (simp add: ring_push_def list_ring_def)
  moreover have "tf_data (data_frag ?s (frag_payload (long_frag 5))) = Some [7, 7, 7, 7, 7, 0]"
  proof -
    have "replicate 5 7 @ [0] = [7, 7, 7, 7, 7, 0 :: u8]" by (simp add: numeral_nat)
    moreover have "tf_data (data_frag ?s (frag_payload (long_frag 5))) = Some (replicate 5 7 @ [0])"
      by (simp add: data_frag_def pl)
    ultimately show ?thesis by (simp only:)
  qed
  ultimately show ?thesis using * by (intro exI conjI) (assumption, assumption, simp, assumption)
qed

text \<open>For a longer fragment \<open>nrecv\<close> returns the number of bytes that are left. The server takes it for the
  number received, so it sends back only so many of the first 1,024 bytes, and the others are never sent
  back; with more than 2,048 bytes it sends what lies behind its buffer.\<close>

theorem tcp_server_long_fragment:
  assumes "tcp_sock st fd as s bs" "ring_fifo R cap view"
    and "ts_rcvbuf s = Some rr" "view rr = f # fs" "length fs < cap"
    and "tf_data f = Some d" "unat (tf_length f) \<le> length d" "TCP_BUFFER_SIZE < unat (tf_length f)"
    and "ae_alloc (se_api env) 0" "ae_alloc (se_api env) 1" and "ts_sndbuf s = Some r"
    and "ev_fd ev = fd" "fd \<noteq> listenfd" and "length buff = TCP_BUFFER_SIZE" "0 \<in> set (take TCP_BUFFER_SIZE d)"
  shows "if 2 * TCP_BUFFER_SIZE < unat (tf_length f) then tcp_server_event R env epfd listenfd ev buff st = None
    else \<exists>st' rr' f'. tcp_server_event R env epfd listenfd ev buff st = Some (Done (take TCP_BUFFER_SIZE d, st')) \<and>
      tcp_sock st' fd as (s\<lparr>ts_rcvbuf := Some rr',
        ts_sndbuf := Some (ring_push R (data_frag s (take (unat (tf_length f) - TCP_BUFFER_SIZE) d)) r)\<rparr>) bs \<and>
      frag_rest TCP_BUFFER_SIZE f f' \<and> view rr' = fs @ [f']"
proof (cases "2 * TCP_BUFFER_SIZE < unat (tf_length f)")
  case True
  then show ?thesis using tcp_server_overrun [OF assms(1-7,9,10,12-14)] by simp
next
  case False
  have pos: "0 < tf_length f" using assms(8) by (simp add: word_less_nat_alt)
  have t: "take TCP_BUFFER_SIZE (frag_payload f) = take TCP_BUFFER_SIZE d" using assms(6,8) by (simp add: frag_payload_def min_def)
  have "length (take TCP_BUFFER_SIZE d) = length buff" using assms(7,8,14) by simp
  then have b: "put 0 (take TCP_BUFFER_SIZE d) buff = take TCP_BUFFER_SIZE d" by (simp add: put_0)
  have "unat (tf_length f) - TCP_BUFFER_SIZE \<le> TCP_BUFFER_SIZE" using False by simp
  then have n: "take (unat (tf_length f) - TCP_BUFFER_SIZE) (take TCP_BUFFER_SIZE d) = take (unat (tf_length f) - TCP_BUFFER_SIZE) d"
    by (simp only: take_take min_absorb1)
  show ?thesis
    using tcp_server_echo [OF assms(1-7) pos assms(9-14), of epfd] assms(8,15) False
    unfolding t b by (auto simp: n)
qed

lemma tcp_server_long_fragment_witness:
  "tcp_server_event (list_ring 8) ex_server_env 4 3 (in_event 0 5) (replicate 1024 0)
     (ex_stack [ex_receiving\<lparr>ts_rcvbuf := Some [(long_frag 3000)\<lparr>tf_data := Some (0 # replicate 3000 7)\<rparr>]\<rparr>]) = None"
proof -
  let ?f = "(long_frag 3000)\<lparr>tf_data := Some (0 # replicate 3000 7)\<rparr>"
  have f: "tf_data ?f = Some (0 # replicate 3000 7)" "unat (tf_length ?f) = 3000"
    by (simp_all add: long_frag_def)
  have z: "0 \<in> set (take TCP_BUFFER_SIZE (0 # replicate 3000 (7 :: u8)))" by (simp add: TCP_BUFFER_SIZE_def)
  have rcv: "ts_rcvbuf (ex_receiving\<lparr>ts_rcvbuf := Some [?f]\<rparr>) = Some [?f]" by simp
  have e: "length [] < (8 :: nat)" "unat (tf_length ?f) \<le> length (0 # replicate 3000 (7 :: u8))"
    "TCP_BUFFER_SIZE < unat (tf_length ?f)" "(5 :: int) \<noteq> 3" "length (replicate 1024 (0 :: u8)) = TCP_BUFFER_SIZE"
    unfolding f(2) by (simp_all add: TCP_BUFFER_SIZE_def)
  note long = tcp_server_long_fragment [OF ex_receiving_sock(1) list_ring_fifo [of 8] rcv refl e(1) f(1) e(2,3)
    ex_server_alloc ex_server_alloc ex_receiving_sock(2) ex_ev e(4,5) z, of 4]
  then show ?thesis unfolding f(2) by (simp add: TCP_BUFFER_SIZE_def)
qed

text \<open>C35: The UDP server answers the sender of the datagram. Its buffer is never cleared and the length is taken
  with \<open>strlen\<close>: when there is no 0 byte among the bytes received, the answer goes on with what an earlier,
  longer datagram left in the buffer, and when there is none in the buffer, it is read past its end.\<close>

theorem udp_server_answers:
  assumes "udp_sock st fd as h bs" "ring_fifo U cap view" "lh_rcvbuf h = Some r" "view r = g # q" "lh_sndbuf h = Some sr"
    and "unat (ol_length g) \<le> UDP_APP_RECV_BUFFER_SIZE" "unat (ol_length g) \<le> length (ol_data g)"
    and "ae_alloc env' 0" "ae_alloc env' 1" "length buffer = UDP_APP_RECV_BUFFER_SIZE"
  defines "out \<equiv> take (unat (ol_length g)) (ol_data g)"
    and "client \<equiv> \<lparr>sin_port = ol_sport g, sin_addr = ol_sip g\<rparr>"
  defines "rest \<equiv> drop (length out) buffer"
  defines "answer \<equiv> (if 0 \<in> set out then takeWhile (\<lambda>b. b \<noteq> 0) out else out @ takeWhile (\<lambda>b. b \<noteq> 0) rest)"
  shows "if 0 \<in> set out \<or> 0 \<in> set rest then
     (\<exists>st' r'. udp_server_turn U env env' fd wakes buffer c st = Some (Done (out @ rest, client, st')) \<and>
       udp_sock st' fd as (h\<lparr>lh_rcvbuf := Some r', lh_sndbuf := Some (ring_push U (datagram h client answer (ae_slack env')) sr)\<rparr>) bs \<and>
       view r' = q)
   else udp_server_turn U env env' fd wakes buffer c st = None"
proof -
  have a: "takeWhile (\<lambda>b. b \<noteq> 0) (out @ rest) = answer" unfolding answer_def by (rule takeWhile_append_zero)
  from udp_server_reply [OF assms(1-10), of env wakes c, folded out_def client_def, folded rest_def, unfolded a]
  show ?thesis by simp
qed

definition ex_datagram :: "bytes \<Rightarrow> offload" where
  "ex_datagram bs = \<lparr>ol_sip = 7, ol_dip = 1, ol_sport = 5, ol_dport = 4, ol_data = bs, ol_length = of_nat (length bs)\<rparr>"

text \<open>After a datagram of 20 bytes, one of 10 bytes is answered with 20 bytes.\<close>

lemma udp_server_answers_witness:
  "\<exists>st' g. udp_server_turn (list_ring 8) ex_api ex_api 3 [] (replicate 20 65 @ replicate 108 0) \<lparr>sin_port = 0, sin_addr = 0\<rparr>
      (ex_empty\<lparr>st_lhost := [(ex_udp 3 1 4)\<lparr>lh_rcvbuf := Some [ex_datagram (replicate 10 66)]\<rparr>]\<rparr>) =
      Some (Done (replicate 10 66 @ replicate 10 65 @ replicate 108 0, \<lparr>sin_port = 5, sin_addr = 7\<rparr>, st')) \<and>
    udp_sock st' 3 [] g [] \<and> (\<exists>dg. lh_sndbuf g = Some [dg] \<and> ol_dip dg = 7 \<and> ol_dport dg = 5 \<and>
      ol_data dg = replicate 10 66 @ replicate 10 65 @ replicate 8 0xAA \<and> ol_length dg = 20)"
proof -
  let ?g = "ex_datagram (replicate 10 66)" and ?b = "replicate 20 65 @ replicate 108 (0 :: u8)"
  let ?h = "(ex_udp 3 1 4)\<lparr>lh_rcvbuf := Some [?g]\<rparr>"
  have sock: "udp_sock (ex_empty\<lparr>st_lhost := [?h]\<rparr>) 3 [] ?h []" by (simp add: udp_sock_def ex_udp_def ex_empty_def)
  have q: "lh_rcvbuf ?h = Some [?g]" "lh_sndbuf ?h = Some []" by (simp_all add: ex_udp_def)
  have g: "unat (ol_length ?g) = 10" "ol_data ?g = replicate 10 66" "ol_sip ?g = 7" "ol_sport ?g = 5"
    by (simp_all add: ex_datagram_def)
  have e: "unat (ol_length ?g) \<le> UDP_APP_RECV_BUFFER_SIZE" "unat (ol_length ?g) \<le> length (ol_data ?g)"
    "length ?b = UDP_APP_RECV_BUFFER_SIZE"
    unfolding g by (simp_all add: UDP_APP_RECV_BUFFER_SIZE_def)
  have a: "ae_alloc ex_api k" for k by (simp add: ex_api_def)
  have rest: "drop 10 ?b = replicate 10 65 @ replicate 108 0" "takeWhile (\<lambda>b. b \<noteq> 0) (replicate 10 65 @ replicate 108 (0 :: u8)) = replicate 10 65"
    by (simp_all add: takeWhile_append_zero takeWhile_replicate)
  have out: "take 10 (replicate 10 (66 :: u8)) = replicate 10 66" "0 \<notin> set (replicate 10 (66 :: u8))" "length (replicate 10 (66 :: u8)) = 10"
    by simp_all
  have zero: "0 \<in> set (replicate 10 65 @ replicate 108 (0 :: u8))" by simp
  obtain st' r' where *: "udp_server_turn (list_ring 8) ex_api ex_api 3 [] ?b \<lparr>sin_port = 0, sin_addr = 0\<rparr> (ex_empty\<lparr>st_lhost := [?h]\<rparr>) =
      Some (Done (replicate 10 66 @ replicate 10 65 @ replicate 108 0, \<lparr>sin_port = 5, sin_addr = 7\<rparr>, st'))"
    "udp_sock st' 3 [] (?h\<lparr>lh_rcvbuf := Some r', lh_sndbuf := Some (ring_push (list_ring 8) (datagram ?h \<lparr>sin_port = 5, sin_addr = 7\<rparr>
        (replicate 10 66 @ replicate 10 65) (ae_slack ex_api)) [])\<rparr>) []"
    using udp_server_answers [OF sock list_ring_fifo [of 8] q(1) refl q(2) e(1,2) a a e(3), of ex_api "[]" "\<lparr>sin_port = 0, sin_addr = 0\<rparr>"]
    unfolding g out(1,3) rest(1) by (simp only: out(2) rest(2) zero if_False if_True simp_thms) blast
  have "ring_push (list_ring 8) x [] = [x]" for x :: offload by (simp add: ring_push_def list_ring_def)
  then show ?thesis using *
    by (intro exI conjI) (assumption, assumption, simp, simp_all add: datagram_def ex_api_def)
qed

end
