(* ===== verification/Kni.thy ===== *)
theory Kni
  imports Packet
begin

text \<open>
  The set-up of the Ethernet port and the callbacks of the kernel interface, in \<^verbatim>\<open>dns/dpdk_kni.c\<close>
  (\<open>port_init\<close>, \<open>kni_change_mtu\<close>, \<open>kni_config_network_if\<close>, \<open>kni_config_mac_address\<close>) and in
  \<^verbatim>\<open>tcp_concurrency.c\<close> (\<open>ng_init_port\<close>, \<open>ng_config_network_if\<close>).

  The port is a device of DPDK: its functions are arguments, on a state of its own, and what they do to
  a running port is the hypothesis \<open>port_laws\<close>. \<open>None\<close> is a call of \<open>rte_exit\<close>.
\<close>

section \<open>The port\<close>

definition RTE_ETHER_MAX_LEN :: u32 where "RTE_ETHER_MAX_LEN = 1518"

definition DEV_RX_OFFLOAD_JUMBO_FRAME :: u64 where "DEV_RX_OFFLOAD_JUMBO_FRAME = 0x800"

definition DEV_TX_OFFLOAD_MBUF_FAST_FREE :: u64 where "DEV_TX_OFFLOAD_MBUF_FAST_FREE = 0x10000"

definition RX_RING_SIZE :: u16 where "RX_RING_SIZE = 1024"

definition TX_RING_SIZE :: u16 where "TX_RING_SIZE = 1024"

definition EINVAL :: int where "EINVAL = 22"

record eth_conf =
  max_rx_pkt_len :: u32
  rx_offloads :: u64
  tx_offloads :: u64

definition port_conf_default :: eth_conf where
  "port_conf_default = \<lparr>max_rx_pkt_len = RTE_ETHER_MAX_LEN, rx_offloads = 0, tx_offloads = 0\<rparr>"

text \<open>A queue is set up with the defaults of the device and the given offloads; \<open>None\<close> is the null pointer
  for a configuration.\<close>

record 'd eth_port =
  dev_count_avail :: "'d \<Rightarrow> u16"
  is_valid_port :: "'d \<Rightarrow> bool"
  tx_offload_capa :: "'d \<Rightarrow> u64"
  dev_configure :: "eth_conf \<Rightarrow> 'd \<Rightarrow> int \<times> 'd"
  adjust_desc :: "u16 \<Rightarrow> u16 \<Rightarrow> 'd \<Rightarrow> int \<times> u16 \<times> u16"
  rx_queue_setup :: "u16 \<Rightarrow> u64 option \<Rightarrow> 'd \<Rightarrow> int \<times> 'd"
  tx_queue_setup :: "u16 \<Rightarrow> u64 \<Rightarrow> 'd \<Rightarrow> int \<times> 'd"
  dev_start :: "'d \<Rightarrow> int \<times> 'd"
  dev_stop :: "'d \<Rightarrow> 'd"
  promiscuous_enable :: "'d \<Rightarrow> 'd"
  mac_addr_set :: "bytes \<Rightarrow> 'd \<Rightarrow> int \<times> 'd"

text \<open>Stopping stops a port, starting it starts it unless it fails, and no other function starts a port.\<close>

definition port_laws :: "'d eth_port \<Rightarrow> ('d \<Rightarrow> bool) \<Rightarrow> bool" where
  "port_laws P running \<longleftrightarrow>
     (\<forall>d. \<not> running (dev_stop P d)) \<and>
     (\<forall>d. running (snd (dev_start P d)) \<longleftrightarrow> running d \<or> 0 \<le> fst (dev_start P d)) \<and>
     (\<forall>c d. running (snd (dev_configure P c d)) \<longrightarrow> running d) \<and>
     (\<forall>n c d. running (snd (rx_queue_setup P n c d)) \<longrightarrow> running d) \<and>
     (\<forall>n c d. running (snd (tx_queue_setup P n c d)) \<longrightarrow> running d) \<and>
     (\<forall>d. running (promiscuous_enable P d) \<longleftrightarrow> running d)"

section \<open>Set-up\<close>

definition port_init :: "'d eth_port \<Rightarrow> 'd \<Rightarrow> 'd option" where
  "port_init P d =
     (if dev_count_avail P d = 0 then None
      else
        let local_port_conf =
              (if tx_offload_capa P d AND DEV_TX_OFFLOAD_MBUF_FAST_FREE \<noteq> 0
               then port_conf_default\<lparr>tx_offloads := tx_offloads port_conf_default OR DEV_TX_OFFLOAD_MBUF_FAST_FREE\<rparr>
               else port_conf_default);
            (ret, d) = dev_configure P port_conf_default d
        in if ret \<noteq> 0 then None
        else let (_, _, nb_txd) = adjust_desc P RX_RING_SIZE TX_RING_SIZE d;
                 (ret, d) = rx_queue_setup P RX_RING_SIZE (Some (rx_offloads local_port_conf)) d
        in if ret < 0 then None
        else let (ret, d) = tx_queue_setup P nb_txd (tx_offloads local_port_conf) d
        in if ret < 0 then None
        else let (ret, d) = dev_start P d
        in if ret < 0 then None else Some (promiscuous_enable P d))"

text \<open>The result of the configuration is not looked at.\<close>

definition ng_init_port :: "'d eth_port \<Rightarrow> 'd \<Rightarrow> 'd option" where
  "ng_init_port P d =
     (if dev_count_avail P d = 0 then None
      else
        let port_conf = port_conf_default;
            (_, d) = dev_configure P port_conf d;
            (ret, d) = rx_queue_setup P 1024 None d
        in if ret < 0 then None
        else let (ret, d) = tx_queue_setup P 1024 (rx_offloads port_conf) d
        in if ret < 0 then None
        else let (ret, d) = dev_start P d
        in if ret < 0 then None else Some (promiscuous_enable P d))"

section \<open>Callbacks\<close>

definition mtu_conf :: "u32 \<Rightarrow> eth_conf" where
  "mtu_conf new_mtu =
     (let conf = port_conf_default;
          conf = (if new_mtu > RTE_ETHER_MAX_LEN
                  then conf\<lparr>rx_offloads := rx_offloads conf OR DEV_RX_OFFLOAD_JUMBO_FRAME\<rparr>
                  else conf\<lparr>rx_offloads := rx_offloads conf AND NOT DEV_RX_OFFLOAD_JUMBO_FRAME\<rparr>)
      in conf\<lparr>max_rx_pkt_len := new_mtu + 14 + 4\<rparr>)"

definition kni_change_mtu :: "'d eth_port \<Rightarrow> u32 \<Rightarrow> 'd \<Rightarrow> (int \<times> 'd) option" where
  "kni_change_mtu P new_mtu d =
     (if \<not> is_valid_port P d then Some (- EINVAL, d)
      else
        let d = dev_stop P d;
            conf = mtu_conf new_mtu;
            (ret, d) = dev_configure P conf d
        in if ret < 0 then Some (ret, d)
        else let (ret, nb_rxd, nb_txd) = adjust_desc P RX_RING_SIZE TX_RING_SIZE d
        in if ret < 0 then None
        else let (ret, d) = rx_queue_setup P nb_rxd (Some (rx_offloads conf)) d
        in if ret < 0 then Some (ret, d)
        else let (ret, d) = tx_queue_setup P nb_txd (tx_offloads conf) d
        in if ret < 0 then None
        else let (ret, d) = dev_start P d
        in if ret < 0 then Some (ret, d) else Some (0, promiscuous_enable P d))"

text \<open>\<open>kni_pause\<close> is a global counter.\<close>

definition kni_config_network_if :: "'d eth_port \<Rightarrow> u8 \<Rightarrow> u32 \<times> 'd \<Rightarrow> int \<times> u32 \<times> 'd" where
  "kni_config_network_if P if_up s =
     (let (kni_pause, d) = s
      in if \<not> is_valid_port P d then (- EINVAL, kni_pause, d)
         else
           let kni_pause = kni_pause + 1;
               (ret, d) = (if if_up \<noteq> 0 then dev_start P (dev_stop P d) else (0, dev_stop P d));
               kni_pause = kni_pause - 1
           in (ret, kni_pause, d))"

definition kni_config_mac_address :: "'d eth_port \<Rightarrow> bytes \<Rightarrow> 'd \<Rightarrow> int \<times> 'd" where
  "kni_config_mac_address P mac_addr d =
     (if \<not> is_valid_port P d then (- EINVAL, d) else mac_addr_set P mac_addr d)"

definition ng_config_network_if :: "'d eth_port \<Rightarrow> u8 \<Rightarrow> 'd \<Rightarrow> int \<times> 'd" where
  "ng_config_network_if P if_up d =
     (if \<not> is_valid_port P d then (- EINVAL, d)
      else let (ret, d) = (if if_up \<noteq> 0 then dev_start P (dev_stop P d) else (0, dev_stop P d)) in (0, d))"

section \<open>Properties\<close>

lemma port_law:
  assumes "port_laws P running"
  shows "\<not> running (dev_stop P d)"
    and "dev_start P d = (r, d') \<Longrightarrow> running d' \<longleftrightarrow> running d \<or> 0 \<le> r"
    and "dev_configure P c d = (r, d') \<Longrightarrow> running d' \<Longrightarrow> running d"
    and "rx_queue_setup P n oc d = (r, d') \<Longrightarrow> running d' \<Longrightarrow> running d"
    and "tx_queue_setup P n w d = (r, d') \<Longrightarrow> running d' \<Longrightarrow> running d"
    and "running (promiscuous_enable P d) \<longleftrightarrow> running d"
proof -
  show "\<not> running (dev_stop P d)" "running (promiscuous_enable P d) \<longleftrightarrow> running d"
    using assms unfolding port_laws_def by blast+
  show "dev_start P d = (r, d') \<Longrightarrow> running d' \<longleftrightarrow> running d \<or> 0 \<le> r"
    using assms by (metis port_laws_def fst_conv snd_conv)
  show "dev_configure P c d = (r, d') \<Longrightarrow> running d' \<Longrightarrow> running d"
    using assms by (metis port_laws_def snd_conv)
  show "rx_queue_setup P n oc d = (r, d') \<Longrightarrow> running d' \<Longrightarrow> running d"
    using assms by (metis port_laws_def snd_conv)
  show "tx_queue_setup P n w d = (r, d') \<Longrightarrow> running d' \<Longrightarrow> running d"
    using assms by (metis port_laws_def snd_conv)
qed

lemma start_runs:
  assumes "port_laws P running" "dev_start P d = (r, d')" "\<not> r < 0"
  shows "running (promiscuous_enable P d')"
  using port_law(2) [OF assms(1,2)] port_law(6) [OF assms(1)] assms(3) by simp

text \<open>Both programs have a running port after the set-up, or they exit.\<close>

lemma port_init_runs: "port_laws P running \<Longrightarrow> port_init P d = Some d' \<Longrightarrow> running d'"
  by (auto simp: port_init_def Let_def intro: start_runs split: if_splits prod.splits)

lemma ng_init_port_runs: "port_laws P running \<Longrightarrow> ng_init_port P d = Some d' \<Longrightarrow> running d'"
  by (auto simp: ng_init_port_def Let_def intro: start_runs split: if_splits prod.splits)

text \<open>A change of the MTU stops the port first. When one of the steps fails, the callback gives the error
  back and leaves the port stopped: the port runs afterwards exactly if the callback reports success. It
  always reports 0 or a negative number.\<close>

theorem kni_change_mtu_port:
  assumes "port_laws P running" "is_valid_port P d" "kni_change_mtu P new_mtu d = Some (ret, d')"
  shows "ret \<le> 0 \<and> (running d' \<longleftrightarrow> ret = 0)"
proof -
  note law = port_law [OF assms(1)]
  obtain r1 d1 where c: "dev_configure P (mtu_conf new_mtu) (dev_stop P d) = (r1, d1)" by fastforce
  have d1: "\<not> running d1" using law(1,3) c by blast
  obtain ra nr nt where a: "adjust_desc P RX_RING_SIZE TX_RING_SIZE d1 = (ra, nr, nt)" by (metis prod_cases3)
  obtain r2 d2 where r: "rx_queue_setup P nr (Some (rx_offloads (mtu_conf new_mtu))) d1 = (r2, d2)" by fastforce
  have d2: "\<not> running d2" using law(4) r d1 by blast
  obtain r3 d3 where t: "tx_queue_setup P nt (tx_offloads (mtu_conf new_mtu)) d2 = (r3, d3)" by fastforce
  have d3: "\<not> running d3" using law(5) t d2 by blast
  obtain r4 d4 where s: "dev_start P d3 = (r4, d4)" by fastforce
  have d4: "running d4 \<longleftrightarrow> 0 \<le> r4" using law(2) s d3 by blast
  show ?thesis
    using assms(2,3) d1 d2 d4 law(6) by (auto simp: kni_change_mtu_def Let_def c a r t s split: if_splits)
qed

text \<open>The two programs treat the port alike when the kernel brings the interface up or down, but that of
  \<^verbatim>\<open>tcp_concurrency.c\<close> reports success even if the port could not be started; the counter of
  \<^verbatim>\<open>dpdk_kni.c\<close> is left as it was.\<close>

lemma config_network_if_agree:
  "kni_config_network_if P if_up (pause, d) =
     (if is_valid_port P d \<and> if_up \<noteq> 0 then fst (dev_start P (dev_stop P d)) else fst (ng_config_network_if P if_up d),
      pause, snd (ng_config_network_if P if_up d))"
  by (auto simp: kni_config_network_if_def ng_config_network_if_def Let_def split: prod.splits)

lemma config_network_if_port:
  assumes "port_laws P running" "is_valid_port P d" "kni_config_network_if P if_up (pause, d) = (ret, pause', d')"
  shows "running d' \<longleftrightarrow> if_up \<noteq> 0 \<and> 0 \<le> ret"
  using assms(2,3) port_law(1,2) [OF assms(1)]
  by (auto simp: kni_config_network_if_def Let_def split: if_splits prod.splits)

text \<open>The flag for long frames is set for an MTU above 1,518, the longest frame, not above 1,500, the longest
  payload of such a frame.\<close>

lemma mtu_conf_jumbo:
  "rx_offloads (mtu_conf n) = (if n > 1518 then DEV_RX_OFFLOAD_JUMBO_FRAME else 0)"
  by (simp add: mtu_conf_def port_conf_default_def RTE_ETHER_MAX_LEN_def)

lemma mtu_1518_without_jumbo: "max_rx_pkt_len (mtu_conf 1518) = 1536 \<and> rx_offloads (mtu_conf 1518) = 0"
  by (simp add: mtu_conf_jumbo) (simp add: mtu_conf_def port_conf_default_def Let_def)

text \<open>A port whose queues can be set up, but that does not start.\<close>

definition ex_port :: "int \<Rightarrow> bool eth_port" where
  "ex_port r = \<lparr>dev_count_avail = (\<lambda>_. 1), is_valid_port = (\<lambda>_. True), tx_offload_capa = (\<lambda>_. 0),
     dev_configure = (\<lambda>_ d. (0, d)), adjust_desc = (\<lambda>m n d. (0, m, n)), rx_queue_setup = (\<lambda>_ _ d. (0, d)),
     tx_queue_setup = (\<lambda>_ _ d. (0, d)), dev_start = (\<lambda>d. (r, d \<or> 0 \<le> r)), dev_stop = (\<lambda>_. False),
     promiscuous_enable = (\<lambda>d. d), mac_addr_set = (\<lambda>_ d. (0, d))\<rparr>"

lemma ex_port_laws: "port_laws (ex_port r) (\<lambda>d. d)"
  by (simp add: port_laws_def ex_port_def)

lemma kni_change_mtu_port_witness:
  "kni_change_mtu (ex_port (- 5)) 9000 True = Some (- 5, False) \<and> (- 5 :: int) \<le> 0 \<and> (False \<longleftrightarrow> (- 5 :: int) = 0)"
proof -
  have run: "kni_change_mtu (ex_port (- 5)) 9000 True = Some (- 5, False)"
    by (simp add: kni_change_mtu_def ex_port_def)
  moreover have "is_valid_port (ex_port (- 5)) True" by (simp add: ex_port_def)
  ultimately show ?thesis using kni_change_mtu_port [OF ex_port_laws _ run] by blast
qed

end
