(* ===== verification/Dns_Loop.thy ===== *)
theory Dns_Loop
  imports Dns_Server Packet_Correct "HOL-Library.Multiset"
begin

text \<open>
  The main loop of \<^verbatim>\<open>dns/dpdk_kni.c\<close>, and its ARP functions, whose call is commented out. In a round, the
  packets from the kernel go to the port, and every packet from the port is answered, dropped, or makes
  the loop offer the whole burst to the kernel; at the end the burst is freed.

  A packet buffer is an address; the pool, the buffers that the driver holds for sending and those
  that the kernel took are multisets of addresses. The burst functions take the first buffers over and
  return how many; they are arguments, as are the bytes that the port delivers.
\<close>

section \<open>ARP\<close>

definition create_eth_arp_pkt :: "bytes \<Rightarrow> bytes \<Rightarrow> bytes \<Rightarrow> u32 \<Rightarrow> u32 \<Rightarrow> bytes option" where
  "create_eth_arp_pkt srcmac msg dst_mac src_ip dst_ip =
     do { m \<leftarrow> wr 0 dst_mac msg;
          m \<leftarrow> wr 6 srcmac m;
          m \<leftarrow> wr16 12 (htons RTE_ETHER_TYPE_ARP) m;
          m \<leftarrow> wr16 14 (htons 1) m;
          m \<leftarrow> wr16 16 (htons RTE_ETHER_TYPE_IPV4) m;
          m \<leftarrow> wr8 18 6 m;
          m \<leftarrow> wr8 19 4 m;
          m \<leftarrow> wr16 20 (htons 2) m;
          m \<leftarrow> wr 22 srcmac m;
          m \<leftarrow> wr 32 dst_mac m;
          m \<leftarrow> wr32 28 src_ip m;
          wr32 38 dst_ip m }"

text \<open>\<open>mbuf\<close> is the buffer of the new packet. The result is the packet that is sent.\<close>

definition do_send_arp :: "bytes \<Rightarrow> bytes option \<Rightarrow> bytes \<Rightarrow> u32 \<Rightarrow> u32 \<Rightarrow> bytes option" where
  "do_send_arp srcmac mbuf dst_mac sip dip =
     do { pkt_data \<leftarrow> mbuf;
          m \<leftarrow> create_eth_arp_pkt srcmac pkt_data dst_mac sip dip;
          Some (take 42 m) }"

text \<open>It is the ARP reply that the stack of \<^verbatim>\<open>tcp_concurrency.c\<close> sends.\<close>

lemma put_commute: "off + length bs \<le> off' \<Longrightarrow> put off bs (put off' bs' buf) = put off' bs' (put off bs buf)"
  by (rule nth_equalityI) (auto simp: nth_put)

lemma create_eth_arp_pkt_reply:
  assumes "length dst_mac = 6" "length srcmac = 6" "dst_mac \<noteq> gDefaultArpMac"
  shows "create_eth_arp_pkt srcmac msg dst_mac sip dip = ng_encode_arp_pkt srcmac msg 2 dst_mac sip dip"
proof -
  have "\<not> strncmp_eq 6 dst_mac gDefaultArpMac"
    using assms(1,3) by (simp add: default_mac_iff)
  then show ?thesis
    using put_commute [of 0 dst_mac 6 srcmac msg] assms(1,2)
    by (simp add: create_eth_arp_pkt_def ng_encode_arp_pkt_def wr_def)
qed

section \<open>A round\<close>

definition DNS_BURST_SIZE :: nat where "DNS_BURST_SIZE = 128"

text \<open>A packet of the burst: its buffer, its bytes, and the buffer that the pool has for a reply.\<close>

record dns_pkt =
  dp_addr :: addr
  dp_bytes :: bytes
  dp_mbuf :: "(addr \<times> bytes) option"

record 'k dns_io =
  di_globals :: dns_globals
  di_pool :: "addr multiset"
  di_driver :: "addr multiset"
  di_kernel :: "addr multiset"
  di_kni :: 'k

text \<open>\<open>kni_tx\<close> is \<^verbatim>\<open>rte_kni_tx_burst\<close> followed by \<^verbatim>\<open>rte_kni_handle_request\<close>; its first result says how many of
  the buffers it has taken over, from the front.\<close>

type_synonym 'k kni_tx = "addr list \<Rightarrow> 'k \<Rightarrow> nat \<times> 'k"

definition burst_free_mbufs :: "addr list \<Rightarrow> 'k dns_io \<Rightarrow> 'k dns_io" where
  "burst_free_mbufs pkts s = s\<lparr>di_pool := di_pool s + mset pkts\<rparr>"

definition tx_and_free :: "(addr list \<Rightarrow> nat) \<Rightarrow> addr list \<Rightarrow> 'k dns_io \<Rightarrow> 'k dns_io" where
  "tx_and_free tx_burst pkts s =
     burst_free_mbufs pkts (s\<lparr>di_driver := di_driver s + mset (take (tx_burst pkts) pkts)\<rparr>)"

text \<open>The first result are the packets that are sent.\<close>

definition dns_packet ::
  "(bytes \<Rightarrow> u16) \<Rightarrow> (bytes \<Rightarrow> u16) \<Rightarrow> bytes \<Rightarrow> 'k kni_tx \<Rightarrow> (addr list \<Rightarrow> nat) \<Rightarrow> addr list \<Rightarrow> dns_pkt \<Rightarrow> 'k dns_io \<Rightarrow>
     (bytes list \<times> 'k dns_io) option" where
  "dns_packet ipv4_cksum udptcp_cksum srcmac kni_tx tx_burst mbufs p s =
     do { (act, g) \<leftarrow> dns_handle ipv4_cksum udptcp_cksum srcmac (map_option snd (dp_mbuf p)) (dp_bytes p) (di_globals s);
          let s = s\<lparr>di_globals := g\<rparr>;
          case act of
            To_kni \<Rightarrow>
              let (n, k) = kni_tx mbufs (di_kni s)
              in Some ([], s\<lparr>di_kni := k, di_kernel := di_kernel s + mset (take n mbufs)\<rparr>)
          | No_action \<Rightarrow> Some ([], s)
          | Send pkt \<Rightarrow>
              do { (b, _) \<leftarrow> dp_mbuf p;
                   Some ([pkt], tx_and_free tx_burst [b] (s\<lparr>di_pool := di_pool s - {#b#}\<rparr>)) } }"

fun dns_burst ::
  "(bytes \<Rightarrow> u16) \<Rightarrow> (bytes \<Rightarrow> u16) \<Rightarrow> bytes \<Rightarrow> 'k kni_tx \<Rightarrow> (addr list \<Rightarrow> nat) \<Rightarrow> addr list \<Rightarrow> dns_pkt list \<Rightarrow> 'k dns_io \<Rightarrow>
     (bytes list \<times> 'k dns_io) option" where
  "dns_burst ipv4_cksum udptcp_cksum srcmac kni_tx tx_burst mbufs [] s = Some ([], s)"
| "dns_burst ipv4_cksum udptcp_cksum srcmac kni_tx tx_burst mbufs (p # ps) s =
     do { (sent, s) \<leftarrow> dns_packet ipv4_cksum udptcp_cksum srcmac kni_tx tx_burst mbufs p s;
          (more, s) \<leftarrow> dns_burst ipv4_cksum udptcp_cksum srcmac kni_tx tx_burst mbufs ps s;
          Some (sent @ more, s) }"

text \<open>\<open>from_kernel\<close> and \<open>ps\<close> are what \<^verbatim>\<open>rte_kni_rx_burst\<close> and \<^verbatim>\<open>rte_eth_rx_burst\<close> deliver.\<close>

definition dns_round ::
  "(bytes \<Rightarrow> u16) \<Rightarrow> (bytes \<Rightarrow> u16) \<Rightarrow> bytes \<Rightarrow> 'k kni_tx \<Rightarrow> (addr list \<Rightarrow> nat) \<Rightarrow> addr list \<Rightarrow> dns_pkt list \<Rightarrow> 'k dns_io \<Rightarrow>
     (bytes list \<times> 'k dns_io) option" where
  "dns_round ipv4_cksum udptcp_cksum srcmac kni_tx tx_burst from_kernel ps s =
     (if length from_kernel > DNS_BURST_SIZE then Some ([], s)
      else
        do { let s = tx_and_free tx_burst from_kernel s;
             if length ps > DNS_BURST_SIZE then None
             else
               do { let mbufs = map dp_addr ps;
                    (sent, s) \<leftarrow> dns_burst ipv4_cksum udptcp_cksum srcmac kni_tx tx_burst mbufs ps s;
                    Some (sent, burst_free_mbufs mbufs s) } })"

section \<open>Answers\<close>

text \<open>A packet with a query that can be answered in its buffer and in a new one, and the answer to it.\<close>

definition answerable :: "message \<Rightarrow> dns_pkt \<Rightarrow> bool" where
  "answerable q p \<longleftrightarrow> query_packet q (dp_bytes p) \<and> is_query q \<and> 42 + msg_size (reply_to q) \<le> length (dp_bytes p) \<and>
     (\<exists>b buf. dp_mbuf p = Some (b, buf) \<and> 42 + msg_size (reply_to q) \<le> length buf)"

definition answer_to :: "message \<Rightarrow> bytes \<Rightarrow> bytes \<Rightarrow> bool" where
  "answer_to q m pkt \<longleftrightarrow> length pkt = 42 + msg_size (reply_to q) \<and> rd 0 6 pkt = rd 6 6 m \<and>
     rd32 26 pkt = rd32 30 m \<and> rd32 30 pkt = rd32 26 m \<and> rd16 34 pkt = Some (htons 53) \<and> rd16 36 pkt = rd16 34 m \<and>
     rd16 38 pkt = Some (htons (of_nat (msg_size (reply_to q) + 8))) \<and>
     rd 42 (msg_size (reply_to q)) pkt = Some (msg_wire (reply_to q))"

text \<open>A UDP packet to another port.\<close>

definition other_udp :: "bytes \<Rightarrow> bool" where
  "other_udp m \<longleftrightarrow> rd16 12 m = Some (htons RTE_ETHER_TYPE_IPV4) \<and> rd8 23 m = Some IPPROTO_UDP \<and>
     (\<exists>port. rd16 36 m = Some port \<and> htons port \<noteq> UDP_PORT)"

text \<open>What the packets of a burst are: a query, or nothing for the server.\<close>

definition classified :: "message option \<Rightarrow> dns_pkt \<Rightarrow> bool" where
  "classified c p = (case c of Some q \<Rightarrow> answerable q p | None \<Rightarrow> other_udp (dp_bytes p))"

fun answers :: "message option list \<Rightarrow> dns_pkt list \<Rightarrow> bytes list \<Rightarrow> bool" where
  "answers [] [] sent \<longleftrightarrow> sent = []"
| "answers (None # cs) (p # ps) sent \<longleftrightarrow> answers cs ps sent"
| "answers (Some q # cs) (p # ps) (pkt # sent) \<longleftrightarrow> answer_to q (dp_bytes p) pkt \<and> answers cs ps sent"
| "answers _ _ _ \<longleftrightarrow> False"

lemma answerable_packet:
  assumes "answerable q p" "length srcmac = 6"
  shows "\<exists>pkt s'. dns_packet ck uck srcmac kni_tx tx_burst mbufs p s = Some ([pkt], s') \<and> answer_to q (dp_bytes p) pkt \<and>
    di_kni s' = di_kni s \<and> di_kernel s' = di_kernel s"
proof -
  obtain b buf where b: "dp_mbuf p = Some (b, buf)" "42 + msg_size (reply_to q) \<le> length buf"
    and q: "query_packet q (dp_bytes p)" "is_query q" "42 + msg_size (reply_to q) \<le> length (dp_bytes p)"
    using assms(1) by (auto simp: answerable_def)
  obtain dst src sport smac where f: "rd32 30 (dp_bytes p) = Some dst" "rd32 26 (dp_bytes p) = Some src"
    "rd16 34 (dp_bytes p) = Some sport" "rd 6 6 (dp_bytes p) = Some smac"
    using read_fields [of q "dp_bytes p"] q(1) by (auto simp: query_packet_def)
  obtain pkt g' where "dns_handle ck uck srcmac (Some buf) (dp_bytes p) (di_globals s) = Some (Send pkt, g')"
    "answer_to q (dp_bytes p) pkt"
    using dns_query_answered [OF q(1,2) f q(3) b(2) assms(2), of ck uck "di_globals s"] unfolding answer_to_def f by blast
  then show ?thesis using b(1)
    by (simp add: dns_packet_def tx_and_free_def burst_free_mbufs_def Let_def)
qed

lemma other_packet:
  assumes "other_udp (dp_bytes p)"
  shows "dns_packet ck uck srcmac kni_tx tx_burst mbufs p s = Some ([], s)"
  using assms by (auto simp: other_udp_def dns_packet_def dns_handle_def)

lemma burst_answers:
  assumes "list_all2 classified cs ps" "length srcmac = 6"
  shows "\<exists>sent s'. dns_burst ck uck srcmac kni_tx tx_burst mbufs ps s = Some (sent, s') \<and> answers cs ps sent \<and>
    di_kni s' = di_kni s \<and> di_kernel s' = di_kernel s"
  using assms(1)
proof (induction arbitrary: s rule: list_all2_induct)
  case Nil
  then show ?case by simp
next
  case (Cons c cs p ps)
  show ?case
  proof (cases c)
    case None
    then have "dns_packet ck uck srcmac kni_tx tx_burst mbufs p s = Some ([], s)"
      using Cons.hyps(1) other_packet by (simp add: classified_def)
    then show ?thesis using Cons.IH [of s] None by auto
  next
    case (Some q)
    then have "answerable q p" using Cons.hyps(1) by (simp add: classified_def)
    from answerable_packet [OF this assms(2), of ck uck kni_tx tx_burst mbufs s] obtain pkt s1 where
      "dns_packet ck uck srcmac kni_tx tx_burst mbufs p s = Some ([pkt], s1)"
      "answer_to q (dp_bytes p) pkt" "di_kni s1 = di_kni s" "di_kernel s1 = di_kernel s"
      by blast
    then show ?thesis using Cons.IH [of s1] Some by auto
  qed
qed

section \<open>The kernel\<close>

definition for_kernel :: "dns_pkt \<Rightarrow> bool" where
  "for_kernel p \<longleftrightarrow> (case rd16 12 (dp_bytes p) of
       None \<Rightarrow> False
     | Some t \<Rightarrow> t \<noteq> htons RTE_ETHER_TYPE_IPV4 \<or> (\<exists>proto. rd8 23 (dp_bytes p) = Some proto \<and> proto \<noteq> IPPROTO_UDP))"

lemma dns_reply_sends: "dns_reply ck uck srcmac mbuf m g = Some (act, g') \<Longrightarrow> \<exists>pkt. act = Send pkt"
  by (auto simp: dns_reply_def bind_eq_Some_conv Let_def split: prod.splits)

lemma dns_handle_kernel:
  assumes "dns_handle ck uck srcmac mbuf (dp_bytes p) g = Some (act, g')"
  shows "act = To_kni \<longleftrightarrow> for_kernel p"
  using assms dns_reply_sends
  by (fastforce simp: dns_handle_def for_kernel_def bind_eq_Some_conv split: if_splits)

lemma packet_kernel:
  assumes "dns_packet ck uck srcmac kni_tx tx_burst mbufs p s = Some (sent, s')"
  shows "\<exists>n. di_kernel s' = di_kernel s + (if for_kernel p then mset (take n mbufs) else {#})"
proof -
  obtain act g where a: "dns_handle ck uck srcmac (map_option snd (dp_mbuf p)) (dp_bytes p) (di_globals s) = Some (act, g)"
    using assms by (auto simp: dns_packet_def bind_eq_Some_conv)
  show ?thesis
  proof (cases act)
    case To_kni
    obtain n k where "kni_tx mbufs (di_kni s) = (n, k)" by fastforce
    then show ?thesis using assms a To_kni dns_handle_kernel [OF a] by (auto simp: dns_packet_def)
  next
    case No_action
    then show ?thesis using assms a dns_handle_kernel [OF a] by (auto simp: dns_packet_def)
  next
    case (Send pkt)
    then show ?thesis using assms a dns_handle_kernel [OF a]
      by (auto simp: dns_packet_def tx_and_free_def burst_free_mbufs_def bind_eq_Some_conv)
  qed
qed

lemma burst_kernel:
  assumes "dns_burst ck uck srcmac kni_tx tx_burst mbufs ps s = Some (sent, s')"
  shows "\<exists>ns. length ns = length (filter for_kernel ps) \<and>
    di_kernel s' = di_kernel s + (\<Sum>n \<leftarrow> ns. mset (take n mbufs))"
  using assms
proof (induction ps arbitrary: s sent)
  case Nil
  then show ?case by simp
next
  case (Cons p ps)
  obtain sent1 s1 more where s1: "dns_packet ck uck srcmac kni_tx tx_burst mbufs p s = Some (sent1, s1)"
    "dns_burst ck uck srcmac kni_tx tx_burst mbufs ps s1 = Some (more, s')"
    using Cons.prems by (auto simp: bind_eq_Some_conv)
  obtain n where n: "di_kernel s1 = di_kernel s + (if for_kernel p then mset (take n mbufs) else {#})"
    using packet_kernel [OF s1(1)] by blast
  obtain ns where ns: "length ns = length (filter for_kernel ps)"
    "di_kernel s' = di_kernel s1 + (\<Sum>n \<leftarrow> ns. mset (take n mbufs))"
    using Cons.IH [OF s1(2)] by blast
  show ?case
  proof (cases "for_kernel p")
    case True
    then show ?thesis using n ns by (intro exI [of _ "n # ns"]) (simp add: union_assoc)
  next
    case False
    then show ?thesis using n ns by (intro exI [of _ ns]) simp
  qed
qed

section \<open>Properties\<close>

text \<open>C37: A round whose packets are queries and other UDP packets sends exactly one answer to each query, in the
  order of the queries, and nothing else; the kernel is not involved. The answers do not depend on
  the other packets of the burst, although the addresses are kept in global variables.\<close>

theorem dns_round_answers:
  assumes "list_all2 classified cs ps" "length srcmac = 6" "length from_kernel \<le> DNS_BURST_SIZE" "length ps \<le> DNS_BURST_SIZE"
  shows "\<exists>sent s'. dns_round ck uck srcmac kni_tx tx_burst from_kernel ps s = Some (sent, s') \<and> answers cs ps sent \<and>
    di_kni s' = di_kni s \<and> di_kernel s' = di_kernel s"
proof -
  let ?s = "tx_and_free tx_burst from_kernel s"
  have "di_kni ?s = di_kni s" "di_kernel ?s = di_kernel s" by (simp_all add: tx_and_free_def burst_free_mbufs_def)
  then show ?thesis
    using burst_answers [OF assms(1,2), of ck uck kni_tx tx_burst "map dp_addr ps" ?s] assms(3,4)
    by (auto simp: dns_round_def burst_free_mbufs_def)
qed

text \<open>A query with two questions, and a packet to port 80.\<close>

definition ex_burst :: "dns_pkt list" where
  "ex_burst =
     [\<lparr>dp_addr = 1, dp_bytes = ex_query_packet (ex_query (replicate 2 aaaa_question)), dp_mbuf = Some (3, replicate 2048 0)\<rparr>,
      \<lparr>dp_addr = 2, dp_bytes = put 36 (le16 (htons 80)) (put 23 [IPPROTO_UDP] (put 12 (le16 (htons RTE_ETHER_TYPE_IPV4)) (replicate 60 0))),
       dp_mbuf = None\<rparr>]"

definition ex_dns_io :: "unit dns_io" where
  "ex_dns_io = \<lparr>di_globals = ex_globals, di_pool = {#3#}, di_driver = {#}, di_kernel = {#}, di_kni = ()\<rparr>"

lemma ex_burst_classified: "list_all2 classified [Some (ex_query (replicate 2 aaaa_question)), None] ex_burst"
proof -
  have n: "(2 :: nat) \<le> 100" by simp
  have "classified (Some (ex_query (replicate 2 aaaa_question))) (ex_burst ! 0)"
    using ex_query_packet_aaaa [OF n] ex_query_packet_fields(5) [OF n] aaaa_reply_size [OF ex_query_packet_aaaa(3) [OF n]]
    by (simp add: classified_def answerable_def ex_burst_def)
  moreover have "classified None (ex_burst ! 1)"
    by (simp add: classified_def other_udp_def ex_burst_def buf_simps UDP_PORT_def)
  ultimately show ?thesis by (simp add: ex_burst_def)
qed

lemma dns_round_answers_witness:
  "\<exists>pkt s'. dns_round (\<lambda>_. 0) (\<lambda>_. 0) (replicate 6 2) (\<lambda>b k. (length b, k)) length [] ex_burst ex_dns_io = Some ([pkt], s') \<and>
    length pkt = 166 \<and> di_kernel s' = {#}"
proof -
  let ?q = "ex_query (replicate 2 aaaa_question)"
  have a: "answers [Some ?q, None] ex_burst sent \<longleftrightarrow> (\<exists>pkt. sent = [pkt] \<and> answer_to ?q (dp_bytes (hd ex_burst)) pkt)" for sent
    by (cases sent) (auto simp: ex_burst_def)
  obtain sent s' where "dns_round (\<lambda>_. 0) (\<lambda>_. 0) (replicate 6 2) (\<lambda>b k. (length b, k)) length [] ex_burst ex_dns_io = Some (sent, s')"
    "answers [Some ?q, None] ex_burst sent" "di_kernel s' = di_kernel ex_dns_io"
    using dns_round_answers [OF ex_burst_classified, of "replicate 6 2" "[]" "\<lambda>_. 0" "\<lambda>_. 0" "\<lambda>b k. (length b, k)" length ex_dns_io]
    by (auto simp: DNS_BURST_SIZE_def ex_burst_def)
  then show ?thesis
    using a aaaa_reply_size [OF ex_query_packet_aaaa(3) [of 2]] by (auto simp: answer_to_def ex_dns_io_def)
qed

text \<open>Every packet that is not UDP over IPv4 makes the round offer the whole burst to the kernel again; yet
  at the end of the round every buffer of the burst is in the pool. So a buffer that the kernel has
  taken is freed under it, and the kernel gets every packet as often as such packets are in the burst.\<close>

theorem dns_round_kernel:
  assumes "dns_round ck uck srcmac kni_tx tx_burst from_kernel ps s = Some (sent, s')" "length from_kernel \<le> DNS_BURST_SIZE"
  shows "mset (map dp_addr ps) \<subseteq># di_pool s' \<and>
    (\<exists>ns. length ns = length (filter for_kernel ps) \<and>
      di_kernel s' = di_kernel s + (\<Sum>n \<leftarrow> ns. mset (take n (map dp_addr ps))))"
proof -
  let ?s = "tx_and_free tx_burst from_kernel s"
  obtain s1 where s1: "dns_burst ck uck srcmac kni_tx tx_burst (map dp_addr ps) ps ?s = Some (sent, s1)"
    "s' = burst_free_mbufs (map dp_addr ps) s1"
    using assms by (auto simp: dns_round_def Let_def bind_eq_Some_conv split: if_splits)
  have "di_kernel ?s = di_kernel s" by (simp add: tx_and_free_def burst_free_mbufs_def)
  then show ?thesis
    using burst_kernel [OF s1(1)] s1(2) by (simp add: burst_free_mbufs_def)
qed

text \<open>Two ARP packets: the kernel gets both of them twice.\<close>

definition ex_arp :: "addr \<Rightarrow> dns_pkt" where
  "ex_arp a = \<lparr>dp_addr = a, dp_bytes = put 12 (le16 (htons RTE_ETHER_TYPE_ARP)) (replicate 60 0), dp_mbuf = None\<rparr>"

lemma arp_not_ipv4: "htons RTE_ETHER_TYPE_ARP \<noteq> htons RTE_ETHER_TYPE_IPV4"
  by code_simp

lemma ex_arp_kernel: "for_kernel (ex_arp a)"
  "dns_handle ck uck srcmac mbuf (dp_bytes (ex_arp a)) g = Some (To_kni, g)"
  by (simp_all add: ex_arp_def for_kernel_def dns_handle_def buf_simps arp_not_ipv4)

lemma dns_round_kernel_witness:
  "\<exists>s'. dns_round (\<lambda>_. 0) (\<lambda>_. 0) (replicate 6 2) (\<lambda>b k. (length b, k)) length [] [ex_arp 1, ex_arp 2] ex_dns_io = Some ([], s') \<and>
    di_kernel s' = {#1, 2, 1, 2#} \<and> {#1, 2#} \<subseteq># di_pool s'"
proof -
  have ad: "dp_addr (ex_arp a) = a" for a by (simp add: ex_arp_def)
  let ?run = "dns_round (\<lambda>_. 0) (\<lambda>_. 0) (replicate 6 2) (\<lambda>b k. (length b, k)) length [] [ex_arp 1, ex_arp 2] ex_dns_io"
  obtain s' where s': "?run = Some ([], s')" "di_kernel s' = {#1, 2, 1, 2#}"
    by (simp add: dns_round_def dns_packet_def DNS_BURST_SIZE_def ex_arp_kernel ad tx_and_free_def burst_free_mbufs_def ex_dns_io_def)
  then show ?thesis
    using dns_round_kernel [OF s'(1)] by (simp add: ad)
qed

end
