(* ===== verification/Vhost_Life.thy ===== *)
theory Vhost_Life
  imports Vhost_Correct
begin

text \<open>
  The life of the two programs of \<^verbatim>\<open>vring_test\<close>: how \<^verbatim>\<open>server.c\<close>, \<^verbatim>\<open>client.c\<close>, \<^verbatim>\<open>vhost_server.c\<close>,
  \<^verbatim>\<open>vhost_client.c\<close> and \<^verbatim>\<open>shm.c\<close> get their sockets and shared memory and give them back, the loops of the
  programs, and the statistics of \<^verbatim>\<open>stat.c\<close>.

  The resources of a process are descriptors, mappings, names of shared memory and socket files.
  The results of the system calls are arguments, and so is what they deliver in a turn of a loop.
\<close>

section \<open>Resources\<close>

definition PATH_MAX :: nat where "PATH_MAX = 4096"

definition SUN_PATH_SIZE :: nat where "SUN_PATH_SIZE = 108"

definition VHOST_SOCK_NAME :: string where "VHOST_SOCK_NAME = ''vhost.sock''"

definition INSTANCE_CREATED :: int where "INSTANCE_CREATED = 1"

definition INSTANCE_INITIALIZED :: int where "INSTANCE_INITIALIZED = 2"

definition INSTANCE_END :: int where "INSTANCE_END = 3"

record os =
  os_fds :: "int set"
  os_maps :: "(addr \<times> nat) set"
  os_shm_names :: "string set"
  os_files :: "string set"

definition close_fd :: "int \<Rightarrow> os \<Rightarrow> os" where
  "close_fd fd s = s\<lparr>os_fds := os_fds s - {fd}\<rparr>"

section \<open>Sockets\<close>

text \<open>The results of \<open>socket\<close>, \<open>bind\<close>, \<open>listen\<close> and \<open>connect\<close>.\<close>

record sock_calls =
  sc_socket :: int
  sc_bind :: int
  sc_listen :: int
  sc_connect :: int

text \<open>A server or a client. Its memory comes from \<open>calloc\<close>.\<close>

record 'h peer =
  pr_path :: string
  pr_status :: int
  pr_sock :: int
  pr_fd_list :: "'h fd_list"

definition zero_fd_list :: "'h fd_list" where
  "zero_fd_list =
     \<lparr>fl_nfds = 0, fl_fdmax = 0, fl_read_fds = replicate FD_LIST_SIZE \<lparr>fn_fd = 0, fn_handler = None\<rparr>,
      fl_write_fds = replicate FD_LIST_SIZE \<lparr>fn_fd = 0, fn_handler = None\<rparr>, fl_ms = 0\<rparr>"

definition new_server :: "string option \<Rightarrow> 'h peer" where
  "new_server path =
     \<lparr>pr_path = take PATH_MAX (case path of Some p \<Rightarrow> p | None \<Rightarrow> VHOST_SOCK_NAME),
      pr_status = INSTANCE_CREATED, pr_sock = 0, pr_fd_list = zero_fd_list\<rparr>"


definition end_server :: "'h peer \<Rightarrow> os \<Rightarrow> 'h peer \<times> os" where
  "end_server server s =
     (if pr_status server \<noteq> INSTANCE_INITIALIZED then (server, s)
      else (server\<lparr>pr_status := INSTANCE_END\<rparr>, close_fd (pr_sock server) s))"

definition new_client :: "string option \<Rightarrow> 'h peer" where
  "new_client path =
     \<lparr>pr_path = take PATH_MAX (case path of Some p \<Rightarrow> p | None \<Rightarrow> VHOST_SOCK_NAME),
      pr_status = INSTANCE_CREATED, pr_sock = 0, pr_fd_list = zero_fd_list\<rparr>"

definition init_client :: "sock_calls \<Rightarrow> 'h peer \<Rightarrow> os \<Rightarrow> (int \<times> 'h peer \<times> os) option" where
  "init_client calls client s =
     (if pr_status client \<noteq> INSTANCE_CREATED then Some (0, client, s)
      else
        let sock = sc_socket calls;
            client = client\<lparr>pr_sock := sock\<rparr>
        in if sock = - 1 then Some (- 1, client, s)
        else let s = s\<lparr>os_fds := insert sock (os_fds s)\<rparr>
        in if length (pr_path client) \<ge> SUN_PATH_SIZE then None
        else if sc_connect calls = - 1 then Some (- 1, client, s)
        else Some (0, client\<lparr>pr_status := INSTANCE_INITIALIZED, pr_fd_list := init_fd_list 0\<rparr>, s))"

definition end_client :: "'h peer \<Rightarrow> os \<Rightarrow> 'h peer \<times> os" where
  "end_client client s =
     (if pr_status client \<noteq> INSTANCE_INITIALIZED then (client, s)
      else (client\<lparr>pr_status := INSTANCE_END\<rparr>, close_fd (pr_sock client) s))"

section \<open>Shared memory\<close>

text \<open>The results of \<open>shm_open\<close>, \<open>ftruncate\<close> and \<open>mmap\<close>, \<open>None\<close> for \<open>MAP_FAILED\<close>.\<close>

record shm_calls =
  hc_shm_open :: int
  hc_ftruncate :: int
  hc_mmap :: "addr option"

text \<open>\<^verbatim>\<open>"%s%d"\<close>, for an index of one digit.\<close>

definition shm_name :: "string \<Rightarrow> nat \<Rightarrow> string" where
  "shm_name path idx = path @ [char_of (48 + idx)]"

definition init_shm_from_fd :: "shm_calls \<Rightarrow> nat \<Rightarrow> os \<Rightarrow> addr \<times> os" where
  "init_shm_from_fd calls sz s =
     (case hc_mmap calls of
        None \<Rightarrow> (NULL, s)
      | Some a \<Rightarrow> (a, s\<lparr>os_maps := insert (a, sz) (os_maps s)\<rparr>))"

definition init_shm :: "shm_calls \<Rightarrow> string \<Rightarrow> nat \<Rightarrow> nat \<Rightarrow> int list \<Rightarrow> os \<Rightarrow> addr \<times> int list \<times> os" where
  "init_shm calls path sz idx shm_fds s =
     (let fd = hc_shm_open calls
      in if fd = - 1 then (NULL, shm_fds, close_fd fd s)
         else let s = s\<lparr>os_fds := insert fd (os_fds s), os_shm_names := insert (shm_name path idx) (os_shm_names s)\<rparr>
         in if hc_ftruncate calls \<noteq> 0 then (NULL, shm_fds, close_fd fd s)
         else let (result, s) = init_shm_from_fd calls sz s
         in if result = NULL then (NULL, shm_fds, close_fd fd s) else (result, shm_fds[idx := fd], s))"

text \<open>Unmapping succeeds whether there is such a mapping or not; unlinking fails when there is no such name.\<close>

definition end_shm :: "string \<Rightarrow> addr \<Rightarrow> nat \<Rightarrow> nat \<Rightarrow> int list \<Rightarrow> os \<Rightarrow> int \<times> os" where
  "end_shm path ptr sz idx shm_fds s =
     (let s = (if shm_fds ! idx > 0 then close_fd (shm_fds ! idx) s else s)
      in let s = s\<lparr>os_maps := os_maps s - {(ptr, sz)}\<rparr>
         in if shm_name path idx \<notin> os_shm_names s then (- 1, s)
         else (0, s\<lparr>os_shm_names := os_shm_names s - {shm_name path idx}\<rparr>))"

section \<open>The client\<close>

definition ONEMEG :: nat where "ONEMEG = 1024 * 1024"

definition VHOST_CLIENT_PAGE_SIZE :: nat where
  "VHOST_CLIENT_PAGE_SIZE = (vhost_vring_size + BUFFER_SIZE * VHOST_VRING_SIZE + ONEMEG - 1) div ONEMEG * ONEMEG"

text \<open>The regions from index \<open>idx\<close> on, with the calls for each; \<open>None\<close> when one cannot be created.\<close>

fun new_regions :: "shm_calls list \<Rightarrow> nat \<Rightarrow> nat \<Rightarrow> int list \<Rightarrow> os \<Rightarrow> memory_region list option \<times> int list \<times> os" where
  "new_regions [] sz idx shm_fds s = (Some [], shm_fds, s)"
| "new_regions (c # cs) sz idx shm_fds s =
     (let (shm, shm_fds, s) = init_shm c VHOST_SOCK_NAME sz idx shm_fds s
      in if shm = NULL then (None, shm_fds, s)
         else let (rs, shm_fds, s) = new_regions cs sz (idx + 1) shm_fds s
         in (map_option (Cons \<lparr>mr_guest_phys_addr = of_nat shm, mr_memory_size = of_nat sz, mr_userspace_addr = of_nat shm,
               mr_mmap_offset = 0\<rparr>) rs, shm_fds, s))"

fun new_vrings :: "memory_region list \<Rightarrow> shm \<Rightarrow> shm option" where
  "new_vrings [] sh = Some sh"
| "new_vrings (r # rs) sh = do { sh \<leftarrow> new_vring (unat (mr_guest_phys_addr r)) sh; new_vrings rs sh }"

definition vring_table_from_memory_region :: "nat \<Rightarrow> vhost_user_memory \<Rightarrow> shm \<Rightarrow> shm option" where
  "vring_table_from_memory_region vring_table_num memory sh =
     (if vring_table_num = unat (um_nregions memory) then new_vrings (take vring_table_num (um_regions memory)) sh else None)"

text \<open>\<open>sh\<close> is the contents of the new mappings. The client is \<open>None\<close> when the function returns 0.\<close>

definition new_vhost_client :: "shm_calls list \<Rightarrow> shm \<Rightarrow> string option \<Rightarrow> int list \<Rightarrow> os \<Rightarrow>
    ((unit peer \<times> vhost_client) option \<times> int list \<times> os) option" where
  "new_vhost_client calls sh path shm_fds s =
     (let client = new_client path;
          (regions, shm_fds, s) = new_regions (take VHOST_CLIENT_VRING_NUM calls) VHOST_CLIENT_PAGE_SIZE 0 shm_fds s
      in case regions of
           None \<Rightarrow> Some (None, shm_fds, s)
         | Some rs \<Rightarrow>
             do { let memory = \<lparr>um_nregions = of_nat VHOST_CLIENT_VRING_NUM, um_regions = rs\<rparr>;
                  sh \<leftarrow> vring_table_from_memory_region VHOST_CLIENT_VRING_NUM memory sh;
                  Some (Some (client, \<lparr>vc_memory = memory, vc_vring = [], vc_features = 0, vc_fd_list = pr_fd_list client,
                    vc_shm = sh\<rparr>), shm_fds, s) })"

text \<open>The list of descriptors is that of the client.\<close>

definition open_vhost_client :: "'s channel \<Rightarrow> sock_calls \<Rightarrow> int list \<Rightarrow> (nat \<times> int \<times> int) list \<Rightarrow>
    unit peer \<times> vhost_client \<Rightarrow> os \<times> 's \<Rightarrow> (int \<times> (unit peer \<times> vhost_client) \<times> os \<times> 's) option" where
  "open_vhost_client chan calls shm_fds rings vc s =
     do { let (client, c) = vc;
          let (s, server) = s;
          (r, client, s) \<leftarrow> init_client calls client s;
          let c = c\<lparr>vc_fd_list := pr_fd_list client\<rparr>;
          if r \<noteq> 0 then Some (- 1, (client, c), s, server)
          else do { (c, fds, server) \<leftarrow> init_vhost_client chan shm_fds rings c (os_fds s, server);
                    Some (0, (client, c), s\<lparr>os_fds := fds\<rparr>, server) } }"

fun end_regions :: "string \<Rightarrow> memory_region list \<Rightarrow> nat \<Rightarrow> int list \<Rightarrow> os \<Rightarrow> os" where
  "end_regions path [] idx shm_fds s = s"
| "end_regions path (r # rs) idx shm_fds s =
     end_regions path rs (idx + 1) shm_fds
       (snd (end_shm path (unat (mr_guest_phys_addr r)) (unat (mr_memory_size r)) idx shm_fds s))"

definition end_vhost_client :: "'s channel \<Rightarrow> int list \<Rightarrow> unit peer \<times> vhost_client \<Rightarrow> os \<times> 's \<Rightarrow> (os \<times> 's) option" where
  "end_vhost_client chan shm_fds vc s =
     do { let (client, c) = vc;
          let (s, server) = s;
          (_, _, server) \<leftarrow> vhost_ioctl chan shm_fds VHOST_USER_RESET_OWNER Arg_none server;
          let s = end_regions (pr_path client) (take (unat (um_nregions (vc_memory c))) (um_regions (vc_memory c))) 0 shm_fds s;
          let (_, s) = end_client client s;
          Some (s, server) }"

section \<open>The server\<close>

text \<open>The pointer to the server is set to 0, and then used for every region.\<close>

definition end_vhost_server :: "fd_handler peer \<times> vhost_server \<Rightarrow> os \<Rightarrow> os option" where
  "end_vhost_server vs s =
     (let (_, s) = end_server (fst vs) s
      in if sv_nregions (vs_memory (snd vs)) \<noteq> 0 then None else Some s)"


section \<open>The loops\<close>

text \<open>What a turn of the server gets: the result of \<open>select\<close>, of reading an event descriptor, of receiving
  and sending a message, and of \<open>accept\<close>.\<close>

type_synonym select = "int \<Rightarrow> int set \<Rightarrow> int set \<Rightarrow> u32 \<times> u32 \<Rightarrow> int \<times> (int \<Rightarrow> bool) \<times> (int \<Rightarrow> bool)"





definition loop_client :: "bytes \<Rightarrow> select \<times> (int \<Rightarrow> int) \<Rightarrow> vhost_client \<Rightarrow> vhost_client option" where
  "loop_client test_message inp c =
     do { let (select, read) = inp;
          c \<leftarrow> traverse_fd_list vc_fd_list (\<lambda>l c. c\<lparr>vc_fd_list := l\<rparr>) (\<lambda>_ fd. kick_client (read fd) fd) select c;
          (_, _, c) \<leftarrow> poll_client test_message c;
          Some c }"

section \<open>Statistics\<close>

record timespec =
  tv_sec :: int
  tv_nsec :: int

record stat =
  st_start :: timespec
  st_stop :: timespec
  st_diff :: u64
  st_count :: u64

definition STAT_PRINT_INTERVAL :: u64 where "STAT_PRINT_INTERVAL = 3"

definition init_stat :: "timespec \<Rightarrow> timespec \<Rightarrow> stat" where
  "init_stat now now' = \<lparr>st_start = now, st_stop = now', st_diff = 0, st_count = 0\<rparr>"

definition start_stat :: "timespec \<Rightarrow> stat \<Rightarrow> stat" where
  "start_stat now st = st\<lparr>st_start := now\<rparr>"

definition stop_stat :: "timespec \<Rightarrow> stat \<Rightarrow> stat" where
  "stop_stat now st = st\<lparr>st_stop := now\<rparr>"

definition update_stat :: "u32 \<Rightarrow> stat \<Rightarrow> stat" where
  "update_stat cnt st = st\<lparr>st_count := st_count st + ucast cnt\<rparr>"

text \<open>The first result is the number that is printed. A division of the source truncates.\<close>

definition print_stat :: "timespec \<Rightarrow> stat \<Rightarrow> (u64 option \<times> stat) option" where
  "print_stat now st =
     (let nsec = tv_nsec now - tv_nsec (st_start st);
          diff = of_int (tv_sec now - tv_sec (st_start st) + sgn nsec * (abs nsec div 1000000000)) :: u64
      in if diff > st_diff st then
           if diff mod STAT_PRINT_INTERVAL = 0 then
             if diff = 0 then None else Some (Some (st_count st div diff), st\<lparr>st_diff := diff\<rparr>)
           else Some (None, st\<lparr>st_diff := diff\<rparr>)
         else Some (None, st))"

text \<open>It never divides by 0, and the fractions of a second do not count.\<close>

lemma print_stat_total: "print_stat now st \<noteq> None"
  by (auto simp: print_stat_def Let_def)

section \<open>Resources are given back\<close>

lemma end_shm_resources:
  assumes "shm_fds ! idx > 0"
  shows "os_fds (snd (end_shm path ptr sz idx shm_fds s)) = os_fds s - {shm_fds ! idx}"
    and "os_maps (snd (end_shm path ptr sz idx shm_fds s)) = os_maps s - {(ptr, sz)}"
    and "os_shm_names (snd (end_shm path ptr sz idx shm_fds s)) = os_shm_names s - {shm_name path idx}"
  using assms by (simp_all add: end_shm_def close_fd_def Let_def)

text \<open>The calls of a region succeed, with resources that are not in use.\<close>

definition shm_call_ok :: "os \<Rightarrow> nat \<Rightarrow> shm_calls \<Rightarrow> int \<Rightarrow> addr \<Rightarrow> bool" where
  "shm_call_ok s sz c fd a \<longleftrightarrow> hc_shm_open c = fd \<and> 0 < fd \<and> fd \<notin> os_fds s \<and> hc_ftruncate c = 0 \<and>
     hc_mmap c = Some a \<and> a \<noteq> NULL \<and> a < 2 ^ 64 \<and> (a, sz) \<notin> os_maps s"

lemma init_shm_ok:
  assumes "shm_call_ok s sz c fd a"
  shows "init_shm c path sz idx shm_fds s =
    (a, shm_fds[idx := fd], s\<lparr>os_fds := insert fd (os_fds s), os_maps := insert (a, sz) (os_maps s),
       os_shm_names := insert (shm_name path idx) (os_shm_names s)\<rparr>)"
  using assms by (simp add: shm_call_ok_def init_shm_def init_shm_from_fd_def Let_def)

lemma two_regions_of_client:
  assumes "shm_call_ok s sz c0 f0 a0" "shm_call_ok s sz c1 f1 a1" "f0 \<noteq> f1" "a0 \<noteq> a1"
  shows "new_regions [c0, c1] sz 0 shm_fds s =
    (Some [\<lparr>mr_guest_phys_addr = of_nat a0, mr_memory_size = of_nat sz, mr_userspace_addr = of_nat a0, mr_mmap_offset = 0\<rparr>,
           \<lparr>mr_guest_phys_addr = of_nat a1, mr_memory_size = of_nat sz, mr_userspace_addr = of_nat a1, mr_mmap_offset = 0\<rparr>],
     shm_fds[0 := f0, 1 := f1],
     s\<lparr>os_fds := insert f1 (insert f0 (os_fds s)), os_maps := insert (a1, sz) (insert (a0, sz) (os_maps s)),
       os_shm_names := insert (shm_name VHOST_SOCK_NAME 1) (insert (shm_name VHOST_SOCK_NAME 0) (os_shm_names s))\<rparr>)"
proof -
  let ?s = "s\<lparr>os_fds := insert f0 (os_fds s), os_maps := insert (a0, sz) (os_maps s),
       os_shm_names := insert (shm_name VHOST_SOCK_NAME 0) (os_shm_names s)\<rparr>"
  have "shm_call_ok ?s sz c1 f1 a1" using assms by (simp add: shm_call_ok_def)
  from init_shm_ok [OF this] init_shm_ok [OF assms(1)] show ?thesis
    using assms(1,2) by (simp add: shm_call_ok_def)
qed

text \<open>The event descriptors of some rings, and a connection on which sending always succeeds.\<close>

definition ring_fds :: "(nat \<times> int \<times> int) list \<Rightarrow> int set" where
  "ring_fds rings = (\<Union>(b, kickfd, callfd) \<in> set rings. {kickfd, callfd})"

lemma ring_fds_simps [simp]:
  "ring_fds [] = {}" "ring_fds ((b, kickfd, callfd) # rings) = {kickfd, callfd} \<union> ring_fds rings"
  by (auto simp: ring_fds_def)

definition always_sends :: "'s channel \<Rightarrow> bool" where
  "always_sends chan \<longleftrightarrow> (\<forall>msg s r reply s'. chan msg s = Some (r, reply, s') \<longrightarrow> 0 \<le> r)"

lemma ioctl_msg_refuses: "ioctl_msg fds request arg = Some None \<longleftrightarrow> request = VHOST_USER_MAX"
  by (cases request; cases arg) (simp_all add: ioctl_msg_def)

lemma vhost_ioctl_sends:
  assumes "vhost_ioctl chan shm_fds request arg s = Some (r, p, s')" "always_sends chan" "request \<noteq> VHOST_USER_MAX"
  shows "r = 0"
proof -
  obtain payload sz fds where m: "ioctl_msg shm_fds request arg = Some (Some (payload, sz, fds))"
    using assms(1,3) ioctl_msg_refuses [of shm_fds request arg] by (auto simp: vhost_ioctl_def bind_eq_Some_conv split: option.splits)
  then show ?thesis
    using assms(1,2) unfolding always_sends_def vhost_ioctl_def by (force simp: bind_eq_Some_conv split: if_splits)
qed

lemma ioctls_send:
  "ioctls chan shm_fds rs s = Some (r, s') \<Longrightarrow> always_sends chan \<Longrightarrow> \<forall>(request, arg) \<in> set rs. request \<noteq> VHOST_USER_MAX \<Longrightarrow> r = 0"
proof (induction rs arbitrary: s)
  case (Cons q rs)
  obtain request arg where q: "q = (request, arg)" by fastforce
  with Cons.prems(1) obtain r1 p s1 where v: "vhost_ioctl chan shm_fds request arg s = Some (r1, p, s1)"
    "(if r1 \<noteq> 0 then Some (- 1, s1) else ioctls chan shm_fds rs s1) = Some (r, s')"
    by (auto simp: bind_eq_Some_conv)
  have "request \<noteq> VHOST_USER_MAX" using Cons.prems(3) q by simp
  then have "r1 = 0" by (rule vhost_ioctl_sends [OF v(1) Cons.prems(2)])
  with v(2) Cons.IH [of s1] Cons.prems(2,3) q show ?case by simp
qed simp

lemma set_host_vring_fds:
  assumes "set_host_vring chan shm_fds b (kickfd, callfd) i (F, s) = Some (r, F', s')"
  shows "F' = F \<union> {kickfd, callfd} \<and> (always_sends chan \<longrightarrow> r = 0)"
  using assms by (auto simp: set_host_vring_def bind_eq_Some_conv simp del: ioctls.simps dest: ioctls_send split: if_splits)

lemma set_host_vring_table_fds:
  assumes "set_host_vring_table chan shm_fds rings i (F, s) = Some (r, F', s')"
  shows "\<exists>n\<le>length rings. F' = F \<union> ring_fds (take n rings) \<and> (rings \<noteq> [] \<longrightarrow> 0 < n) \<and> (always_sends chan \<longrightarrow> n = length rings)"
  using assms
proof (induction rings arbitrary: i F s)
  case (Cons q rings)
  obtain b kickfd callfd where q: "q = (b, kickfd, callfd)" using prod_cases3 by blast
  then obtain r1 F1 s1 where v: "set_host_vring chan shm_fds b (kickfd, callfd) i (F, s) = Some (r1, F1, s1)"
    and k: "(if r1 \<noteq> 0 then Some (- 1, F1, s1) else set_host_vring_table chan shm_fds rings (i + 1) (F1, s1)) = Some (r, F', s')"
    using Cons.prems by (auto simp: bind_eq_Some_conv)
  note v = set_host_vring_fds [OF v]
  show ?case
  proof (cases "r1 = 0")
    case True
    then obtain n where "n \<le> length rings" "F' = F1 \<union> ring_fds (take n rings)" "always_sends chan \<longrightarrow> n = length rings"
      using Cons.IH k by (metis (full_types))
    then show ?thesis using v by (intro exI [of _ "Suc n"]) (auto simp: q)
  next
    case False
    then show ?thesis using v k by (intro exI [of _ 1]) (auto simp: q)
  qed
qed simp

lemma init_vhost_client_fds:
  assumes "init_vhost_client chan shm_fds rings c (F, s) = Some (c', F', s')"
  shows "vc_memory c' = vc_memory c \<and> (\<exists>n\<le>length rings. 0 < n \<and> F' = F \<union> ring_fds (take n rings) \<and>
    (always_sends chan \<longrightarrow> n = length rings))"
proof -
  have m: "vc_memory c' = vc_memory c"
    using assms by (auto simp: init_vhost_client_def bind_eq_Some_conv split: prod.splits)
      (auto simp: Let_def bind_eq_Some_conv split: option.splits payload.splits)
  obtain s1 r s2 where t: "set_host_vring_table chan shm_fds rings 0 (F, s1) = Some (r, F', s2)" and "rings \<noteq> []"
    using assms by (auto simp: init_vhost_client_def bind_eq_Some_conv nth_opt_def Let_def VHOST_CLIENT_VRING_IDX_RX_def split: if_splits)
  with set_host_vring_table_fds [OF t] m show ?thesis by auto
qed

lemma page_size: "unat (of_nat VHOST_CLIENT_PAGE_SIZE :: u64) = VHOST_CLIENT_PAGE_SIZE"
  by (simp add: VHOST_CLIENT_PAGE_SIZE_def ONEMEG_def vhost_vring_size_def BUFFER_SIZE_def VIRTIO_NET_HDR_LEN_def
      ETH_PACKET_SIZE_def VHOST_VRING_SIZE_def unsigned_of_nat take_bit_nat_eq_self)

lemma end_two_regions:
  fixes path :: string
  assumes "os_maps s = insert (a1, sz) (insert (a0, sz) M)" "a0 \<noteq> a1" "(a0, sz) \<notin> M" "(a1, sz) \<notin> M"
    and "os_fds s = insert f1 (insert f0 F)" "f0 \<notin> F" "f1 \<notin> F" "0 < f0" "0 < f1"
    and "1 < length shm_fds" "a0 < 2 ^ 64" "a1 < 2 ^ 64"
    and "rs = [\<lparr>mr_guest_phys_addr = of_nat a0, mr_memory_size = n, mr_userspace_addr = x0, mr_mmap_offset = y0\<rparr>,
               \<lparr>mr_guest_phys_addr = of_nat a1, mr_memory_size = n, mr_userspace_addr = x1, mr_mmap_offset = y1\<rparr>]" "unat n = sz"
  defines "s' \<equiv> end_regions path rs 0 (shm_fds[0 := f0, 1 := f1]) s"
  shows "os_maps s' = M" "os_fds s' = F"
    "os_shm_names s' = os_shm_names s - {shm_name path 0, shm_name path 1}"
proof -
  let ?fds = "shm_fds[0 := f0, 1 := f1]"
  let ?s1 = "snd (end_shm path a0 sz 0 ?fds s)"
  have u: "unat (of_nat a0 :: u64) = a0" "unat (of_nat a1 :: u64) = a1"
    using assms(11,12) by (simp_all add: unsigned_of_nat take_bit_nat_eq_self)
  have s': "s' = snd (end_shm path a1 sz 1 ?fds ?s1)"
    using u assms(13,14) by (simp add: s'_def)
  have "0 < length shm_fds" using assms(10) by linarith
  then have n: "?fds ! 0 = f0" "?fds ! 1 = f1" using assms(10) by (simp_all add: nth_list_update)
  have "?fds ! 0 > 0" using assms(8) n by simp
  note r0 = end_shm_resources [OF this, of path, unfolded n]
  have "?fds ! 1 > 0" using assms(9) n by simp
  note r1 = end_shm_resources [OF this, of path, unfolded n]
  show "os_maps s' = M" unfolding s' r1(2) r0(2) using assms(1-4) by auto
  show "os_fds s' = F" unfolding s' r1(1) r0(1) using assms(5-7) by auto
  show "os_shm_names s' = os_shm_names s - {shm_name path 0, shm_name path 1}"
    unfolding s' r1(3) r0(3) by auto
qed

section \<open>The invariant of the server\<close>

text \<open>\<open>n\<close> is the size of the table of regions and \<open>ws\<close> are the nodes for writing. What was copied into the packet
  buffer was less than a packet of the walk without its header; the table counts no more regions than it has.\<close>

definition server_ok :: "nat \<Rightarrow> fd_handler fd_node list \<Rightarrow> vhost_server \<Rightarrow> bool" where
  "server_ok n ws s \<longleftrightarrow> length (vs_vring s) = VHOST_CLIENT_VRING_NUM \<and>
     length (vs_buffer s) \<le> vs_high s \<and> vs_high s < ETH_PACKET_SIZE - VIRTIO_NET_HDR_LEN \<and>
     unat (sv_nregions (vs_memory s)) \<le> n \<and> length (sv_regions (vs_memory s)) = n \<and>
     length (fl_read_fds (vs_fd_list s)) = FD_LIST_SIZE \<and> fl_write_fds (vs_fd_list s) = ws"

lemma add_fd_list_length [simp]:
  "length (fl_read_fds (snd (add_fd_list type fd h l))) = length (fl_read_fds l)"
  "fl_write_fds (snd (add_fd_list FD_READ fd h l)) = fl_write_fds l"
  by (simp_all add: add_fd_list_def fl_set_nodes_def fl_nodes_def split: option.splits)

lemma del_fd_list_length [simp]:
  "length (fl_read_fds (snd (del_fd_list type fd l))) = length (fl_read_fds l)"
  "fl_write_fds (snd (del_fd_list FD_READ fd l)) = fl_write_fds l"
  by (simp_all add: del_fd_list_def fl_set_nodes_def fl_nodes_def split: option.splits)












lemma vring_upd_ok [simp]: "server_ok n ws (vring_upd i g s) \<longleftrightarrow> server_ok n ws s"
  by (simp add: server_ok_def vring_upd_def)








section \<open>Properties\<close>


text \<open>C39: A client that has run gives back its socket, the descriptors and the mappings of its shared memory.
  But the event descriptors of its rings stay open: those of both rings when all requests could be sent, otherwise
  at least those of the first ring. And it creates the shared memory under the default name and removes what has the
  name of its socket: for a socket with another path the shared memory stays in the system, and that of another
  program is removed.\<close>

theorem vhost_client_resources:
  assumes "shm_call_ok s VHOST_CLIENT_PAGE_SIZE c0 f0 a0" "shm_call_ok s VHOST_CLIENT_PAGE_SIZE c1 f1 a1" "f0 \<noteq> f1" "a0 \<noteq> a1"
    and "1 < length shm_fds" "sc_socket calls \<notin> os_fds s \<union> {- 1, f0, f1}" "sc_connect calls \<noteq> - 1"
    and "length rings = 2" "ring_fds rings \<inter> (os_fds s \<union> {f0, f1, sc_socket calls}) = {}"
    and "new_vhost_client [c0, c1] sh path shm_fds s = Some (Some vc, shm_fds', s1)"
    and "open_vhost_client chan calls shm_fds' rings vc (s1, server) = Some (r, vc', s2, server')"
    and "end_vhost_client chan' shm_fds' vc' (s2, server') = Some (s3, server'')"
  defines "p \<equiv> take PATH_MAX (case path of Some p \<Rightarrow> p | None \<Rightarrow> VHOST_SOCK_NAME)"
  shows "r = 0 \<and>
    (\<exists>n. (n = 1 \<or> n = 2) \<and> os_fds s3 = os_fds s \<union> ring_fds (take n rings) \<and> (always_sends chan \<longrightarrow> n = 2)) \<and>
    os_maps s3 = os_maps s \<and>
    os_shm_names s3 = os_shm_names s \<union> {shm_name VHOST_SOCK_NAME 0, shm_name VHOST_SOCK_NAME 1} - {shm_name p 0, shm_name p 1}"
proof -
  let ?sz = VHOST_CLIENT_PAGE_SIZE
  let ?rs = "[\<lparr>mr_guest_phys_addr = of_nat a0, mr_memory_size = of_nat ?sz, mr_userspace_addr = of_nat a0, mr_mmap_offset = 0\<rparr>,
              \<lparr>mr_guest_phys_addr = of_nat a1, mr_memory_size = of_nat ?sz, mr_userspace_addr = of_nat a1, mr_mmap_offset = 0\<rparr>]"
  let ?s1 = "s\<lparr>os_fds := insert f1 (insert f0 (os_fds s)), os_maps := insert (a1, ?sz) (insert (a0, ?sz) (os_maps s)),
       os_shm_names := insert (shm_name VHOST_SOCK_NAME 1) (insert (shm_name VHOST_SOCK_NAME 0) (os_shm_names s))\<rparr>"
  obtain client c where vc: "vc = (client, c)" by fastforce
  have n: "client = new_client path" "vc_memory c = \<lparr>um_nregions = 2, um_regions = ?rs\<rparr>"
    "shm_fds' = shm_fds[0 := f0, 1 := f1]" "s1 = ?s1"
    using assms(10) two_regions_of_client [OF assms(1-4), of shm_fds] unfolding vc
    by (auto simp: new_vhost_client_def VHOST_CLIENT_VRING_NUM_def Let_def bind_eq_Some_conv simp del: new_regions.simps)
  have st: "pr_status client = INSTANCE_CREATED" "pr_path client = p" by (simp_all add: n(1) new_client_def p_def)
  let ?k = "sc_socket calls"
  let ?client = "client\<lparr>pr_sock := ?k, pr_status := INSTANCE_INITIALIZED, pr_fd_list := init_fd_list 0\<rparr>"
  let ?s2 = "?s1\<lparr>os_fds := insert ?k (os_fds ?s1)\<rparr>"
  have i: "init_client calls client s1 = Some (0, ?client, ?s2) \<or> init_client calls client s1 = None"
    using assms(6,7) st n(4) by (simp add: init_client_def Let_def)
  then obtain c' F where o: "init_vhost_client chan shm_fds' rings (c\<lparr>vc_fd_list := init_fd_list 0\<rparr>) (os_fds ?s2, server) = Some (c', F, server')"
    "vc' = (?client, c')" "r = 0" "s2 = ?s2\<lparr>os_fds := F\<rparr>"
    using assms(11) unfolding vc by (auto simp: open_vhost_client_def Let_def bind_eq_Some_conv)
  obtain n' where F: "n' \<le> length rings" "0 < n'" "F = os_fds ?s2 \<union> ring_fds (take n' rings)" "always_sends chan \<longrightarrow> n' = length rings"
    "vc_memory c' = vc_memory c"
    using init_vhost_client_fds [OF o(1)] by auto
  let ?E = "ring_fds (take n' rings)"
  have "?E \<subseteq> ring_fds rings" by (auto simp: ring_fds_def dest: in_set_takeD)
  then have E: "?E \<inter> (os_fds s \<union> {f0, f1, ?k}) = {}" using assms(9) by blast
  let ?s3 = "end_regions p ?rs 0 (shm_fds[0 := f0, 1 := f1]) s2"
  have e: "s3 = close_fd ?k ?s3"
    using assms(12) n(2,3) st(2) unfolding o(2)
    by (auto simp: end_vhost_client_def Let_def bind_eq_Some_conv F(5) end_client_def simp del: end_regions.simps)
  have "os_maps s2 = insert (a1, ?sz) (insert (a0, ?sz) (os_maps s))"
    "os_fds s2 = insert f1 (insert f0 (insert ?k (os_fds s) \<union> ?E))"
    by (auto simp: o(4) F(3))
  note r = end_two_regions [OF this(1) assms(4) _ _ this(2) _ _ _ _ assms(5) _ _ refl page_size, of p]
  have "os_maps ?s3 = os_maps s" "os_fds ?s3 = insert ?k (os_fds s) \<union> ?E"
    "os_shm_names ?s3 = os_shm_names s2 - {shm_name p 0, shm_name p 1}"
    using assms(1,2,6) E by (intro r; auto simp: shm_call_ok_def)+
  moreover have "os_shm_names s2 = os_shm_names s \<union> {shm_name VHOST_SOCK_NAME 0, shm_name VHOST_SOCK_NAME 1}"
    by (auto simp: o(4))
  moreover have "n' = 1 \<or> n' = 2" using F(1,2) assms(8) by linarith
  ultimately show ?thesis using o(3) assms(6,8) E F(4) unfolding e by (auto simp: close_fd_def intro!: exI [of _ n'])
qed

text \<open>A server that has got the memory table of a client cannot be ended: \<open>end_vhost_server\<close> takes the path from the
  server that it has just freed, through a pointer that it has just set to 0.\<close>

theorem vhost_server_end_crashes:
  assumes "um_nregions (vc_memory c) = 2" "um_regions (vc_memory c) = ring_region B0 n # ring_region B1 n # rs"
    and "f0 > 0" "f1 > 0" "k0 > 0" "c0 > 0" "k1 > 0" "c1 > 0"
    and "length (vs_vring s) = 2" "sv_regions (vs_memory s) = x0 # x1 # xs"
    and "sm_used (vs_shm s) (unat (mmap f0 n + of_nat used_offset)) = Some u0"
      "sm_used (vs_shm s) (unat (mmap f1 n + of_nat used_offset)) = Some u1"
    and "proper (of_nat B0) n" "proper (of_nat B1) n" "apart 0 (of_nat B0) n (of_nat B1) n" "used_offset < unat n"
  shows "\<exists>c' s'. init_vhost_client (server_channel mmap pad sock) [f0, f1] [(B0, k0, c0), (B1, k1, c1)] c (F, s) =
      Some (c', F \<union> {k0, c0, k1, c1}, s') \<and>
    end_vhost_server (server, s') os = None"
proof -
  obtain c' s' where "init_vhost_client (server_channel mmap pad sock) [f0, f1] [(B0, k0, c0), (B1, k1, c1)] c (F, s) =
      Some (c', F \<union> {k0, c0, k1, c1}, s')"
    "two_regions B0 B1 n (mmap f0 n) (mmap f1 n) (vs_memory s')"
    using init_client_server [where mmap = mmap and pad = pad and sock = sock, OF assms(1,2) refl assms(3-16)] by blast
  then show ?thesis
    by (intro exI [of _ c'] exI [of _ s']) (auto simp: end_vhost_server_def two_regions_def split: prod.splits)
qed

section \<open>Witnesses\<close>

text \<open>A server on the path \<^verbatim>\<open>"s"\<close> with the socket 3, which accepts the connection 7.\<close>

definition ex_sock :: sock_calls where
  "ex_sock = \<lparr>sc_socket = 3, sc_bind = 0, sc_listen = 0, sc_connect = 0\<rparr>"

definition ex_os :: os where
  "ex_os = \<lparr>os_fds = {0, 1, 2}, os_maps = {}, os_shm_names = {}, os_files = {}\<rparr>"




text \<open>A client on the path \<^verbatim>\<open>"s"\<close>, whose other side confirms everything.\<close>

definition ex_shm_calls :: "int \<Rightarrow> addr \<Rightarrow> shm_calls" where
  "ex_shm_calls fd a = \<lparr>hc_shm_open = fd, hc_ftruncate = 0, hc_mmap = Some a\<rparr>"

definition ex_channel :: "unit channel" where
  "ex_channel msg s = Some (1, Some (msg\<lparr>sg_payload := U64 0\<rparr>), s)"

definition ex_mapped :: shm where
  "ex_mapped = \<lparr>sm_desc = (\<lambda>_. None), sm_avail = (\<lambda>_. Some \<lparr>av_idx = 0, av_ring = []\<rparr>), sm_used = (\<lambda>_. Some \<lparr>us_idx = 0, us_ring = []\<rparr>), sm_mem = (\<lambda>_. None)\<rparr>"

lemma ex_shm_call_ok: "0 < fd \<Longrightarrow> fd \<notin> {0, 1, 2} \<Longrightarrow> 0 < a \<Longrightarrow> a < 2 ^ 64 \<Longrightarrow> shm_call_ok ex_os sz (ex_shm_calls fd a) fd a"
  by (simp add: shm_call_ok_def ex_shm_calls_def ex_os_def)

lemma new_vring_total:
  assumes "\<forall>a. sm_avail sh a \<noteq> None" "\<forall>a. sm_used sh a \<noteq> None"
  shows "\<exists>sh'. new_vring b sh = Some sh' \<and> (\<forall>a. sm_avail sh' a \<noteq> None) \<and> (\<forall>a. sm_used sh' a \<noteq> None)"
proof -
  obtain x y where "sm_avail sh (b + avail_offset) = Some x" "sm_used sh (b + used_offset) = Some y" using assms by blast
  then show ?thesis using assms by (simp add: new_vring_def)
qed

lemma new_vrings_total:
  "(\<forall>a. sm_avail sh a \<noteq> None) \<Longrightarrow> (\<forall>a. sm_used sh a \<noteq> None) \<Longrightarrow> \<exists>sh'. new_vrings rs sh = Some sh'"
proof (induction rs arbitrary: sh)
  case (Cons r rs)
  then show ?case using new_vring_total [OF Cons.prems, of "unat (mr_guest_phys_addr r)"] by auto
qed simp

lemma ex_ioctl: "request \<notin> {VHOST_USER_GET_FEATURES, VHOST_USER_GET_VRING_BASE} \<Longrightarrow> ioctl_msg fds request arg = Some (Some m) \<Longrightarrow>
    vhost_ioctl ex_channel fds request arg s = Some (0, None, s)"
  "vhost_ioctl ex_channel fds VHOST_USER_GET_FEATURES Arg_none s = Some (0, Some (U64 0), s)"
  by (cases m; simp add: vhost_ioctl_def ex_channel_def)
    (simp add: vhost_ioctl_def ex_channel_def ioctl_msg_def VHOST_USER_VERSION_MASK_def VHOST_USER_VERSION_def)

lemma ex_client_opens:
  assumes "um_nregions (vc_memory c) = 2" "length fds = 2"
  shows "\<exists>c'. init_vhost_client ex_channel fds [(0x100000, 7, 8), (0x9000000, 9, 10)] c (F, ()) = Some (c', F \<union> {7, 8, 9, 10}, ())"
  using assms
  by (simp add: init_vhost_client_def ex_ioctl ioctl_msg_def set_host_vring_def VHOST_MEMORY_MAX_NREGIONS_def nth_opt_def
      VHOST_CLIENT_VRING_IDX_RX_def insert_commute)

lemma vhost_client_resources_witness:
  "\<exists>vc s1 vc' s2 s3. new_vhost_client [ex_shm_calls 5 0x100000, ex_shm_calls 6 0x9000000] ex_mapped (Some ''s'') [0, 0] ex_os =
      Some (Some vc, [5, 6], s1) \<and>
    open_vhost_client ex_channel ex_sock [5, 6] [(0x100000, 7, 8), (0x9000000, 9, 10)] vc (s1, ()) = Some (0, vc', s2, ()) \<and>
    end_vhost_client ex_channel [5, 6] vc' (s2, ()) = Some (s3, ()) \<and>
    os_fds s3 = {0, 1, 2, 7, 8, 9, 10} \<and> os_maps s3 = {} \<and> os_shm_names s3 = {''vhost.sock0'', ''vhost.sock1''}"
proof -
  have ok: "shm_call_ok ex_os VHOST_CLIENT_PAGE_SIZE (ex_shm_calls 5 0x100000) 5 0x100000"
    "shm_call_ok ex_os VHOST_CLIENT_PAGE_SIZE (ex_shm_calls 6 0x9000000) 6 0x9000000"
    by (rule ex_shm_call_ok; simp)+
  obtain sh' where sh': "new_vrings rs ex_mapped = Some (sh' rs)" for rs
    using new_vrings_total [of ex_mapped] by (simp add: ex_mapped_def) metis
  obtain client c s1 where n: "new_vhost_client [ex_shm_calls 5 0x100000, ex_shm_calls 6 0x9000000] ex_mapped (Some ''s'') [0, 0] ex_os =
      Some (Some (client, c), [5, 6], s1)" "client = new_client (Some ''s'')" "um_nregions (vc_memory c) = 2"
    using two_regions_of_client [OF ok, of "[0, 0]"] sh'
    by (simp add: new_vhost_client_def vring_table_from_memory_region_def VHOST_CLIENT_VRING_NUM_def Let_def del: new_regions.simps new_vrings.simps)
  let ?client = "client\<lparr>pr_sock := 3, pr_status := INSTANCE_INITIALIZED, pr_fd_list := init_fd_list 0\<rparr>"
  let ?s1 = "s1\<lparr>os_fds := insert 3 (os_fds s1)\<rparr>" and ?rings = "[(0x100000, 7, 8), (0x9000000, 9, 10)]"
  let ?s2 = "s1\<lparr>os_fds := insert 3 (os_fds s1) \<union> {7, 8, 9, 10}\<rparr>"
  have i: "init_client ex_sock client s1 = Some (0, ?client, ?s1)"
    by (simp add: n(2) init_client_def new_client_def ex_sock_def SUN_PATH_SIZE_def PATH_MAX_def Let_def)
  obtain c' where c': "init_vhost_client ex_channel [5, 6] ?rings (c\<lparr>vc_fd_list := init_fd_list 0\<rparr>) (os_fds ?s1, ()) =
      Some (c', os_fds ?s1 \<union> {7, 8, 9, 10}, ())"
    using ex_client_opens [of "c\<lparr>vc_fd_list := init_fd_list 0\<rparr>" "[5, 6]" "os_fds ?s1"] n(3) by auto
  have o: "open_vhost_client ex_channel ex_sock [5, 6] ?rings (client, c) (s1, ()) = Some (0, (?client, c'), ?s2, ())"
    using c' by (simp add: open_vhost_client_def i)
  obtain s3 where e: "end_vhost_client ex_channel [5, 6] (?client, c') (?s2, ()) = Some (s3, ())"
    by (cases "end_client ?client (end_regions (pr_path ?client) (take (unat (um_nregions (vc_memory c'))) (um_regions (vc_memory c'))) 0
        [5, 6] ?s2)")
      (simp add: end_vhost_client_def ex_ioctl ioctl_msg_def)
  have "always_sends ex_channel" by (simp add: always_sends_def ex_channel_def)
  moreover have "sc_socket ex_sock \<notin> os_fds ex_os \<union> {- 1, 5, 6}" "sc_connect ex_sock \<noteq> - 1" "length ?rings = 2"
    "ring_fds ?rings \<inter> (os_fds ex_os \<union> {5, 6, sc_socket ex_sock}) = {}" by (simp_all add: ex_sock_def ex_os_def)
  from vhost_client_resources [OF ok _ _ _ this n(1) o e]
  have "\<exists>n. os_fds s3 = os_fds ex_os \<union> ring_fds (take n ?rings) \<and> (always_sends ex_channel \<longrightarrow> n = 2)" "os_maps s3 = os_maps ex_os"
    "os_shm_names s3 = os_shm_names ex_os \<union> {shm_name VHOST_SOCK_NAME 0, shm_name VHOST_SOCK_NAME 1} -
      {shm_name (take PATH_MAX ''s'') 0, shm_name (take PATH_MAX ''s'') 1}" by auto
  moreover have "shm_name VHOST_SOCK_NAME 0 = ''vhost.sock0''" "shm_name VHOST_SOCK_NAME 1 = ''vhost.sock1''"
    "shm_name (take PATH_MAX ''s'') 0 = ''s0''" "shm_name (take PATH_MAX ''s'') 1 = ''s1''"
    by (simp_all add: shm_name_def VHOST_SOCK_NAME_def PATH_MAX_def char_of_def bit_0)
  ultimately have "os_fds s3 = {0, 1, 2, 7, 8, 9, 10}" "os_maps s3 = {}" "os_shm_names s3 = {''vhost.sock0'', ''vhost.sock1''}"
    by (auto simp: ex_os_def)
  then show ?thesis using n(1) o e by blast
qed

lemma vhost_server_end_crashes_witness:
  "\<exists>c' s'. init_vhost_client (server_channel hs_mmap [] 3) [5, 6] [(0x100000, 7, 8), (0x300000, 9, 10)] hs_client ({0, 1, 2, 5, 6}, hs_server) =
      Some (c', {0, 1, 2, 5, 6, 7, 8, 9, 10}, s') \<and> end_vhost_server (new_server None, s') ex_os = None"
  using vhost_server_end_crashes [OF hs_setup(5,6) _ _ _ _ _ _ hs_setup(7,8,9,9,1-4), of 5 6 7 8 9 10 hs_mmap "[]" 3 "{0, 1, 2, 5, 6}" "new_server None" ex_os]
  by (simp add: insert_commute)

end
