(* ===== verification/Icmp.thy ===== *)
theory Icmp
  imports Packet_Correct
begin

text \<open>
  The host of \<^verbatim>\<open>04_icmp/icmp.c\<close>, an early stage of the stack without tables: it answers ARP requests for its
  address, sends UDP datagrams back, and answers echo requests. A received packet is the list of the
  bytes from the start of its data to the end of its buffer. The new packets come from the pool, the checksums
  of the IP and UDP headers from DPDK; both are arguments. The packets sent are freed by the loop, too,
  although the driver has taken them over; only the received ones are counted here.
\<close>

section \<open>Encoders\<close>

definition gLocalIp :: u32 where "gLocalIp = 0x7200A8C0"

record icmp_globals =
  ig_src_ip :: u32
  ig_dst_ip :: u32
  ig_dst_mac :: bytes
  ig_src_port :: u16
  ig_dst_port :: u16

definition ng_encode_udp_pkt :: "(bytes \<Rightarrow> u16) \<Rightarrow> (bytes \<Rightarrow> u16) \<Rightarrow> bytes \<Rightarrow> icmp_globals \<Rightarrow> bytes \<Rightarrow> bytes \<Rightarrow> u16 \<Rightarrow> bytes option" where
  "ng_encode_udp_pkt ipv4_cksum udptcp_cksum srcmac g msg data total_len =
     do { m \<leftarrow> encode_eth_ip ipv4_cksum msg IPPROTO_UDP (ig_src_ip g) (ig_dst_ip g) srcmac (ig_dst_mac g) (total_len - 14);
          m \<leftarrow> wr16 34 (ig_src_port g) m;
          m \<leftarrow> wr16 36 (ig_dst_port g) m;
          let udplen = total_len - 14 - 20;
          m \<leftarrow> wr16 38 (htons udplen) m;
          payload \<leftarrow> rd 0 (unat udplen) data;
          m \<leftarrow> wr 42 payload m;
          m \<leftarrow> wr16 40 0 m;
          wr16 40 (udptcp_cksum (drop 14 m)) m }"

definition ng_send_udp :: "(bytes \<Rightarrow> u16) \<Rightarrow> (bytes \<Rightarrow> u16) \<Rightarrow> bytes \<Rightarrow> icmp_globals \<Rightarrow> bytes option \<Rightarrow> bytes \<Rightarrow> u16 \<Rightarrow> bytes option" where
  "ng_send_udp ipv4_cksum udptcp_cksum srcmac g mbuf data len =
     do { let total_len = len + 42;   \<comment> \<open>as the 16 bits of \<open>data_len\<close> and of the argument\<close>
          pktdata \<leftarrow> mbuf;
          m \<leftarrow> ng_encode_udp_pkt ipv4_cksum udptcp_cksum srcmac g pktdata data total_len;
          Some (take (unat total_len) m) }"

definition encode_arp_reply :: "bytes \<Rightarrow> bytes \<Rightarrow> bytes \<Rightarrow> u32 \<Rightarrow> u32 \<Rightarrow> bytes option" where
  "encode_arp_reply srcmac msg dst_mac sip dip =
     do { m \<leftarrow> wr 6 srcmac msg;
          m \<leftarrow> wr 0 dst_mac m;
          m \<leftarrow> wr16 12 (htons RTE_ETHER_TYPE_ARP) m;
          m \<leftarrow> wr16 14 (htons 1) m;
          m \<leftarrow> wr16 16 (htons RTE_ETHER_TYPE_IPV4) m;
          m \<leftarrow> wr8 18 6 m;
          m \<leftarrow> wr8 19 4 m;
          m \<leftarrow> wr16 20 (htons 2) m;
          m \<leftarrow> wr 22 srcmac m;
          m \<leftarrow> wr 32 dst_mac m;
          m \<leftarrow> wr32 28 sip m;
          wr32 38 dip m }"

definition send_arp_reply :: "bytes \<Rightarrow> bytes option \<Rightarrow> bytes \<Rightarrow> u32 \<Rightarrow> u32 \<Rightarrow> bytes option" where
  "send_arp_reply srcmac mbuf dst_mac sip dip =
     do { pkt_data \<leftarrow> mbuf;
          m \<leftarrow> encode_arp_reply srcmac pkt_data dst_mac sip dip;
          Some (take 42 m) }"

definition ng_send_icmp :: "(bytes \<Rightarrow> u16) \<Rightarrow> bytes \<Rightarrow> bytes option \<Rightarrow> bytes \<Rightarrow> u32 \<Rightarrow> u32 \<Rightarrow> u16 \<Rightarrow> u16 \<Rightarrow> bytes option" where
  "ng_send_icmp ipv4_cksum srcmac mbuf dst_mac sip dip ident seqnb =
     do { pkt_data \<leftarrow> mbuf;
          m \<leftarrow> ng_encode_icmp_pkt ipv4_cksum srcmac pkt_data dst_mac sip dip ident seqnb;
          Some (take 42 m) }"

section \<open>The loop\<close>

definition RTE_IP_ICMP_ECHO_REQUEST :: u8 where "RTE_IP_ICMP_ECHO_REQUEST = 8"

text \<open>A UDP packet: a 0 byte is written behind the datagram, and \<open>length\<close> includes the header.\<close>

definition udp_echo :: "(bytes \<Rightarrow> u16) \<Rightarrow> (bytes \<Rightarrow> u16) \<Rightarrow> bytes \<Rightarrow> bytes option \<Rightarrow> bytes \<Rightarrow> icmp_globals \<Rightarrow> (bytes \<times> icmp_globals) option" where
  "udp_echo ipv4_cksum udptcp_cksum srcmac mbuf m g =
     do { smac \<leftarrow> rd 6 6 m;
          dst \<leftarrow> rd32 30 m;
          src \<leftarrow> rd32 26 m;
          dport \<leftarrow> rd16 36 m;
          sport \<leftarrow> rd16 34 m;
          let g = g\<lparr>ig_dst_mac := smac, ig_src_ip := dst, ig_dst_ip := src, ig_src_port := dport, ig_dst_port := sport\<rparr>;
          dgram_len \<leftarrow> rd16 38 m;
          let len = htons dgram_len;
          m \<leftarrow> wr8 (34 + unat len) 0 m;
          pkt \<leftarrow> ng_send_udp ipv4_cksum udptcp_cksum srcmac g mbuf (drop 42 m) len;
          Some (pkt, g) }"

definition icmp_reply :: "(bytes \<Rightarrow> u16) \<Rightarrow> bytes \<Rightarrow> bytes option \<Rightarrow> bytes \<Rightarrow> bytes option" where
  "icmp_reply ipv4_cksum srcmac mbuf m =
     do { smac \<leftarrow> rd 6 6 m;
          dst \<leftarrow> rd32 30 m;
          src \<leftarrow> rd32 26 m;
          ident \<leftarrow> rd16 38 m;
          seqnb \<leftarrow> rd16 40 m;
          ng_send_icmp ipv4_cksum srcmac mbuf smac dst src ident seqnb }"

text \<open>The packets sent, and whether the received packet is freed.\<close>

definition icmp_packet :: "(bytes \<Rightarrow> u16) \<Rightarrow> (bytes \<Rightarrow> u16) \<Rightarrow> bytes \<Rightarrow> bytes option \<Rightarrow> bytes \<Rightarrow> icmp_globals \<Rightarrow>
    (bytes list \<times> bool \<times> icmp_globals) option" where
  "icmp_packet ipv4_cksum udptcp_cksum srcmac mbuf m g =
     do { ether_type \<leftarrow> rd16 12 m;
          if ether_type = htons RTE_ETHER_TYPE_ARP then
            do { tip \<leftarrow> rd32 38 m;
                 if tip = gLocalIp then
                   do { sha \<leftarrow> rd 22 6 m;
                        sip \<leftarrow> rd32 28 m;
                        pkt \<leftarrow> send_arp_reply srcmac mbuf sha tip sip;
                        Some ([pkt], True, g) }
                 else Some ([], False, g) }
          else if ether_type \<noteq> htons RTE_ETHER_TYPE_IPV4 then Some ([], False, g)
          else
            do { proto \<leftarrow> rd8 23 m;
                 if proto = IPPROTO_UDP then
                   do { (pkt, g) \<leftarrow> udp_echo ipv4_cksum udptcp_cksum srcmac mbuf m g;
                        Some ([pkt], True, g) }
                 else if proto = IPPROTO_ICMP then
                   do { icmp_type \<leftarrow> rd8 34 m;
                        if icmp_type = RTE_IP_ICMP_ECHO_REQUEST then
                          do { pkt \<leftarrow> icmp_reply ipv4_cksum srcmac mbuf m;
                               Some ([pkt], True, g) }
                        else Some ([], False, g) }
                 else Some ([], False, g) } }"

text \<open>A burst: the packets with the buffers for their answers. The second result is the number of packets that
  are not freed.\<close>

fun icmp_burst :: "(bytes \<Rightarrow> u16) \<Rightarrow> (bytes \<Rightarrow> u16) \<Rightarrow> bytes \<Rightarrow> (bytes \<times> bytes option) list \<Rightarrow> icmp_globals \<Rightarrow>
    (bytes list \<times> nat \<times> icmp_globals) option" where
  "icmp_burst ipv4_cksum udptcp_cksum srcmac [] g = Some ([], 0, g)"
| "icmp_burst ipv4_cksum udptcp_cksum srcmac ((m, mbuf) # ps) g =
     do { (sent, freed, g) \<leftarrow> icmp_packet ipv4_cksum udptcp_cksum srcmac mbuf m g;
          (more, leaked, g) \<leftarrow> icmp_burst ipv4_cksum udptcp_cksum srcmac ps g;
          Some (sent @ more, leaked + of_bool (\<not> freed), g) }"

section \<open>Echo\<close>

definition echo_request :: "bytes \<Rightarrow> bool" where
  "echo_request m \<longleftrightarrow> 42 \<le> length m \<and> rd16 12 m = Some (htons RTE_ETHER_TYPE_IPV4) \<and> rd8 23 m = Some IPPROTO_ICMP \<and>
     rd8 34 m = Some RTE_IP_ICMP_ECHO_REQUEST"

definition echo_reply :: "bytes \<Rightarrow> bytes \<Rightarrow> bytes \<Rightarrow> bool" where
  "echo_reply srcmac m pkt \<longleftrightarrow> length pkt = 42 \<and> rd 0 6 pkt = rd 6 6 m \<and> rd 6 6 pkt = Some srcmac \<and>
     rd8 23 pkt = Some IPPROTO_ICMP \<and> rd32 26 pkt = rd32 30 m \<and> rd32 30 pkt = rd32 26 m \<and>
     rd8 34 pkt = Some 0 \<and> rd16 38 pkt = rd16 38 m \<and> rd16 40 pkt = rd16 40 m \<and>
     (\<exists>icmp. rd 34 8 pkt = Some icmp \<and> cksum_fold (cksum_words 0 icmp) = 0xFFFF)"

lemma rd_of_take: "off + n \<le> k \<Longrightarrow> k \<le> length m \<Longrightarrow> rd off n (take k m) = rd off n m"
  by (simp add: rd_def drop_take)

lemma rd_fields_of_take:
  assumes "k \<le> length m"
  shows "off + 1 \<le> k \<Longrightarrow> rd8 off (take k m) = rd8 off m" "off + 2 \<le> k \<Longrightarrow> rd16 off (take k m) = rd16 off m"
    "off + 4 \<le> k \<Longrightarrow> rd32 off (take k m) = rd32 off m"
  using assms by (simp_all add: rd8_def rd16_def rd32_def rd_of_take)

lemma rd_some:
  "off + n \<le> length m \<Longrightarrow> \<exists>bs. rd off n m = Some bs \<and> length bs = n" "off + 1 \<le> length m \<Longrightarrow> \<exists>a. rd8 off m = Some a"
  "off + 2 \<le> length m \<Longrightarrow> \<exists>b. rd16 off m = Some b" "off + 4 \<le> length m \<Longrightarrow> \<exists>c. rd32 off m = Some c"
  by (simp_all add: rd_def rd8_def rd16_def rd32_def)

lemma echo_answered:
  assumes m: "echo_request m" and b: "42 \<le> length b" "length srcmac = 6"
  shows "\<exists>pkt. icmp_packet ck uck srcmac (Some b) m g = Some ([pkt], True, g) \<and> echo_reply srcmac m pkt"
proof -
  have l: "42 \<le> length m" using m by (simp add: echo_request_def)
  obtain smac dst src ident seqnb where f: "rd 6 6 m = Some smac" "length smac = 6" "rd32 30 m = Some dst" "rd32 26 m = Some src"
    "rd16 38 m = Some ident" "rd16 40 m = Some seqnb"
    using rd_some(1) [of 6 6 m] rd_some(3) [of 38 m] rd_some(3) [of 40 m] rd_some(4) [of 30 m] rd_some(4) [of 26 m] l
    by auto
  obtain r icmp where r: "ng_encode_icmp_pkt ck srcmac b smac dst src ident seqnb = Some r" "length r = length b"
    "rd 0 6 r = Some smac" "rd 6 6 r = Some srcmac"
    "parse_ip r = Some \<lparr>ip_total_length = htons 28, ip_next_proto = IPPROTO_ICMP, ip_src = dst, ip_dst = src\<rparr>"
    "rd8 34 r = Some 0" "rd16 38 r = Some ident" "rd16 40 r = Some seqnb"
    "rd 34 8 r = Some icmp" "cksum_fold (cksum_words 0 icmp) = 0xFFFF"
    using ng_encode_icmp_pkt_verifies [OF b(1,2) f(2), of ck dst src ident seqnb] by auto
  have ip: "rd8 23 r = Some IPPROTO_ICMP" "rd32 26 r = Some dst" "rd32 30 r = Some src"
    using r(5) by (auto simp: parse_ip_def bind_eq_Some_conv)
  have k: "42 \<le> length r" using r(2) b(1) by simp
  have "echo_reply srcmac m (take 42 r)"
    unfolding echo_reply_def f using k r ip by (simp add: rd_of_take rd_fields_of_take)
  moreover have "icmp_reply ck srcmac (Some b) m = Some (take 42 r)"
    by (simp add: icmp_reply_def f ng_send_icmp_def r(1))
  moreover have "htons RTE_ETHER_TYPE_IPV4 \<noteq> htons RTE_ETHER_TYPE_ARP" "IPPROTO_ICMP \<noteq> IPPROTO_UDP" by code_simp+
  ultimately show ?thesis using m by (simp add: icmp_packet_def echo_request_def)
qed

lemma burst_of_pings:
  assumes "\<forall>(m, mbuf) \<in> set ps. echo_request m \<and> (\<exists>b. mbuf = Some b \<and> 42 \<le> length b)" "length srcmac = 6"
  shows "\<exists>sent. icmp_burst ck uck srcmac ps g = Some (sent, 0, g) \<and> list_all2 (echo_reply srcmac) (map fst ps) sent"
  using assms(1)
proof (induction ps)
  case (Cons p ps)
  obtain m b where p: "p = (m, Some b)" "echo_request m" "42 \<le> length b" using Cons.prems by fastforce
  obtain pkt where "icmp_packet ck uck srcmac (Some b) m g = Some ([pkt], True, g)" "echo_reply srcmac m pkt"
    using echo_answered [OF p(2,3) assms(2)] by blast
  moreover obtain sent where "icmp_burst ck uck srcmac ps g = Some (sent, 0, g)" "list_all2 (echo_reply srcmac) (map fst ps) sent"
    using Cons.IH Cons.prems by auto
  ultimately show ?case by (simp add: p(1))
qed simp

text \<open>ARP requests for another address, and packets of other protocols, are never freed.\<close>

lemma other_packets_leak:
  assumes "rd16 12 m = Some t" "if t = htons RTE_ETHER_TYPE_ARP then rd32 38 m = Some ip \<and> ip \<noteq> gLocalIp else t \<noteq> htons RTE_ETHER_TYPE_IPV4"
  shows "icmp_packet ck uck srcmac mbuf m g = Some ([], False, g)"
  using assms by (cases "t = htons RTE_ETHER_TYPE_ARP") (simp_all add: icmp_packet_def)

lemma encode_arp_reply_ok:
  assumes "42 \<le> length msg" "length srcmac = 6" "length dst_mac = 6"
  shows "\<exists>m. encode_arp_reply srcmac msg dst_mac sip dip = Some m \<and> length m = length msg \<and> rd 0 6 m = Some dst_mac \<and>
    rd16 20 m = Some (htons 2) \<and> rd 22 6 m = Some srcmac \<and> rd32 28 m = Some sip \<and> rd 32 6 m = Some dst_mac \<and> rd32 38 m = Some dip"
  using assms by (simp add: encode_arp_reply_def wr_defs buf_simps)

text \<open>An ARP packet for the host is answered, whether it is a request or not.\<close>

lemma arp_answered:
  assumes "42 \<le> length m" "rd16 12 m = Some (htons RTE_ETHER_TYPE_ARP)" "rd32 38 m = Some gLocalIp" "42 \<le> length b" "length srcmac = 6"
  shows "\<exists>pkt. icmp_packet ck uck srcmac (Some b) m g = Some ([pkt], True, g) \<and> length pkt = 42 \<and> rd 0 6 pkt = rd 22 6 m \<and>
    rd16 20 pkt = Some (htons 2) \<and> rd 22 6 pkt = Some srcmac \<and> rd32 28 pkt = Some gLocalIp \<and> rd 32 6 pkt = rd 22 6 m \<and>
    rd32 38 pkt = rd32 28 m"
proof -
  obtain sha sip where f: "rd 22 6 m = Some sha" "length sha = 6" "rd32 28 m = Some sip"
    using rd_some(1) [of 22 6 m] rd_some(4) [of 28 m] assms(1) by auto
  obtain r where r: "encode_arp_reply srcmac b sha gLocalIp sip = Some r" "length r = length b" "rd 0 6 r = Some sha"
    "rd16 20 r = Some (htons 2)" "rd 22 6 r = Some srcmac" "rd32 28 r = Some gLocalIp" "rd 32 6 r = Some sha" "rd32 38 r = Some sip"
    using encode_arp_reply_ok [OF assms(4,5) f(2), of gLocalIp sip] by blast
  have k: "42 \<le> length r" using r(2) assms(4) by simp
  have "icmp_packet ck uck srcmac (Some b) m g = Some ([take 42 r], True, g)"
    by (simp add: icmp_packet_def assms(2,3) f send_arp_reply_def r(1))
  then show ?thesis using r k f by (simp add: rd_of_take rd_fields_of_take)
qed

section \<open>Datagrams\<close>

text \<open>The encoder is that of the later stages, which reads 8 bytes more than the payload.\<close>

lemma ng_encode_udp_pkt_later:
  assumes "unat total_len = n + 42" "n + 8 \<le> length data"
  shows "ng_encode_udp_pkt ck uck srcmac g msg data total_len =
    ng_encode_udp_apppkt ck uck msg (ig_src_ip g) (ig_dst_ip g) (ig_src_port g) (ig_dst_port g) srcmac (ig_dst_mac g)
      (take n data @ take 8 (drop n data)) total_len"
proof -
  have "unat (total_len - 34) = n + 8"
    using assms(1) by (subst unat_sub) (auto simp: word_le_nat_alt)
  moreover have "take n data @ take 8 (drop n data) = take (n + 8) data" by (simp add: take_add)
  ultimately have "rd 0 (unat (total_len - 34)) data = rd 0 (unat (total_len - 34)) (take n data @ take 8 (drop n data))"
    using assms(2) by (simp add: rd_def)
  moreover have "total_len - 14 - 20 = total_len - 34" by simp
  ultimately show ?thesis by (simp only: ng_encode_udp_pkt_def ng_encode_udp_apppkt_def Let_def)
qed

lemma unat_u16_small: "n < 65536 \<Longrightarrow> unat (of_nat n :: u16) = n"
  by (simp add: unsigned_of_nat take_bit_nat_eq_self)

lemma send_udp_ok:
  assumes "unat len + 8 \<le> length data" "unat len + 50 \<le> length b" "unat len + 50 < 65536" "length srcmac = 6" "length (ig_dst_mac g) = 6"
  shows "\<exists>pkt. ng_send_udp ck uck srcmac g (Some b) data len = Some pkt \<and> length pkt = unat len + 42 \<and>
    rd 0 6 pkt = Some (ig_dst_mac g) \<and> rd32 26 pkt = Some (ig_src_ip g) \<and> rd32 30 pkt = Some (ig_dst_ip g) \<and>
    rd16 34 pkt = Some (ig_src_port g) \<and> rd16 36 pkt = Some (ig_dst_port g) \<and> rd16 38 pkt = Some (htons (len + 8)) \<and>
    rd 42 (unat len) pkt = Some (take (unat len) data)"
proof -
  let ?n = "unat len" and ?pl = "take (unat len) data"
  have t: "unat (of_nat (?n + 42) :: u16) = ?n + 42" using assms(3) by (intro unat_u16_small) simp
  have pl: "length ?pl = ?n" "length (take 8 (drop ?n data)) = 8" using assms(1) by simp_all
  obtain r where r: "ng_encode_udp_apppkt ck uck b (ig_src_ip g) (ig_dst_ip g) (ig_src_port g) (ig_dst_port g) srcmac (ig_dst_mac g)
      (?pl @ take 8 (drop ?n data)) (of_nat (?n + 42)) = Some r" "length r = length b" "rd 0 6 r = Some (ig_dst_mac g)"
    "parse_ip r = Some \<lparr>ip_total_length = htons (of_nat (?n + 42) - 14), ip_next_proto = IPPROTO_UDP, ip_src = ig_src_ip g, ip_dst = ig_dst_ip g\<rparr>"
    "rd16 34 r = Some (ig_src_port g)" "rd16 36 r = Some (ig_dst_port g)" "rd16 38 r = Some (htons (of_nat (?n + 8)))"
    "rd 42 ?n r = Some ?pl"
    using ng_encode_udp_apppkt_ok [of "of_nat (?n + 42)" ?pl b srcmac "ig_dst_mac g" "take 8 (drop ?n data)"] t pl assms(2,4,5) by metis
  have ip: "rd32 26 r = Some (ig_src_ip g)" "rd32 30 r = Some (ig_dst_ip g)"
    using r(4) by (auto simp: parse_ip_def bind_eq_Some_conv)
  have l8: "of_nat (?n + 8) = len + 8" by simp
  have k: "?n + 42 \<le> length r" using r(2) assms(2) by simp
  have "ng_send_udp ck uck srcmac g (Some b) data len = Some (take (?n + 42) r)"
    using r(1) ng_encode_udp_pkt_later [OF t assms(1), of ck uck srcmac g b] t by (simp add: ng_send_udp_def add.commute)
  then show ?thesis
    using r(3,5-8) ip k unfolding l8 by (simp add: rd_of_take rd_fields_of_take)
qed

section \<open>Properties\<close>

text \<open>C40: Every echo request of a burst is answered, in order, with an echo reply to its sender that has its identifier
  and sequence number and a valid checksum, and every request is freed. The reply ends with the ICMP
  header: the data of the request are not sent back.\<close>

theorem pings_answered:
  assumes "\<forall>(m, mbuf) \<in> set ps. echo_request m \<and> (\<exists>b. mbuf = Some b \<and> 42 \<le> length b)" "length srcmac = 6"
  shows "\<exists>sent. icmp_burst ck uck srcmac ps g = Some (sent, 0, g) \<and> list_all2 (echo_reply srcmac) (map fst ps) sent"
  by (rule burst_of_pings [OF assms])

definition ex_ping :: bytes where
  "ex_ping = put 34 [8] (put 23 [IPPROTO_ICMP] (put 12 (le16 (htons RTE_ETHER_TYPE_IPV4)) (replicate 60 1)))"

lemma pings_answered_witness:
  "\<exists>p q. icmp_burst (\<lambda>_. 0) (\<lambda>_. 0) (replicate 6 2) [(ex_ping, Some (replicate 64 0)), (ex_ping, Some (replicate 64 0))]
      \<lparr>ig_src_ip = 0, ig_dst_ip = 0, ig_dst_mac = [], ig_src_port = 0, ig_dst_port = 0\<rparr> =
    Some ([p, q], 0, \<lparr>ig_src_ip = 0, ig_dst_ip = 0, ig_dst_mac = [], ig_src_port = 0, ig_dst_port = 0\<rparr>) \<and>
    echo_reply (replicate 6 2) ex_ping p \<and> rd 0 6 q = Some (replicate 6 1)"
proof -
  let ?g = "\<lparr>ig_src_ip = 0, ig_dst_ip = 0, ig_dst_mac = [], ig_src_port = 0, ig_dst_port = 0\<rparr>"
  let ?ps = "[(ex_ping, Some (replicate 64 0)), (ex_ping, Some (replicate 64 (0 :: u8)))]"
  have "echo_request ex_ping" by (simp add: ex_ping_def echo_request_def buf_simps RTE_IP_ICMP_ECHO_REQUEST_def)
  then have "\<forall>(m, mbuf) \<in> set ?ps. echo_request m \<and> (\<exists>b. mbuf = Some b \<and> 42 \<le> length b)" by simp
  from pings_answered [OF this, of "replicate 6 2" "\<lambda>_. 0" "\<lambda>_. 0" ?g] obtain sent where
    run: "icmp_burst (\<lambda>_. 0) (\<lambda>_. 0) (replicate 6 2) ?ps ?g = Some (sent, 0, ?g)" "list_all2 (echo_reply (replicate 6 2)) (map fst ?ps) sent"
    by auto
  then obtain p q where pq: "sent = [p, q]" "echo_reply (replicate 6 2) ex_ping p" "echo_reply (replicate 6 2) ex_ping q"
    by (auto simp: list_all2_Cons1)
  have "rd 6 6 ex_ping = Some (replicate 6 1)" by (simp add: ex_ping_def buf_simps) (simp add: rd_def)
  then show ?thesis using run(1) pq by (auto simp: echo_reply_def)
qed

text \<open>A datagram that is sent back comes back longer by 8 bytes: its payload is followed by a 0 byte and by
  7 bytes of what lies behind the datagram in the buffer, since the length of the header is counted as payload.\<close>

theorem udp_echo_longer:
  assumes "rd16 12 m = Some (htons RTE_ETHER_TYPE_IPV4)" "rd8 23 m = Some IPPROTO_UDP" "rd16 38 m = Some (htons len)"
    and "8 \<le> unat len" "unat len + 50 \<le> length m" "unat len + 50 \<le> length b" "unat len + 50 < 65536" "length srcmac = 6"
  shows "\<exists>pkt g'. icmp_packet ck uck srcmac (Some b) m g = Some ([pkt], True, g') \<and> length pkt = unat len + 42 \<and>
    rd 0 6 pkt = rd 6 6 m \<and> rd32 26 pkt = rd32 30 m \<and> rd32 30 pkt = rd32 26 m \<and> rd16 34 pkt = rd16 36 m \<and> rd16 36 pkt = rd16 34 m \<and>
    rd16 38 pkt = Some (htons (len + 8)) \<and>
    rd 42 (unat len) pkt = Some (take (unat len - 8) (drop 42 m) @ [0] @ take 7 (drop (unat len + 35) m))"
proof -
  let ?n = "unat len"
  have l: "50 \<le> length m" using assms(5) by simp
  obtain smac dst src dport sport where f: "rd 6 6 m = Some smac" "length smac = 6" "rd32 30 m = Some dst" "rd32 26 m = Some src"
    "rd16 36 m = Some dport" "rd16 34 m = Some sport"
    using rd_some(1) [of 6 6 m] rd_some(3) [of 36 m] rd_some(3) [of 34 m] rd_some(4) [of 30 m] rd_some(4) [of 26 m] l
    by auto
  let ?g = "g\<lparr>ig_dst_mac := smac, ig_src_ip := dst, ig_dst_ip := src, ig_src_port := dport, ig_dst_port := sport\<rparr>"
  let ?m = "put (34 + ?n) [0] m"
  have d: "?n + 8 \<le> length (drop 42 ?m)" using assms(5) by simp
  obtain pkt where pkt: "ng_send_udp ck uck srcmac ?g (Some b) (drop 42 ?m) len = Some pkt" "length pkt = ?n + 42"
    "rd 0 6 pkt = Some smac" "rd32 26 pkt = Some dst" "rd32 30 pkt = Some src" "rd16 34 pkt = Some dport" "rd16 36 pkt = Some sport"
    "rd16 38 pkt = Some (htons (len + 8))" "rd 42 ?n pkt = Some (take ?n (drop 42 ?m))"
    using send_udp_ok [OF d assms(6-8), of ?g ck uck] f(2) by auto
  have w: "wr8 (34 + ?n) 0 m = Some ?m" using assms(5) by (simp add: wr_defs)
  have "udp_echo ck uck srcmac (Some b) m g = Some (pkt, ?g)"
    using pkt(1) w by (simp add: udp_echo_def f assms(3) Let_def)
  moreover have "htons RTE_ETHER_TYPE_IPV4 \<noteq> htons RTE_ETHER_TYPE_ARP" by code_simp
  ultimately have "icmp_packet ck uck srcmac (Some b) m g = Some ([pkt], True, ?g)"
    using assms(1,2) by (simp add: icmp_packet_def)
  moreover have "take ?n (drop 42 ?m) = take (?n - 8) (drop 42 m) @ [0] @ take 7 (drop (?n + 35) m)"
  proof (rule nth_equalityI)
    fix i assume "i < length (take ?n (drop 42 ?m))"
    then have i: "i < ?n" by simp
    consider "i < ?n - 8" | "i = ?n - 8" | k where "i = ?n - 7 + k" "k < 7"
    proof -
      have "i = ?n - 7 + (i - (?n - 7)) \<and> i - (?n - 7) < 7" if "\<not> i < ?n - 8" "i \<noteq> ?n - 8" using that i assms(4) by linarith
      then show thesis using that by blast
    qed
    then show "take ?n (drop 42 ?m) ! i = (take (?n - 8) (drop 42 m) @ [0] @ take 7 (drop (?n + 35) m)) ! i"
      using assms(4,5) i by cases (auto simp: nth_put nth_append intro!: arg_cong [where f = "nth m"])
  qed (use assms(4,5) in simp)
  ultimately show ?thesis using pkt f by (intro exI [of _ pkt] exI [of _ ?g]) simp
qed

definition ex_udp_request :: bytes where
  "ex_udp_request = put 38 (le16 (htons 10)) (put 23 [IPPROTO_UDP] (put 12 (le16 (htons RTE_ETHER_TYPE_IPV4)) (replicate 42 1 @ [72, 105] @ replicate 20 9)))"

lemma udp_echo_longer_witness:
  "\<exists>pkt g'. icmp_packet (\<lambda>_. 0) (\<lambda>_. 0) (replicate 6 2) (Some (replicate 100 0)) ex_udp_request
      \<lparr>ig_src_ip = 0, ig_dst_ip = 0, ig_dst_mac = [], ig_src_port = 0, ig_dst_port = 0\<rparr> = Some ([pkt], True, g') \<and>
    rd 42 10 pkt = Some [72, 105, 0, 9, 9, 9, 9, 9, 9, 9]"
proof -
  have e: "rd16 12 ex_udp_request = Some (htons RTE_ETHER_TYPE_IPV4)" "rd8 23 ex_udp_request = Some IPPROTO_UDP" "rd16 38 ex_udp_request = Some (htons 10)"
    "length ex_udp_request = 64"
    by (simp_all add: ex_udp_request_def buf_simps)
  have p: "take 2 (drop 42 ex_udp_request) = [72, 105]" "take 7 (drop 45 ex_udp_request) = [9, 9, 9, 9, 9, 9, 9]"
    unfolding ex_udp_request_def by (rule nth_equalityI; auto simp: nth_put nth_append nth_Cons' less_Suc_eq numeral_nat)+
  show ?thesis
    using udp_echo_longer [OF e(1-3), of "replicate 100 0" "replicate 6 2" "\<lambda>_. 0" "\<lambda>_. 0"
        "\<lparr>ig_src_ip = 0, ig_dst_ip = 0, ig_dst_mac = [], ig_src_port = 0, ig_dst_port = 0\<rparr>"] e(4) p
    by auto
qed

end
