(* ===== verification/Spec2Isabelle.thy ===== *)
theory Spec2Isabelle
  imports RB_Set Linked_List Fd_Bitmap Tcp_Correct Socket_Correct Delivery Udp_Correct Stack Dns_Server Vhost_Correct Virtio_Packets Io_Round Rcu Load_Balance Servers Kni Dns_Loop Vhost_Life Icmp
begin

text \<open>
  A verification development for the programs of this repository: the user-space TCP/IP stack on
  DPDK in \<^verbatim>\<open>dpdk-code/14_tcp_concurrency\<close>, the DNS server of \<^verbatim>\<open>dpdk-code/dns\<close>, the
  virtio/vhost-user programs of \<^verbatim>\<open>vring_test\<close> and \<^verbatim>\<open>virtio-vhost\<close>, the load balancer plugin of
  \<^verbatim>\<open>dpdk-code/flowtable_plugin\<close> and the RCU example \<^verbatim>\<open>dpdk-code/rcu.c\<close>. File names are relative to \<^verbatim>\<open>src/\<close>; TC is
  \<^verbatim>\<open>dpdk-code/14_tcp_concurrency/tcp_concurrency.c\<close>.

  \<^bold>\<open>The programs.\<close>

  The stack is a process with an I/O thread (the loop of \<open>main\<close>), a packet thread (\<open>pkt_process\<close>) and
  application threads. The I/O thread moves bursts between the port and two rings and looks for
  floods in what it receives (\<open>ddos_detect\<close>). The packet thread takes bursts of frames from a ring, learns addresses into the ARP table, hands UDP to
  \<open>udp_process\<close> and TCP to \<open>ng_tcp_process\<close>, gives the rest to the kernel interface, and at the
  end of a round lets every UDP socket and every TCP control block write one packet
  (\<open>udp_out\<close>, \<open>ng_tcp_out\<close>). The applications call \<open>nsocket\<close> to \<open>nclose\<close> and \<open>nepoll_create\<close>,
  \<open>nepoll_ctl\<close>, \<open>nepoll_wait\<close>. The two sides meet in the send and receive rings of a socket, in
  the linked list of control blocks, in the descriptor bitmap, and in the epoll object, whose
  items are kept in a red-black tree (\<^verbatim>\<open>nty_tree.h\<close>) and in a list of ready ones. Two echo servers
  (\<open>udp_server_entry\<close>, \<open>tcp_server_entry\<close>) are its sample applications.

  The DNS server reads a UDP datagram, decodes the question with the functions of \<^verbatim>\<open>dns.c\<close>,
  looks up the static records, encodes the reply and sends it back.

  The client of \<^verbatim>\<open>vring_test\<close> puts packets into a virtio ring in shared memory, and tells the server
  over a UNIX socket (vhost-user messages) where the memory and the rings are; the server
  translates the addresses, consumes the packets and answers through the ring of the other
  direction. \<^verbatim>\<open>virtio-vhost/vhost.c\<close> is a backend for a virtual machine: it answers the same messages,
  and moves packets between the rings of the guest and a TAP device.

  The plugin adds two nodes to the packet graph of VPP, and commands that redirect interfaces to
  them; the load balancer node distributes packets over target interfaces. The RCU example has
  readers of a shared pair of numbers and an updater that replaces it and frees the old one after
  a grace period.

  \<^bold>\<open>The theories.\<close>

  \<^item> Prelude: the conventions (\<open>addr\<close>, \<open>NULL\<close>, \<open>None\<close> for a crash) and shared automation.
  \<^item> RB_Tree: the \<open>RB_*\<close> macros of \<^verbatim>\<open>nty_tree.h\<close> as programs on a heap of cells with left, right and
    parent pointers; pointer loops are \<open>partial_function (option)\<close>. RB_Rep: the trees that a heap
    represents. RB_Insert, RB_Search, RB_Remove: total correctness of the operations (no \<open>NULL\<close>
    dereference, ends, keeps order, colours and black heights). RB_Set: the locale \<open>ordered_set\<close>,
    its interpretation on the macros, runs of operations and in-order iteration.
  \<^item> Linked_List: \<open>LL_ADD\<close> and \<open>LL_REMOVE\<close> of TC on a heap of links; the locale \<open>linked_seq\<close>.
  \<^item> Fd_Bitmap: \<open>get_fd_frombitmap\<close> and \<open>set_fd_frombitmap\<close>; the locale \<open>id_allocator\<close>.
  \<^item> Epoll: the epoll object with its tree and ready list. Epoll_Correct: the invariant, the
    abstraction to a map of registrations with a list of ready descriptors, refinement of
    \<open>nepoll_ctl\<close> (with the two cases in which it leaves the invariant) and of the event callback, and what
    \<open>nepoll_wait\<close> reports.
  \<^item> Packet: buffers, byte order, headers, checksums and the encoders \<open>ng_encode_*\<close> of TC, and the ICMP
    encoder of \<^verbatim>\<open>04_icmp/icmp.c\<close>. Packet_Correct: what they write, read back by the receive path.
    Icmp: the host of that program: its answers to ARP, echo requests and datagrams.
  \<^item> Arp: the ARP table, \<open>ng_send_arp\<close> and the periodic scan of \<open>arp_request_timer_cb\<close>.
  \<^item> Ring: \<open>rte_ring\<close> is not in the repository: its two operations on one element are arguments of
    the model, with first-in first-out behaviour as a named hypothesis (\<open>ring_fifo\<close>), which a
    bounded list satisfies.
  \<^item> Tcp: control blocks, demultiplexing, the handlers of each TCP state, \<open>ng_tcp_process\<close> and the output
    loop. Tcp_Correct: the state machine (the relation \<open>tcp_trans\<close>), delivery, handshake, close.
  \<^item> Socket_Api: \<open>nsocket\<close>, \<open>nbind\<close>, \<open>nlisten\<close>, \<open>naccept\<close>, \<open>nsend\<close>, \<open>nrecv\<close>, \<open>nsendto\<close>, \<open>nrecvfrom\<close>, \<open>nclose\<close>
    and epoll by descriptor. Socket_Correct: what each of them does. Delivery: bytes from \<open>nsend\<close> on
    one host to \<open>nrecv\<close> on the other.
  \<^item> Udp, Udp_Correct: \<open>udp_process\<close>, \<open>udp_out\<close>, and a datagram from \<open>nsendto\<close> to \<open>nrecvfrom\<close>.
  \<^item> Stack: one round of \<open>pkt_process\<close> over the composed state; the invariant of the tables, and what a burst
    of UDP and TCP packets does to each part of the state and to its buffers.
  \<^item> Dns: encoder, decoder and resolver of \<^verbatim>\<open>dns/dns.c\<close>. Dns_Correct: the wire format as a function from
    messages to bytes, round trip, the type of decoded names, the size of messages. Dns_Server: the
    packet path of \<^verbatim>\<open>dns/dpdk_kni.c\<close>. Dns_Loop: its rounds, their answers and their buffers. Kni: the
    set-up of the port and the callbacks of the kernel interface, of both programs.
  \<^item> Vring, Vring_Correct: \<^verbatim>\<open>vring_test/vring.c\<close>, both sides of the ring, as a free list and a queue.
  \<^item> Fd_List: \<^verbatim>\<open>vring_test/fd_list.c\<close>, refined to a multiset of watched descriptors.
  \<^item> Vhost_Server, Vhost_Client, Vhost_Correct: \<^verbatim>\<open>vhost_server.c\<close>, \<^verbatim>\<open>server.c\<close>, \<^verbatim>\<open>vhost_client.c\<close>,
    \<^verbatim>\<open>client.c\<close>; the handshake and a packet through the connection. Vhost_Life: how the two programs
    get and give back sockets, shared memory and event descriptors, the invariant of the server's loop, and
    \<^verbatim>\<open>stat.c\<close>.
  \<^item> Address_Map: the locale \<open>address_map\<close>, tables of regions that translate addresses; it is interpreted on
    the translations of \<^verbatim>\<open>virtio-vhost/vhost.c\<close>. Virtio_Backend: that program. Virtio_Correct: its
    memory table, also for regions that touch, and the translation in every run of messages and rounds. Virtio_Packets: a packet from the ring of one guest
    to the ring of another, and the wrap of the indices.
  \<^item> Ddos: \<open>count_bit\<close>, \<open>ddos_entropy\<close>, \<open>ddos_detect\<close> of TC. Popcount: the parallel bit count is exact.
    Ddos_Correct: the detection on its arrays refines a comparison over the last 256 packets; what
    is reported, and what blinds it. Io_Round: a round of the I/O thread, as an account of buffers.
  \<^item> Servers: the start of the echo servers and one turn of their loops, on the socket API.
  \<^item> Load_Balance: the nodes and commands of \<^verbatim>\<open>flowtable_plugin\<close>; round robin and fairness.
  \<^item> Rcu: the updater and the readers of \<^verbatim>\<open>rcu.c\<close> as an interleaving of their accesses; safety and
    progress.

  \<^bold>\<open>How the code is rendered.\<close> A struct is a record, an enum a datatype, an integer a word of its
  width. A function that can crash (invalid pointer, index outside of an array, failed assertion,
  division by zero), exit the process or run forever returns an option; error returns are ordinary
  values. The packet buffer of the vhost-user server is an exception: the largest copy into it is kept in the state
  (\<open>vs_high\<close>), and that it fits is proved. Where aliasing matters (tree, linked lists, epoll items, shared memory of the rings)
  there is a heap; elsewhere tables are lists in the order of the linked list. Locks are taken and
  released within an operation, so operations are atomic; what other threads do while an operation
  waits is an argument of the model. Whatever DPDK and the operating system supply (rings, memory
  allocation, checksums, \<open>mmap\<close>, system call results) is an argument.

  \<^bold>\<open>Loops and bounds.\<close> No fuel is used. Loops over pointers and over device-controlled indices are
  \<open>partial_function (option)\<close>, and the theorems prove that they return; \<open>avail_loop\<close> is a \<open>function\<close>
  with the 16-bit distance to the end as its measure; the others are structural. The walk over
  the used ring (\<open>process_used_vring\<close>) returns only when the device's index is below the size of the
  ring, which is proved as an equivalence.

  \<^bold>\<open>Not modelled.\<close> The splay macros of \<^verbatim>\<open>nty_tree.h\<close> are never expanded. The programs 01 to 12 are
  earlier stages of TC, of which only 04 is modelled by itself, and \<^verbatim>\<open>dpdk-code/dns.c\<close> and the two other versions of \<^verbatim>\<open>dpdk_kni.c\<close> earlier
  stages of the DNS server; the functions they share are modelled in the last stage. The
  allocation of pools, rings and kernel interfaces, thread creation and logging are calls into
  DPDK. The options, signals and dumps of \<^verbatim>\<open>vring_test\<close> are input and output, as are the
  TAP and console parts of \<^verbatim>\<open>virtio-vhost\<close>. The plugin \<^verbatim>\<open>bridgeloadbalancer_plugin\<close> repeats the node of
  \<^verbatim>\<open>flowtable_plugin\<close>, and \<^verbatim>\<open>vpp_plugin\<close> prints packets. \<^verbatim>\<open>13_hash\<close>, \<^verbatim>\<open>spdk\<close>, \<^verbatim>\<open>spdk_server\<close>,
  \<^verbatim>\<open>vppcom_app\<close>, \<^verbatim>\<open>uio_driver.c\<close>, \<^verbatim>\<open>vifreq.c\<close> and \<^verbatim>\<open>bpf\<close> call libraries or the kernel and keep no logic of
  their own.
\<close>

end
